(* ===== verification/Nvrm_Prelude.thy ===== *)
theory Nvrm_Prelude
  imports Main "HOL-Library.Word" "HOL-Library.AList"
begin

text \<open>
  Shared vocabulary of the development: the integer types of the Rust sources at
  their width, the checked and saturating arithmetic the sources call, byte
  slices with the little-endian accessors of \<^verbatim>\<open>u32::from_le_bytes\<close> and
  \<^verbatim>\<open>copy_from_slice\<close>, association lists standing for the standard library's
  maps, and the generic lemmas about them that the components share.

  Lengths and offsets of type \<^verbatim>\<open>usize\<close> are natural numbers.  A
  \<^verbatim>\<open>Result<T, E>\<close> is a sum whose left summand is the error.
\<close>

type_synonym u8 = "8 word"
type_synonym u16 = "16 word"
type_synonym u32 = "32 word"
type_synonym u64 = "64 word"
type_synonym i32 = "32 word"
type_synonym bytes = "u8 list"

named_theorems checked_simps \<open>characterisations of the checked operations through unat\<close>
named_theorems slice_simps \<open>reading back what a slice write left\<close>
named_theorems le_simps \<open>little-endian encodings\<close>
named_theorems kv_simps \<open>sums over association lists\<close>

section \<open>Checked and saturating arithmetic\<close>

definition checked_add :: "'a::len word \<Rightarrow> 'a word \<Rightarrow> 'a word option" where
  "checked_add a b = (if uint a + uint b < 2 ^ LENGTH('a) then Some (a + b) else None)"

definition checked_sub :: "'a::len word \<Rightarrow> 'a word \<Rightarrow> 'a word option" where
  "checked_sub a b = (if b \<le> a then Some (a - b) else None)"

definition checked_mul :: "'a::len word \<Rightarrow> 'a word \<Rightarrow> 'a word option" where
  "checked_mul a b = (if uint a * uint b < 2 ^ LENGTH('a) then Some (a * b) else None)"

definition saturating_sub :: "'a::len word \<Rightarrow> 'a word \<Rightarrow> 'a word" where
  "saturating_sub a b = (if b \<le> a then a - b else 0)"

definition saturating_add :: "'a::len word \<Rightarrow> 'a word \<Rightarrow> 'a word" where
  "saturating_add a b = (case checked_add a b of Some c \<Rightarrow> c | None \<Rightarrow> - 1)"

lemma uint_add_lt_iff:
  fixes a b :: "'a::len word"
  shows "uint a + uint b < 2 ^ LENGTH('a) \<longleftrightarrow> unat a + unat b < 2 ^ LENGTH('a)"
proof -
  have "uint a + uint b = int (unat a + unat b)" by simp
  moreover have "(2::int) ^ LENGTH('a) = int (2 ^ LENGTH('a))" by simp
  ultimately show ?thesis by (simp only: of_nat_less_iff)
qed

lemma uint_mul_lt_iff:
  fixes a b :: "'a::len word"
  shows "uint a * uint b < 2 ^ LENGTH('a) \<longleftrightarrow> unat a * unat b < 2 ^ LENGTH('a)"
proof -
  have "uint a * uint b = int (unat a * unat b)" by simp
  moreover have "(2::int) ^ LENGTH('a) = int (2 ^ LENGTH('a))" by simp
  ultimately show ?thesis by (simp only: of_nat_less_iff)
qed

lemma unat_lt_u64: "unat (w :: u64) < 2 ^ 64"
  by (rule order_less_le_trans [OF unsigned_less]) simp

lemma unat_lt_u32: "unat (w :: u32) < 2 ^ 32"
  by (rule order_less_le_trans [OF unsigned_less]) simp

lemma unat_add_bounded:
  fixes a b :: "'a::len word"
  assumes "unat a + unat b < 2 ^ LENGTH('a)"
  shows "unat (a + b) = unat a + unat b"
  using assms by (simp add: unat_word_ariths)

lemma checked_add_Some [checked_simps]:
  fixes a b c :: "'a::len word"
  shows "checked_add a b = Some c \<longleftrightarrow>
    unat a + unat b < 2 ^ LENGTH('a) \<and> unat c = unat a + unat b"
proof -
  have "unat a + unat b < 2 ^ LENGTH('a) \<Longrightarrow> (a + b = c \<longleftrightarrow> unat c = unat a + unat b)"
    by (metis unat_add_bounded word_unat_eq_iff)
  then show ?thesis by (auto simp: checked_add_def uint_add_lt_iff)
qed

lemma checked_add_None [checked_simps]:
  fixes a b :: "'a::len word"
  shows "checked_add a b = None \<longleftrightarrow> 2 ^ LENGTH('a) \<le> unat a + unat b"
  by (simp add: checked_add_def uint_add_lt_iff not_less)

lemma checked_sub_Some [checked_simps]:
  fixes a b c :: "'a::len word"
  shows "checked_sub a b = Some c \<longleftrightarrow> unat b \<le> unat a \<and> unat c = unat a - unat b"
proof -
  have "unat b \<le> unat a \<Longrightarrow> (a - b = c \<longleftrightarrow> unat c = unat a - unat b)"
    by (metis unat_sub word_le_nat_alt word_unat_eq_iff)
  then show ?thesis by (auto simp: checked_sub_def word_le_nat_alt)
qed

lemma checked_sub_None [checked_simps]:
  "checked_sub a b = None \<longleftrightarrow> unat a < unat b"
  by (auto simp: checked_sub_def word_le_nat_alt)

lemma checked_mul_Some [checked_simps]:
  fixes a b c :: "'a::len word"
  shows "checked_mul a b = Some c \<longleftrightarrow>
    unat a * unat b < 2 ^ LENGTH('a) \<and> unat c = unat a * unat b"
proof -
  have "unat a * unat b < 2 ^ LENGTH('a) \<Longrightarrow> unat (a * b) = unat a * unat b"
    by (simp add: unat_word_ariths)
  then have "unat a * unat b < 2 ^ LENGTH('a) \<Longrightarrow> (a * b = c \<longleftrightarrow> unat c = unat a * unat b)"
    by (metis word_unat_eq_iff)
  then show ?thesis by (auto simp: checked_mul_def uint_mul_lt_iff)
qed

lemma unat_saturating_sub [checked_simps]:
  "unat (saturating_sub a b) = unat a - unat b"
  by (auto simp: saturating_sub_def word_le_nat_alt unat_sub)


lemma unat_saturating_add [checked_simps]:
  fixes a b :: "'a::len word"
  shows "unat (saturating_add a b) = min (unat a + unat b) (2 ^ LENGTH('a) - 1)"
proof (cases "checked_add a b")
  case None
  then have "2 ^ LENGTH('a) \<le> unat a + unat b" by (simp add: checked_simps)
  with None show ?thesis
    by (simp add: saturating_add_def unsigned_minus_1_eq_mask mask_eq_exp_minus_1)
next
  case (Some c)
  then have "unat a + unat b < 2 ^ LENGTH('a)" "unat c = unat a + unat b"
    by (simp_all only: checked_add_Some)
  moreover have "saturating_add a b = c" using Some by (simp only: saturating_add_def option.case)
  ultimately show ?thesis by simp
qed

text \<open>\<^verbatim>\<open>div_ceil\<close> of unsigned integers, through natural numbers.\<close>

definition cdiv :: "nat \<Rightarrow> nat \<Rightarrow> nat" where
  "cdiv a b = (if a mod b = 0 then a div b else a div b + 1)"

lemma cdiv_le_iff: "0 < b \<Longrightarrow> cdiv a b \<le> c \<longleftrightarrow> a \<le> c * b"
proof -
  assume b: "0 < b"
  have a: "a = a div b * b + a mod b" by simp
  show ?thesis
  proof (cases "a mod b = 0")
    case True
    then have "a = a div b * b" using a by simp
    then show ?thesis using b True by (metis cdiv_def mult_le_cancel2)
  next
    case False
    have "a div b < c \<longleftrightarrow> a < c * b" using b by (simp add: div_less_iff_less_mult)
    moreover have "a \<noteq> c * b" using False by auto
    ultimately show ?thesis using False by (auto simp: cdiv_def)
  qed
qed

lemma cdiv_upper: "0 < b \<Longrightarrow> a \<le> cdiv a b * b"
  using cdiv_le_iff [of b a "cdiv a b"] by simp

lemma cdiv_lower: "0 < b \<Longrightarrow> cdiv a b * b < a + b"
proof -
  assume b: "0 < b"
  have a: "a = a div b * b + a mod b" by simp
  show ?thesis
  proof (cases "a mod b = 0")
    case False
    then have "cdiv a b * b = a div b * b + b" by (simp add: cdiv_def)
    moreover have "0 < a mod b" using False by simp
    ultimately show ?thesis using a by linarith
  qed (use a b in \<open>simp add: cdiv_def\<close>)
qed

section \<open>Byte slices\<close>

text \<open>
  \<^verbatim>\<open>subslice o n xs\<close> is Rust's \<^verbatim>\<open>&xs[o..o + n]\<close> and \<^verbatim>\<open>write_at xs o ys\<close> is
  \<^verbatim>\<open>xs[o..o + ys.len()].copy_from_slice(ys)\<close>; both panic out of range in the
  source, so every use below stands behind the bound the source tests.
\<close>

definition subslice :: "nat \<Rightarrow> nat \<Rightarrow> 'a list \<Rightarrow> 'a list" where
  "subslice off n xs = take n (drop off xs)"

definition write_at :: "'a list \<Rightarrow> nat \<Rightarrow> 'a list \<Rightarrow> 'a list" where
  "write_at xs off ys = take off xs @ ys @ drop (off + length ys) xs"

lemma length_slice [simp]: "length (subslice off n xs) = min n (length xs - off)"
  by (simp add: subslice_def min.commute)

lemma length_write_at [simp]:
  "off + length ys \<le> length xs \<Longrightarrow> length (write_at xs off ys) = length xs"
  by (simp add: write_at_def)

lemma slice_write_at_same [slice_simps]:
  "off + length ys \<le> length xs \<Longrightarrow> n = length ys \<Longrightarrow> subslice off n (write_at xs off ys) = ys"
  by (simp add: subslice_def write_at_def)

lemma nth_write_at:
  "off + length ys \<le> length xs \<Longrightarrow> i < length xs \<Longrightarrow>
    write_at xs off ys ! i = (if off \<le> i \<and> i < off + length ys then ys ! (i - off) else xs ! i)"
  by (auto simp: write_at_def nth_append)

lemma nth_slice: "i < n \<Longrightarrow> off + i < length xs \<Longrightarrow> subslice off n xs ! i = xs ! (off + i)"
  by (simp add: subslice_def)

lemma slice_write_at_before [slice_simps]:
  "off + length ys \<le> length xs \<Longrightarrow> o2 + n \<le> off \<Longrightarrow> subslice o2 n (write_at xs off ys) = subslice o2 n xs"
  by (rule nth_equalityI) (auto simp: nth_slice nth_write_at)

lemma slice_write_at_after [slice_simps]:
  "off + length ys \<le> length xs \<Longrightarrow> off + length ys \<le> o2 \<Longrightarrow>
    subslice o2 n (write_at xs off ys) = subslice o2 n xs"
  by (rule nth_equalityI) (auto simp: nth_slice nth_write_at)

lemma slice_append_left: "off + n \<le> length xs \<Longrightarrow> subslice off n (xs @ ys) = subslice off n xs"
  by (simp add: subslice_def)

lemma slice_append_right:
  "length xs \<le> off \<Longrightarrow> subslice off n (xs @ ys) = subslice (off - length xs) n ys"
  by (simp add: subslice_def)

lemma slice_join [slice_simps]:
  "o2 = off + n \<Longrightarrow> subslice off n xs @ subslice o2 m xs = subslice off (n + m) xs"
  by (simp add: subslice_def take_add) (simp add: add.commute)

lemma slice_join_append [slice_simps]:
  "o2 = off + n \<Longrightarrow> subslice off n xs @ subslice o2 m xs @ r = subslice off (n + m) xs @ r"
  by (simp add: subslice_def take_add) (simp add: add.commute)

lemma slice_0_take: "subslice 0 n xs = take n xs"
  by (simp add: subslice_def)

lemma slice_0_all [simp]: "subslice 0 (length xs) xs = xs"
  by (simp add: subslice_def)

section \<open>Little-endian integers\<close>

text \<open>
  One recursive codec serves every width: \<^verbatim>\<open>x.to_le_bytes()\<close> of an
  \<^verbatim>\<open>n\<close>-byte integer is \<^verbatim>\<open>le_enc n (uint x)\<close>.
\<close>

fun le_enc :: "nat \<Rightarrow> int \<Rightarrow> bytes" where
  "le_enc 0 v = []"
| "le_enc (Suc n) v = word_of_int v # le_enc n (v div 256)"

fun le_dec :: "bytes \<Rightarrow> int" where
  "le_dec [] = 0"
| "le_dec (b # bs) = uint b + 256 * le_dec bs"

definition u32_to_le :: "u32 \<Rightarrow> bytes" where
  "u32_to_le w = le_enc 4 (uint w)"

definition u64_to_le :: "u64 \<Rightarrow> bytes" where
  "u64_to_le w = le_enc 8 (uint w)"

definition u32_of_le :: "bytes \<Rightarrow> u32" where
  "u32_of_le bs = word_of_int (le_dec bs)"

definition u64_of_le :: "bytes \<Rightarrow> u64" where
  "u64_of_le bs = word_of_int (le_dec bs)"

lemma length_le_enc [simp]: "length (le_enc n v) = n"
  by (induction n arbitrary: v) auto

lemma le_dec_enc [le_simps]: "le_dec (le_enc n v) = v mod 256 ^ n"
proof (induction n arbitrary: v)
  case (Suc n)
  have "v mod 256 + 256 * (v div 256 mod 256 ^ n) = v mod (256 * 256 ^ n)"
    by (simp add: mod_mult2_eq' zmod_zmult2_eq)
  with Suc show ?case by (simp add: uint_word_of_int)
qed simp

lemma le_dec_nonneg [simp]: "0 \<le> le_dec bs"
  by (induction bs) auto

lemma le_dec_less: "le_dec bs < 256 ^ length bs"
proof (induction bs)
  case (Cons b bs)
  have "uint b < 256" using uint_lt2p [of b] by simp
  with Cons show ?case by simp
qed simp

lemma le_enc_dec [le_simps]: "n = length bs \<Longrightarrow> le_enc n (le_dec bs) = bs"
proof (induction bs arbitrary: n)
  case (Cons b bs)
  have b: "0 \<le> uint b" "uint b < 256" using uint_lt2p [of b] by auto
  have "(uint b + 256 * le_dec bs) div 256 = le_dec bs" using b by simp
  moreover have "word_of_int (uint b + 256 * le_dec bs) = b"
  proof (rule word_uint_eqI)
    have "uint (word_of_int (uint b + 256 * le_dec bs) :: u8) = (uint b + 256 * le_dec bs) mod 256"
      by (simp only: uint_word_of_int) simp
    then show "uint (word_of_int (uint b + 256 * le_dec bs) :: u8) = uint b"
      using b by (simp only: mod_mult_self2 mod_pos_pos_trivial)
  qed
  ultimately show ?case using Cons by simp
qed simp

lemma length_u32_to_le [simp]: "length (u32_to_le w) = 4"
  by (simp add: u32_to_le_def)

lemma length_u64_to_le [simp]: "length (u64_to_le w) = 8"
  by (simp add: u64_to_le_def)

lemma u32_of_to_le [simp]: "u32_of_le (u32_to_le w) = w"
proof -
  have "uint w < 2 ^ 32" using uint_lt2p [of w] by simp
  then show ?thesis by (simp add: u32_of_le_def u32_to_le_def le_simps)
qed

lemma u64_of_to_le [simp]: "u64_of_le (u64_to_le w) = w"
proof -
  have "uint w < 2 ^ 64" using uint_lt2p [of w] by simp
  then show ?thesis by (simp add: u64_of_le_def u64_to_le_def le_simps)
qed

lemma u32_to_of_le [le_simps]: "length bs = 4 \<Longrightarrow> u32_to_le (u32_of_le bs) = bs"
  using le_dec_less [of bs]
  by (simp add: u32_of_le_def u32_to_le_def uint_word_of_int le_enc_dec)

lemma u64_to_of_le [le_simps]: "length bs = 8 \<Longrightarrow> u64_to_le (u64_of_le bs) = bs"
  using le_dec_less [of bs]
  by (simp add: u64_of_le_def u64_to_le_def uint_word_of_int le_enc_dec)


text \<open>Readers and writers of one integer field at a byte offset.\<close>

definition rd32 :: "bytes \<Rightarrow> nat \<Rightarrow> u32" where
  "rd32 bs off = u32_of_le (subslice off 4 bs)"

definition rd64 :: "bytes \<Rightarrow> nat \<Rightarrow> u64" where
  "rd64 bs off = u64_of_le (subslice off 8 bs)"

definition wr32 :: "bytes \<Rightarrow> nat \<Rightarrow> u32 \<Rightarrow> bytes" where
  "wr32 bs off w = write_at bs off (u32_to_le w)"

definition wr64 :: "bytes \<Rightarrow> nat \<Rightarrow> u64 \<Rightarrow> bytes" where
  "wr64 bs off w = write_at bs off (u64_to_le w)"

lemma length_wr [simp]:
  "off + 4 \<le> length bs \<Longrightarrow> length (wr32 bs off w) = length bs"
  "off + 8 \<le> length bs \<Longrightarrow> length (wr64 bs off x) = length bs"
  by (simp_all add: wr32_def wr64_def)

lemma rd32_wr32 [slice_simps]:
  "off + 4 \<le> length bs \<Longrightarrow> rd32 (wr32 bs off w) off = w"
  "off + 4 \<le> length bs \<Longrightarrow> o2 + 4 \<le> off \<or> off + 4 \<le> o2 \<Longrightarrow> rd32 (wr32 bs off w) o2 = rd32 bs o2"
  by (auto simp: rd32_def wr32_def slice_simps)

lemma rd64_wr64 [slice_simps]:
  "off + 8 \<le> length bs \<Longrightarrow> rd64 (wr64 bs off w) off = w"
  "off + 8 \<le> length bs \<Longrightarrow> o2 + 8 \<le> off \<or> off + 8 \<le> o2 \<Longrightarrow> rd64 (wr64 bs off w) o2 = rd64 bs o2"
  by (auto simp: rd64_def wr64_def slice_simps)

lemma rd64_wr32 [slice_simps]:
  "off + 4 \<le> length bs \<Longrightarrow> o2 + 8 \<le> off \<or> off + 4 \<le> o2 \<Longrightarrow> rd64 (wr32 bs off w) o2 = rd64 bs o2"
  by (auto simp: rd64_def wr32_def slice_simps)

lemma rd32_wr64 [slice_simps]:
  "off + 8 \<le> length bs \<Longrightarrow> o2 + 4 \<le> off \<or> off + 8 \<le> o2 \<Longrightarrow> rd32 (wr64 bs off w) o2 = rd32 bs o2"
  by (auto simp: rd32_def wr64_def slice_simps)

lemma rd32_cong:
  "length a = length b \<Longrightarrow> (\<And>k. off \<le> k \<Longrightarrow> k < off + 4 \<Longrightarrow> k < length a \<Longrightarrow> a ! k = b ! k) \<Longrightarrow>
    rd32 a off = rd32 b off"
  unfolding rd32_def by (rule arg_cong [of _ _ u32_of_le], rule nth_equalityI) (auto simp: nth_slice)

lemma rd64_cong:
  "length a = length b \<Longrightarrow> (\<And>k. off \<le> k \<Longrightarrow> k < off + 8 \<Longrightarrow> k < length a \<Longrightarrow> a ! k = b ! k) \<Longrightarrow>
    rd64 a off = rd64 b off"
  unfolding rd64_def by (rule arg_cong [of _ _ u64_of_le], rule nth_equalityI) (auto simp: nth_slice)

lemma nth_wr32:
  "off + 4 \<le> length a \<Longrightarrow> k < length a \<Longrightarrow> k < off \<or> off + 4 \<le> k \<Longrightarrow> wr32 a off w ! k = a ! k"
  by (auto simp: wr32_def nth_write_at)

lemma nth_wr64:
  "off + 8 \<le> length a \<Longrightarrow> k < length a \<Longrightarrow> k < off \<or> off + 8 \<le> k \<Longrightarrow> wr64 a off w ! k = a ! k"
  by (auto simp: wr64_def nth_write_at)

text \<open>
  A loop over entries that each rewrite their own region of a buffer: every region ends up
  as its own iteration would leave it, and everything else is untouched.
\<close>

lemma fold_regions:
  fixes g :: "nat \<Rightarrow> 'a list \<Rightarrow> 'a list"
  assumes len: "\<And>i a. i < n \<Longrightarrow> length a = L \<Longrightarrow> length (g i a) = L"
    and outside: "\<And>i a k. i < n \<Longrightarrow> length a = L \<Longrightarrow> k < L \<Longrightarrow> k < lo i \<or> hi i \<le> k \<Longrightarrow> g i a ! k = a ! k"
    and inside: "\<And>i a b k. i < n \<Longrightarrow> length a = L \<Longrightarrow> length b = L \<Longrightarrow>
      (\<And>k. lo i \<le> k \<Longrightarrow> k < hi i \<Longrightarrow> k < L \<Longrightarrow> a ! k = b ! k) \<Longrightarrow> lo i \<le> k \<Longrightarrow> k < hi i \<Longrightarrow> k < L \<Longrightarrow>
      g i a ! k = g i b ! k"
    and disj: "\<And>i j. i < j \<Longrightarrow> j < n \<Longrightarrow> hi i \<le> lo j"
    and a: "length a = L" and m: "m \<le> n"
  shows "length (fold g [0..<m] a) = L \<and>
    (\<forall>k < L. (\<forall>i < m. k < lo i \<or> hi i \<le> k) \<longrightarrow> fold g [0..<m] a ! k = a ! k) \<and>
    (\<forall>j < m. \<forall>k < L. lo j \<le> k \<longrightarrow> k < hi j \<longrightarrow> fold g [0..<m] a ! k = g j a ! k)"
  using m
proof (induction m)
  case (Suc m)
  let ?b = "fold g [0..<m] a"
  have IH: "length ?b = L" "\<And>k. k < L \<Longrightarrow> (\<forall>i < m. k < lo i \<or> hi i \<le> k) \<Longrightarrow> ?b ! k = a ! k"
    "\<And>j k. j < m \<Longrightarrow> k < L \<Longrightarrow> lo j \<le> k \<Longrightarrow> k < hi j \<Longrightarrow> ?b ! k = g j a ! k"
    using Suc by auto
  have step: "fold g [0..<Suc m] a = g m ?b" by simp
  have m: "m < n" using Suc.prems by simp
  have apart: "k < lo m" if "j < m" "k < hi j" for j k
    using disj [OF that(1) m] that(2) by linarith
  have apart2: "\<forall>i < m. k < lo i \<or> hi i \<le> k" if "lo m \<le> k" for k
    using disj m that by (meson le_trans)
  have own: "g m ?b ! k = g m a ! k" if "k < L" "lo m \<le> k" "k < hi m" for k
    using inside [OF m IH(1) a _ that(2,3,1)] IH(2) apart2 by blast
  show ?case unfolding step
    using len [OF m IH(1)] outside [OF m IH(1)] IH(2,3) apart own
    by (auto simp: less_Suc_eq)
qed (use a in simp)

section \<open>Association lists\<close>

text \<open>
  The standard library's maps are association lists with distinct keys; an
  insertion is \<^const>\<open>AList.update\<close>, a removal \<^const>\<open>AList.delete\<close>, a lookup
  \<^const>\<open>map_of\<close>.  \<^verbatim>\<open>kv_sum f m\<close> adds a measure of the values.
\<close>

abbreviation dkeys :: "('k \<times> 'v) list \<Rightarrow> bool" where
  "dkeys m \<equiv> distinct (map fst m)"

definition kv_sum :: "('v \<Rightarrow> nat) \<Rightarrow> ('k \<times> 'v) list \<Rightarrow> nat" where
  "kv_sum f m = sum_list (map (f \<circ> snd) m)"

definition kv_at :: "('v \<Rightarrow> nat) \<Rightarrow> ('k \<times> 'v) list \<Rightarrow> 'k \<Rightarrow> nat" where
  "kv_at f m k = (case map_of m k of Some v \<Rightarrow> f v | None \<Rightarrow> 0)"

lemma kv_sum_simps [simp]:
  "kv_sum f [] = 0"
  "kv_sum f (kv # m) = f (snd kv) + kv_sum f m"
  "kv_sum f (m1 @ m2) = kv_sum f m1 + kv_sum f m2"
  by (simp_all add: kv_sum_def)

lemma kv_at_simps [kv_simps]:
  "map_of m k = Some v \<Longrightarrow> kv_at f m k = f v"
  "map_of m k = None \<Longrightarrow> kv_at f m k = 0"
  by (simp_all add: kv_at_def)

lemma kv_at_Cons: "kv_at f (kv # m) k = (if fst kv = k then f (snd kv) else kv_at f m k)"
  by (auto simp: kv_at_def)

lemma kv_sum_update [kv_simps]:
  "dkeys m \<Longrightarrow> kv_sum f (AList.update k v m) + kv_at f m k = kv_sum f m + f v"
  by (induction m) (auto simp: kv_at_def split: option.splits)

lemma delete_notin: "k \<notin> fst ` set m \<Longrightarrow> AList.delete k m = m"
  by (induction m) (auto simp: AList.delete_eq)

lemma kv_sum_delete [kv_simps]:
  "dkeys m \<Longrightarrow> kv_sum f (AList.delete k m) + kv_at f m k = kv_sum f m"
proof (induction m)
  case (Cons kv m)
  then show ?case
  proof (cases "fst kv = k")
    case True
    then have "AList.delete k m = m" using Cons.prems by (intro delete_notin) auto
    with True show ?thesis by (cases kv) (simp add: kv_at_Cons)
  next
    case False
    with Cons show ?thesis by (cases kv) (simp add: kv_at_Cons)
  qed
qed (simp add: kv_at_def)

lemma kv_at_le_sum: "kv_at f m k \<le> kv_sum f m"
  by (induction m) (auto simp: kv_at_def split: option.splits)

lemma map_of_update [simp]: "map_of (AList.update k v m) = (map_of m)(k \<mapsto> v)"
  by (rule update_conv')

lemma map_of_delete [simp]: "map_of (AList.delete k m) = (map_of m)(k := None)"
  by (rule delete_conv')

lemma dkeys_update [simp]: "dkeys m \<Longrightarrow> dkeys (AList.update k v m)"
  by (rule distinct_update)

lemma dkeys_delete [simp]: "dkeys m \<Longrightarrow> dkeys (AList.delete k m)"
  by (rule distinct_delete)

lemma dkeys_filter [simp]: "dkeys m \<Longrightarrow> dkeys (filter P m)"
  by (rule distinct_map_filter)

lemma update_same: "map_of m k = Some v \<Longrightarrow> AList.update k v m = m"
  by (induction m) (auto split: if_splits)

lemma set_update_subset: "set (AList.update k v m) \<subseteq> insert (k, v) (set m)"
  by (induction m) auto

lemma set_update_dkeys:
  "dkeys m \<Longrightarrow> set (AList.update k v m) = insert (k, v) {kv \<in> set m. fst kv \<noteq> k}"
  by (induction m) (auto simp: image_iff)

lemma set_delete [simp]: "set (AList.delete k m) = {kv \<in> set m. fst kv \<noteq> k}"
  by (auto simp: AList.delete_eq)

lemma kv_sum_filter_split:
  "kv_sum f (filter P m) + kv_sum f (filter (\<lambda>kv. \<not> P kv) m) = kv_sum f m"
  by (induction m) auto

lemma map_of_filter_dkeys:
  "dkeys m \<Longrightarrow> map_of (filter P m) k =
    (case map_of m k of Some v \<Rightarrow> if P (k, v) then Some v else None | None \<Rightarrow> None)"
proof (induction m)
  case (Cons kv m)
  obtain k' v' where kv: "kv = (k', v')" by force
  show ?case
  proof (cases "k' = k")
    case True
    then have "map_of m k = None" using Cons.prems kv by (auto simp: map_of_eq_None_iff)
    with True Cons kv show ?thesis by auto
  next
    case False
    with Cons kv show ?thesis by auto
  qed
qed simp

end
