(* ===== verification/Wire.thy ===== *)
theory Wire
  imports Nvrm_Prelude
begin

text \<open>
  The guest/host wire schema of \<^verbatim>\<open>crates/nvrm-wire/src/lib.rs\<close>: message kinds,
  device tags, the 160-byte request, the 32-byte reply, the 24-byte process
  record, and their byte views.  The sources view the structures in native
  representation on little-endian machines; the offsets below are the ones the
  layout tests of that file pin.

  The locale \<^verbatim>\<open>wire_codec\<close> states what a fixed-length record promises to the
  code that frames messages with it; requests, replies and process records are
  interpretations of it.
\<close>

section \<open>Kinds, tags and bounds\<close>

definition PROTO_VERSION :: u32 where "PROTO_VERSION = 6"
definition NONE_U32 :: u32 where "NONE_U32 = 0xFFFFFFFF"
definition NONE_U64 :: u64 where "NONE_U64 = 0xFFFFFFFFFFFFFFFF"

datatype wire_kind = Hello | Open | Close | Ioctl | MapPrepare | UvmPoolBack

fun kind_to_u32 :: "wire_kind \<Rightarrow> u32" where
  "kind_to_u32 Hello = 0"
| "kind_to_u32 Open = 1"
| "kind_to_u32 Close = 2"
| "kind_to_u32 Ioctl = 3"
| "kind_to_u32 MapPrepare = 4"
| "kind_to_u32 UvmPoolBack = 5"

definition kind_from_u32 :: "u32 \<Rightarrow> wire_kind option" where
  "kind_from_u32 v =
    (if v = 0 then Some Hello
     else if v = 1 then Some Open
     else if v = 2 then Some Close
     else if v = 3 then Some Ioctl
     else if v = 4 then Some MapPrepare
     else if v = 5 then Some UvmPoolBack
     else None)"

definition KIND_GET_TABLES :: u32 where "KIND_GET_TABLES = 6"
definition KIND_MAP_RELEASE :: u32 where "KIND_MAP_RELEASE = 7"
definition KIND_PROC_GONE :: u32 where "KIND_PROC_GONE = 8"
definition KIND_EVENT_FIRED :: u32 where "KIND_EVENT_FIRED = 9"

datatype dev_tag = TagCtl | TagGpu | TagUvm | TagUvmTools

fun dev_tag_to_u32 :: "dev_tag \<Rightarrow> u32" where
  "dev_tag_to_u32 TagCtl = 0"
| "dev_tag_to_u32 TagGpu = 1"
| "dev_tag_to_u32 TagUvm = 2"
| "dev_tag_to_u32 TagUvmTools = 3"

definition dev_tag_from_u32 :: "u32 \<Rightarrow> dev_tag option" where
  "dev_tag_from_u32 v =
    (if v = 0 then Some TagCtl
     else if v = 1 then Some TagGpu
     else if v = 2 then Some TagUvm
     else if v = 3 then Some TagUvmTools
     else None)"

definition MAX_PAYLOAD :: nat where "MAX_PAYLOAD = 16384"
definition MAX_AUX :: nat where "MAX_AUX = 1024 * 1024"
definition MAX_MSG :: nat where "MAX_MSG = MAX_PAYLOAD + MAX_AUX + 4096"
definition MAX_NESTED :: nat where "MAX_NESTED = 4"

section \<open>Process records\<close>

record proc_info =
  pi_pid :: u32
  pi_pad :: u32
  pi_comm :: bytes

definition PROC_INFO_LEN :: nat where "PROC_INFO_LEN = 24"

definition proc_info_as_bytes :: "proc_info \<Rightarrow> bytes" where
  "proc_info_as_bytes p = u32_to_le (pi_pid p) @ u32_to_le (pi_pad p) @ pi_comm p"

definition proc_info_from_bytes :: "bytes \<Rightarrow> proc_info option" where
  "proc_info_from_bytes b =
    (if length b < PROC_INFO_LEN then None
     else Some \<lparr> pi_pid = rd32 b 0, pi_pad = rd32 b 4, pi_comm = subslice 8 16 b \<rparr>)"

definition is_ascii_graphic :: "u8 \<Rightarrow> bool" where
  "is_ascii_graphic c \<longleftrightarrow> 0x21 \<le> c \<and> c \<le> 0x7e"

definition comm_str :: "proc_info \<Rightarrow> string" where
  "comm_str p = map (\<lambda>c. if is_ascii_graphic c \<or> c = 0x20 then char_of (uint c) else CHR ''?'')
                  (takeWhile (\<lambda>c. c \<noteq> 0) (pi_comm p))"

definition proc_info_ok :: "proc_info \<Rightarrow> bool" where
  "proc_info_ok p \<longleftrightarrow> length (pi_comm p) = 16"

section \<open>Requests\<close>

record nested_desc =
  nd_ptr_off :: u32
  nd_aux_off :: u32
  nd_len :: u32
  nd_pad :: u32

definition nested_desc_default :: nested_desc where
  "nested_desc_default = \<lparr> nd_ptr_off = 0, nd_aux_off = 0, nd_len = 0, nd_pad = 0 \<rparr>"

record req =
  rq_seq :: u32
  rq_kind :: u32
  rq_dev_tag :: u32
  rq_ioctl_nr :: u32
  rq_target_token :: u64
  rq_inline_len :: u32
  rq_aux_len :: u32
  rq_fd_field_off :: u32
  rq_fd_field_proc :: u32
  rq_fd_field_token :: u64
  rq_embedded_ptr_off :: u32
  rq_nested_count :: u32
  rq_nested :: "nested_desc list"
  rq_aux_fd_field_off :: u32
  rq_aux_fd_field_proc :: u32
  rq_aux_fd_field_token :: u64
  rq_map_len :: u64
  rq_addr :: u64
  rq_gpa_run_count :: u32
  rq_guest_proc :: u32

definition req_default :: req where
  "req_default = \<lparr>
     rq_seq = 0, rq_kind = 0, rq_dev_tag = 0, rq_ioctl_nr = 0, rq_target_token = 0,
     rq_inline_len = 0, rq_aux_len = 0,
     rq_fd_field_off = NONE_U32, rq_fd_field_proc = NONE_U32, rq_fd_field_token = NONE_U64,
     rq_embedded_ptr_off = NONE_U32, rq_nested_count = 0,
     rq_nested = replicate MAX_NESTED nested_desc_default,
     rq_aux_fd_field_off = NONE_U32, rq_aux_fd_field_proc = NONE_U32,
     rq_aux_fd_field_token = NONE_U64,
     rq_map_len = 0, rq_addr = 0, rq_gpa_run_count = 0, rq_guest_proc = 0 \<rparr>"

definition REQ_LEN :: nat where "REQ_LEN = 160"

definition nested_bytes :: "nested_desc \<Rightarrow> bytes" where
  "nested_bytes n =
    u32_to_le (nd_ptr_off n) @ u32_to_le (nd_aux_off n) @ u32_to_le (nd_len n) @ u32_to_le (nd_pad n)"

definition nested_at :: "bytes \<Rightarrow> nat \<Rightarrow> nested_desc" where
  "nested_at b off = \<lparr> nd_ptr_off = rd32 b off, nd_aux_off = rd32 b (off + 4),
                       nd_len = rd32 b (off + 8), nd_pad = rd32 b (off + 12) \<rparr>"

definition req_as_bytes :: "req \<Rightarrow> bytes" where
  "req_as_bytes r =
     u32_to_le (rq_seq r) @ u32_to_le (rq_kind r) @ u32_to_le (rq_dev_tag r) @
     u32_to_le (rq_ioctl_nr r) @ u64_to_le (rq_target_token r) @
     u32_to_le (rq_inline_len r) @ u32_to_le (rq_aux_len r) @
     u32_to_le (rq_fd_field_off r) @ u32_to_le (rq_fd_field_proc r) @
     u64_to_le (rq_fd_field_token r) @ u32_to_le (rq_embedded_ptr_off r) @
     u32_to_le (rq_nested_count r) @ concat (map nested_bytes (rq_nested r)) @
     u32_to_le (rq_aux_fd_field_off r) @ u32_to_le (rq_aux_fd_field_proc r) @
     u64_to_le (rq_aux_fd_field_token r) @ u64_to_le (rq_map_len r) @ u64_to_le (rq_addr r) @
     u32_to_le (rq_gpa_run_count r) @ u32_to_le (rq_guest_proc r)"

definition req_from_bytes :: "bytes \<Rightarrow> req option" where
  "req_from_bytes b =
    (if length b < REQ_LEN then None
     else Some \<lparr>
       rq_seq = rd32 b 0, rq_kind = rd32 b 4, rq_dev_tag = rd32 b 8, rq_ioctl_nr = rd32 b 12,
       rq_target_token = rd64 b 16, rq_inline_len = rd32 b 24, rq_aux_len = rd32 b 28,
       rq_fd_field_off = rd32 b 32, rq_fd_field_proc = rd32 b 36, rq_fd_field_token = rd64 b 40,
       rq_embedded_ptr_off = rd32 b 48, rq_nested_count = rd32 b 52,
       rq_nested = [nested_at b 56, nested_at b 72, nested_at b 88, nested_at b 104],
       rq_aux_fd_field_off = rd32 b 120, rq_aux_fd_field_proc = rd32 b 124,
       rq_aux_fd_field_token = rd64 b 128, rq_map_len = rd64 b 136, rq_addr = rd64 b 144,
       rq_gpa_run_count = rd32 b 152, rq_guest_proc = rd32 b 156 \<rparr>)"

definition req_ok :: "req \<Rightarrow> bool" where
  "req_ok r \<longleftrightarrow> length (rq_nested r) = MAX_NESTED"

section \<open>Replies\<close>

record rsp =
  rs_seq :: u32
  rs_ret :: i32
  rs_token :: u64
  rs_inline_len :: u32
  rs_aux_len :: u32
  rs_scm_fd_count :: u32
  rs_pad :: u32

definition rsp_default :: rsp where
  "rsp_default = \<lparr> rs_seq = 0, rs_ret = 0, rs_token = 0, rs_inline_len = 0, rs_aux_len = 0,
                   rs_scm_fd_count = 0, rs_pad = 0 \<rparr>"

definition RSP_LEN :: nat where "RSP_LEN = 32"

definition rsp_as_bytes :: "rsp \<Rightarrow> bytes" where
  "rsp_as_bytes r =
     u32_to_le (rs_seq r) @ u32_to_le (rs_ret r) @ u64_to_le (rs_token r) @
     u32_to_le (rs_inline_len r) @ u32_to_le (rs_aux_len r) @
     u32_to_le (rs_scm_fd_count r) @ u32_to_le (rs_pad r)"

definition rsp_from_bytes :: "bytes \<Rightarrow> rsp option" where
  "rsp_from_bytes b =
    (if length b < RSP_LEN then None
     else Some \<lparr> rs_seq = rd32 b 0, rs_ret = rd32 b 4, rs_token = rd64 b 8,
                 rs_inline_len = rd32 b 16, rs_aux_len = rd32 b 20,
                 rs_scm_fd_count = rd32 b 24, rs_pad = rd32 b 28 \<rparr>)"

section \<open>The contract of a fixed-length record\<close>

locale wire_codec =
  fixes enc :: "'a \<Rightarrow> bytes"
    and dec :: "bytes \<Rightarrow> 'a option"
    and len :: nat
    and ok :: "'a \<Rightarrow> bool"
  assumes enc_length: "ok r \<Longrightarrow> length (enc r) = len"
    and dec_enc: "ok r \<Longrightarrow> dec (enc r @ rest) = Some r"
    and dec_short: "length b < len \<Longrightarrow> dec b = None"
    and dec_long: "len \<le> length b \<Longrightarrow> \<exists>r. dec b = Some r \<and> ok r \<and> enc r = take len b"
begin

lemma enc_inj:
  assumes "ok r" "ok s" "enc r = enc s"
  shows "r = s"
  using dec_enc [OF assms(1), of "[]"] dec_enc [OF assms(2), of "[]"] assms(3) by simp

lemma dec_iff: "dec b = Some r \<longleftrightarrow> len \<le> length b \<and> ok r \<and> enc r = take len b"
proof
  assume d: "dec b = Some r"
  then have "len \<le> length b" using dec_short [of b] by (cases "length b < len") auto
  with d show "len \<le> length b \<and> ok r \<and> enc r = take len b" using dec_long by fastforce
next
  assume a: "len \<le> length b \<and> ok r \<and> enc r = take len b"
  then have "dec (enc r @ drop len b) = Some r" using dec_enc by blast
  with a show "dec b = Some r" by simp
qed

lemma dec_frame:
  assumes "ok r"
  shows "dec (enc r @ payload) = Some r" and "drop len (enc r @ payload) = payload"
  using assms by (simp_all add: dec_enc enc_length)

end

lemmas rd_append = rd32_def rd64_def slice_append_left slice_append_right

interpretation proc_info_codec: wire_codec proc_info_as_bytes proc_info_from_bytes PROC_INFO_LEN proc_info_ok
proof
  fix r :: proc_info and rest b :: bytes
  show "proc_info_ok r \<Longrightarrow> length (proc_info_as_bytes r) = PROC_INFO_LEN"
    by (simp add: proc_info_ok_def proc_info_as_bytes_def PROC_INFO_LEN_def)
  show "proc_info_ok r \<Longrightarrow> proc_info_from_bytes (proc_info_as_bytes r @ rest) = Some r"
    by (simp add: proc_info_ok_def proc_info_as_bytes_def proc_info_from_bytes_def
        PROC_INFO_LEN_def rd_append slice_0_take)
  show "length b < PROC_INFO_LEN \<Longrightarrow> proc_info_from_bytes b = None"
    by (simp add: proc_info_from_bytes_def)
  show "PROC_INFO_LEN \<le> length b \<Longrightarrow>
    \<exists>r. proc_info_from_bytes b = Some r \<and> proc_info_ok r \<and> proc_info_as_bytes r = take PROC_INFO_LEN b"
    by (simp add: proc_info_from_bytes_def proc_info_ok_def proc_info_as_bytes_def PROC_INFO_LEN_def
        rd32_def le_simps slice_simps slice_0_take [symmetric])
qed

interpretation rsp_codec: wire_codec rsp_as_bytes rsp_from_bytes RSP_LEN "\<lambda>_. True"
proof
  fix r :: rsp and rest b :: bytes
  show "length (rsp_as_bytes r) = RSP_LEN"
    by (simp add: rsp_as_bytes_def RSP_LEN_def)
  show "rsp_from_bytes (rsp_as_bytes r @ rest) = Some r"
    by (simp add: rsp_as_bytes_def rsp_from_bytes_def RSP_LEN_def rd_append slice_0_take)
  show "length b < RSP_LEN \<Longrightarrow> rsp_from_bytes b = None"
    by (simp add: rsp_from_bytes_def)
  show "RSP_LEN \<le> length b \<Longrightarrow>
    \<exists>r. rsp_from_bytes b = Some r \<and> True \<and> rsp_as_bytes r = take RSP_LEN b"
    by (simp add: rsp_from_bytes_def rsp_as_bytes_def RSP_LEN_def
        rd32_def rd64_def le_simps slice_simps slice_0_take [symmetric])
qed

lemma list4_cases: "length xs = 4 \<Longrightarrow> \<exists>a b c d. xs = [a, b, c, d]"
  by (auto simp: numeral_eq_Suc length_Suc_conv)

interpretation req_codec: wire_codec req_as_bytes req_from_bytes REQ_LEN req_ok
proof
  fix r :: req and rest b :: bytes
  show "req_ok r \<Longrightarrow> length (req_as_bytes r) = REQ_LEN"
    by (auto simp: req_ok_def MAX_NESTED_def req_as_bytes_def REQ_LEN_def nested_bytes_def
        dest!: list4_cases)
  show "req_from_bytes (req_as_bytes r @ rest) = Some r" if ok: "req_ok r"
  proof -
    obtain n1 n2 n3 n4 where "rq_nested r = [n1, n2, n3, n4]"
      using ok list4_cases [of "rq_nested r"] by (auto simp: req_ok_def MAX_NESTED_def)
    then show ?thesis
      by (simp add: req_as_bytes_def req_from_bytes_def REQ_LEN_def nested_bytes_def nested_at_def
        rd_append slice_0_take)
  qed
  show "length b < REQ_LEN \<Longrightarrow> req_from_bytes b = None"
    by (simp add: req_from_bytes_def)
  show "REQ_LEN \<le> length b \<Longrightarrow>
    \<exists>r. req_from_bytes b = Some r \<and> req_ok r \<and> req_as_bytes r = take REQ_LEN b"
    by (simp add: req_from_bytes_def req_ok_def MAX_NESTED_def req_as_bytes_def REQ_LEN_def
        nested_bytes_def nested_at_def rd32_def rd64_def le_simps slice_simps slice_0_take [symmetric])
qed

end
