(* ===== verification/Xlate.thy ===== *)
theory Xlate
  imports Wire
begin

text \<open>
  The forwarding descriptors of \<^verbatim>\<open>crates/nvrm-abi/src/xlate.rs\<close>: payload sizes per
  device and request number, offsets of file-descriptor fields, the primary
  embedded pointer of an RM escape, the second-level pointers of RM controls and
  the refusal lists.  Struct sizes and field offsets are those of the generated
  bindings (\<^verbatim>\<open>crates/nvrm-sys/manifests\<close>); the few layouts that differ between
  driver releases are fields of the record \<^verbatim>\<open>rm_abi\<close>, the trait \<^verbatim>\<open>RmAbi\<close> of
  \<^verbatim>\<open>crates/nvrm-sys/src/lib.rs\<close>, with one constant per supported release.
\<close>

named_theorems esc_defs \<open>numbers of the frontend escapes and UVM commands\<close>

section \<open>Devices and driver releases\<close>

datatype dev = Ctl | Gpu | Uvm | UvmTools

fun is_uvm :: "dev \<Rightarrow> bool" where
  "is_uvm Ctl = False"
| "is_uvm Gpu = False"
| "is_uvm Uvm = True"
| "is_uvm UvmTools = True"

record rm_abi =
  abi_alloc_channel_size :: nat
  abi_tsg_size :: nat
  abi_uvm_free_size :: nat
  abi_uvm_free_off_rmStatus :: nat
  abi_uvm_unregister_channel_size :: nat
  abi_uvm_unregister_channel_off_hClient :: nat
  abi_uvm_unregister_channel_off_rmStatus :: nat
  abi_name_off :: nat
  abi_name_max :: nat

definition abi_v580 :: rm_abi where
  "abi_v580 = \<lparr> abi_alloc_channel_size = 368, abi_tsg_size = 20, abi_uvm_free_size = 24,
     abi_uvm_free_off_rmStatus = 16, abi_uvm_unregister_channel_size = 28,
     abi_uvm_unregister_channel_off_hClient = 16, abi_uvm_unregister_channel_off_rmStatus = 24,
     abi_name_off = 4, abi_name_max = 128 \<rparr>"

definition abi_v595 :: rm_abi where
  "abi_v595 = \<lparr> abi_alloc_channel_size = 368, abi_tsg_size = 20, abi_uvm_free_size = 16,
     abi_uvm_free_off_rmStatus = 8, abi_uvm_unregister_channel_size = 12,
     abi_uvm_unregister_channel_off_hClient = 0, abi_uvm_unregister_channel_off_rmStatus = 8,
     abi_name_off = 4, abi_name_max = 64 \<rparr>"

definition abi_v610 :: rm_abi where
  "abi_v610 = \<lparr> abi_alloc_channel_size = 376, abi_tsg_size = 20, abi_uvm_free_size = 16,
     abi_uvm_free_off_rmStatus = 8, abi_uvm_unregister_channel_size = 12,
     abi_uvm_unregister_channel_off_hClient = 0, abi_uvm_unregister_channel_off_rmStatus = 8,
     abi_name_off = 4, abi_name_max = 64 \<rparr>"

definition abi_v615 :: rm_abi where
  "abi_v615 = \<lparr> abi_alloc_channel_size = 376, abi_tsg_size = 28, abi_uvm_free_size = 16,
     abi_uvm_free_off_rmStatus = 8, abi_uvm_unregister_channel_size = 12,
     abi_uvm_unregister_channel_off_hClient = 0, abi_uvm_unregister_channel_off_rmStatus = 8,
     abi_name_off = 4, abi_name_max = 64 \<rparr>"

definition supported_abis :: "rm_abi list" where
  "supported_abis = [abi_v580, abi_v595, abi_v610, abi_v615]"

lemmas abi_defs = supported_abis_def abi_v580_def abi_v595_def abi_v610_def abi_v615_def

section \<open>Request numbers\<close>

definition UVM_INITIALIZE :: u32 where [esc_defs]: "UVM_INITIALIZE = 0x30000001"
definition UVM_DEINITIALIZE :: u32 where [esc_defs]: "UVM_DEINITIALIZE = 0x30000002"
definition UVM_PAGEABLE_MEM_ACCESS :: u32 where [esc_defs]: "UVM_PAGEABLE_MEM_ACCESS = 39"
definition UVM_MM_INITIALIZE :: u32 where [esc_defs]: "UVM_MM_INITIALIZE = 75"
definition UVM_REGISTER_GPU_VASPACE :: u32 where [esc_defs]: "UVM_REGISTER_GPU_VASPACE = 25"
definition UVM_UNREGISTER_GPU_VASPACE :: u32 where [esc_defs]: "UVM_UNREGISTER_GPU_VASPACE = 26"
definition UVM_REGISTER_CHANNEL :: u32 where [esc_defs]: "UVM_REGISTER_CHANNEL = 27"
definition UVM_UNREGISTER_CHANNEL :: u32 where [esc_defs]: "UVM_UNREGISTER_CHANNEL = 28"
definition UVM_MAP_EXTERNAL_ALLOCATION :: u32 where [esc_defs]: "UVM_MAP_EXTERNAL_ALLOCATION = 33"
definition UVM_FREE :: u32 where [esc_defs]: "UVM_FREE = 34"
definition UVM_REGISTER_GPU :: u32 where [esc_defs]: "UVM_REGISTER_GPU = 37"
definition UVM_MAP_DYNAMIC_PARALLELISM_REGION :: u32 where
  [esc_defs]: "UVM_MAP_DYNAMIC_PARALLELISM_REGION = 65"
definition UVM_ALLOC_SEMAPHORE_POOL :: u32 where [esc_defs]: "UVM_ALLOC_SEMAPHORE_POOL = 68"
definition UVM_SET_PREFERRED_LOCATION :: u32 where [esc_defs]: "UVM_SET_PREFERRED_LOCATION = 42"
definition UVM_UNSET_PREFERRED_LOCATION :: u32 where [esc_defs]: "UVM_UNSET_PREFERRED_LOCATION = 43"
definition UVM_ENABLE_READ_DUPLICATION :: u32 where [esc_defs]: "UVM_ENABLE_READ_DUPLICATION = 44"
definition UVM_DISABLE_READ_DUPLICATION :: u32 where [esc_defs]: "UVM_DISABLE_READ_DUPLICATION = 45"
definition UVM_SET_ACCESSED_BY :: u32 where [esc_defs]: "UVM_SET_ACCESSED_BY = 46"
definition UVM_UNSET_ACCESSED_BY :: u32 where [esc_defs]: "UVM_UNSET_ACCESSED_BY = 47"
definition UVM_MIGRATE :: u32 where [esc_defs]: "UVM_MIGRATE = 51"
definition UVM_PAGEABLE_MEM_ACCESS_ON_GPU :: u32 where
  [esc_defs]: "UVM_PAGEABLE_MEM_ACCESS_ON_GPU = 70"
definition UVM_VALIDATE_VA_RANGE :: u32 where [esc_defs]: "UVM_VALIDATE_VA_RANGE = 72"
definition UVM_CREATE_EXTERNAL_RANGE :: u32 where [esc_defs]: "UVM_CREATE_EXTERNAL_RANGE = 73"

definition NV_ESC_RM_ALLOC_MEMORY :: u32 where [esc_defs]: "NV_ESC_RM_ALLOC_MEMORY = 39"
definition NV_ESC_RM_ALLOC_OBJECT :: u32 where [esc_defs]: "NV_ESC_RM_ALLOC_OBJECT = 40"
definition NV_ESC_RM_FREE :: u32 where [esc_defs]: "NV_ESC_RM_FREE = 41"
definition NV_ESC_RM_CONTROL :: u32 where [esc_defs]: "NV_ESC_RM_CONTROL = 42"
definition NV_ESC_RM_ALLOC :: u32 where [esc_defs]: "NV_ESC_RM_ALLOC = 43"
definition NV_ESC_RM_DUP_OBJECT :: u32 where [esc_defs]: "NV_ESC_RM_DUP_OBJECT = 52"
definition NV_ESC_RM_SHARE :: u32 where [esc_defs]: "NV_ESC_RM_SHARE = 53"
definition NV_ESC_RM_IDLE_CHANNELS :: u32 where [esc_defs]: "NV_ESC_RM_IDLE_CHANNELS = 65"
definition NV_ESC_RM_VID_HEAP_CONTROL :: u32 where [esc_defs]: "NV_ESC_RM_VID_HEAP_CONTROL = 74"
definition NV_ESC_RM_ACCESS_REGISTRY :: u32 where [esc_defs]: "NV_ESC_RM_ACCESS_REGISTRY = 77"
definition NV_ESC_RM_MAP_MEMORY :: u32 where [esc_defs]: "NV_ESC_RM_MAP_MEMORY = 78"
definition NV_ESC_RM_UNMAP_MEMORY :: u32 where [esc_defs]: "NV_ESC_RM_UNMAP_MEMORY = 79"
definition NV_ESC_RM_GET_EVENT_DATA :: u32 where [esc_defs]: "NV_ESC_RM_GET_EVENT_DATA = 82"
definition NV_ESC_RM_ALLOC_CONTEXT_DMA2 :: u32 where [esc_defs]: "NV_ESC_RM_ALLOC_CONTEXT_DMA2 = 84"
definition NV_ESC_RM_MAP_MEMORY_DMA :: u32 where [esc_defs]: "NV_ESC_RM_MAP_MEMORY_DMA = 87"
definition NV_ESC_RM_UNMAP_MEMORY_DMA :: u32 where [esc_defs]: "NV_ESC_RM_UNMAP_MEMORY_DMA = 88"
definition NV_ESC_RM_BIND_CONTEXT_DMA :: u32 where [esc_defs]: "NV_ESC_RM_BIND_CONTEXT_DMA = 89"
definition NV_ESC_CARD_INFO :: u32 where [esc_defs]: "NV_ESC_CARD_INFO = 200"
definition NV_ESC_REGISTER_FD :: u32 where [esc_defs]: "NV_ESC_REGISTER_FD = 201"
definition NV_ESC_ALLOC_OS_EVENT :: u32 where [esc_defs]: "NV_ESC_ALLOC_OS_EVENT = 206"
definition NV_ESC_FREE_OS_EVENT :: u32 where [esc_defs]: "NV_ESC_FREE_OS_EVENT = 207"
definition NV_ESC_STATUS_CODE :: u32 where [esc_defs]: "NV_ESC_STATUS_CODE = 209"
definition NV_ESC_CHECK_VERSION_STR :: u32 where [esc_defs]: "NV_ESC_CHECK_VERSION_STR = 210"
definition NV_ESC_IOCTL_XFER_CMD :: u32 where [esc_defs]: "NV_ESC_IOCTL_XFER_CMD = 211"
definition NV_ESC_ATTACH_GPUS_TO_FD :: u32 where [esc_defs]: "NV_ESC_ATTACH_GPUS_TO_FD = 212"
definition NV_ESC_SYS_PARAMS :: u32 where [esc_defs]: "NV_ESC_SYS_PARAMS = 214"
definition NV_ESC_NUMA_INFO :: u32 where [esc_defs]: "NV_ESC_NUMA_INFO = 215"
definition NV_ESC_WAIT_OPEN_COMPLETE :: u32 where [esc_defs]: "NV_ESC_WAIT_OPEN_COMPLETE = 218"


section \<open>Payload sizes\<close>

definition uvm_param_size :: "u32 \<Rightarrow> u32 option" where
  "uvm_param_size cmd =
    (if cmd = UVM_INITIALIZE then Some 16
     else if cmd = UVM_DEINITIALIZE then Some 0
     else if cmd = UVM_PAGEABLE_MEM_ACCESS then Some 8
     else if cmd = UVM_MM_INITIALIZE then Some 8
     else if cmd = UVM_REGISTER_GPU_VASPACE then Some 32
     else if cmd = UVM_UNREGISTER_GPU_VASPACE then Some 20
     else if cmd = UVM_REGISTER_CHANNEL then Some 56
     else if cmd = UVM_UNREGISTER_CHANNEL then Some 12
     else if cmd = UVM_MAP_EXTERNAL_ALLOCATION then Some 9264
     else if cmd = UVM_FREE then Some 16
     else if cmd = UVM_REGISTER_GPU then Some 40
     else if cmd = UVM_MAP_DYNAMIC_PARALLELISM_REGION then Some 40
     else if cmd = UVM_ALLOC_SEMAPHORE_POOL then Some 9248
     else if cmd = UVM_PAGEABLE_MEM_ACCESS_ON_GPU then Some 24
     else if cmd = UVM_SET_PREFERRED_LOCATION then Some 40
     else if cmd = UVM_UNSET_PREFERRED_LOCATION then Some 24
     else if cmd = UVM_ENABLE_READ_DUPLICATION then Some 24
     else if cmd = UVM_DISABLE_READ_DUPLICATION then Some 24
     else if cmd = UVM_SET_ACCESSED_BY then Some 40
     else if cmd = UVM_UNSET_ACCESSED_BY then Some 40
     else if cmd = UVM_MIGRATE then Some 80
     else if cmd = UVM_VALIDATE_VA_RANGE then Some 24
     else if cmd = UVM_CREATE_EXTERNAL_RANGE then Some 24
     else None)"

definition uvm_param_size_compiled :: "rm_abi \<Rightarrow> u32 \<Rightarrow> nat option" where
  "uvm_param_size_compiled A cmd =
    (if cmd = UVM_INITIALIZE then Some 16
     else if cmd = UVM_PAGEABLE_MEM_ACCESS then Some 8
     else if cmd = UVM_MM_INITIALIZE then Some 8
     else if cmd = UVM_REGISTER_GPU_VASPACE then Some 32
     else if cmd = UVM_UNREGISTER_GPU_VASPACE then Some 20
     else if cmd = UVM_REGISTER_CHANNEL then Some 56
     else if cmd = UVM_UNREGISTER_CHANNEL then Some (abi_uvm_unregister_channel_size A)
     else if cmd = UVM_MAP_EXTERNAL_ALLOCATION then Some 9264
     else if cmd = UVM_FREE then Some (abi_uvm_free_size A)
     else if cmd = UVM_REGISTER_GPU then Some 40
     else if cmd = UVM_MAP_DYNAMIC_PARALLELISM_REGION then Some 40
     else if cmd = UVM_ALLOC_SEMAPHORE_POOL then Some 9248
     else if cmd = UVM_SET_PREFERRED_LOCATION then Some 40
     else if cmd = UVM_UNSET_PREFERRED_LOCATION then Some 24
     else if cmd = UVM_ENABLE_READ_DUPLICATION then Some 24
     else if cmd = UVM_DISABLE_READ_DUPLICATION then Some 24
     else if cmd = UVM_SET_ACCESSED_BY then Some 40
     else if cmd = UVM_UNSET_ACCESSED_BY then Some 40
     else if cmd = UVM_MIGRATE then Some 80
     else if cmd = UVM_PAGEABLE_MEM_ACCESS_ON_GPU then Some 24
     else if cmd = UVM_VALIDATE_VA_RANGE then Some 24
     else if cmd = UVM_CREATE_EXTERNAL_RANGE then Some 24
     else None)"

definition uvm_param_size_for :: "rm_abi \<Rightarrow> u32 \<Rightarrow> u32 option" where
  "uvm_param_size_for A cmd =
    (if cmd = UVM_DEINITIALIZE then Some 0
     else case uvm_param_size_compiled A cmd of
            None \<Rightarrow> None
          | Some n \<Rightarrow> if n < 2 ^ 32 then Some (word_of_nat n) else None)"

datatype frontend_size_rule = Fixed u32 | Array u32 | Allocation

fun accepts :: "frontend_size_rule \<Rightarrow> u32 \<Rightarrow> bool" where
  "accepts (Fixed n) sz = (sz = n)"
| "accepts (Array n) sz = (sz mod n = 0)"
| "accepts Allocation sz = (sz = 32 \<or> sz = 48)"

definition frontend_size :: "u32 \<Rightarrow> frontend_size_rule option" where
  "frontend_size nr =
    (if nr = NV_ESC_RM_ALLOC then Some Allocation
     else if nr = NV_ESC_RM_ALLOC_OBJECT then Some (Fixed 20)
     else if nr = NV_ESC_RM_FREE then Some (Fixed 16)
     else if nr = NV_ESC_RM_CONTROL then Some (Fixed 32)
     else if nr = NV_ESC_RM_ALLOC_MEMORY then Some (Fixed 56)
     else if nr = NV_ESC_RM_MAP_MEMORY then Some (Fixed 56)
     else if nr = NV_ESC_RM_UNMAP_MEMORY then Some (Fixed 32)
     else if nr = NV_ESC_RM_VID_HEAP_CONTROL then Some (Fixed 184)
     else if nr = NV_ESC_RM_ALLOC_CONTEXT_DMA2 then Some (Fixed 56)
     else if nr = NV_ESC_RM_BIND_CONTEXT_DMA then Some (Fixed 16)
     else if nr = NV_ESC_RM_MAP_MEMORY_DMA then Some (Fixed 64)
     else if nr = NV_ESC_RM_UNMAP_MEMORY_DMA then Some (Fixed 48)
     else if nr = NV_ESC_RM_DUP_OBJECT then Some (Fixed 28)
     else if nr = NV_ESC_RM_SHARE then Some (Fixed 24)
     else if nr = NV_ESC_RM_GET_EVENT_DATA then Some (Fixed 16)
     else if nr = NV_ESC_STATUS_CODE then Some (Fixed 12)
     else if nr = NV_ESC_CARD_INFO then Some (Array 72)
     else if nr = NV_ESC_ATTACH_GPUS_TO_FD then Some (Array 4)
     else if nr = NV_ESC_REGISTER_FD then Some (Fixed 4)
     else if nr = NV_ESC_ALLOC_OS_EVENT then Some (Fixed 16)
     else if nr = NV_ESC_FREE_OS_EVENT then Some (Fixed 16)
     else if nr = NV_ESC_CHECK_VERSION_STR then Some (Fixed 72)
     else if nr = NV_ESC_SYS_PARAMS then Some (Fixed 8)
     else if nr = NV_ESC_NUMA_INFO then Some (Fixed 560)
     else if nr = NV_ESC_WAIT_OPEN_COMPLETE then Some (Fixed 8)
     else if nr = 213 then Some (Fixed 8)
     else None)"

section \<open>File-descriptor fields and refusal lists\<close>

definition fd_field_offset :: "dev \<Rightarrow> u32 \<Rightarrow> u32 \<Rightarrow> u32 option" where
  "fd_field_offset d nr sz =
    (if is_uvm d then
       (if nr = UVM_MM_INITIALIZE then Some 0
        else if nr = UVM_REGISTER_GPU_VASPACE then Some 16
        else if nr = UVM_REGISTER_CHANNEL then Some 16
        else if nr = UVM_REGISTER_GPU then Some 24
        else if nr = UVM_MAP_EXTERNAL_ALLOCATION then Some 9248
        else None)
     else if nr = NV_ESC_REGISTER_FD then Some 0
     else if nr = NV_ESC_ALLOC_OS_EVENT \<or> nr = NV_ESC_FREE_OS_EVENT then Some 8
     else if nr = NV_ESC_RM_MAP_MEMORY then Some 48
     else if nr = NV_ESC_RM_ALLOC_MEMORY then Some 48
     else None)"

definition alloc_class_blocked :: "u32 \<Rightarrow> bool" where
  "alloc_class_blocked hclass \<longleftrightarrow>
     hclass \<in> set [0xc637, 0xc638, 0xc639, 0xc640, 0xb0cd, 0xb0ce, 0xcdcd]"

definition alloc_class_verified :: "u32 \<Rightarrow> bool" where
  "alloc_class_verified hclass \<longleftrightarrow>
     hclass \<in> set [0x003e, 0x0040, 0x0071, 0x0079, 0x0080, 0x00de, 0x2080, 0x2081, 0x50a0, 0x83de,
       0x9067, 0x90f1, 0xa06c, 0xc46f, 0xc5b5, 0xc5c0, 0xc640, 0xcb33, 0x0002, 0x0041, 0x0070,
       0xa0bc, 0xc361, 0xc461, 0xc4b0, 0xc4b7]"

text \<open>
  The class table is one \<^verbatim>\<open>match\<close> in the source; its rows up to the confidential-compute
  class are \<^verbatim>\<open>alloc_param_size\<close> itself, the header-derived remainder is the continuation
  \<^verbatim>\<open>alloc_param_size_rest\<close>.
\<close>

definition alloc_param_size_rest :: "rm_abi \<Rightarrow> u32 \<Rightarrow> u32 option" where
  "alloc_param_size_rest A hclass =
    (if hclass \<in> set [0x902d, 0xa140, 0xc597, 0xc697, 0xc6c0, 0xc797, 0xc7c0, 0xc997, 0xc9c0, 0xcb97, 0xcbc0, 0xcd40, 0xcd97, 0xcdc0, 0xce97, 0xcec0] then Some 16
     else if hclass \<in> set [0xb8b0, 0xc4b0, 0xc6b0, 0xc7b0, 0xc9b0, 0xcdb0, 0xceb0, 0xcfb0, 0xd1b0, 0xd2b0] then Some 12
     else if hclass \<in> set [0x906f, 0xa06f, 0xa16f, 0xb06f, 0xc06f, 0xc36f, 0xc56f, 0xc86f, 0xc96f, 0xca6f] then Some (word_of_nat (abi_alloc_channel_size A))
     else if hclass \<in> set [0xb8fa, 0xc6fa, 0xc7fa, 0xc9fa, 0xcdfa, 0xcefa, 0xcffa, 0xd1fa, 0xd2fa] then Some 12
     else if hclass \<in> set [0xb0b5, 0xc0b5, 0xc6b5, 0xc7b5, 0xc8b5, 0xc9b5, 0xcab5] then Some 8
     else if hclass \<in> set [0xb4b7, 0xc4b7, 0xc7b7, 0xc9b7, 0xceb7, 0xcfb7, 0xd1b7] then Some 12
     else if hclass \<in> set [0xb8d1, 0xc4d1, 0xc9d1, 0xcdd1, 0xced0, 0xcfd1, 0xd2d1] then Some 12
     else if hclass \<in> set [0x0000, 0x0001, 0x0020, 0x0041] then Some 4
     else if hclass \<in> set [0x0005, 0x0078, 0x007e] then Some 24
     else if hclass \<in> set [0xc661, 0xc761] then Some 2
     else if hclass \<in> set [0xc763, 0xc863] then Some 528
     else if hclass = 0x000f then Some 16
     else if hclass = 0x0050 then Some 24
     else if hclass = 0x0060 then Some 4
     else if hclass = 0x00db then Some 8
     else if hclass = 0x00e0 then Some 244
     else if hclass = 0x00f8 then Some 48
     else if hclass = 0x00fb then Some 32
     else if hclass = 0x2082 then Some 4
     else if hclass = 0x30f1 then Some 4
     else if hclass = 0x503b then Some 88
     else if hclass = 0x503c then Some 4
     else if hclass = 0x5080 then Some 1
     else if hclass = 0x9072 then Some 12
     else if hclass = 0xa084 then Some 88
     else if hclass = 0xa0bc then Some 20
     else if hclass = 0xa0bd then Some 20
     else if hclass = 0xb0cd then Some 8
     else if hclass = 0xb0ce then Some 16
     else if hclass = 0xb1cc then Some 4
     else if hclass = 0xb2cc then Some 8
     else if hclass = 0xc637 then Some 16
     else if hclass = 0xc638 then Some 16
     else if hclass = 0xc639 then Some 8
     else if hclass = 0xcdcd then Some 8
     else if hclass = 0xc365 then Some 4
     else if hclass = 0x0002 then Some 32
     else if hclass = 0x90ce then Some 128
     else if hclass = 0x00fe then Some 24
     else if hclass = 0x00c3 then Some 4
     else if hclass = 0x0070 then Some 24
     else if hclass = 0x00c2 then Some 24
     else if hclass = 0x00da then Some 16
     else if hclass = 0xc574 then Some 8
     else None)"

definition alloc_param_size :: "rm_abi \<Rightarrow> u32 \<Rightarrow> u32 option" where
  "alloc_param_size A hclass =
    (if hclass = 0x0080 then Some 56
     else if hclass = 0x90f1 then Some 56
     else if hclass = 0xa06c then Some (word_of_nat (abi_tsg_size A))
     else if hclass = 0x9067 then Some 12
     else if hclass = 0xc46f then Some (word_of_nat (abi_alloc_channel_size A))
     else if hclass = 0x2080 then Some 4
     else if hclass = 0x2081 then Some 4
     else if hclass = 0x0079 then Some 24
     else if hclass = 0xc640 then Some 8
     else if hclass \<in> set [0x003e, 0x0040, 0x50a0] then Some 128
     else if hclass = 0x0071 then Some 40
     else if hclass = 0x00de then Some 8
     else if hclass = 0x83de then Some 12
     else if hclass = 0xc5b5 then Some 8
     else if hclass = 0xc5c0 then Some 16
     else if hclass = 0xcb33 then Some 4
     else alloc_param_size_rest A hclass)"

definition alloc_fd_field :: "u32 \<Rightarrow> u32 option" where
  "alloc_fd_field hclass =
    (if hclass = 0x0079 then Some 16 else if hclass = 0x0005 then Some 16 else None)"

definition alloc_fd_guard :: "u32 \<Rightarrow> (u32 \<times> u32) option" where
  "alloc_fd_guard hclass =
    (if hclass = 0x0005 \<or> hclass = 0x0079 then Some (8, 0x0079) else None)"

definition blocked_ctrls :: "u32 list" where
  "blocked_ctrls =
    [0x901, 0x902, 0x3d08, 0x3d0a, 0x3d0b, 0x3d0c, 0x127, 0x130, 0x602, 0x730120, 0x801401,
     0x80180f, 0x20800122, 0x20800124, 0x2080016e, 0x208001e8, 0x208001f2, 0x20800610,
     0x20800803, 0x20800806, 0x20801336, 0x20802204, 0x20802402, 0x20802a01, 0x402c0102,
     0x402c0105, 0x83de0315, 0x83de0316, 0x83de0326, 0x83de0327, 0xa0830103, 0xa0bc0101,
     0xb06f010c, 0xb06f010d]"

definition ctrl_blocked :: "u32 \<Rightarrow> bool" where
  "ctrl_blocked cmd \<longleftrightarrow> cmd \<in> set blocked_ctrls"

definition ctrl_fd_offset :: "u32 \<Rightarrow> u32 option" where
  "ctrl_fd_offset cmd = (if cmd = 0x3d05 then Some 16 else if cmd = 0x3d06 then Some 0 else None)"

definition ctrl_fd_cmds :: "u32 list" where
  "ctrl_fd_cmds = [0x3d05, 0x3d06]"


section \<open>The embedded pointer of an escape\<close>

record embedded =
  emb_ptr_off :: u32
  emb_len :: u32

text \<open>
  \<^verbatim>\<open>Inl ()\<close> is the source's \<^verbatim>\<open>Err(())\<close>: the layout of the second buffer cannot be
  determined.  \<^verbatim>\<open>sz\<close> is the length of \<^verbatim>\<open>buf\<close>, as the caller passes it.
\<close>

definition embedded_ptr :: "rm_abi \<Rightarrow> dev \<Rightarrow> u32 \<Rightarrow> bytes \<Rightarrow> u32 \<Rightarrow> unit + embedded option" where
  "embedded_ptr A d nr buf sz =
    (if is_uvm d then Inr None
     else if nr = NV_ESC_RM_CONTROL \<and> 32 \<le> sz then
       (let plen = rd32 buf 24; pptr = rd64 buf 16 in
        if pptr = 0 \<or> plen = 0 then Inr None
        else Inr (Some \<lparr> emb_ptr_off = 16, emb_len = plen \<rparr>))
     else if nr = NV_ESC_RM_ALLOC \<and> (sz = 48 \<or> sz = 32) then
       (if rd64 buf 16 = 0 then Inr None
        else if sz = 48 \<and> rd64 buf 24 \<noteq> 0 then Inl ()
        else case alloc_param_size A (rd32 buf 12) of
               Some len \<Rightarrow> Inr (Some \<lparr> emb_ptr_off = 16, emb_len = len \<rparr>)
             | None \<Rightarrow> Inl ())
     else if nr = NV_ESC_RM_GET_EVENT_DATA \<and> 16 \<le> sz then
       (if rd64 buf 0 = 0 then Inr None
        else Inr (Some \<lparr> emb_ptr_off = 0, emb_len = 16 \<rparr>))
     else Inr None)"

section \<open>Second-level pointers of a control\<close>

datatype len_source = LenFixed u32 | LenField u32 u32

record nested_ptr =
  np_ptr_off :: u32
  np_len :: len_source

abbreviation field_ptr :: "u32 \<Rightarrow> u32 \<Rightarrow> nested_ptr" where
  "field_ptr off elem \<equiv> \<lparr> np_ptr_off = off, np_len = LenField 0 elem \<rparr>"

definition nested_cmds :: "u32 list" where
  "nested_cmds = [0x101, 0x20801802, 0x20801201, 0x80170d, 0x800201, 0x801b01, 0x801301, 0x801102,
     0x801701, 0x801104, 0x20801301, 0x20800123, 0x410110, 0x20800802]"

definition nested_ptrs :: "u32 \<Rightarrow> nested_ptr list" where
  "nested_ptrs cmd =
    (if cmd = 0x101 then [field_ptr 8 1, field_ptr 16 1, field_ptr 24 1]
     else if cmd = 0x20801802 then [field_ptr 8 8]
     else if cmd = 0x20800802 then [field_ptr 8 8]
     else if cmd = 0x410110 then [field_ptr 8 8]
     else if cmd = 0x20801201 then [field_ptr 8 8]
     else if cmd = 0x80170d then [field_ptr 8 4, field_ptr 16 4]
     else if cmd = 0x800201 then [field_ptr 8 4]
     else if cmd = 0x801b01 then [field_ptr 8 1]
     else if cmd = 0x801301 then [field_ptr 8 1]
     else if cmd = 0x801102 then [field_ptr 8 1]
     else if cmd = 0x801701 then [field_ptr 8 1]
     else if cmd = 0x801104 then [field_ptr 8 8]
     else if cmd = 0x20801301 then [field_ptr 8 8]
     else if cmd = 0x20800123 then [field_ptr 8 4]
     else [])"

fun len_resolve :: "len_source \<Rightarrow> bytes \<Rightarrow> u32 \<Rightarrow> u32 option" where
  "len_resolve (LenFixed n) params params_len = Some n"
| "len_resolve (LenField off elem) params params_len =
    (case checked_add off 4 of
       None \<Rightarrow> None
     | Some e \<Rightarrow> if params_len < e then None
                 else checked_mul (rd32 params (unat off)) elem)"

text \<open>The tracer's copy of the pointer table, with the offsets of the compiled bindings.\<close>

definition ctrl_nested_compiled :: "u32 \<Rightarrow> (nat \<times> nat \<times> u32) list" where
  "ctrl_nested_compiled cmd =
    (if cmd = 0x101 then [(8, 0, 1), (16, 0, 1), (24, 0, 1)]
     else if cmd = 0x20800802 then [(8, 0, 8)]
     else if cmd = 0x20801201 then [(8, 0, 8)]
     else if cmd = 0x20801301 then [(8, 0, 8)]
     else if cmd = 0x20801802 then [(8, 0, 8)]
     else if cmd = 0x801104 then [(8, 0, 8)]
     else if cmd = 0x20800123 then [(8, 0, 4)]
     else if cmd = 0x800201 then [(8, 0, 4)]
     else if cmd = 0x80170d then [(8, 0, 4), (16, 0, 4)]
     else if cmd = 0x801102 then [(8, 0, 1)]
     else if cmd = 0x801301 then [(8, 0, 1)]
     else if cmd = 0x801701 then [(8, 0, 1)]
     else if cmd = 0x801b01 then [(8, 0, 1)]
     else [])"

definition alloc_param_size_compiled :: "rm_abi \<Rightarrow> u32 \<Rightarrow> nat option" where
  "alloc_param_size_compiled A hclass =
    (if hclass \<in> set [0x003e, 0x0040, 0x50a0, 0x90ce] then Some 128
     else if hclass = 0x0071 then Some 40
     else if hclass = 0x0080 then Some 56
     else if hclass = 0x90f1 then Some 56
     else if hclass = 0xa06c then Some (abi_tsg_size A)
     else if hclass = 0x9067 then Some 12
     else if hclass \<in> set [0x906f, 0xa06f, 0xa16f, 0xb06f, 0xc06f, 0xc36f, 0xc46f, 0xc56f, 0xc86f,
       0xc96f, 0xca6f] then Some (abi_alloc_channel_size A)
     else if hclass \<in> set [0x902d, 0xa140, 0xc597, 0xc5c0, 0xc697, 0xc6c0, 0xc797, 0xc7c0, 0xc997,
       0xc9c0, 0xcb97, 0xcbc0, 0xcd40, 0xcd97, 0xcdc0, 0xce97, 0xcec0] then Some 16
     else if hclass \<in> set [0xb8b0, 0xc4b0, 0xc6b0, 0xc7b0, 0xc9b0, 0xcdb0, 0xceb0, 0xcfb0, 0xd1b0,
       0xd2b0] then Some 12
     else if hclass \<in> set [0xb4b7, 0xc4b7, 0xc7b7, 0xc9b7, 0xceb7, 0xcfb7, 0xd1b7] then Some 12
     else if hclass \<in> set [0xb8fa, 0xc6fa, 0xc7fa, 0xc9fa, 0xcdfa, 0xcefa, 0xcffa, 0xd1fa, 0xd2fa]
       then Some 12
     else if hclass \<in> set [0xb8d1, 0xc4d1, 0xc9d1, 0xcdd1, 0xced0, 0xcfd1, 0xd2d1] then Some 12
     else if hclass = 0x0002 then Some 32
     else if hclass \<in> set [0x0005, 0x0078, 0x0079, 0x007e] then Some 24
     else if hclass = 0x2080 then Some 4
     else if hclass \<in> set [0xc661, 0xc761] then Some 2
     else if hclass \<in> set [0xc763, 0xc863] then Some 528
     else if hclass \<in> set [0xb0b5, 0xc0b5, 0xc5b5, 0xc6b5, 0xc7b5, 0xc8b5, 0xc9b5, 0xcab5] then Some 8
     else if hclass = 0x0070 then Some 24
     else if hclass = 0x9072 then Some 12
     else if hclass = 0x2081 then Some 4
     else if hclass = 0x00fe then Some 24
     else if hclass = 0x00de then Some 8
     else if hclass = 0xcb33 then Some 4
     else if hclass = 0x83de then Some 12
     else if hclass = 0x00da then Some 16
     else if hclass = 0xc640 then Some 8
     else if hclass = 0xa0bc then Some 20
     else if hclass = 0x00c2 then Some 24
     else if hclass = 0x00c3 then Some 4
     else None)"

section \<open>Facts about the tables\<close>

lemma uvm_param_size_for_eq:
  assumes "A \<in> set supported_abis"
  shows "uvm_param_size_for A cmd =
    (if cmd = UVM_FREE then Some (word_of_nat (abi_uvm_free_size A))
     else if cmd = UVM_UNREGISTER_CHANNEL then Some (word_of_nat (abi_uvm_unregister_channel_size A))
     else uvm_param_size cmd)"
  using assms
  by (auto simp: abi_defs uvm_param_size_for_def uvm_param_size_compiled_def uvm_param_size_def
      esc_defs)

lemma fd_field_offset_in_uvm_payload:
  assumes "A \<in> set supported_abis" "is_uvm d" "uvm_param_size_for A nr = Some n"
    "fd_field_offset d nr n = Some off"
  shows "unat off + 4 \<le> unat n"
  using assms unfolding uvm_param_size_for_eq [OF assms(1)]
  by (auto simp: fd_field_offset_def uvm_param_size_def esc_defs split: if_splits)

lemma fd_field_offset_in_frontend_payload:
  assumes "\<not> is_uvm d" "frontend_size nr = Some r" "accepts r n" "fd_field_offset d nr n = Some off"
  shows "unat off + 4 \<le> unat n"
  using assms by (auto simp: fd_field_offset_def frontend_size_def esc_defs split: if_splits)

lemma nested_ptrs_bound: "length (nested_ptrs cmd) \<le> MAX_NESTED"
  by (simp add: nested_ptrs_def MAX_NESTED_def)

lemma nested_cmds_complete: "nested_ptrs cmd \<noteq> [] \<longleftrightarrow> cmd \<in> set nested_cmds"
  by (simp add: nested_ptrs_def nested_cmds_def)

lemma nested_not_blocked: "nested_ptrs cmd \<noteq> [] \<Longrightarrow> \<not> ctrl_blocked cmd"
  unfolding nested_cmds_complete by (auto simp: nested_cmds_def ctrl_blocked_def blocked_ctrls_def)

end
