(* ===== verification/Mirror.thy ===== *)
theory Mirror
  imports Xlate
begin

text \<open>
  \<^verbatim>\<open>crates/vhost-user-nvrm/src/mirror.rs\<close> (host descriptors behind guest-visible
  tokens) and \<^verbatim>\<open>guest_words.rs\<close> (checked guest addresses and lengths).

  The locale \<^verbatim>\<open>token_store\<close> is the contract of a store that hands out increasing
  tokens: a fresh token for every insertion, lookups that follow insertions and
  removals.  Its lemmas say what clients rely on: a token that is not live is never
  issued again, whatever sequence of operations follows.  The descriptor mirror is
  an interpretation here; the poll-source table of the device is another one.
\<close>

section \<open>Guest words\<close>

datatype guest_addr = GuestAddr (ga_get: u64)
datatype guest_len = GuestLen (gl_get: u64)

definition ga_end :: "guest_addr \<Rightarrow> guest_len \<Rightarrow> guest_addr option" where
  "ga_end a l = map_option GuestAddr (checked_add (ga_get a) (gl_get l))"

definition ga_offset_from :: "guest_addr \<Rightarrow> guest_addr \<Rightarrow> u64 option" where
  "ga_offset_from a base = checked_sub (ga_get a) (ga_get base)"

definition gl_is_zero :: "guest_len \<Rightarrow> bool" where
  "gl_is_zero l \<longleftrightarrow> gl_get l = 0"

definition gl_plus :: "guest_len \<Rightarrow> guest_len \<Rightarrow> guest_len option" where
  "gl_plus a b = map_option GuestLen (checked_add (gl_get a) (gl_get b))"

lemma ga_end_Some [checked_simps]:
  "ga_end a l = Some e \<longleftrightarrow>
    unat (ga_get a) + unat (gl_get l) < 2 ^ 64 \<and>
    unat (ga_get e) = unat (ga_get a) + unat (gl_get l)"
  by (cases e) (auto simp: ga_end_def checked_add_Some)

lemma ga_offset_from_end:
  "ga_end a l = Some e \<Longrightarrow> ga_offset_from e a = Some (gl_get l)"
  by (simp add: ga_end_Some ga_offset_from_def checked_sub_Some)

lemma gl_plus_Some [checked_simps]:
  "gl_plus a b = Some c \<longleftrightarrow>
    unat (gl_get a) + unat (gl_get b) < 2 ^ 64 \<and>
    unat (gl_get c) = unat (gl_get a) + unat (gl_get b)"
  by (cases c) (auto simp: gl_plus_def checked_add_Some)

section \<open>Stores of increasing tokens\<close>

datatype 'e token_op = Issue 'e | Retire u64

fun token_run ::
  "('s \<Rightarrow> 'e \<Rightarrow> ('s \<times> u64) option) \<Rightarrow> ('s \<Rightarrow> u64 \<Rightarrow> 's) \<Rightarrow> 'e token_op list \<Rightarrow> 's \<Rightarrow> ('s \<times> u64 list) option"
where
  "token_run issue retire [] s = Some (s, [])"
| "token_run issue retire (Issue e # ops) s =
    (case issue s e of
       None \<Rightarrow> None
     | Some (s', t) \<Rightarrow> map_option (\<lambda>(s2, ts). (s2, t # ts)) (token_run issue retire ops s'))"
| "token_run issue retire (Retire t # ops) s = token_run issue retire ops (retire s t)"

locale token_store =
  fixes issue :: "'s \<Rightarrow> 'e \<Rightarrow> ('s \<times> u64) option"
    and retire :: "'s \<Rightarrow> u64 \<Rightarrow> 's"
    and lookup :: "'s \<Rightarrow> u64 \<Rightarrow> 'e option"
    and next_token :: "'s \<Rightarrow> u64"
    and inv :: "'s \<Rightarrow> bool"
  assumes issue_token: "inv s \<Longrightarrow> issue s e = Some (s', t) \<Longrightarrow> t = next_token s \<and> t < next_token s'"
    and issue_lookup: "inv s \<Longrightarrow> issue s e = Some (s', t) \<Longrightarrow>
      lookup s' x = (if x = t then Some e else lookup s x)"
    and issue_inv: "inv s \<Longrightarrow> issue s e = Some (s', t) \<Longrightarrow> inv s'"
    and retire_lookup: "inv s \<Longrightarrow> lookup (retire s t) x = (if x = t then None else lookup s x)"
    and retire_next: "inv s \<Longrightarrow> next_token (retire s t) = next_token s"
    and retire_inv: "inv s \<Longrightarrow> inv (retire s t)"
    and live_below: "inv s \<Longrightarrow> lookup s x = Some e \<Longrightarrow> x < next_token s"
begin

lemma run_inv:
  "inv s \<Longrightarrow> token_run issue retire ops s = Some (s', ts) \<Longrightarrow>
    inv s' \<and> next_token s \<le> next_token s'"
proof (induction ops arbitrary: s ts)
  case (Cons op ops)
  show ?case
  proof (cases op)
    case (Issue e)
    then obtain s1 t ts' where i: "issue s e = Some (s1, t)"
      "token_run issue retire ops s1 = Some (s', ts')"
      using Cons.prems(2) by (auto split: option.splits)
    have "inv s1" "next_token s < next_token s1"
      using issue_inv issue_token Cons.prems(1) i(1) by blast+
    then show ?thesis using Cons.IH i(2) by fastforce
  next
    case (Retire t)
    then show ?thesis using Cons retire_inv retire_next by fastforce
  qed
qed auto

lemma run_issued:
  "inv s \<Longrightarrow> token_run issue retire ops s = Some (s', ts) \<Longrightarrow>
    (\<forall>t \<in> set ts. next_token s \<le> t) \<and> sorted_wrt (<) ts"
proof (induction ops arbitrary: s ts)
  case (Cons op ops)
  show ?case
  proof (cases op)
    case (Issue e)
    then obtain s1 t ts' where i: "issue s e = Some (s1, t)"
      "token_run issue retire ops s1 = Some (s', ts')" and ts: "ts = t # ts'"
      using Cons.prems(2) by (auto split: option.splits)
    have s1: "inv s1" "t = next_token s" "t < next_token s1"
      using issue_inv issue_token Cons.prems(1) i(1) by blast+
    then show ?thesis using Cons.IH [OF s1(1) i(2)] ts by fastforce
  next
    case (Retire t)
    then show ?thesis
      using Cons.IH [of "retire s t" ts] Cons.prems retire_inv retire_next by simp
  qed
qed auto

lemma run_stale:
  "inv s \<Longrightarrow> token_run issue retire ops s = Some (s', ts) \<Longrightarrow> x < next_token s \<Longrightarrow>
    lookup s x = None \<Longrightarrow> lookup s' x = None"
proof (induction ops arbitrary: s ts)
  case (Cons op ops)
  show ?case
  proof (cases op)
    case (Issue e)
    then obtain s1 t ts' where i: "issue s e = Some (s1, t)"
      "token_run issue retire ops s1 = Some (s', ts')"
      using Cons.prems(2) by (auto split: option.splits)
    have s1: "inv s1" "t = next_token s" "next_token s < next_token s1"
      using issue_inv issue_token Cons.prems(1) i(1) by blast+
    moreover have "lookup s1 x = None"
      using issue_lookup [OF Cons.prems(1) i(1)] Cons.prems(3,4) s1 by auto
    ultimately show ?thesis using Cons.IH [OF s1(1) i(2)] Cons.prems(3) by auto
  next
    case (Retire t)
    then show ?thesis
      using Cons.IH [of "retire s t" ts] Cons.prems retire_inv retire_next retire_lookup by simp
  qed
qed auto

end

section \<open>The descriptor mirror\<close>

record mirror_entry =
  me_fd :: i32
  me_kind :: dev

record mirror =
  mi_next :: u64
  mi_map :: "(u64 \<times> mirror_entry) list"

definition mirror_new :: mirror where
  "mirror_new = \<lparr> mi_next = 1, mi_map = [] \<rparr>"

text \<open>\<^verbatim>\<open>None\<close> is the panic of \<^verbatim>\<open>expect("FD token space exhausted")\<close>.\<close>

definition mirror_insert :: "mirror \<Rightarrow> mirror_entry \<Rightarrow> (mirror \<times> u64) option" where
  "mirror_insert m e =
    (let tok = mi_next m in
     case checked_add tok 1 of
       None \<Rightarrow> None
     | Some n \<Rightarrow> Some (\<lparr> mi_next = n, mi_map = AList.update tok e (mi_map m) \<rparr>, tok))"

definition mirror_raw :: "mirror \<Rightarrow> u64 \<Rightarrow> i32 option" where
  "mirror_raw m token = map_option me_fd (map_of (mi_map m) token)"

definition mirror_kind :: "mirror \<Rightarrow> u64 \<Rightarrow> dev option" where
  "mirror_kind m token = map_option me_kind (map_of (mi_map m) token)"

definition mirror_remove :: "mirror \<Rightarrow> u64 \<Rightarrow> mirror" where
  "mirror_remove m token = m\<lparr> mi_map := AList.delete token (mi_map m) \<rparr>"

definition mirror_len :: "mirror \<Rightarrow> nat" where
  "mirror_len m = length (mi_map m)"

definition mirror_is_empty :: "mirror \<Rightarrow> bool" where
  "mirror_is_empty m \<longleftrightarrow> mi_map m = []"

definition mirror_ever :: "mirror \<Rightarrow> nat" where
  "mirror_ever m = unat (mi_next m - 1)"

definition mirror_inv :: "mirror \<Rightarrow> bool" where
  "mirror_inv m \<longleftrightarrow> dkeys (mi_map m) \<and> 0 < mi_next m \<and>
     list_all (\<lambda>(t, _). 0 < t \<and> t < mi_next m) (mi_map m)"

lemma mirror_inv_new: "mirror_inv mirror_new"
  by (simp add: mirror_inv_def mirror_new_def)

lemma mirror_insert_Some:
  "mirror_insert m e = Some (m', t) \<longleftrightarrow>
    t = mi_next m \<and> checked_add t 1 = Some (mi_next m') \<and> mi_map m' = AList.update t e (mi_map m)"
  by (cases m') (auto simp: mirror_insert_def Let_def split: option.splits)

lemma mirror_insert_inv:
  assumes "mirror_inv m" "mirror_insert m e = Some (m', t)"
  shows "mirror_inv m'"
proof -
  have lt: "mi_next m < mi_next m'" using assms(2) by (auto simp: mirror_insert_Some checked_simps word_less_nat_alt)
  have "set (mi_map m') \<subseteq> insert (t, e) (set (mi_map m))"
    using assms(2) set_update_subset [of t e "mi_map m"] by (auto simp: mirror_insert_Some)
  then show ?thesis
    using assms lt by (fastforce simp: mirror_inv_def mirror_insert_Some list_all_iff)
qed

lemma mirror_remove_inv: "mirror_inv m \<Longrightarrow> mirror_inv (mirror_remove m t)"
  by (auto simp: mirror_inv_def mirror_remove_def list_all_iff)

interpretation mirror_tokens: token_store mirror_insert mirror_remove
  "\<lambda>m. map_of (mi_map m)" mi_next mirror_inv
proof
  fix s s' :: mirror and t x :: u64 and e e' :: mirror_entry
  assume i: "mirror_inv s"
  show "mirror_insert s e = Some (s', t) \<Longrightarrow> t = mi_next s \<and> t < mi_next s'"
    by (auto simp: mirror_insert_Some checked_simps word_less_nat_alt)
  show "mirror_insert s e = Some (s', t) \<Longrightarrow>
      map_of (mi_map s') x = (if x = t then Some e else map_of (mi_map s) x)"
    by (simp add: mirror_insert_Some)
  show "mirror_insert s e = Some (s', t) \<Longrightarrow> mirror_inv s'"
    using mirror_insert_inv i by blast
  show "map_of (mi_map (mirror_remove s t)) x = (if x = t then None else map_of (mi_map s) x)"
    by (simp add: mirror_remove_def)
  show "mi_next (mirror_remove s t) = mi_next s"
    by (simp add: mirror_remove_def)
  show "mirror_inv (mirror_remove s t)" using i by (rule mirror_remove_inv)
  show "map_of (mi_map s) x = Some e' \<Longrightarrow> x < mi_next s"
    using i by (auto simp: mirror_inv_def list_all_iff dest!: map_of_SomeD)
qed

end
