(* ===== verification/Vgpu.thy ===== *)
theory Vgpu
  imports Nvrm_Prelude
begin

text \<open>
  \<^verbatim>\<open>crates/nvrm-abi/src/vgpu.rs\<close>: parsing of sizes, the framebuffer profile one VM
  is charged for, the catalogue derived from a card and the admission rule.

  Arithmetic is at the width of the source and wraps as in a release build; the
  128-bit intermediate products of the source cannot overflow and are natural
  numbers.  Strings are ASCII.
\<close>

section \<open>Strings\<close>

definition is_ws :: "char \<Rightarrow> bool" where
  "is_ws c \<longleftrightarrow> (of_char c :: nat) \<in> set [9, 10, 11, 12, 13, 32]"

definition is_digit :: "char \<Rightarrow> bool" where
  "is_digit c \<longleftrightarrow> (48::nat) \<le> of_char c \<and> (of_char c :: nat) \<le> 57"

definition trim :: "string \<Rightarrow> string" where
  "trim s = rev (dropWhile is_ws (rev (dropWhile is_ws s)))"

definition to_upper :: "string \<Rightarrow> string" where
  "to_upper s = map (\<lambda>c. if (97::nat) \<le> of_char c \<and> (of_char c :: nat) \<le> 122
                         then char_of ((of_char c :: nat) - 32) else c) s"

definition strip_prefix :: "string \<Rightarrow> string \<Rightarrow> string option" where
  "strip_prefix p s = (if take (length p) s = p then Some (drop (length p) s) else None)"

definition digits_val :: "string \<Rightarrow> nat" where
  "digits_val s = foldl (\<lambda>acc c. acc * 10 + (of_char c - 48)) 0 s"

text \<open>\<^verbatim>\<open>str::parse::<u64>\<close>: an optional plus sign and at least one digit, refusing overflow.\<close>

definition parse_uint :: "nat \<Rightarrow> string \<Rightarrow> nat option" where
  "parse_uint w s =
    (let d = (case s of CHR ''+'' # r \<Rightarrow> r | _ \<Rightarrow> s) in
     if d \<noteq> [] \<and> list_all is_digit d \<and> digits_val d < 2 ^ w then Some (digits_val d) else None)"

fun dec_str :: "nat \<Rightarrow> string" where
  "dec_str n = (if n < 10 then [char_of (48 + n)] else dec_str (n div 10) @ [char_of (48 + n mod 10)])"

declare dec_str.simps [simp del]

section \<open>Sizes\<close>

definition MIB :: u64 where "MIB = 0x100000"
definition GIB :: u64 where "GIB = 0x40000000"

definition parse_mib :: "string \<Rightarrow> u64 option" where
  "parse_mib str =
    (let s = trim str; n = takeWhile is_digit s; unt = to_upper (trim (dropWhile is_digit s)) in
     case (if unt \<in> set [[], ''M'', ''MIB''] then Some (1 :: u64)
           else if unt \<in> set [''G'', ''GIB''] then Some 1024 else None) of
       None \<Rightarrow> None
     | Some scale \<Rightarrow>
         (case parse_uint 64 n of
            None \<Rightarrow> None
          | Some v \<Rightarrow> (case checked_mul (word_of_nat v) scale of
                         None \<Rightarrow> None
                       | Some m \<Rightarrow> if 0 < m then Some m else None)))"

definition encoder_share :: "u64 \<Rightarrow> u64 \<Rightarrow> u32" where
  "encoder_share fb_length tot =
    (if tot = 0 then 0
     else word_of_nat (max 1 (min 100 (100 * unat fb_length div unat tot))))"

definition align_up :: "u64 \<Rightarrow> u64 \<Rightarrow> u64" where
  "align_up v a = (if a = 0 then v else word_of_nat (cdiv (unat v) (unat a)) * a)"

definition align_down :: "u64 \<Rightarrow> u64 \<Rightarrow> u64" where
  "align_down v a = (if a = 0 then v else v div a * a)"

section \<open>Profiles and catalogue\<close>

record vprofile =
  vp_name :: string
  vp_max_instance :: u32
  vp_profile_size :: u64
  vp_reservation :: u64
  vp_fb_length :: u64
  vp_segments :: u64
  vp_encoder_capacity :: u32

record catalogue =
  ct_board :: string
  ct_total :: u64
  ct_usable :: u64
  ct_segment :: u64
  ct_overhead :: u64
  ct_profiles :: "vprofile list"

definition available :: "catalogue \<Rightarrow> u64" where
  "available c = (if ct_segment c = 0 then ct_total c else align_up (ct_total c) (8 * ct_segment c))"

definition profile_for :: "catalogue \<Rightarrow> string \<Rightarrow> u64 \<Rightarrow> vprofile option" where
  "profile_for c name fb_length =
    (let av = available c in
     case checked_sub av (saturating_sub (ct_total c) (ct_usable c)) of
       None \<Rightarrow> None
     | Some usable \<Rightarrow>
     (case checked_add fb_length (ct_overhead c) of
        None \<Rightarrow> None
      | Some need \<Rightarrow>
        if fb_length = 0 \<or> usable < need then None
        else
          (let cost = align_up (word_of_nat (cdiv (unat need * unat av) (unat usable))) MIB in
           Some \<lparr> vp_name = name, vp_max_instance = ucast (av div cost),
                  vp_profile_size = cost, vp_reservation = cost - fb_length,
                  vp_fb_length = fb_length,
                  vp_segments = (if ct_segment c = 0 then 0 else fb_length div ct_segment c),
                  vp_encoder_capacity = encoder_share fb_length (ct_total c) \<rparr>)))"

definition derive_row :: "catalogue \<Rightarrow> u64 \<Rightarrow> vprofile list" where
  "derive_row c count =
    (let av = available c;
         carve_out = saturating_sub (ct_total c) (ct_usable c);
         share = av div count in
     if share mod GIB \<noteq> 0 \<or> share = 0 then []
     else
       (let reserved = word_of_nat (cdiv (unat carve_out * unat share) (unat av));
            fb = align_down
                   (saturating_sub share (align_up (reserved + ct_overhead c) (ct_segment c)))
                   (ct_segment c) in
        if fb = 0 \<or> ct_usable c < fb * count then []
        else case profile_for c (ct_board c @ ''-'' @ dec_str (unat (share div GIB)) @ ''Q'') fb of
               None \<Rightarrow> [] | Some row \<Rightarrow> [row]))"

definition derive :: "string \<Rightarrow> u64 \<Rightarrow> u64 \<Rightarrow> u64 \<Rightarrow> u64 \<Rightarrow> catalogue" where
  "derive board tot usable segment overhead =
    (let cat = \<lparr> ct_board = board, ct_total = tot, ct_usable = usable, ct_segment = segment,
                 ct_overhead = overhead, ct_profiles = [] \<rparr> in
     if segment = 0 \<or> tot = 0 then cat
     else cat\<lparr> ct_profiles := concat (map (derive_row cat) [1, 2, 4, 8, 16]) \<rparr>)"

definition admits :: "catalogue \<Rightarrow> u64 list \<Rightarrow> u64 \<Rightarrow> bool" where
  "admits c live want \<longleftrightarrow> sum_list live + want \<le> available c"

definition resolve :: "catalogue \<Rightarrow> string \<Rightarrow> vprofile option" where
  "resolve c want =
    (let board = to_upper (ct_board c) @ ''-'';
         w = to_upper (trim want);
         short = (case strip_prefix board w of Some r \<Rightarrow> r | None \<Rightarrow> w) in
     case find (\<lambda>p. to_upper (vp_name p) = board @ short) (ct_profiles c) of
       Some p \<Rightarrow> Some p
     | None \<Rightarrow>
       (case parse_mib short of
          None \<Rightarrow> None
        | Some mib \<Rightarrow>
          (case checked_mul mib MIB of
             None \<Rightarrow> None
           | Some fb_length \<Rightarrow>
             profile_for c
               (ct_board c @ ''-'' @
                (if mib mod 1024 = 0 then dec_str (unat (mib div 1024)) @ ''G''
                 else dec_str (unat mib) @ ''M''))
               fb_length)))"

section \<open>What a profile costs\<close>

lemma unat_align_up:
  assumes "a \<noteq> 0" "unat v + unat a \<le> 2 ^ 64"
  shows "unat (align_up v a) = cdiv (unat v) (unat a) * unat a"
proof -
  have a: "0 < unat a" using assms(1) by (simp add: unat_gt_0)
  have lt: "cdiv (unat v) (unat a) * unat a < 2 ^ 64"
    using cdiv_lower [OF a, of "unat v"] assms(2) by linarith
  have "cdiv (unat v) (unat a) \<le> unat v" using a by (simp add: cdiv_le_iff)
  also have "unat v < 2 ^ 64" using unsigned_less [of v] by simp
  finally have "cdiv (unat v) (unat a) < 2 ^ 64" .
  then show ?thesis
    using assms(1) lt by (simp add: align_up_def unat_word_ariths unat_of_nat)
qed


lemma unat_MIB: "unat MIB = 2 ^ 20"
  by (simp add: MIB_def)

definition carve :: "catalogue \<Rightarrow> nat" where
  "carve c = unat (ct_total c) - unat (ct_usable c)"

text \<open>The price of \<^verbatim>\<open>fb\<close> bytes of guest framebuffer, as the documentation states it.\<close>

definition price :: "catalogue \<Rightarrow> nat \<Rightarrow> nat" where
  "price c fb =
    cdiv (cdiv ((fb + unat (ct_overhead c)) * unat (available c)) (unat (available c) - carve c)) (2 ^ 20)
      * 2 ^ 20"

lemma profile_for_price:
  assumes "profile_for c name fb = Some p" "unat (available c) + 2 ^ 20 \<le> 2 ^ 64"
  shows "unat (vp_profile_size p) = price c (unat fb)"
    and "unat fb + unat (ct_overhead c) \<le> unat (available c) - carve c"
    and "carve c \<le> unat (available c)" and "0 < unat fb" and "vp_fb_length p = fb"
proof -
  obtain usable need where
    u: "checked_sub (available c) (saturating_sub (ct_total c) (ct_usable c)) = Some usable" and
    n: "checked_add fb (ct_overhead c) = Some need" and
    g: "fb \<noteq> 0" "need \<le> usable" and
    p: "vp_profile_size p = align_up (word_of_nat (cdiv (unat need * unat (available c)) (unat usable))) MIB"
       "vp_fb_length p = fb"
    using assms(1) by (auto simp: profile_for_def Let_def not_less split: option.splits if_splits)
  have us: "unat usable = unat (available c) - carve c" "carve c \<le> unat (available c)"
    using u by (auto simp: checked_simps carve_def)
  have ne: "unat need = unat fb + unat (ct_overhead c)" using n by (auto simp: checked_simps)
  have fb: "0 < unat fb" using g(1) by (simp add: unat_gt_0)
  have le: "unat need \<le> unat usable" using g(2) by (simp add: word_le_nat_alt)
  have up: "0 < unat usable" using le ne fb by linarith
  have q: "cdiv (unat need * unat (available c)) (unat usable) \<le> unat (available c)"
    using le up by (simp add: cdiv_le_iff mult.commute)
  have "unat (available c) < 2 ^ 64" using unsigned_less [of "available c"] by simp
  then have qq: "unat (word_of_nat (cdiv (unat need * unat (available c)) (unat usable)) :: u64)
      = cdiv (unat need * unat (available c)) (unat usable)"
    using q by (simp add: unat_of_nat)
  show "unat (vp_profile_size p) = price c (unat fb)"
    using p(1) qq q assms(2) us ne
    by (simp add: unat_align_up unat_MIB price_def MIB_def)
  show "unat fb + unat (ct_overhead c) \<le> unat (available c) - carve c"
    using le ne us by simp
qed (use assms in \<open>auto simp: profile_for_def Let_def carve_def checked_simps unat_gt_0 split: option.splits if_splits\<close>)

lemma price_covers:
  assumes "carve c < unat (available c)"
  shows "(fb + unat (ct_overhead c)) * unat (available c) \<le> price c fb * (unat (available c) - carve c)"
proof -
  let ?u = "unat (available c) - carve c"
  let ?q = "cdiv ((fb + unat (ct_overhead c)) * unat (available c)) ?u"
  have "(fb + unat (ct_overhead c)) * unat (available c) \<le> ?q * ?u"
    using assms by (simp add: cdiv_upper)
  also have "?q \<le> price c fb" unfolding price_def by (rule cdiv_upper) simp
  finally show ?thesis by (simp add: mult_le_mono1)
qed


lemma sum_list_word_unat:
  "sum_list (map unat (ws :: u64 list)) < 2 ^ 64 \<Longrightarrow> unat (sum_list ws) = sum_list (map unat ws)"
  by (induction ws) (simp_all add: unat_add_bounded)

lemma prices_cover:
  assumes "carve c < unat (available c)"
  shows "sum_list (map (\<lambda>fb. fb + unat (ct_overhead c)) fbs) * unat (available c)
    \<le> sum_list (map (price c) fbs) * (unat (available c) - carve c)"
proof (induction fbs)
  case (Cons fb fbs)
  then show ?case using price_covers [OF assms, of fb] by (simp add: add_mult_distrib)
qed simp

lemma unat_align_down_le: "unat (align_down v a) \<le> unat v"
proof (cases "a = 0")
  case False
  have "unat (v div a) * unat a \<le> unat v" by (simp add: unat_div)
  moreover have "unat v < 2 ^ 64" using unsigned_less [of v] by simp
  ultimately show ?thesis using False by (simp add: align_down_def unat_word_ariths)
qed (simp add: align_down_def)

lemma price_within_share:
  fixes A share reserved fb :: nat
  assumes A: "A = unat (available c)" and C: "carve c < A"
    and r: "carve c * share \<le> reserved * A"
    and fit: "fb + unat (ct_overhead c) + reserved \<le> share"
    and g: "2 ^ 20 dvd share"
  shows "price c fb \<le> share"
proof -
  let ?need = "fb + unat (ct_overhead c)"
  have "(?need + reserved) * A \<le> share * A" using fit by (rule mult_le_mono1)
  then have "?need * A + reserved * A \<le> share * A" by (simp only: add_mult_distrib)
  then have "?need * A \<le> share * A - carve c * share" using r by linarith
  also have "\<dots> = share * (A - carve c)" by (simp add: diff_mult_distrib2 mult.commute)
  finally have q: "cdiv (?need * A) (A - carve c) \<le> share" using C by (simp add: cdiv_le_iff)
  obtain k where k: "share = 2 ^ 20 * k" using g by (auto elim: dvdE)
  have "cdiv (cdiv (?need * A) (A - carve c)) (2 ^ 20) \<le> k"
    using q k by (simp add: cdiv_le_iff mult.commute)
  then have "cdiv (cdiv (?need * A) (A - carve c)) (2 ^ 20) * 2 ^ 20 \<le> k * 2 ^ 20"
    by (rule mult_le_mono1)
  then show ?thesis using k A by (simp add: price_def mult.commute)
qed

text \<open>C32: The memory rule of the catalogue is sound: profiles that were all priced by
  \<^verbatim>\<open>profile_for\<close> and that \<^verbatim>\<open>admits\<close> accepts together never need more than what the
  card has left.  The sum over all admitted VMs of guest framebuffer plus host overhead is
  at most the available memory minus the card's own carve-out.  (The sum of the sizes is
  assumed not to wrap at 64 bits.)\<close>

theorem admitted_profiles_fit:
  assumes "unat (available c) + 2 ^ 20 \<le> 2 ^ 64"
    and "\<And>p. p \<in> set ps \<Longrightarrow> profile_for c (vp_name p) (vp_fb_length p) = Some p"
    and "profile_for c name fb = Some q"
    and "sum_list (map (unat \<circ> vp_profile_size) (q # ps)) < 2 ^ 64"
    and "admits c (map vp_profile_size ps) (vp_profile_size q)"
  shows "sum_list (map (\<lambda>p. unat (vp_fb_length p) + unat (ct_overhead c)) (q # ps))
    \<le> unat (available c) - carve c"
proof -
  let ?A = "unat (available c)"
  have pr: "unat (vp_profile_size p) = price c (unat (vp_fb_length p))" if "p \<in> set (q # ps)" for p
    using that assms(1-3) profile_for_price(1,5) by (metis set_ConsD)
  have C: "carve c < ?A"
    using profile_for_price(2-4) [OF assms(3,1)] by linarith
  have sum: "sum_list (map (unat \<circ> vp_profile_size) (q # ps))
      = sum_list (map (price c) (map (unat \<circ> vp_fb_length) (q # ps)))"
    using pr by (simp add: comp_def cong: map_cong)
  have "unat (sum_list (map vp_profile_size ps) + vp_profile_size q)
      = sum_list (map (unat \<circ> vp_profile_size) (q # ps))"
    using assms(4) sum_list_word_unat [of "map vp_profile_size ps"]
    by (simp add: unat_add_bounded comp_def)
  then have le: "sum_list (map (price c) (map (unat \<circ> vp_fb_length) (q # ps))) \<le> ?A"
    using assms(5) sum by (simp add: admits_def word_le_nat_alt)
  have "sum_list (map (\<lambda>p. unat (vp_fb_length p) + unat (ct_overhead c)) (q # ps)) * ?A
      \<le> sum_list (map (price c) (map (unat \<circ> vp_fb_length) (q # ps))) * (?A - carve c)"
    using prices_cover [OF C, of "map (unat \<circ> vp_fb_length) (q # ps)"] by (simp add: comp_def)
  also have "\<dots> \<le> ?A * (?A - carve c)" using le by (rule mult_le_mono1)
  finally have "sum_list (map (\<lambda>p. unat (vp_fb_length p) + unat (ct_overhead c)) (q # ps)) * ?A
      \<le> (?A - carve c) * ?A" by (simp only: mult.commute)
  then show ?thesis using C by (simp only: mult_le_cancel2)
qed


definition sample_card :: catalogue where
  "sample_card = \<lparr> ct_board = ''RTX2070'', ct_total = 0x200000000, ct_usable = 0x1E0000000,
     ct_segment = 0x8000000, ct_overhead = 0x10000000, ct_profiles = [] \<rparr>"

lemma sample_available: "available sample_card = 0x200000000"
  by (simp add: available_def sample_card_def align_up_def cdiv_def)

definition sample_row :: vprofile where
  "sample_row = \<lparr> vp_name = ''RTX2070-3G'', vp_max_instance = 2,
     vp_profile_size = 0xDDE00000, vp_reservation = 0x1DE00000, vp_fb_length = 0xC0000000,
     vp_segments = 24, vp_encoder_capacity = 37 \<rparr>"

lemma sample_row_eq: "profile_for sample_card ''RTX2070-3G'' 0xC0000000 = Some sample_row"
  by (simp add: profile_for_def sample_available, simp add: sample_card_def sample_row_def checked_sub_def
      saturating_sub_def checked_add_def align_up_def MIB_def cdiv_def encoder_share_def Let_def)


theorem admitted_profiles_fit_witness:
  "sum_list (map (\<lambda>p. unat (vp_fb_length p) + unat (ct_overhead sample_card)) [sample_row, sample_row])
    \<le> unat (available sample_card) - carve sample_card"
  by (rule admitted_profiles_fit [OF _ _ sample_row_eq])
    (simp_all add: sample_available admits_def, simp_all add: sample_row_def sample_row_eq [unfolded sample_row_def])

lemma derive_row_reserved:
  assumes "0 < A" shows "C * share \<le> cdiv (C * share) A * A"
  using cdiv_upper [OF assms] .

text \<open>C33: Every named profile of a derived catalogue costs no more than the share of the card
  it is named after, so as many of them fit as the share count says: for a row derived for
  \<^verbatim>\<open>count\<close> instances, the charged size is at most the available memory divided by
  \<^verbatim>\<open>count\<close>, and \<^verbatim>\<open>count\<close> guest framebuffers fit the usable heap.\<close>

theorem derived_profile_within_share:
  assumes "p \<in> set (derive_row c count)" "count \<noteq> 0" "ct_segment c \<noteq> 0"
    and "unat (available c) < 2 ^ 62" "unat (ct_overhead c) < 2 ^ 62" "unat (ct_segment c) < 2 ^ 62"
  shows "unat (vp_profile_size p) \<le> unat (available c) div unat count \<and>
    vp_fb_length p * count \<le> ct_usable c"
proof -
  let ?A = "unat (available c)" and ?C = "carve c"
  define share where "share = available c div count"
  define reserved where "reserved = (word_of_nat (cdiv (?C * unat share) ?A) :: u64)"
  define R where "R = align_up (reserved + ct_overhead c) (ct_segment c)"
  define fb where "fb = align_down (saturating_sub share R) (ct_segment c)"
  have co: "unat (saturating_sub (ct_total c) (ct_usable c)) = ?C"
    by (simp add: checked_simps carve_def)
  obtain name where
    g: "share mod GIB = 0" "share \<noteq> 0" "fb \<noteq> 0" "fb * count \<le> ct_usable c" and
    pf: "profile_for c name fb = Some p"
    using assms(1) co unfolding derive_row_def Let_def
    by (auto simp: share_def reserved_def R_def fb_def not_less split: if_splits option.splits)
  have sh: "unat share = ?A div unat count" by (simp add: share_def unat_div)
  have av: "?A + 2 ^ 20 \<le> 2 ^ 64" using assms(4) by simp
  note P = profile_for_price [OF pf av]
  have C: "?C < ?A" using P(2-4) by linarith
  have q: "cdiv (?C * unat share) ?A \<le> unat share" using C by (simp add: cdiv_le_iff)
  have shle: "unat share \<le> ?A" unfolding sh by (rule div_le_dividend)
  have r: "unat reserved = cdiv (?C * unat share) ?A"
    using q shle assms(4) by (simp add: reserved_def unat_of_nat)
  have ro: "unat (reserved + ct_overhead c) = unat reserved + unat (ct_overhead c)"
    using q r shle assms(4,5) by (intro unat_add_bounded) simp
  have sz: "0 < unat (ct_segment c)" using assms(3) by (simp add: unat_gt_0)
  have RR: "unat reserved + unat (ct_overhead c) \<le> unat R"
    using q r shle assms(3-6) ro cdiv_upper [OF sz, of "unat (reserved + ct_overhead c)"]
    unfolding R_def by (subst unat_align_up) auto
  have fble: "unat fb \<le> unat share - unat R"
    unfolding fb_def using unat_align_down_le [of "saturating_sub share R" "ct_segment c"]
    by (simp add: checked_simps)
  have "0 < unat fb" using g(3) by (simp add: unat_gt_0)
  then have fit: "unat fb + unat (ct_overhead c) + unat reserved \<le> unat share"
    using fble RR by linarith
  have "2 ^ 30 dvd unat share"
  proof -
    have "unat (share mod GIB) = 0" using g(1) by simp
    then show ?thesis by (simp add: unat_mod GIB_def mod_eq_0_iff_dvd)
  qed
  then have "2 ^ 20 dvd unat share" by (rule dvd_trans [rotated]) (simp add: le_imp_power_dvd)
  then have "price c (unat fb) \<le> unat share"
    using price_within_share [OF refl C _ fit] r C by (simp add: cdiv_upper)
  then show ?thesis using P(1,5) sh g(4) by simp
qed

theorem derived_profile_within_share_witness:
  "\<exists>p. derive_row sample_card 4 = [p] \<and>
    unat (vp_profile_size p) \<le> unat (available sample_card) div unat (4 :: u64) \<and>
    vp_fb_length p * 4 \<le> ct_usable sample_card"
proof -
  have "derive_row sample_card 4 \<noteq> []"
    by (simp add: derive_row_def profile_for_def sample_available Let_def)
      (simp add: sample_card_def checked_sub_def saturating_sub_def checked_add_def align_up_def
        align_down_def GIB_def MIB_def cdiv_def)
  then obtain p where p: "derive_row sample_card 4 = [p]"
    by (auto simp: derive_row_def Let_def split: if_splits option.splits)
  then show ?thesis
    using derived_profile_within_share [of p sample_card 4]
    by (simp add: sample_available) (simp add: sample_card_def)
qed

end
