(* ===== verification/Policy.thy ===== *)
theory Policy
  imports Vgpu
begin

text \<open>
  The startup policy of \<^verbatim>\<open>crates/vhost-user-nvrm/src/vram.rs\<close>: how the environment
  decides the memory profile of a VM (\<^verbatim>\<open>Policy\<close>, \<^verbatim>\<open>Profile\<close>, \<^verbatim>\<open>decide\<close>).  Error and
  note messages are values of a datatype carrying what the message prints.
\<close>

section \<open>Policies and profiles\<close>

datatype policy = Off | Accounting | Reserved | Grid

fun knob :: "policy \<Rightarrow> string" where
  "knob Off = ''no cap''"
| "knob Accounting = ''LEA_VRAM_LIMIT_MIB''"
| "knob Reserved = ''LEA_VRAM_PROFILE_MIB''"
| "knob Grid = ''LEA_VGPU_TYPE''"

record profile =
  pf_policy :: policy
  pf_size :: u64
  pf_reservation :: u64
  pf_fb_length :: u64
  pf_vgpu_type :: string
  pf_encoder_capacity :: u32

definition profile_OFF :: profile where
  "profile_OFF = \<lparr> pf_policy = Off, pf_size = 0, pf_reservation = 0, pf_fb_length = 0,
     pf_vgpu_type = [], pf_encoder_capacity = 0 \<rparr>"

definition profile_accounting :: "u64 \<Rightarrow> profile" where
  "profile_accounting n =
    (if n = 0 then profile_OFF
     else \<lparr> pf_policy = Accounting, pf_size = n, pf_reservation = 0, pf_fb_length = n,
            pf_vgpu_type = [], pf_encoder_capacity = 0 \<rparr>)"

section \<open>Deciding the policy\<close>

datatype env_var = LimitMib | ProfileMib | ReserveMib | VgpuProfileMib | VgpuFbMib

datatype unusable = ExceedsRange env_var string | NotANumber env_var string "u64 option"

datatype decide_error =
    Unusable "unusable list"
  | ThreePolicies string
  | TypeNeedsNumbers string
  | FbNotSmaller string u64 u64
  | BothSet u64 u64
  | ReservationTooLarge u64 u64

datatype startup_note = NumbersWithoutType | ReserveWithoutProfile

record raw_env =
  re_limit :: "string option"
  re_profile :: "string option"
  re_reserve :: "string option"
  re_vgpu_type :: "string option"
  re_vgpu_profile :: "string option"
  re_vgpu_fb :: "string option"
  re_vgpu_encoder :: "string option"
  re_card_total :: u64

abbreviation (input) DEFAULT_RESERVATION_MIB :: u64 where
  "DEFAULT_RESERVATION_MIB \<equiv> 256"

text \<open>The closure \<^verbatim>\<open>mib\<close>: what it pushes onto \<^verbatim>\<open>unusable\<close>, and the value.\<close>

definition env_mib :: "env_var \<Rightarrow> string option \<Rightarrow> unusable list \<times> u64 option" where
  "env_mib name raw =
    (case raw of
       None \<Rightarrow> ([], None)
     | Some s \<Rightarrow>
         if trim s = [] then ([], None)
         else (case parse_uint 64 (trim s) of
                 Some v \<Rightarrow>
                   if v = 0 then ([], None)
                   else if v \<le> (2 ^ 64 - 1) div 2 ^ 20 then ([], Some (word_of_nat v))
                   else ([ExceedsRange name s], None)
               | None \<Rightarrow> ([NotANumber name s (parse_mib s)], None)))"

definition decide_encoder :: "raw_env \<Rightarrow> u64 \<Rightarrow> u32" where
  "decide_encoder env fb =
    (if re_card_total env \<noteq> 0 then encoder_share (push_bit 20 fb) (re_card_total env)
     else case re_vgpu_encoder env of
            None \<Rightarrow> 0
          | Some v \<Rightarrow> (case parse_uint 32 (trim v) of
                         None \<Rightarrow> 0
                       | Some p \<Rightarrow> if 1 \<le> p \<and> p \<le> 100 then word_of_nat p else 0))"

text \<open>
  The selection between the three policies: \<^verbatim>\<open>Inr (notes, None)\<close> is the early
  \<^verbatim>\<open>return Ok((Profile::OFF, notes))\<close>, otherwise policy, size, framebuffer and label.
\<close>

definition decide_select ::
  "raw_env \<Rightarrow> u64 option \<Rightarrow> u64 option \<Rightarrow> u64 option \<Rightarrow> u64 option \<Rightarrow> u64 option \<Rightarrow>
   decide_error + startup_note list \<times> (policy \<times> u64 \<times> u64 \<times> string) option"
where
  "decide_select env limit psize reserve vgpu_profile vgpu_fb =
    (case (case map_option trim (re_vgpu_type env) of
             Some t \<Rightarrow> if t = [] then None else Some t | None \<Rightarrow> None) of
       Some t \<Rightarrow>
         if limit \<noteq> None \<or> psize \<noteq> None then Inl (ThreePolicies t)
         else (case (vgpu_profile, vgpu_fb) of
                 (Some p, Some f) \<Rightarrow>
                   if p \<le> f then Inl (FbNotSmaller t f p) else Inr ([], Some (Grid, p, f, t))
               | _ \<Rightarrow> Inl (TypeNeedsNumbers t))
     | None \<Rightarrow>
         (let notes = (if vgpu_profile \<noteq> None \<or> vgpu_fb \<noteq> None then [NumbersWithoutType] else []) in
          case (limit, psize) of
            (Some l, Some p) \<Rightarrow> Inl (BothSet l p)
          | (None, Some sz) \<Rightarrow>
              (let reservation = (case reserve of Some r \<Rightarrow> r | None \<Rightarrow> DEFAULT_RESERVATION_MIB) in
               if sz \<le> reservation then Inl (ReservationTooLarge reservation sz)
               else Inr (notes, Some (Reserved, sz, sz - reservation, [])))
          | (_, None) \<Rightarrow>
              (let notes2 = notes @ (if reserve \<noteq> None then [ReserveWithoutProfile] else []) in
               case limit of
                 None \<Rightarrow> Inr (notes2, None)
               | Some l \<Rightarrow> Inr (notes2, Some (Accounting, l, l, [])))))"

definition decide :: "raw_env \<Rightarrow> decide_error + profile \<times> startup_note list" where
  "decide env =
    (let (e1, limit) = env_mib LimitMib (re_limit env);
         (e2, psize) = env_mib ProfileMib (re_profile env);
         (e3, reserve) = env_mib ReserveMib (re_reserve env);
         (e4, vgpu_profile) = env_mib VgpuProfileMib (re_vgpu_profile env);
         (e5, vgpu_fb) = env_mib VgpuFbMib (re_vgpu_fb env);
         unusable = e1 @ e2 @ e3 @ e4 @ e5 in
     if unusable \<noteq> [] then Inl (Unusable unusable)
     else case decide_select env limit psize reserve vgpu_profile vgpu_fb of
            Inl e \<Rightarrow> Inl e
          | Inr (notes, None) \<Rightarrow> Inr (profile_OFF, notes)
          | Inr (notes, Some (pol, sz, fb, label)) \<Rightarrow>
              Inr (\<lparr> pf_policy = pol, pf_size = push_bit 20 sz,
                     pf_reservation = push_bit 20 (sz - fb), pf_fb_length = push_bit 20 fb,
                     pf_vgpu_type = label, pf_encoder_capacity = decide_encoder env fb \<rparr>, notes))"

section \<open>What a decided profile promises\<close>

lemma env_mib_bound:
  "env_mib n raw = (es, Some v) \<Longrightarrow> 0 < unat v \<and> unat v < 2 ^ 44"
  by (auto simp: env_mib_def unat_of_nat split: option.splits if_splits)

lemma unat_push_20:
  assumes "unat (v :: u64) < 2 ^ 44"
  shows "unat (push_bit 20 v) = unat v * 2 ^ 20"
  using assms by (simp add: push_bit_eq_mult unat_word_ariths)

lemma encoder_share_le_100: "unat (encoder_share fb t) \<le> 100"
  by (simp add: encoder_share_def unat_of_nat)

lemma decide_encoder_le_100: "unat (decide_encoder env fb) \<le> 100"
  by (auto simp: decide_encoder_def encoder_share_le_100 unat_of_nat split: option.splits)

lemma decide_select_sizes:
  assumes "decide_select env limit psize reserve vp vf = Inr (notes, Some (pol, sz, fb, label))"
    and "\<And>v. limit = Some v \<or> psize = Some v \<or> vp = Some v \<or> vf = Some v \<Longrightarrow> 0 < unat v \<and> unat v < 2 ^ 44"
  shows "pol \<noteq> Off" "0 < unat fb" "fb \<le> sz" "unat sz < 2 ^ 44"
proof -
  have "pol \<noteq> Off \<and> 0 < unat fb \<and> fb \<le> sz \<and> unat sz < 2 ^ 44"
  proof (cases pol)
    case Reserved
    then obtain res where r: "psize = Some sz" "res < sz" "fb = sz - res"
      using assms(1) by (auto simp: decide_select_def Let_def not_le split: option.splits if_splits prod.splits)
    then have "unat fb = unat sz - unat res" by (simp add: unat_sub)
    moreover have "unat res < unat sz" using r(2) by (simp add: word_less_nat_alt)
    ultimately show ?thesis using Reserved assms(2) r(1) by (auto simp: word_le_nat_alt)
  qed (use assms in \<open>auto simp: decide_select_def Let_def not_le split: option.splits if_splits prod.splits\<close>)
  then show "pol \<noteq> Off" "0 < unat fb" "fb \<le> sz" "unat sz < 2 ^ 44" by auto
qed

text \<open>C31: Whatever the environment says, a profile the backend starts with is consistent:
  either it is exactly the uncapped profile, or the guest framebuffer is nonzero and
  framebuffer plus reservation is the profile size in bytes, with nothing lost in the
  conversion from MiB, and the encoder share is a percentage.\<close>

theorem decided_profile_consistent:
  assumes "decide env = Inr (p, notes)"
  shows "p = profile_OFF \<or>
    (pf_policy p \<noteq> Off \<and> 0 < pf_fb_length p \<and>
     unat (pf_fb_length p) + unat (pf_reservation p) = unat (pf_size p) \<and>
     2 ^ 20 dvd unat (pf_fb_length p) \<and> unat (pf_encoder_capacity p) \<le> 100)"
proof -
  obtain e1 e2 e3 e4 e5 limit psize reserve vp vf where
    m: "env_mib LimitMib (re_limit env) = (e1, limit)" "env_mib ProfileMib (re_profile env) = (e2, psize)"
       "env_mib ReserveMib (re_reserve env) = (e3, reserve)"
       "env_mib VgpuProfileMib (re_vgpu_profile env) = (e4, vp)"
       "env_mib VgpuFbMib (re_vgpu_fb env) = (e5, vf)"
    by fastforce
  have b: "0 < unat v \<and> unat v < 2 ^ 44"
    if "limit = Some v \<or> psize = Some v \<or> vp = Some v \<or> vf = Some v" for v
    using that m env_mib_bound by blast
  consider "p = profile_OFF"
    | pol sz fb label ns where
      "decide_select env limit psize reserve vp vf = Inr (ns, Some (pol, sz, fb, label))"
      "p = \<lparr> pf_policy = pol, pf_size = push_bit 20 sz, pf_reservation = push_bit 20 (sz - fb),
             pf_fb_length = push_bit 20 fb, pf_vgpu_type = label,
             pf_encoder_capacity = decide_encoder env fb \<rparr>"
    using assms m by (auto simp: decide_def Let_def split: if_splits sum.splits option.splits prod.splits)
  then show ?thesis
  proof cases
    case 2
    note s = decide_select_sizes [OF 2(1) b]
    have fb: "unat fb \<le> unat sz" "unat (sz - fb) = unat sz - unat fb"
      using s(3) by (simp_all add: word_le_nat_alt unat_sub)
    have "unat (push_bit 20 fb) = unat fb * 2 ^ 20" "unat (push_bit 20 sz) = unat sz * 2 ^ 20"
      "unat (push_bit 20 (sz - fb)) = (unat sz - unat fb) * 2 ^ 20"
      using s fb by (auto intro: unat_push_20 simp: unat_push_20)
    then show ?thesis
      using s fb 2(2) decide_encoder_le_100 by (simp add: word_less_nat_alt flip: add_mult_distrib)
  qed simp
qed

definition sample_env :: raw_env where
  "sample_env = \<lparr> re_limit = None, re_profile = Some ''4096'', re_reserve = Some '' 256 '',
     re_vgpu_type = Some [], re_vgpu_profile = None, re_vgpu_fb = None, re_vgpu_encoder = None,
     re_card_total = 0x200000000 \<rparr>"

theorem decided_profile_consistent_witness:
  "\<exists>p. decide sample_env = Inr (p, []) \<and> pf_fb_length p = 0xF0000000 \<and>
     unat (pf_fb_length p) + unat (pf_reservation p) = unat (pf_size p)"
proof -
  have m: "env_mib ProfileMib (Some ''4096'') = ([], Some 4096)"
    "env_mib ReserveMib (Some '' 256 '') = ([], Some 256)"
    by (simp_all add: env_mib_def trim_def is_ws_def parse_uint_def is_digit_def digits_val_def)
  obtain p where p: "decide sample_env = Inr (p, [])" "pf_fb_length p = 0xF0000000"
    using m by (simp add: decide_def sample_env_def decide_select_def trim_def env_mib_def [of _ None])
  then show ?thesis using decided_profile_consistent [OF p(1)] by (auto simp: profile_OFF_def)
qed

end
