(* ===== verification/Quota.thy ===== *)
theory Quota
  imports Nvrm_Prelude
begin

text \<open>
  The contract of a bounded byte counter: a reservation that either refuses or adds
  exactly the bytes asked for without passing the limit, and a release that gives back
  bytes that were taken.  The video-memory ledger of \<^verbatim>\<open>vram.rs\<close> and the pin budget of
  \<^verbatim>\<open>host_pool.rs\<close> both promise it.  The lemmas follow a run in which every release
  names a reservation that is still outstanding.
\<close>

datatype quota_op = Take u64 | Give nat

fun quota_run ::
  "('s \<Rightarrow> u64 \<Rightarrow> 's option) \<Rightarrow> ('s \<Rightarrow> u64 \<Rightarrow> 's) \<Rightarrow> quota_op list \<Rightarrow> 's \<times> u64 list \<Rightarrow> 's \<times> u64 list"
where
  "quota_run charge release [] st = st"
| "quota_run charge release (Take n # ops) (s, out) =
    (case charge s n of
       None \<Rightarrow> quota_run charge release ops (s, out)
     | Some s' \<Rightarrow> quota_run charge release ops (s', n # out))"
| "quota_run charge release (Give i # ops) (s, out) =
    (if i < length out
     then quota_run charge release ops (release s (out ! i), take i out @ drop (Suc i) out)
     else quota_run charge release ops (s, out))"

locale quota =
  fixes used :: "'s \<Rightarrow> u64"
    and cap :: "'s \<Rightarrow> nat"
    and charge :: "'s \<Rightarrow> u64 \<Rightarrow> 's option"
    and release :: "'s \<Rightarrow> u64 \<Rightarrow> 's"
  assumes charge_Some: "charge s n = Some s' \<Longrightarrow>
      unat (used s') = unat (used s) + unat n \<and> unat (used s') \<le> cap s \<and> cap s' = cap s"
    and charge_None: "charge s n = None \<Longrightarrow> n = 0 \<or> cap s < unat (used s) + unat n"
    and release_used: "unat n \<le> unat (used s) \<Longrightarrow>
      unat (used (release s n)) = unat (used s) - unat n"
    and release_cap: "cap (release s n) = cap s"
begin

definition balanced :: "'s \<times> u64 list \<Rightarrow> bool" where
  "balanced st \<longleftrightarrow> unat (used (fst st)) = sum_list (map unat (snd st)) \<and>
     unat (used (fst st)) \<le> cap (fst st)"

lemma sum_remove_nth:
  "i < length xs \<Longrightarrow>
    sum_list (map unat (take i xs @ drop (Suc i) xs)) + unat (xs ! i) = sum_list (map unat (xs :: u64 list))"
proof -
  assume "i < length xs"
  then have "xs = take i xs @ xs ! i # drop (Suc i) xs" by (rule id_take_nth_drop)
  then have "sum_list (map unat xs) = sum_list (map unat (take i xs @ xs ! i # drop (Suc i) xs))"
    by (rule arg_cong)
  then show ?thesis by simp
qed

lemma balanced_take: "balanced (s, out) \<Longrightarrow> charge s n = Some s' \<Longrightarrow> balanced (s', n # out)"
  using charge_Some by (fastforce simp: balanced_def)

lemma balanced_give:
  assumes "balanced (s, out)" "i < length out"
  shows "balanced (release s (out ! i), take i out @ drop (Suc i) out)"
proof -
  have "unat (out ! i) \<le> unat (used s)"
    using assms sum_remove_nth [OF assms(2)] by (simp add: balanced_def)
  then have "unat (used (release s (out ! i))) = unat (used s) - unat (out ! i)"
    by (rule release_used)
  then show ?thesis
    using assms sum_remove_nth [OF assms(2)] by (auto simp: balanced_def release_cap)
qed

lemma run_balanced: "balanced st \<Longrightarrow> balanced (quota_run charge release ops st)"
proof (induction ops arbitrary: st)
  case (Cons op ops)
  obtain s out where st: "st = (s, out)" by force
  show ?case
  proof (cases op)
    case (Take n)
    then show ?thesis using Cons st balanced_take by (auto split: option.splits)
  next
    case (Give i)
    then show ?thesis using Cons st balanced_give by simp
  qed
qed simp

lemma run_cap: "cap (fst (quota_run charge release ops st)) = cap (fst st)"
proof (induction ops arbitrary: st)
  case (Cons op ops)
  obtain s out where st: "st = (s, out)" by force
  show ?case
  proof (cases op)
    case (Take n)
    then show ?thesis using Cons st charge_Some by (auto split: option.splits)
  next
    case (Give i)
    then show ?thesis using Cons st by (simp add: release_cap)
  qed
qed simp

lemma run_drained:
  "balanced st \<Longrightarrow> snd (quota_run charge release ops st) = [] \<Longrightarrow>
    used (fst (quota_run charge release ops st)) = 0"
  using run_balanced [of st ops] by (simp add: balanced_def unat_eq_zero)

lemma run_within_cap:
  "balanced st \<Longrightarrow> unat (used (fst (quota_run charge release ops st))) \<le> cap (fst st)"
  using run_balanced [of st ops] run_cap [of ops st] by (simp add: balanced_def)

end

end
