(* ===== verification/Vram.thy ===== *)
theory Vram
  imports Policy Quota
begin

unbundle bit_operations_syntax

text \<open>
  Per-VM accounting of video memory, \<^verbatim>\<open>crates/vhost-user-nvrm/src/vram.rs\<close>: which
  requests are charged, the shared ledger, and the books every session keeps against it.

  The ledger is behind an \<^verbatim>\<open>Arc\<close> and its counter is atomic; every operation takes the
  ledger and returns it updated.  The compare-exchange loops are modelled twice: as one
  atomic step, and as the loop over the values the failed exchanges observe, with a lemma
  that the loop commits exactly the atomic step.
\<close>

section \<open>Which requests are charged\<close>

definition P_FLAGS :: nat where "P_FLAGS = 8"
definition P_ATTR :: nat where "P_ATTR = 24"
definition P_SIZE :: nat where "P_SIZE = 64"
definition P_LEN :: nat where "P_LEN = 128"
definition ALLOC_FLAGS_VIRTUAL :: u32 where "ALLOC_FLAGS_VIRTUAL = 0x00080000"

record drf =
  drf_shift :: nat
  drf_mask :: u32

definition drf_get :: "drf \<Rightarrow> u32 \<Rightarrow> u32" where
  "drf_get d w = drop_bit (drf_shift d) w AND drf_mask d"

definition drf_set :: "drf \<Rightarrow> u32 \<Rightarrow> u32" where
  "drf_set d v = push_bit (drf_shift d) (v AND drf_mask d)"

definition drf_put :: "drf \<Rightarrow> u32 \<Rightarrow> u32 \<Rightarrow> u32" where
  "drf_put d w v = (w AND NOT (push_bit (drf_shift d) (drf_mask d))) OR drf_set d v"

definition attr_LOCATION :: drf where
  "attr_LOCATION = \<lparr> drf_shift = 25, drf_mask = 0x3 \<rparr>"

definition LOCATION_VIDMEM :: u32 where "LOCATION_VIDMEM = 0"
definition LOCATION_PCI :: u32 where "LOCATION_PCI = 1"
definition LOCATION_ANY :: u32 where "LOCATION_ANY = 3"

definition asks_for_vidmem :: "u32 \<Rightarrow> bool" where
  "asks_for_vidmem attr \<longleftrightarrow> drf_get attr_LOCATION attr = LOCATION_VIDMEM"

definition is_vidmem :: "u32 \<Rightarrow> bool" where
  "is_vidmem attr \<longleftrightarrow> drf_get attr_LOCATION attr = LOCATION_VIDMEM"

definition request_bytes :: "u32 \<Rightarrow> bytes \<Rightarrow> u64 option" where
  "request_bytes hclass aux =
    (if hclass \<notin> set [0x003e, 0x0040, 0x50a0] \<or> length aux < P_LEN then None
     else if hclass \<noteq> 0x0040 then None
     else if rd32 aux P_FLAGS AND ALLOC_FLAGS_VIRTUAL \<noteq> 0 then None
     else if \<not> asks_for_vidmem (rd32 aux P_ATTR) then None
     else (let n = rd64 aux P_SIZE in if 0 < n then Some n else None))"

definition V_FUNCTION :: nat where "V_FUNCTION = 8"
definition V_STATUS_OFF :: nat where "V_STATUS_OFF = 20"
definition V_DATA :: nat where "V_DATA = 40"
definition VA_HMEMORY :: nat where "VA_HMEMORY = V_DATA + 4"
definition VA_FLAGS :: nat where "VA_FLAGS = V_DATA + 12"
definition VA_ATTR :: nat where "VA_ATTR = V_DATA + 16"
definition VA_SIZE :: nat where "VA_SIZE = V_DATA + 48"
definition V_LEN :: nat where "V_LEN = 184"
definition V_TOTAL :: nat where "V_TOTAL = 24"
definition V_FREE :: nat where "V_FREE = 32"
definition NVOS32_FUNCTION_ALLOC_SIZE :: u32 where "NVOS32_FUNCTION_ALLOC_SIZE = 2"
definition NVOS32_FUNCTION_INFO :: u32 where "NVOS32_FUNCTION_INFO = 5"

lemmas vidheap_defs = V_FUNCTION_def V_STATUS_OFF_def V_DATA_def VA_HMEMORY_def VA_FLAGS_def
  VA_ATTR_def VA_SIZE_def V_LEN_def V_TOTAL_def V_FREE_def

definition vidheap_function :: "bytes \<Rightarrow> u32 option" where
  "vidheap_function buf = (if V_LEN \<le> length buf then Some (rd32 buf V_FUNCTION) else None)"

definition vidheap_request_bytes :: "bytes \<Rightarrow> u64 option" where
  "vidheap_request_bytes buf =
    (case vidheap_function buf of
       None \<Rightarrow> None
     | Some f \<Rightarrow>
         if f \<noteq> NVOS32_FUNCTION_ALLOC_SIZE then None
         else if rd32 buf VA_FLAGS AND ALLOC_FLAGS_VIRTUAL \<noteq> 0 then None
         else if \<not> asks_for_vidmem (rd32 buf VA_ATTR) then None
         else (let n = rd64 buf VA_SIZE in if 0 < n then Some n else None))"

definition vidheap_attr_out :: "bytes \<Rightarrow> u32" where
  "vidheap_attr_out buf = (if length buf < V_LEN then 0 else rd32 buf VA_ATTR)"

definition vidheap_handle :: "bytes \<Rightarrow> u32" where
  "vidheap_handle buf = (if length buf < V_LEN then 0 else rd32 buf VA_HMEMORY)"

datatype door = Nvos64 | Nvos21 | Nvos32

fun door_name :: "door \<Rightarrow> string" where
  "door_name Nvos64 = ''NVOS64 RM_ALLOC''"
| "door_name Nvos21 = ''NVOS21 RM_ALLOC''"
| "door_name Nvos32 = ''NVOS32 VID_HEAP''"

definition location_name :: "u32 \<Rightarrow> string" where
  "location_name attr =
    (let l = drf_get attr_LOCATION attr in
     if l = LOCATION_VIDMEM then ''VIDMEM''
     else if l = LOCATION_PCI then ''PCI''
     else if l = LOCATION_ANY then ''ANY''
     else ''LOCATION_2'')"

record ask =
  ak_door :: door
  ak_hclass :: u32
  ak_flags :: u32
  ak_attr :: u32
  ak_size :: u64

definition ask_of_alloc :: "door \<Rightarrow> u32 \<Rightarrow> bytes \<Rightarrow> ask option" where
  "ask_of_alloc d hclass aux =
    (if hclass \<notin> set [0x003e, 0x0040, 0x50a0] \<or> length aux < P_LEN then None
     else Some \<lparr> ak_door = d, ak_hclass = hclass, ak_flags = rd32 aux P_FLAGS,
                 ak_attr = rd32 aux P_ATTR, ak_size = rd64 aux P_SIZE \<rparr>)"

definition ask_of_vidheap :: "bytes \<Rightarrow> ask option" where
  "ask_of_vidheap buf =
    (case vidheap_function buf of
       None \<Rightarrow> None
     | Some f \<Rightarrow>
         if f \<noteq> NVOS32_FUNCTION_ALLOC_SIZE then None
         else Some \<lparr> ak_door = Nvos32, ak_hclass = 0, ak_flags = rd32 buf VA_FLAGS,
                     ak_attr = rd32 buf VA_ATTR, ak_size = rd64 buf VA_SIZE \<rparr>)"

definition ask_kind :: "ask \<Rightarrow> door \<times> u32 \<times> u32" where
  "ask_kind a = (ak_door a, ak_hclass a, drf_get attr_LOCATION (ak_attr a))"

section \<open>The shared ledger\<close>

record proc_row =
  pr_guest_pid :: u32
  pr_bytes :: u64
  pr_name :: string

record placement =
  pl_door :: door
  pl_class :: u32
  pl_location :: u32
  pl_outcome :: "u32 + u32"

record ledger =
  lg_profile :: profile
  lg_used :: u64
  lg_roster :: "(u32 \<times> proc_row) list"
  lg_placements :: "placement list"

definition ledger_with_profile :: "profile \<Rightarrow> ledger" where
  "ledger_with_profile p = \<lparr> lg_profile = p, lg_used = 0, lg_roster = [], lg_placements = [] \<rparr>"

definition ledger_enabled :: "ledger \<Rightarrow> bool" where
  "ledger_enabled l \<longleftrightarrow> pf_fb_length (lg_profile l) \<noteq> 0"

definition ledger_limit :: "ledger \<Rightarrow> u64" where
  "ledger_limit l = pf_fb_length (lg_profile l)"

text \<open>One pass of the loop in \<^verbatim>\<open>charge\<close>: the value to exchange for \<^verbatim>\<open>cur\<close>, or a refusal.\<close>

definition charge_next :: "u64 \<Rightarrow> u64 \<Rightarrow> u64 \<Rightarrow> u64 option" where
  "charge_next fb cur n =
    (case checked_add cur n of
       None \<Rightarrow> None
     | Some nxt \<Rightarrow> if fb \<noteq> 0 \<and> fb < nxt then None else Some nxt)"

definition charge :: "ledger \<Rightarrow> u64 \<Rightarrow> ledger option" where
  "charge l n = map_option (\<lambda>v. l\<lparr> lg_used := v \<rparr>) (charge_next (ledger_limit l) (lg_used l) n)"

text \<open>
  The loop itself: \<^verbatim>\<open>seen\<close> lists what the failing exchanges returned, in order; the
  result is the pair of values the successful exchange replaced and stored.
\<close>

fun charge_loop :: "u64 \<Rightarrow> u64 \<Rightarrow> u64 \<Rightarrow> u64 list \<Rightarrow> (u64 \<times> u64) option" where
  "charge_loop fb n cur [] = map_option (Pair cur) (charge_next fb cur n)"
| "charge_loop fb n cur (now # seen) =
    (case charge_next fb cur n of
       None \<Rightarrow> None
     | Some _ \<Rightarrow> charge_loop fb n now seen)"

definition release :: "ledger \<Rightarrow> u64 \<Rightarrow> ledger" where
  "release l n = (if n = 0 then l else l\<lparr> lg_used := saturating_sub (lg_used l) n \<rparr>)"

definition register :: "ledger \<Rightarrow> u32 \<Rightarrow> u32 \<Rightarrow> string \<Rightarrow> ledger" where
  "register l sub_id guest_pid name =
    (let row = (case map_of (lg_roster l) sub_id of
                  Some r \<Rightarrow> r
                | None \<Rightarrow> \<lparr> pr_guest_pid = guest_pid, pr_bytes = 0, pr_name = [] \<rparr>) in
     l\<lparr> lg_roster := AList.update sub_id (row\<lparr> pr_guest_pid := guest_pid, pr_name := name \<rparr>) (lg_roster l) \<rparr>)"

definition first_placement :: "ledger \<Rightarrow> ask \<Rightarrow> u32 + u32 \<Rightarrow> ledger \<times> bool" where
  "first_placement l a outcome =
    (let (d, cls, loc) = ask_kind a;
         p = \<lparr> pl_door = d, pl_class = cls, pl_location = loc, pl_outcome = outcome \<rparr> in
     if p \<in> set (lg_placements l) then (l, False)
     else (l\<lparr> lg_placements := p # lg_placements l \<rparr>, True))"

definition forget :: "ledger \<Rightarrow> u32 \<Rightarrow> ledger" where
  "forget l sub_id = l\<lparr> lg_roster := AList.delete sub_id (lg_roster l) \<rparr>"

definition set_bytes :: "ledger \<Rightarrow> u32 \<Rightarrow> u64 \<Rightarrow> ledger" where
  "set_bytes l sub_id n =
    (case map_of (lg_roster l) sub_id of
       None \<Rightarrow> l
     | Some row \<Rightarrow> l\<lparr> lg_roster := AList.update sub_id (row\<lparr> pr_bytes := n \<rparr>) (lg_roster l) \<rparr>)"

definition roster :: "ledger \<Rightarrow> proc_row list" where
  "roster l = filter (\<lambda>r. pr_guest_pid r \<noteq> 0) (map snd (sort_key fst (lg_roster l)))"

section \<open>The books of a session\<close>

record chg =
  ch_token :: u64
  ch_root :: u32
  ch_parent :: u32
  ch_handle :: u32
  ch_bytes :: u64

definition key_of :: "u32 \<Rightarrow> u32 \<Rightarrow> u64" where
  "key_of root handle = push_bit 32 (ucast root) OR ucast handle"

record books =
  bk_sub_id :: u32
  bk_open :: "(u64 \<times> chg) list"
  bk_owed :: u64
  bk_refusals :: "((door \<times> u32 \<times> u32) \<times> u64) list"

definition books_new :: "u32 \<Rightarrow> books" where
  "books_new sub_id = \<lparr> bk_sub_id = sub_id, bk_open = [], bk_owed = 0, bk_refusals = [] \<rparr>"

definition publish :: "ledger \<Rightarrow> books \<Rightarrow> ledger" where
  "publish l b = set_bytes l (bk_sub_id b) (bk_owed b)"

definition announce :: "ledger \<Rightarrow> books \<Rightarrow> u32 \<Rightarrow> string \<Rightarrow> ledger" where
  "announce l b guest_pid name =
     set_bytes (register l (bk_sub_id b) guest_pid name) (bk_sub_id b) (bk_owed b)"

definition count_refusal :: "books \<Rightarrow> ask \<Rightarrow> books \<times> u64 option" where
  "count_refusal b a =
    (let n = (case map_of (bk_refusals b) (ask_kind a) of Some v \<Rightarrow> v | None \<Rightarrow> 0) + 1 in
     (b\<lparr> bk_refusals := AList.update (ask_kind a) n (bk_refusals b) \<rparr>,
      if n \<le> 8 \<or> n mod 100 = 0 then Some n else None))"

text \<open>\<^verbatim>\<open>Books::placement\<close>: whether this outcome is the first of its kind (and is logged).\<close>

definition note_placement :: "ledger \<Rightarrow> ask \<Rightarrow> bool \<Rightarrow> u32 \<Rightarrow> u32 \<Rightarrow> ledger \<times> bool" where
  "note_placement l a ok status attr_out =
    first_placement l a (if ok then Inr (drf_get attr_LOCATION attr_out) else Inl status)"

definition reserve :: "ledger \<Rightarrow> u64 \<Rightarrow> ledger option" where
  "reserve l n = charge l n"

definition settle :: "ledger \<Rightarrow> books \<Rightarrow> bool \<Rightarrow> u32 \<Rightarrow> chg \<Rightarrow> ledger \<times> books" where
  "settle l b ok attr_out c =
    (if \<not> ok \<or> \<not> is_vidmem attr_out then (release l (ch_bytes c), b)
     else
       (let key = key_of (ch_root c) (ch_handle c);
            old = map_of (bk_open b) key;
            b1 = b\<lparr> bk_open := AList.update key c (bk_open b) \<rparr>;
            (l2, b2) = (case old of
                          None \<Rightarrow> (l, b1)
                        | Some o1 \<Rightarrow> (release l (ch_bytes o1),
                                     b1\<lparr> bk_owed := saturating_sub (bk_owed b1) (ch_bytes o1) \<rparr>));
            b3 = b2\<lparr> bk_owed := saturating_add (bk_owed b2) (ch_bytes c) \<rparr> in
        (publish l2 b3, b3)))"

definition give_back :: "ledger \<Rightarrow> books \<Rightarrow> u64 \<Rightarrow> ledger \<times> books" where
  "give_back l b n =
    (if n = 0 then (l, b)
     else (let l2 = release l n; b2 = b\<lparr> bk_owed := saturating_sub (bk_owed b) n \<rparr> in
           (publish l2 b2, b2)))"

text \<open>\<^verbatim>\<open>HashMap::retain\<close> with the running sum \<^verbatim>\<open>freed\<close>.\<close>

definition retain_charges :: "(chg \<Rightarrow> bool) \<Rightarrow> ledger \<Rightarrow> books \<Rightarrow> ledger \<times> books" where
  "retain_charges dies l b =
    (let freed = sum_list (map (ch_bytes \<circ> snd) (filter (\<lambda>kc. dies (snd kc)) (bk_open b))) in
     give_back l (b\<lparr> bk_open := filter (\<lambda>kc. \<not> dies (snd kc)) (bk_open b) \<rparr>) freed)"

definition free_object :: "ledger \<Rightarrow> books \<Rightarrow> u32 \<Rightarrow> u32 \<Rightarrow> ledger \<times> books" where
  "free_object l b root handle =
     retain_charges (\<lambda>c. ch_root c = root \<and>
       (ch_handle c = handle \<or> ch_parent c = handle \<or> handle = root)) l b"

definition close_token :: "ledger \<Rightarrow> books \<Rightarrow> u64 \<Rightarrow> ledger \<times> books" where
  "close_token l b token = retain_charges (\<lambda>c. ch_token c = token) l b"

definition books_drop :: "ledger \<Rightarrow> books \<Rightarrow> ledger" where
  "books_drop l b =
     forget (if bk_owed b \<noteq> 0 then release l (bk_owed b) else l) (bk_sub_id b)"

section \<open>The ledger is a bounded counter\<close>

definition ledger_cap :: "ledger \<Rightarrow> nat" where
  "ledger_cap l = (if ledger_limit l = 0 then 2 ^ 64 - 1 else unat (ledger_limit l))"

lemma charge_next_Some:
  "charge_next fb cur n = Some v \<longleftrightarrow>
    unat v = unat cur + unat n \<and> unat cur + unat n < 2 ^ 64 \<and>
    (fb = 0 \<or> unat cur + unat n \<le> unat fb)"
proof (cases "checked_add cur n")
  case None
  then have "2 ^ 64 \<le> unat cur + unat n" by (simp add: checked_simps)
  with None show ?thesis by (simp add: charge_next_def)
next
  case (Some w)
  then have w: "unat cur + unat n < 2 ^ 64" "unat w = unat cur + unat n" by (simp_all add: checked_simps)
  have "charge_next fb cur n = Some v \<longleftrightarrow> w = v \<and> (fb = 0 \<or> w \<le> fb)"
    using Some by (auto simp: charge_next_def not_less)
  with w show ?thesis by (auto simp: word_le_nat_alt word_unat_eq_iff [of w v])
qed

lemma charge_next_None:
  "charge_next fb cur n = None \<longleftrightarrow>
    2 ^ 64 \<le> unat cur + unat n \<or> (fb \<noteq> 0 \<and> unat fb < unat cur + unat n)"
  by (auto simp: charge_next_def checked_simps word_less_nat_alt split: option.splits)

lemma charge_loop_atomic:
  "charge_loop fb n cur seen = Some (old, v) \<Longrightarrow>
    charge_next fb old n = Some v \<and> old = last (cur # seen)"
  by (induction seen arbitrary: cur) (auto split: option.splits if_splits)

interpretation ledger_quota: quota lg_used ledger_cap charge release
proof
  fix s s' :: ledger and n :: u64
  show "charge s n = Some s' \<Longrightarrow>
      unat (lg_used s') = unat (lg_used s) + unat n \<and> unat (lg_used s') \<le> ledger_cap s \<and>
      ledger_cap s' = ledger_cap s"
    by (auto simp: charge_def charge_next_Some ledger_cap_def ledger_limit_def)
  show "charge s n = None \<Longrightarrow> n = 0 \<or> ledger_cap s < unat (lg_used s) + unat n"
    using unat_lt_u64 [of "ledger_limit s"] by (auto simp: charge_def charge_next_None ledger_cap_def)
  show "unat n \<le> unat (lg_used s) \<Longrightarrow> unat (lg_used (release s n)) = unat (lg_used s) - unat n"
    by (simp add: release_def checked_simps)
  show "ledger_cap (release s n) = ledger_cap s"
    by (simp add: release_def ledger_cap_def ledger_limit_def)
qed

lemma ledger_frame [simp]:
  "lg_used (set_bytes l s n) = lg_used l" "lg_profile (set_bytes l s n) = lg_profile l"
  "lg_used (register l s p nm) = lg_used l" "lg_profile (register l s p nm) = lg_profile l"
  "lg_used (forget l s) = lg_used l" "lg_profile (forget l s) = lg_profile l"
  "lg_used (publish l b) = lg_used l" "lg_profile (publish l b) = lg_profile l"
  "lg_roster (release l n) = lg_roster l" "lg_profile (release l n) = lg_profile l"
  by (simp_all add: set_bytes_def register_def forget_def publish_def release_def Let_def
      split: option.splits)

lemma roster_after [simp]:
  "map_of (lg_roster (set_bytes l s n)) x =
    (if x = s then map_option (\<lambda>r. r\<lparr> pr_bytes := n \<rparr>) (map_of (lg_roster l) s) else map_of (lg_roster l) x)"
  "map_of (lg_roster (forget l s)) x = (if x = s then None else map_of (lg_roster l) x)"
  by (auto simp: set_bytes_def forget_def split: option.splits)

section \<open>Keys and books\<close>

lemma not_bit_32: "\<not> bit (h :: u32) (32 + n)"
  using bit_imp_le_length [of h "32 + n"] by auto

lemma key_of_inj: "key_of r h = key_of r' h' \<longleftrightarrow> r = r' \<and> h = h'"
proof
  assume eq: "key_of r h = key_of r' h'"
  have "ucast (drop_bit 32 (key_of r h)) = r" "ucast (key_of r h) = h" for r h
    by (auto simp: key_of_def intro!: bit_word_eqI simp: bit_simps not_bit_32)
  then show "r = r' \<and> h = h'" using eq by metis
qed simp

definition books_ok :: "books \<Rightarrow> bool" where
  "books_ok b \<longleftrightarrow> dkeys (bk_open b) \<and> unat (bk_owed b) = kv_sum (unat \<circ> ch_bytes) (bk_open b) \<and>
     list_all (\<lambda>(k, c). k = key_of (ch_root c) (ch_handle c)) (bk_open b)"

lemma books_ok_new [simp]: "books_ok (books_new s)"
  by (simp add: books_ok_def books_new_def)

lemma kv_sum_word:
  "kv_sum (unat \<circ> ch_bytes) kcs < 2 ^ 64 \<Longrightarrow>
    unat (sum_list (map (ch_bytes \<circ> snd) kcs)) = kv_sum (unat \<circ> ch_bytes) kcs"
  by (induction kcs) (simp_all add: unat_add_bounded)

lemma give_back_books:
  assumes "unat n \<le> unat (bk_owed b)" "unat n \<le> unat (lg_used l)" "give_back l b n = (l', b')"
  shows "unat (lg_used l') = unat (lg_used l) - unat n" "unat (bk_owed b') = unat (bk_owed b) - unat n"
    "bk_open b' = bk_open b" "bk_sub_id b' = bk_sub_id b" "lg_profile l' = lg_profile l"
  using assms
  by (auto simp: give_back_def Let_def checked_simps release_def split: if_splits)

lemma retain_charges_books:
  assumes ok: "books_ok b" and le: "unat (bk_owed b) \<le> unat (lg_used l)"
    and r: "retain_charges dies l b = (l', b')"
  shows "books_ok b'" "unat (lg_used l') + unat (bk_owed b) = unat (lg_used l) + unat (bk_owed b')"
    "unat (bk_owed b') \<le> unat (bk_owed b)" "bk_sub_id b' = bk_sub_id b" "lg_profile l' = lg_profile l"
    "bk_open b' = filter (\<lambda>kc. \<not> dies (snd kc)) (bk_open b)"
proof -
  let ?gone = "filter (\<lambda>kc. dies (snd kc)) (bk_open b)"
  let ?kept = "filter (\<lambda>kc. \<not> dies (snd kc)) (bk_open b)"
  let ?freed = "sum_list (map (ch_bytes \<circ> snd) ?gone)"
  have split: "kv_sum (unat \<circ> ch_bytes) ?gone + kv_sum (unat \<circ> ch_bytes) ?kept = unat (bk_owed b)"
    using ok kv_sum_filter_split [of "unat \<circ> ch_bytes" "\<lambda>kc. dies (snd kc)" "bk_open b"]
    by (simp add: books_ok_def)
  have freed: "unat ?freed = kv_sum (unat \<circ> ch_bytes) ?gone"
    using split unat_lt_u64 [of "bk_owed b"] by (intro kv_sum_word) linarith
  have g: "give_back l (b\<lparr> bk_open := ?kept \<rparr>) ?freed = (l', b')"
    using r by (simp add: retain_charges_def)
  have "unat ?freed \<le> unat (bk_owed (b\<lparr> bk_open := ?kept \<rparr>))" "unat ?freed \<le> unat (lg_used l)"
    using split freed le by simp_all
  note G = give_back_books [OF this g]
  show "books_ok b'"
    using ok G split freed by (auto simp: books_ok_def list_all_iff)
  show "unat (lg_used l') + unat (bk_owed b) = unat (lg_used l) + unat (bk_owed b')"
    "unat (bk_owed b') \<le> unat (bk_owed b)"
    using G split freed le by simp_all
  show "bk_sub_id b' = bk_sub_id b" "lg_profile l' = lg_profile l" "bk_open b' = ?kept"
    using G by simp_all
qed

lemma settle_kept_books:
  assumes ok: "books_ok b" and le: "unat (bk_owed b) + unat (ch_bytes c) \<le> unat (lg_used l)"
    and v: "ok2" "is_vidmem attr_out" and r: "settle l b ok2 attr_out c = (l', b')"
  shows "books_ok b'" "unat (lg_used l') + unat (bk_owed b) + unat (ch_bytes c) = unat (lg_used l) + unat (bk_owed b')"
    "bk_sub_id b' = bk_sub_id b" "lg_profile l' = lg_profile l"
    "bk_open b' = AList.update (key_of (ch_root c) (ch_handle c)) c (bk_open b)"
proof -
  let ?k = "key_of (ch_root c) (ch_handle c)" and ?f = "unat \<circ> ch_bytes"
  let ?old = "kv_at ?f (bk_open b) ?k"
  have d: "dkeys (bk_open b)" and owed: "unat (bk_owed b) = kv_sum ?f (bk_open b)"
    using ok by (simp_all add: books_ok_def)
  have upd: "kv_sum ?f (AList.update ?k c (bk_open b)) + ?old = unat (bk_owed b) + unat (ch_bytes c)"
    using kv_sum_update [OF d, of ?f ?k c] owed by simp
  have old_le: "?old \<le> unat (bk_owed b)" using kv_at_le_sum [of ?f "bk_open b" ?k] owed by simp
  have bnd: "unat (bk_owed b) - ?old + unat (ch_bytes c) < 2 ^ 64"
    using le unat_lt_u64 [of "lg_used l"] by linarith
  have used: "unat (lg_used l') = unat (lg_used l) - ?old"
    and owed': "unat (bk_owed b') = unat (bk_owed b) - ?old + unat (ch_bytes c)"
    and rest: "bk_open b' = AList.update ?k c (bk_open b)" "bk_sub_id b' = bk_sub_id b"
      "lg_profile l' = lg_profile l"
    using r v bnd
    by (auto simp: settle_def Let_def kv_at_def checked_simps release_def split: option.splits if_splits)
  show "books_ok b'"
    using ok upd owed' old_le rest set_update_subset [of ?k c "bk_open b"]
    by (auto simp: books_ok_def list_all_iff)
  show "unat (lg_used l') + unat (bk_owed b) + unat (ch_bytes c) = unat (lg_used l) + unat (bk_owed b')"
    using used owed' old_le le by simp
qed (use r v in \<open>auto simp: settle_def Let_def split: option.splits if_splits\<close>)

section \<open>All sessions of one VM\<close>

text \<open>
  The ledger with the books of every live session, keyed by session id, and the
  reservations that an ioctl in flight has taken and not yet settled.  A session settles
  exactly what it reserved (\<^verbatim>\<open>session.rs\<close> passes the reserved bytes in the charge), and is
  dropped only between requests.
\<close>

record vm =
  vm_ledger :: ledger
  vm_books :: "(u32 \<times> books) list"
  vm_pending :: "(u32 \<times> u64) list"

definition vm_start :: "profile \<Rightarrow> vm" where
  "vm_start p = \<lparr> vm_ledger = ledger_with_profile p, vm_books = [], vm_pending = [] \<rparr>"

inductive vram_step :: "vm \<Rightarrow> vm \<Rightarrow> bool" where
  NewSession: "map_of (vm_books v) s = None \<Longrightarrow>
    vram_step v (v\<lparr> vm_books := AList.update s (books_new s) (vm_books v) \<rparr>)"
| Announce: "map_of (vm_books v) s = Some b \<Longrightarrow>
    vram_step v (v\<lparr> vm_ledger := announce (vm_ledger v) b pid name \<rparr>)"
| ReserveOk: "map_of (vm_books v) s = Some b \<Longrightarrow> reserve (vm_ledger v) n = Some l' \<Longrightarrow>
    vram_step v (v\<lparr> vm_ledger := l', vm_pending := (s, n) # vm_pending v \<rparr>)"
| Refused: "map_of (vm_books v) s = Some b \<Longrightarrow>
    vram_step v (v\<lparr> vm_books := AList.update s (fst (count_refusal b a)) (vm_books v) \<rparr>)"
| Settle: "map_of (vm_books v) s = Some b \<Longrightarrow> vm_pending v = ps @ (s, ch_bytes c) # qs \<Longrightarrow>
    settle (vm_ledger v) b ok attr_out c = (l', b') \<Longrightarrow>
    vram_step v (v\<lparr> vm_ledger := l', vm_books := AList.update s b' (vm_books v), vm_pending := ps @ qs \<rparr>)"
| FreeObject: "map_of (vm_books v) s = Some b \<Longrightarrow> free_object (vm_ledger v) b root handle = (l', b') \<Longrightarrow>
    vram_step v (v\<lparr> vm_ledger := l', vm_books := AList.update s b' (vm_books v) \<rparr>)"
| CloseToken: "map_of (vm_books v) s = Some b \<Longrightarrow> close_token (vm_ledger v) b token = (l', b') \<Longrightarrow>
    vram_step v (v\<lparr> vm_ledger := l', vm_books := AList.update s b' (vm_books v) \<rparr>)"
| Placed: "vram_step v (v\<lparr> vm_ledger := fst (note_placement (vm_ledger v) a ok status attr_out) \<rparr>)"
| DropSession: "map_of (vm_books v) s = Some b \<Longrightarrow> s \<notin> fst ` set (vm_pending v) \<Longrightarrow>
    vram_step v (v\<lparr> vm_ledger := books_drop (vm_ledger v) b, vm_books := AList.delete s (vm_books v) \<rparr>)"

definition vm_owed :: "vm \<Rightarrow> nat" where
  "vm_owed v = kv_sum (unat \<circ> bk_owed) (vm_books v) + sum_list (map (unat \<circ> snd) (vm_pending v))"

definition vm_inv :: "vm \<Rightarrow> bool" where
  "vm_inv v \<longleftrightarrow>
     dkeys (vm_books v) \<and>
     (\<forall>s b. map_of (vm_books v) s = Some b \<longrightarrow> bk_sub_id b = s \<and> books_ok b) \<and>
     unat (lg_used (vm_ledger v)) = vm_owed v \<and>
     unat (lg_used (vm_ledger v)) \<le> ledger_cap (vm_ledger v) \<and>
     (\<forall>s row. map_of (lg_roster (vm_ledger v)) s = Some row \<longrightarrow>
        (\<exists>b. map_of (vm_books v) s = Some b \<and> pr_bytes row = bk_owed b))"

lemma vm_inv_start: "vm_inv (vm_start p)"
  by (simp add: vm_inv_def vm_start_def ledger_with_profile_def vm_owed_def)

lemma vm_invD:
  assumes "vm_inv v" "map_of (vm_books v) s = Some b"
  shows "bk_sub_id b = s" "books_ok b" "unat (bk_owed b) \<le> unat (lg_used (vm_ledger v))"
    "(s, n) \<in> set (vm_pending v) \<Longrightarrow> unat (bk_owed b) + unat n \<le> unat (lg_used (vm_ledger v))"
proof -
  have le: "unat (bk_owed b) \<le> kv_sum (unat \<circ> bk_owed) (vm_books v)"
    using kv_at_le_sum [of "unat \<circ> bk_owed" "vm_books v" s] assms(2) by (simp add: kv_at_simps)
  show "bk_sub_id b = s" "books_ok b" using assms by (auto simp: vm_inv_def)
  show "unat (bk_owed b) \<le> unat (lg_used (vm_ledger v))"
    using assms(1) le by (simp add: vm_inv_def vm_owed_def)
  assume "(s, n) \<in> set (vm_pending v)"
  then have "unat n \<le> sum_list (map (unat \<circ> snd) (vm_pending v))"
    by (intro member_le_sum_list) (auto simp: image_iff intro: bexI [of _ "(s, n)"])
  then show "unat (bk_owed b) + unat n \<le> unat (lg_used (vm_ledger v))"
    using assms(1) le by (simp add: vm_inv_def vm_owed_def)
qed

text \<open>Replacing the books of one session by books that account for the change of the counter.\<close>

lemma vm_inv_update:
  assumes inv: "vm_inv v" and b: "map_of (vm_books v) s = Some b"
    and ok: "books_ok b'" "bk_sub_id b' = s"
    and prof: "lg_profile l' = lg_profile (vm_ledger v)"
    and cons: "unat (lg_used l') + unat (bk_owed b) + sum_list (map (unat \<circ> snd) (vm_pending v))
      = unat (lg_used (vm_ledger v)) + unat (bk_owed b') + sum_list (map (unat \<circ> snd) pend)"
    and le: "unat (lg_used l') \<le> unat (lg_used (vm_ledger v))"
    and row: "\<And>x r. map_of (lg_roster l') x = Some r \<Longrightarrow>
      (x = s \<and> pr_bytes r = bk_owed b') \<or> (x \<noteq> s \<and> map_of (lg_roster (vm_ledger v)) x = Some r)"
  shows "vm_inv (v\<lparr> vm_ledger := l', vm_books := AList.update s b' (vm_books v), vm_pending := pend \<rparr>)"
proof -
  let ?f = "unat \<circ> bk_owed"
  have d: "dkeys (vm_books v)" using inv by (simp add: vm_inv_def)
  have upd: "kv_sum ?f (AList.update s b' (vm_books v)) + unat (bk_owed b) = kv_sum ?f (vm_books v) + unat (bk_owed b')"
    using kv_sum_update [OF d, of ?f s b'] b by (simp add: kv_at_simps)
  have "unat (lg_used (vm_ledger v)) = vm_owed v" using inv by (simp add: vm_inv_def)
  then have u: "unat (lg_used l') = kv_sum ?f (AList.update s b' (vm_books v)) + sum_list (map (unat \<circ> snd) pend)"
    using cons upd by (simp add: vm_owed_def)
  have cap: "ledger_cap l' = ledger_cap (vm_ledger v)"
    using prof by (simp add: ledger_cap_def ledger_limit_def)
  show ?thesis unfolding vm_inv_def
  proof (intro conjI allI impI)
    fix x c
    assume "map_of (vm_books (v\<lparr> vm_ledger := l', vm_books := AList.update s b' (vm_books v), vm_pending := pend \<rparr>)) x = Some c"
    then show "bk_sub_id c = x" "books_ok c" using inv ok by (auto simp: vm_inv_def split: if_splits)
  next
    fix x r
    assume "map_of (lg_roster (vm_ledger (v\<lparr> vm_ledger := l', vm_books := AList.update s b' (vm_books v), vm_pending := pend \<rparr>))) x = Some r"
    then have "map_of (lg_roster l') x = Some r" by simp
    from row [OF this]
    show "\<exists>c. map_of (vm_books (v\<lparr> vm_ledger := l', vm_books := AList.update s b' (vm_books v), vm_pending := pend \<rparr>)) x = Some c \<and>
        pr_bytes r = bk_owed c"
      using inv by (auto simp: vm_inv_def)
  next
    show "unat (lg_used (vm_ledger (v\<lparr> vm_ledger := l', vm_books := AList.update s b' (vm_books v), vm_pending := pend \<rparr>)))
        \<le> ledger_cap (vm_ledger (v\<lparr> vm_ledger := l', vm_books := AList.update s b' (vm_books v), vm_pending := pend \<rparr>))"
      using inv cap le by (simp add: vm_inv_def)
  qed (use d u in \<open>simp_all add: vm_owed_def\<close>)
qed

lemma publish_roster:
  "map_of (lg_roster (publish l b)) x =
    (if x = bk_sub_id b then map_option (\<lambda>r. r\<lparr> pr_bytes := bk_owed b \<rparr>) (map_of (lg_roster l) x)
     else map_of (lg_roster l) x)"
  by (simp add: publish_def)

lemma settle_kept_roster:
  assumes "settle l b True attr_out c = (l', b')" "is_vidmem attr_out"
    and "map_of (lg_roster l') x = Some r"
  shows "(x = bk_sub_id b \<and> pr_bytes r = bk_owed b') \<or> (x \<noteq> bk_sub_id b \<and> map_of (lg_roster l) x = Some r)"
  using assms
  by (auto simp: settle_def Let_def publish_roster split: option.splits if_splits prod.splits)

lemma retain_roster:
  assumes "retain_charges dies l b = (l', b')" "map_of (lg_roster l') x = Some r"
    and "\<And>r. map_of (lg_roster l) (bk_sub_id b) = Some r \<Longrightarrow> pr_bytes r = bk_owed b"
  shows "(x = bk_sub_id b \<and> pr_bytes r = bk_owed b') \<or> (x \<noteq> bk_sub_id b \<and> map_of (lg_roster l) x = Some r)"
  using assms
  by (auto simp: retain_charges_def give_back_def Let_def publish_roster split: if_splits)

lemma vm_inv_row:
  "vm_inv v \<Longrightarrow> map_of (vm_books v) s = Some b \<Longrightarrow> map_of (lg_roster (vm_ledger v)) s = Some r \<Longrightarrow>
    pr_bytes r = bk_owed b"
  by (fastforce simp: vm_inv_def)

lemma vm_inv_retain:
  assumes inv: "vm_inv v" and b: "map_of (vm_books v) s = Some b"
    and r: "retain_charges dies (vm_ledger v) b = (l', b')"
  shows "vm_inv (v\<lparr> vm_ledger := l', vm_books := AList.update s b' (vm_books v) \<rparr>)"
proof -
  note I = vm_invD(1-3) [OF inv b]
  note R = retain_charges_books [OF I(2,3) r]
  have "vm_inv (v\<lparr> vm_ledger := l', vm_books := AList.update s b' (vm_books v), vm_pending := vm_pending v \<rparr>)"
  proof (rule vm_inv_update [OF inv b R(1) _ R(5)])
    show "bk_sub_id b' = s" using R(4) I(1) by simp
    show "(x = s \<and> pr_bytes rr = bk_owed b') \<or> (x \<noteq> s \<and> map_of (lg_roster (vm_ledger v)) x = Some rr)"
      if "map_of (lg_roster l') x = Some rr" for x rr
      using retain_roster [OF r that] vm_inv_row [OF inv b] I(1) by blast
  qed (use R(2,3) in linarith)+
  then show ?thesis by simp
qed

lemma vm_inv_settle:
  assumes inv: "vm_inv v" and b: "map_of (vm_books v) s = Some b"
    and p: "vm_pending v = ps @ (s, ch_bytes c) # qs"
    and st: "settle (vm_ledger v) b ok attr_out c = (l', b')"
  shows "vm_inv (v\<lparr> vm_ledger := l', vm_books := AList.update s b' (vm_books v), vm_pending := ps @ qs \<rparr>)"
proof -
  note I = vm_invD [OF inv b]
  have le: "unat (bk_owed b) + unat (ch_bytes c) \<le> unat (lg_used (vm_ledger v))"
    using I(4) p by simp
  show ?thesis
  proof (cases "ok \<and> is_vidmem attr_out")
    case True
    note S = settle_kept_books [OF I(2) le _ _ st]
    show ?thesis
    proof (rule vm_inv_update [OF inv b])
      show "unat (lg_used l') \<le> unat (lg_used (vm_ledger v))"
        using st True by (auto simp: settle_def Let_def checked_simps release_def split: option.splits if_splits)
      show "(x = s \<and> pr_bytes r = bk_owed b') \<or> (x \<noteq> s \<and> map_of (lg_roster (vm_ledger v)) x = Some r)"
        if "map_of (lg_roster l') x = Some r" for x r
        using settle_kept_roster [of "vm_ledger v" b attr_out c l' b' x r] that st True I(1) by auto
    qed (use S True p I(1) in auto)
  next
    case False
    then have e: "l' = release (vm_ledger v) (ch_bytes c)" "b' = b"
      using st by (auto simp: settle_def split: if_splits)
    show ?thesis
    proof (rule vm_inv_update [OF inv b])
      show "(x = s \<and> pr_bytes r = bk_owed b') \<or> (x \<noteq> s \<and> map_of (lg_roster (vm_ledger v)) x = Some r)"
        if "map_of (lg_roster l') x = Some r" for x r
        using that e vm_inv_row [OF inv b] by auto
    qed (use e I(1,2) add_leD2 [OF le] p in \<open>auto simp: release_def checked_simps\<close>)
  qed
qed

lemma vm_inv_drop:
  assumes inv: "vm_inv v" and b: "map_of (vm_books v) s = Some b"
  shows "vm_inv (v\<lparr> vm_ledger := books_drop (vm_ledger v) b, vm_books := AList.delete s (vm_books v) \<rparr>)"
proof -
  let ?l = "books_drop (vm_ledger v) b" and ?f = "unat \<circ> bk_owed"
  note I = vm_invD(1-3) [OF inv b]
  have d: "dkeys (vm_books v)" using inv by (simp add: vm_inv_def)
  have del: "kv_sum ?f (AList.delete s (vm_books v)) + unat (bk_owed b) = kv_sum ?f (vm_books v)"
    using kv_sum_delete [OF d, of ?f s] b by (simp add: kv_at_simps)
  have l: "unat (lg_used ?l) = unat (lg_used (vm_ledger v)) - unat (bk_owed b)"
    "lg_profile ?l = lg_profile (vm_ledger v)"
    by (auto simp: books_drop_def release_def checked_simps)
  have r: "map_of (lg_roster ?l) x = (if x = s then None else map_of (lg_roster (vm_ledger v)) x)" for x
    using I(1) by (auto simp: books_drop_def)
  have "unat (lg_used (vm_ledger v)) = vm_owed v" using inv by (simp add: vm_inv_def)
  then have u: "unat (lg_used ?l) = vm_owed (v\<lparr> vm_ledger := ?l, vm_books := AList.delete s (vm_books v) \<rparr>)"
    using l(1) del by (simp add: vm_owed_def)
  show ?thesis
    using inv d u l r I(3)
    by (auto simp: vm_inv_def ledger_cap_def ledger_limit_def split: if_splits)
qed

lemma vm_inv_announce:
  assumes inv: "vm_inv v" and b: "map_of (vm_books v) s = Some b"
  shows "vm_inv (v\<lparr> vm_ledger := announce (vm_ledger v) b pid name \<rparr>)"
proof -
  have s: "bk_sub_id b = s" using vm_invD(1) [OF inv b] .
  have "vm_inv (v\<lparr> vm_ledger := announce (vm_ledger v) b pid name,
      vm_books := AList.update s b (vm_books v), vm_pending := vm_pending v \<rparr>)"
  proof (rule vm_inv_update [OF inv b])
    show "(x = s \<and> pr_bytes r = bk_owed b) \<or> (x \<noteq> s \<and> map_of (lg_roster (vm_ledger v)) x = Some r)"
      if "map_of (lg_roster (announce (vm_ledger v) b pid name)) x = Some r" for x r
      using that s by (auto simp: announce_def register_def Let_def split: if_splits)
  qed (use vm_invD(1,2) [OF inv b] in \<open>auto simp: announce_def\<close>)
  then show ?thesis using update_same [OF b] by simp
qed

lemma vram_step_inv:
  assumes "vram_step v v'" "vm_inv v"
  shows "vm_inv v'"
  using assms
proof (induction rule: vram_step.induct)
  case (NewSession v s)
  have "kv_sum (unat \<circ> bk_owed) (AList.update s (books_new s) (vm_books v)) = kv_sum (unat \<circ> bk_owed) (vm_books v)"
    using NewSession kv_sum_update [of "vm_books v" "unat \<circ> bk_owed" s "books_new s"]
    by (simp add: vm_inv_def kv_at_simps books_new_def)
  moreover have "map_of (lg_roster (vm_ledger v)) s = None"
    using NewSession
    by (cases "map_of (lg_roster (vm_ledger v)) s") (auto simp: vm_inv_def simp del: map_of_eq_Some_iff, force)
  ultimately show ?case
    using NewSession by (auto simp: vm_inv_def vm_owed_def) (simp add: books_new_def)
next
  case (Announce v s b pid name)
  then show ?case using vm_inv_announce by blast
next
  case (ReserveOk v s b n l')
  then have c: "charge (vm_ledger v) n = Some l'" by (simp add: reserve_def)
  then have "lg_roster l' = lg_roster (vm_ledger v)" by (auto simp: charge_def)
  then show ?case
    using ReserveOk(3) ledger_quota.charge_Some [OF c] by (auto simp: vm_inv_def vm_owed_def)
next
  case (Refused v s b a)
  have "vm_inv (v\<lparr> vm_ledger := vm_ledger v,
      vm_books := AList.update s (fst (count_refusal b a)) (vm_books v), vm_pending := vm_pending v \<rparr>)"
    using Refused vm_invD(1,2) [of v s b] vm_inv_row [of v s b]
    by (intro vm_inv_update [of v s b]) (auto simp: count_refusal_def Let_def books_ok_def)
  then show ?case by simp
next
  case (Settle v s b ps c qs ok attr_out l' b')
  then show ?case using vm_inv_settle by blast
next
  case (FreeObject v s b root handle l' b')
  then show ?case unfolding free_object_def using vm_inv_retain by blast
next
  case (CloseToken v s b token l' b')
  then show ?case unfolding close_token_def using vm_inv_retain by blast
next
  case (Placed v a ok status attr_out)
  then show ?case
    by (auto simp: vm_inv_def vm_owed_def note_placement_def first_placement_def Let_def ledger_cap_def
        ledger_limit_def split: prod.splits)
next
  case (DropSession v s b)
  then show ?case using vm_inv_drop by blast
qed

inductive vram_reach :: "profile \<Rightarrow> vm \<Rightarrow> bool" for p where
  Start: "vram_reach p (vm_start p)"
| Step: "vram_reach p v \<Longrightarrow> vram_step v v' \<Longrightarrow> vram_reach p v'"

lemma vram_reach_inv: "vram_reach p v \<Longrightarrow> vm_inv v"
  by (induction rule: vram_reach.induct) (auto intro: vm_inv_start vram_step_inv)

section \<open>Properties of the accounting\<close>

text \<open>C2: The accounting of a VM's video memory is exact.  In every state reachable from
  startup by any interleaving of session creation, announcements, reservations, settlements,
  frees, closes and session teardown, the shared counter equals the sum over all live sessions
  of what each owes plus the reservations in flight, what a session owes is the sum of its open
  charges, and with a cap the counter never exceeds the guest framebuffer.\<close>

theorem vram_accounting_exact:
  assumes "vram_reach p v"
  shows "unat (lg_used (vm_ledger v)) =
      kv_sum (unat \<circ> bk_owed) (vm_books v) + sum_list (map (unat \<circ> snd) (vm_pending v)) \<and>
    (\<forall>s b. map_of (vm_books v) s = Some b \<longrightarrow>
      unat (bk_owed b) = kv_sum (unat \<circ> ch_bytes) (bk_open b)) \<and>
    (pf_fb_length (lg_profile (vm_ledger v)) \<noteq> 0 \<longrightarrow>
      lg_used (vm_ledger v) \<le> pf_fb_length (lg_profile (vm_ledger v)))"
  using vram_reach_inv [OF assms]
  by (auto simp: vm_inv_def vm_owed_def books_ok_def ledger_cap_def ledger_limit_def word_le_nat_alt
      split: if_splits)

definition sample_chg :: chg where
  "sample_chg = \<lparr> ch_token = 1, ch_root = 0xc1d00001, ch_parent = 2, ch_handle = 3, ch_bytes = 4096 \<rparr>"

definition sample_vm :: vm where
  "sample_vm = \<lparr> vm_ledger = (ledger_with_profile (profile_accounting 8192))\<lparr> lg_used := 4096 \<rparr>,
     vm_books = [(7, (books_new 7)\<lparr> bk_open := [(key_of 0xc1d00001 3, sample_chg)], bk_owed := 4096 \<rparr>)],
     vm_pending = [] \<rparr>"

lemma sample_vm_reach: "vram_reach (profile_accounting 8192) sample_vm"
proof -
  let ?p = "profile_accounting 8192"
  let ?v1 = "(vm_start ?p)\<lparr> vm_books := [(7, books_new 7)] \<rparr>"
  let ?v2 = "?v1\<lparr> vm_ledger := (ledger_with_profile ?p)\<lparr> lg_used := 4096 \<rparr>, vm_pending := [(7, 4096)] \<rparr>"
  have 1: "vram_step (vm_start ?p) ?v1"
    using NewSession [of "vm_start ?p" 7] by (simp add: vm_start_def)
  have 2: "vram_step ?v1 ?v2"
    using ReserveOk [of ?v1 7 "books_new 7" 4096 "(ledger_with_profile ?p)\<lparr> lg_used := 4096 \<rparr>"]
    by (simp add: vm_start_def reserve_def charge_def charge_next_def checked_add_def
        ledger_limit_def ledger_with_profile_def profile_accounting_def)
  have 3: "vram_step ?v2 sample_vm"
    using Settle [of ?v2 7 "books_new 7" "[]" sample_chg "[]" True 0
        "(ledger_with_profile ?p)\<lparr> lg_used := 4096 \<rparr>"
        "(books_new 7)\<lparr> bk_open := [(key_of 0xc1d00001 3, sample_chg)], bk_owed := 4096 \<rparr>"]
    by (simp add: sample_vm_def sample_chg_def vm_start_def settle_def is_vidmem_def drf_get_def
        attr_LOCATION_def LOCATION_VIDMEM_def books_new_def saturating_add_def checked_add_def
        publish_def set_bytes_def ledger_with_profile_def)
  show ?thesis using Step [OF Step [OF Step [OF Start 1] 2] 3] .
qed

theorem vram_accounting_exact_witness:
  "lg_used (vm_ledger sample_vm) = 4096 \<and>
   unat (lg_used (vm_ledger sample_vm)) =
     kv_sum (unat \<circ> bk_owed) (vm_books sample_vm) + sum_list (map (unat \<circ> snd) (vm_pending sample_vm)) \<and>
   lg_used (vm_ledger sample_vm) \<le> 8192"
  using vram_accounting_exact [OF sample_vm_reach]
  by (simp add: sample_vm_def ledger_with_profile_def profile_accounting_def)

text \<open>C24: Nothing is leaked: once every session is gone and no request is in flight, the
  shared counter is zero and the process list is empty, whatever happened before.\<close>

theorem vram_all_returned:
  assumes "vram_reach p v" "vm_books v = []" "vm_pending v = []"
  shows "lg_used (vm_ledger v) = 0 \<and> roster (vm_ledger v) = []"
proof -
  note inv = vram_reach_inv [OF assms(1)]
  have "lg_roster (vm_ledger v) = []"
  proof (cases "lg_roster (vm_ledger v)")
    case (Cons kr rs)
    then have "map_of (lg_roster (vm_ledger v)) (fst kr) = Some (snd kr)" by (cases kr) simp
    then show ?thesis using inv assms(2) by (force simp: vm_inv_def)
  qed
  then show ?thesis
    using inv assms by (simp add: vm_inv_def vm_owed_def roster_def unat_eq_zero)
qed

theorem vram_all_returned_witness:
  "\<exists>v. vram_step sample_vm v \<and> lg_used (vm_ledger v) = 0 \<and> roster (vm_ledger v) = []"
proof -
  let ?b = "(books_new 7)\<lparr> bk_open := [(key_of 0xc1d00001 3, sample_chg)], bk_owed := 4096 \<rparr>"
  let ?v = "sample_vm\<lparr> vm_ledger := books_drop (vm_ledger sample_vm) ?b, vm_books := [] \<rparr>"
  have s: "vram_step sample_vm ?v"
    using DropSession [of sample_vm 7 ?b] by (simp add: sample_vm_def)
  have "lg_used (vm_ledger ?v) = 0 \<and> roster (vm_ledger ?v) = []"
    by (rule vram_all_returned [OF Step [OF sample_vm_reach s]]) (simp_all add: sample_vm_def)
  with s show ?thesis by blast
qed

text \<open>C25: The number a guest process is shown is the number it is held to: in every reachable
  state a row of the process list belongs to a live session and carries exactly the bytes that
  session owes the ledger.\<close>

theorem roster_matches_books:
  assumes "vram_reach p v" "map_of (lg_roster (vm_ledger v)) s = Some row"
  shows "\<exists>b. map_of (vm_books v) s = Some b \<and> bk_sub_id b = s \<and> pr_bytes row = bk_owed b"
  using vram_reach_inv [OF assms(1)] assms(2) by (fastforce simp: vm_inv_def)

theorem roster_matches_books_witness:
  "\<exists>v row. vram_step sample_vm v \<and> map_of (lg_roster (vm_ledger v)) 7 = Some row \<and> pr_bytes row = 4096 \<and>
     (\<exists>b. map_of (vm_books v) 7 = Some b \<and> pr_bytes row = bk_owed b)"
proof -
  let ?b = "(books_new 7)\<lparr> bk_open := [(key_of 0xc1d00001 3, sample_chg)], bk_owed := 4096 \<rparr>"
  let ?v = "sample_vm\<lparr> vm_ledger := announce (vm_ledger sample_vm) ?b 100 ''glxgears'' \<rparr>"
  let ?row = "\<lparr> pr_guest_pid = 100, pr_bytes = 4096, pr_name = ''glxgears'' \<rparr>"
  have s: "vram_step sample_vm ?v"
    using Announce [of sample_vm 7 ?b 100 "''glxgears''"] by (simp add: sample_vm_def)
  have r: "map_of (lg_roster (vm_ledger ?v)) 7 = Some ?row"
    by (simp add: sample_vm_def announce_def register_def books_new_def ledger_with_profile_def)
  show ?thesis
    using s r roster_matches_books [OF Step [OF sample_vm_reach s] r] by (metis proc_row.select_convs(2))
qed

text \<open>C36: The lock-free charge is one atomic step: whatever values the failed exchanges of the
  loop observe, a successful exchange replaces the last observed counter by that counter plus
  the requested bytes, without overflow and without passing the cap, and never exposes any
  other value.\<close>

theorem charge_loop_commits_once:
  assumes "charge_loop fb n cur seen = Some (old, v)"
  shows "old = last (cur # seen) \<and> unat v = unat old + unat n \<and> unat v < 2 ^ 64 \<and>
    (fb = 0 \<or> v \<le> fb)"
  using charge_loop_atomic [OF assms] by (auto simp: charge_next_Some word_le_nat_alt)

theorem charge_loop_commits_once_witness:
  "charge_loop 100 10 5 [80, 60] = Some (60, 70) \<and> unat (70 :: u64) = unat (60 :: u64) + unat (10 :: u64)"
proof -
  have "charge_loop 100 10 5 [80, 60] = Some (60, 70)"
    by (simp add: charge_next_def checked_add_def)
  then show ?thesis using charge_loop_commits_once by blast
qed

text \<open>Freeing an object returns exactly the charges that die with it: a charge survives
  iff it belongs to another client, or is neither the object, a direct child of it, nor under a
  freed client; survivors keep their bytes, and what the session owes afterwards is the sum of
  the survivors.\<close>

theorem free_object_exact:
  assumes "books_ok b" "bk_owed b \<le> lg_used l" "free_object l b root handle = (l', b')"
  shows "map_of (bk_open b') k =
      (case map_of (bk_open b) k of
         None \<Rightarrow> None
       | Some c \<Rightarrow> if ch_root c = root \<and> (ch_handle c = handle \<or> ch_parent c = handle \<or> handle = root)
                   then None else Some c) \<and>
    unat (bk_owed b') = kv_sum (unat \<circ> ch_bytes) (bk_open b') \<and>
    unat (lg_used l) - unat (lg_used l') = unat (bk_owed b) - unat (bk_owed b')"
proof -
  have le: "unat (bk_owed b) \<le> unat (lg_used l)" using assms(2) by (simp add: word_le_nat_alt)
  note R = retain_charges_books [OF assms(1) le assms(3) [unfolded free_object_def]]
  have d: "dkeys (bk_open b)" using assms(1) by (simp add: books_ok_def)
  show ?thesis
    using R(1,2,3,6) map_of_filter_dkeys [OF d] by (auto simp: books_ok_def split: option.splits)
qed

theorem free_object_exact_witness:
  "\<exists>l' b'. free_object (vm_ledger sample_vm) (snd (hd (vm_books sample_vm))) 0xc1d00001 0xc1d00001 = (l', b') \<and>
     map_of (bk_open b') (key_of 0xc1d00001 3) = None \<and> lg_used l' = 0"
proof -
  let ?b = "snd (hd (vm_books sample_vm))" and ?l = "vm_ledger sample_vm"
  obtain l' b' where f: "free_object ?l ?b 0xc1d00001 0xc1d00001 = (l', b')" by force
  have ok: "books_ok ?b" "bk_owed ?b \<le> lg_used ?l"
    by (simp_all add: books_ok_def sample_vm_def books_new_def sample_chg_def)
  have "map_of (bk_open ?b) (key_of 0xc1d00001 3) = Some sample_chg" "ch_root sample_chg = 0xc1d00001"
    by (simp_all add: sample_vm_def sample_chg_def)
  then have "map_of (bk_open b') (key_of 0xc1d00001 3) = None"
    using free_object_exact [OF ok f, of "key_of 0xc1d00001 3"] by simp
  moreover have "lg_used l' = 0"
    using f by (auto simp: free_object_def retain_charges_def sample_vm_def books_new_def sample_chg_def
        give_back_def release_def saturating_sub_def Let_def)
  ultimately show ?thesis using f by blast
qed

end
