(* ===== verification/Answers.thy ===== *)
theory Answers
  imports Vram
begin

text \<open>
  The answers the backend rewrites before a guest sees them: the process list and per-process
  memory, the framebuffer sizes, the heap information (\<^verbatim>\<open>vram.rs\<close>) and the
  virtualization mode and encoder share (\<^verbatim>\<open>grid.rs\<close>).  Offsets are those of
  \<^verbatim>\<open>crates/nvrm-abi/src/mediate.rs\<close>.  Each function returns the rewritten buffer with the
  source's return value; \<^verbatim>\<open>None\<close> leaves the buffer alone.
\<close>

section \<open>Layout\<close>

definition PIDS_COUNT_OFF :: nat where "PIDS_COUNT_OFF = 8"
definition PIDS_TBL_OFF :: nat where "PIDS_TBL_OFF = 12"
definition PIDS_MAX :: nat where "PIDS_MAX = 950"
definition PIDS_LEN :: nat where "PIDS_LEN = 3812"
definition PIDINFO_COUNT_OFF :: nat where "PIDINFO_COUNT_OFF = 0"
definition PIDINFO_LIST_OFF :: nat where "PIDINFO_LIST_OFF = 8"
definition PIDINFO_MAX :: nat where "PIDINFO_MAX = 200"
definition PIDINFO_ENTRY :: nat where "PIDINFO_ENTRY = 72"
definition PIDINFO_MEM_PRIVATE :: nat where "PIDINFO_MEM_PRIVATE = 16"
definition PIDINFO_INDEX_VIDEO_MEMORY_USAGE :: u32 where "PIDINFO_INDEX_VIDEO_MEMORY_USAGE = 0"
definition FBINFO_COUNT_OFF :: nat where "FBINFO_COUNT_OFF = 0"
definition FBINFO_LIST_OFF :: nat where "FBINFO_LIST_OFF = 4"
definition FBINFO_ENTRY :: nat where "FBINFO_ENTRY = 8"
definition FBINFO_MAX :: nat where "FBINFO_MAX = 128"
definition FB_INFO_INDEX_RAM_SIZE :: u32 where "FB_INFO_INDEX_RAM_SIZE = 0x07"
definition FB_INFO_INDEX_TOTAL_RAM_SIZE :: u32 where "FB_INFO_INDEX_TOTAL_RAM_SIZE = 0x08"
definition FB_INFO_INDEX_HEAP_SIZE :: u32 where "FB_INFO_INDEX_HEAP_SIZE = 0x09"
definition FB_INFO_INDEX_HEAP_FREE :: u32 where "FB_INFO_INDEX_HEAP_FREE = 0x16"
definition FB_INFO_INDEX_USABLE_RAM_SIZE :: u32 where "FB_INFO_INDEX_USABLE_RAM_SIZE = 0x20"
definition VIRTMODE_OFF :: nat where "VIRTMODE_OFF = 0"
definition VIRTMODE_GRIDBUILD_OFF :: nat where "VIRTMODE_GRIDBUILD_OFF = 4"
definition VIRTMODE_LEN :: nat where "VIRTMODE_LEN = 8"
definition VIRTUALIZATION_MODE_VGX :: u32 where "VIRTUALIZATION_MODE_VGX = 2"
definition ENCCAP_OFF :: nat where "ENCCAP_OFF = 4"
definition ENCCAP_LEN :: nat where "ENCCAP_LEN = 8"

lemmas pids_defs = PIDS_COUNT_OFF_def PIDS_TBL_OFF_def PIDS_MAX_def PIDS_LEN_def
lemmas pidinfo_defs = PIDINFO_COUNT_OFF_def PIDINFO_LIST_OFF_def PIDINFO_MAX_def PIDINFO_ENTRY_def
  PIDINFO_MEM_PRIVATE_def PIDINFO_INDEX_VIDEO_MEMORY_USAGE_def
lemmas fbinfo_defs = FBINFO_COUNT_OFF_def FBINFO_LIST_OFF_def FBINFO_ENTRY_def FBINFO_MAX_def
lemmas fbindex_defs = FB_INFO_INDEX_RAM_SIZE_def FB_INFO_INDEX_TOTAL_RAM_SIZE_def
  FB_INFO_INDEX_HEAP_SIZE_def FB_INFO_INDEX_HEAP_FREE_def FB_INFO_INDEX_USABLE_RAM_SIZE_def

section \<open>The process list\<close>

definition rewrite_get_pids :: "bytes \<Rightarrow> proc_row list \<Rightarrow> (bytes \<times> nat) option" where
  "rewrite_get_pids aux rows =
    (if length aux < PIDS_LEN then None
     else
       (let n = min (length rows) PIDS_MAX;
            a1 = fold (\<lambda>i a. wr32 a (PIDS_TBL_OFF + 4 * i) (pr_guest_pid (rows ! i))) [0..<n] aux;
            a2 = fold (\<lambda>i a. wr32 a (PIDS_TBL_OFF + 4 * i) 0) [n..<PIDS_MAX] a1 in
        Some (wr32 a2 PIDS_COUNT_OFF (word_of_nat n), n)))"

definition pid_info_entry :: "proc_row list \<Rightarrow> nat \<Rightarrow> bytes \<Rightarrow> bytes" where
  "pid_info_entry rows i aux =
    (let base = PIDINFO_LIST_OFF + PIDINFO_ENTRY * i;
         pid = rd32 aux base;
         index = rd32 aux (base + 4);
         n = (if index = PIDINFO_INDEX_VIDEO_MEMORY_USAGE
              then (case find (\<lambda>r. pr_guest_pid r = pid) rows of Some r \<Rightarrow> pr_bytes r | None \<Rightarrow> 0)
              else 0);
         a1 = wr32 aux (base + 8) 0;
         a2 = fold (\<lambda>k a. wr64 a (base + PIDINFO_MEM_PRIVATE + 8 * k) 0) [0..<6] a1 in
     wr64 a2 (base + PIDINFO_MEM_PRIVATE) n)"

definition rewrite_get_pid_info :: "bytes \<Rightarrow> proc_row list \<Rightarrow> (bytes \<times> nat) option" where
  "rewrite_get_pid_info aux rows =
    (if length aux < PIDINFO_LIST_OFF + PIDINFO_ENTRY then None
     else
       (let asked = unat (rd32 aux PIDINFO_COUNT_OFF);
            fits = (length aux - PIDINFO_LIST_OFF) div PIDINFO_ENTRY;
            n = min (min asked PIDINFO_MAX) fits in
        Some (wr32 (fold (pid_info_entry rows) [0..<n] aux) PIDINFO_COUNT_OFF (word_of_nat n), n)))"

section \<open>Framebuffer sizes\<close>

definition kb :: "u64 \<Rightarrow> u32" where
  "kb b = ucast (min (b div 1024) 0xFFFFFFFF)"

definition fb_value :: "u64 \<Rightarrow> u64 \<Rightarrow> u32 \<Rightarrow> u32 option" where
  "fb_value limit used index =
    (if index \<in> set [FB_INFO_INDEX_RAM_SIZE, FB_INFO_INDEX_TOTAL_RAM_SIZE, FB_INFO_INDEX_HEAP_SIZE,
                     FB_INFO_INDEX_USABLE_RAM_SIZE] then Some (kb limit)
     else if index = FB_INFO_INDEX_HEAP_FREE then Some (kb (saturating_sub limit used))
     else None)"

definition cap_fb_entries :: "bytes \<Rightarrow> nat \<Rightarrow> u64 \<Rightarrow> u64 \<Rightarrow> bytes \<times> nat" where
  "cap_fb_entries lst asked limit used =
    (let fits = length lst div FBINFO_ENTRY;
         n = min (min asked FBINFO_MAX) fits in
     fold (\<lambda>i (l, touched).
             case fb_value limit used (rd32 l (FBINFO_ENTRY * i)) of
               None \<Rightarrow> (l, touched)
             | Some v \<Rightarrow> (wr32 l (FBINFO_ENTRY * i + 4) v, touched + 1))
       [0..<n] (lst, 0))"

definition rewrite_fb_info :: "bytes \<Rightarrow> u64 \<Rightarrow> u64 \<Rightarrow> (bytes \<times> nat) option" where
  "rewrite_fb_info aux limit used =
    (if limit = 0 \<or> length aux < FBINFO_LIST_OFF + FBINFO_ENTRY then None
     else
       (let asked = unat (rd32 aux FBINFO_COUNT_OFF);
            (l, t) = cap_fb_entries (drop FBINFO_LIST_OFF aux) asked limit used in
        Some (take FBINFO_LIST_OFF aux @ l, t)))"

definition rewrite_fb_info_list :: "bytes \<Rightarrow> nat \<Rightarrow> u64 \<Rightarrow> u64 \<Rightarrow> (bytes \<times> nat) option" where
  "rewrite_fb_info_list lst asked limit used =
    (if limit = 0 \<or> length lst < FBINFO_ENTRY then None
     else Some (cap_fb_entries lst asked limit used))"

definition rewrite_vidheap_info :: "bytes \<Rightarrow> u64 \<Rightarrow> u64 \<Rightarrow> bytes \<times> bool" where
  "rewrite_vidheap_info buf limit used =
    (if limit = 0 \<or> vidheap_function buf \<noteq> Some NVOS32_FUNCTION_INFO then (buf, False)
     else (wr64 (wr64 buf V_TOTAL limit) V_FREE (saturating_sub limit used), True))"

section \<open>Identity answers\<close>

definition rewrite_virtualization_mode :: "bytes \<Rightarrow> (bytes \<times> u32) option" where
  "rewrite_virtualization_mode aux =
    (if length aux < VIRTMODE_LEN then None
     else Some ((wr32 aux VIRTMODE_OFF VIRTUALIZATION_MODE_VGX)[VIRTMODE_GRIDBUILD_OFF := 1],
                VIRTUALIZATION_MODE_VGX))"

definition rewrite_encoder_capacity :: "bytes \<Rightarrow> u32 \<Rightarrow> (bytes \<times> u32) option" where
  "rewrite_encoder_capacity aux percent =
    (if length aux < ENCCAP_LEN \<or> percent = 0 \<or> 100 < percent then None
     else Some (wr32 aux ENCCAP_OFF percent, percent))"

section \<open>What a guest reads back\<close>

definition fb_entry :: "u64 \<Rightarrow> u64 \<Rightarrow> nat \<Rightarrow> bytes \<Rightarrow> bytes" where
  "fb_entry limit used i lst =
    (case fb_value limit used (rd32 lst (FBINFO_ENTRY * i)) of
       None \<Rightarrow> lst
     | Some v \<Rightarrow> wr32 lst (FBINFO_ENTRY * i + 4) v)"

lemma wr32_table:
  assumes "length a = L" "base + 4 * hi \<le> L" "lo \<le> hi"
  shows "length (fold (\<lambda>i a. wr32 a (base + 4 * i) (f i)) [lo..<hi] a) = L \<and>
    (\<forall>j. rd32 (fold (\<lambda>i a. wr32 a (base + 4 * i) (f i)) [lo..<hi] a) (base + 4 * j) =
       (if lo \<le> j \<and> j < hi then f j else rd32 a (base + 4 * j)))"
  using assms(2,3)
proof (induction hi)
  case (Suc hi)
  show ?case
  proof (cases "lo = Suc hi")
    case False
    let ?b = "fold (\<lambda>i a. wr32 a (base + 4 * i) (f i)) [lo..<hi] a"
    have IH: "length ?b = L" "\<And>j. rd32 ?b (base + 4 * j) = (if lo \<le> j \<and> j < hi then f j else rd32 a (base + 4 * j))"
      using Suc False by auto
    have e: "fold (\<lambda>i a. wr32 a (base + 4 * i) (f i)) [lo..<Suc hi] a = wr32 ?b (base + 4 * hi) (f hi)"
      using False Suc.prems by simp
    have fit: "base + 4 * hi + 4 \<le> length ?b" using Suc.prems IH(1) by simp
    show ?thesis unfolding e
    proof (intro conjI allI)
      show "length (wr32 ?b (base + 4 * hi) (f hi)) = L" using fit IH(1) by simp
      fix j
      show "rd32 (wr32 ?b (base + 4 * hi) (f hi)) (base + 4 * j) =
          (if lo \<le> j \<and> j < Suc hi then f j else rd32 a (base + 4 * j))"
      proof (cases "j = hi")
        case True
        then show ?thesis using fit False Suc.prems by (simp add: rd32_wr32)
      next
        case False2: False
        then have "base + 4 * j + 4 \<le> base + 4 * hi \<or> base + 4 * hi + 4 \<le> base + 4 * j" by linarith
        then show ?thesis using fit IH(2) False2 by (auto simp: rd32_wr32(2))
      qed
    qed
  qed (use assms(1) in auto)
qed (use assms(1) in auto)

lemma get_pids_table:
  assumes "rewrite_get_pids aux rows = Some (aux', n)"
  shows "n = min (length rows) PIDS_MAX" "length aux' = length aux"
    "rd32 aux' PIDS_COUNT_OFF = word_of_nat n"
    "j < PIDS_MAX \<Longrightarrow> rd32 aux' (PIDS_TBL_OFF + 4 * j) = (if j < n then pr_guest_pid (rows ! j) else 0)"
proof -
  let ?f = "\<lambda>i a. wr32 a (PIDS_TBL_OFF + 4 * i) (pr_guest_pid (rows ! i))"
  let ?g = "\<lambda>i a. wr32 a (PIDS_TBL_OFF + 4 * i) 0"
  let ?a1 = "fold ?f [0..<n] aux" and ?a2 = "fold ?g [n..<PIDS_MAX] (fold ?f [0..<n] aux)"
  have L: "PIDS_LEN \<le> length aux" and n: "n = min (length rows) PIDS_MAX"
    and aux': "aux' = wr32 ?a2 PIDS_COUNT_OFF (word_of_nat n)"
    using assms by (auto simp: rewrite_get_pids_def Let_def split: if_splits)
  have n': "n \<le> PIDS_MAX" using n by simp
  have fit: "PIDS_TBL_OFF + 4 * PIDS_MAX \<le> length aux" using L by (simp add: pids_defs)
  have 1: "length ?a1 = length aux \<and>
      (\<forall>j. rd32 ?a1 (PIDS_TBL_OFF + 4 * j) = (if 0 \<le> j \<and> j < n then pr_guest_pid (rows ! j) else rd32 aux (PIDS_TBL_OFF + 4 * j)))"
    using n' fit by (intro wr32_table) auto
  have 2: "length ?a2 = length aux \<and>
      (\<forall>j. rd32 ?a2 (PIDS_TBL_OFF + 4 * j) = (if n \<le> j \<and> j < PIDS_MAX then 0 else rd32 ?a1 (PIDS_TBL_OFF + 4 * j)))"
    using n' fit 1 by (intro wr32_table) auto
  have c: "PIDS_COUNT_OFF + 4 \<le> length ?a2" using 2 L by (simp add: pids_defs)
  show "n = min (length rows) PIDS_MAX" by (rule n)
  show "length aux' = length aux" using aux' c 2 by simp
  show "rd32 aux' PIDS_COUNT_OFF = word_of_nat n" using aux' c by (simp add: rd32_wr32)
  assume j: "j < PIDS_MAX"
  have "rd32 aux' (PIDS_TBL_OFF + 4 * j) = rd32 ?a2 (PIDS_TBL_OFF + 4 * j)"
    unfolding aux' using c by (intro rd32_wr32(2)) (simp_all add: pids_defs)
  then show "rd32 aux' (PIDS_TBL_OFF + 4 * j) = (if j < n then pr_guest_pid (rows ! j) else 0)"
    using 1 2 j by auto
qed

text \<open>C27: The process list a guest receives holds its own processes and nothing of the host:
  in a rewritten answer the count is the number of rows served and every one of the 950 table
  entries is either the guest pid of the corresponding row of this VM's roster or zero.\<close>

theorem get_pids_only_guest:
  assumes "rewrite_get_pids aux (roster l) = Some (aux', n)"
  shows "n = min (length (roster l)) PIDS_MAX \<and> length aux' = length aux \<and>
    rd32 aux' PIDS_COUNT_OFF = word_of_nat n \<and>
    (\<forall>j < PIDS_MAX. rd32 aux' (PIDS_TBL_OFF + 4 * j) =
       (if j < n then pr_guest_pid (roster l ! j) else 0))"
  using get_pids_table [OF assms] by blast

definition sample_ledger :: ledger where
  "sample_ledger = (ledger_with_profile profile_OFF)\<lparr>
     lg_roster := [(2, \<lparr> pr_guest_pid = 41, pr_bytes = 4096, pr_name = ''a'' \<rparr>)] \<rparr>"

theorem get_pids_only_guest_witness:
  "\<exists>aux'. rewrite_get_pids (replicate 3812 0xFF) (roster sample_ledger) = Some (aux', 1) \<and>
     rd32 aux' PIDS_COUNT_OFF = 1 \<and> rd32 aux' (PIDS_TBL_OFF + 4 * 0) = 41 \<and> rd32 aux' (PIDS_TBL_OFF + 4 * 949) = 0"
proof -
  have r: "roster sample_ledger = [\<lparr> pr_guest_pid = 41, pr_bytes = 4096, pr_name = ''a'' \<rparr>]"
    by (simp add: roster_def sample_ledger_def)
  obtain aux' where a: "rewrite_get_pids (replicate 3812 0xFF) (roster sample_ledger) = Some (aux', 1)"
    by (simp add: rewrite_get_pids_def r PIDS_LEN_def PIDS_MAX_def Let_def)
  have P: "1 = min (length (roster sample_ledger)) PIDS_MAX \<and> length aux' = length (replicate 3812 0xFF :: bytes) \<and>
    rd32 aux' PIDS_COUNT_OFF = word_of_nat 1 \<and>
    (\<forall>j < PIDS_MAX. rd32 aux' (PIDS_TBL_OFF + 4 * j) = (if j < 1 then pr_guest_pid (roster sample_ledger ! j) else 0))"
    by (rule get_pids_only_guest [OF a])
  have "rd32 aux' (PIDS_TBL_OFF + 4 * 0) = 41" "rd32 aux' (PIDS_TBL_OFF + 4 * 949) = 0"
    using P [THEN conjunct2, THEN conjunct2, THEN conjunct2, rule_format, of 0]
      P [THEN conjunct2, THEN conjunct2, THEN conjunct2, rule_format, of 949]
    by (simp_all add: r PIDS_MAX_def)
  with a P show ?thesis by auto
qed

lemma wr64_table:
  assumes "length a = L" "base + 8 * n \<le> L"
  shows "length (fold (\<lambda>k a. wr64 a (base + 8 * k) 0) [0..<n] a) = L \<and>
    (\<forall>j < n. rd64 (fold (\<lambda>k a. wr64 a (base + 8 * k) 0) [0..<n] a) (base + 8 * j) = 0) \<and>
    (\<forall>k < L. k < base \<or> base + 8 * n \<le> k \<longrightarrow> fold (\<lambda>k a. wr64 a (base + 8 * k) 0) [0..<n] a ! k = a ! k)"
  using assms(2)
proof (induction n)
  case (Suc n)
  let ?b = "fold (\<lambda>k a. wr64 a (base + 8 * k) 0) [0..<n] a"
  have IH: "length ?b = L" "\<And>j. j < n \<Longrightarrow> rd64 ?b (base + 8 * j) = 0"
    "\<And>k. k < L \<Longrightarrow> k < base \<or> base + 8 * n \<le> k \<Longrightarrow> ?b ! k = a ! k"
    using Suc by auto
  have e: "fold (\<lambda>k a. wr64 a (base + 8 * k) 0) [0..<Suc n] a = wr64 ?b (base + 8 * n) 0" by simp
  have fit: "base + 8 * n + 8 \<le> length ?b" using Suc.prems IH(1) by simp
  have "rd64 (wr64 ?b (base + 8 * n) 0) (base + 8 * j) = 0" if "j < Suc n" for j
  proof (cases "j = n")
    case False
    then have j: "j < n" using that by simp
    have "rd64 (wr64 ?b (base + 8 * n) 0) (base + 8 * j) = rd64 ?b (base + 8 * j)"
      using fit j by (intro rd64_wr64(2)) auto
    then show ?thesis using IH(2) j by simp
  qed (use fit in \<open>simp add: rd64_wr64(1)\<close>)
  moreover have "wr64 ?b (base + 8 * n) 0 ! k = a ! k" if "k < L" "k < base \<or> base + 8 * Suc n \<le> k" for k
    using fit IH(1) IH(3) [OF that(1)] that nth_wr64 [OF fit, of k 0] by auto
  ultimately show ?case unfolding e using fit IH(1) by auto
qed (use assms(1) in simp)

abbreviation entry_lo :: "nat \<Rightarrow> nat" where
  "entry_lo i \<equiv> PIDINFO_LIST_OFF + PIDINFO_ENTRY * i"

lemma pid_info_entry_spec:
  assumes fit: "entry_lo i + PIDINFO_ENTRY \<le> length a"
  shows "length (pid_info_entry rows i a) = length a"
    and "k < length a \<Longrightarrow> k < entry_lo i + 8 \<or> entry_lo i + 64 \<le> k \<or> (entry_lo i + 12 \<le> k \<and> k < entry_lo i + 16) \<Longrightarrow>
      pid_info_entry rows i a ! k = a ! k"
    and "rd32 (pid_info_entry rows i a) (entry_lo i + 8) = 0"
    and "rd64 (pid_info_entry rows i a) (entry_lo i + 16) =
      (if rd32 a (entry_lo i + 4) = 0
       then case find (\<lambda>r. pr_guest_pid r = rd32 a (entry_lo i)) rows of Some r \<Rightarrow> pr_bytes r | None \<Rightarrow> 0
       else 0)"
    and "1 \<le> m \<Longrightarrow> m < 6 \<Longrightarrow> rd64 (pid_info_entry rows i a) (entry_lo i + 16 + 8 * m) = 0"
proof -
  let ?b = "entry_lo i"
  let ?v = "if rd32 a (?b + 4) = 0
       then case find (\<lambda>r. pr_guest_pid r = rd32 a ?b) rows of Some r \<Rightarrow> pr_bytes r | None \<Rightarrow> 0 else 0"
  define a1 where "a1 = wr32 a (?b + 8) 0"
  define a2 where "a2 = fold (\<lambda>k a. wr64 a (?b + 16 + 8 * k) 0) [0..<6] a1"
  have e: "pid_info_entry rows i a = wr64 a2 (?b + 16) ?v"
    by (simp add: pid_info_entry_def Let_def a1_def a2_def PIDINFO_MEM_PRIVATE_def
        PIDINFO_INDEX_VIDEO_MEMORY_USAGE_def)
  have f72: "?b + 72 \<le> length a" using fit by (simp add: PIDINFO_ENTRY_def)
  have l1: "length a1 = length a" using f72 by (simp add: a1_def)
  have t: "length a2 = length a \<and> (\<forall>j < 6. rd64 a2 (?b + 16 + 8 * j) = 0) \<and>
      (\<forall>k < length a. k < ?b + 16 \<or> ?b + 16 + 8 * 6 \<le> k \<longrightarrow> a2 ! k = a1 ! k)"
    unfolding a2_def using l1 f72 by (intro wr64_table) auto
  have f: "?b + 16 + 8 \<le> length a2" using t f72 by simp
  show "length (pid_info_entry rows i a) = length a" unfolding e using f t by simp
  show "pid_info_entry rows i a ! k = a ! k"
    if "k < length a" "k < ?b + 8 \<or> ?b + 64 \<le> k \<or> (?b + 12 \<le> k \<and> k < ?b + 16)"
  proof -
    have "wr64 a2 (?b + 16) ?v ! k = a2 ! k" using nth_wr64 [OF f, of k ?v] that t by auto
    also have "\<dots> = a1 ! k" using t that by auto
    also have "\<dots> = a ! k" unfolding a1_def using nth_wr32 [of "?b + 8" a k 0] that f72 by auto
    finally show ?thesis unfolding e .
  qed
  have "rd32 (pid_info_entry rows i a) (?b + 8) = rd32 a1 (?b + 8)"
  proof (rule rd32_cong)
    show "length (pid_info_entry rows i a) = length a1" unfolding e using f t l1 by simp
    fix k assume k: "?b + 8 \<le> k" "k < ?b + 8 + 4" "k < length (pid_info_entry rows i a)"
    then have "k < length a" unfolding e using f t by simp
    then have "wr64 a2 (?b + 16) ?v ! k = a2 ! k" "a2 ! k = a1 ! k"
      using nth_wr64 [OF f, of k ?v] k t by auto
    then show "pid_info_entry rows i a ! k = a1 ! k" unfolding e by simp
  qed
  then show "rd32 (pid_info_entry rows i a) (?b + 8) = 0"
    using f72 by (simp add: a1_def rd32_wr32(1))
  show "rd64 (pid_info_entry rows i a) (?b + 16) = ?v" unfolding e using f by (rule rd64_wr64(1))
  show "rd64 (pid_info_entry rows i a) (?b + 16 + 8 * m) = 0" if "1 \<le> m" "m < 6"
  proof -
    have "rd64 (wr64 a2 (?b + 16) ?v) (?b + 16 + 8 * m) = rd64 a2 (?b + 16 + 8 * m)"
      using f that by (intro rd64_wr64(2)) auto
    then show ?thesis unfolding e using t that by simp
  qed
qed

text \<open>Two buffers that agree on a region, and writers that keep the agreement.\<close>

definition agree :: "nat \<Rightarrow> nat \<Rightarrow> 'a list \<Rightarrow> 'a list \<Rightarrow> bool" where
  "agree lo hi a b \<longleftrightarrow> length a = length b \<and> (\<forall>k. lo \<le> k \<and> k < hi \<and> k < length a \<longrightarrow> a ! k = b ! k)"

lemma agree_wr:
  "agree lo hi a b \<Longrightarrow> off + 4 \<le> length a \<Longrightarrow> agree lo hi (wr32 a off w) (wr32 b off w)"
  "agree lo hi a b \<Longrightarrow> off + 8 \<le> length a \<Longrightarrow> agree lo hi (wr64 a off x) (wr64 b off x)"
  by (auto simp: agree_def wr32_def wr64_def nth_write_at)

lemma agree_rd32: "agree lo hi a b \<Longrightarrow> lo \<le> off \<Longrightarrow> off + 4 \<le> hi \<Longrightarrow> rd32 a off = rd32 b off"
  by (rule rd32_cong) (auto simp: agree_def)

lemma agree_rd64: "agree lo hi a b \<Longrightarrow> lo \<le> off \<Longrightarrow> off + 8 \<le> hi \<Longrightarrow> rd64 a off = rd64 b off"
  by (rule rd64_cong) (auto simp: agree_def)

lemma agree_fold_wr64:
  assumes "agree lo hi a b" "base + 8 * n \<le> length a"
  shows "agree lo hi (fold (\<lambda>k a. wr64 a (base + 8 * k) 0) [0..<n] a)
                     (fold (\<lambda>k a. wr64 a (base + 8 * k) 0) [0..<n] b)"
  using assms(2)
proof (induction n)
  case (Suc n)
  have "length (fold (\<lambda>k a. wr64 a (base + 8 * k) 0) [0..<n] a) = length a"
    using wr64_table [of a "length a" base n] Suc.prems by simp
  then show ?case using Suc agree_wr(2) by simp
qed (use assms(1) in simp)

lemma pid_info_entry_agree:
  assumes "agree (entry_lo i) (entry_lo i + PIDINFO_ENTRY) a b" "entry_lo i + PIDINFO_ENTRY \<le> length a"
  shows "agree (entry_lo i) (entry_lo i + PIDINFO_ENTRY) (pid_info_entry rows i a) (pid_info_entry rows i b)"
proof -
  let ?b = "entry_lo i"
  have f: "?b + 72 \<le> length a" using assms(2) by (simp add: PIDINFO_ENTRY_def)
  have r: "rd32 a ?b = rd32 b ?b" "rd32 a (?b + 4) = rd32 b (?b + 4)"
    using agree_rd32 [OF assms(1)] by (auto simp: PIDINFO_ENTRY_def)
  have 1: "agree ?b (?b + PIDINFO_ENTRY) (wr32 a (?b + 8) 0) (wr32 b (?b + 8) 0)"
    using agree_wr(1) [OF assms(1)] f by simp
  have l1: "length (wr32 a (?b + 8) 0) = length a" using f by simp
  have 2: "agree ?b (?b + PIDINFO_ENTRY)
      (fold (\<lambda>k a. wr64 a (?b + 16 + 8 * k) 0) [0..<6] (wr32 a (?b + 8) 0))
      (fold (\<lambda>k a. wr64 a (?b + 16 + 8 * k) 0) [0..<6] (wr32 b (?b + 8) 0))"
    using 1 l1 f by (intro agree_fold_wr64) auto
  have "length (fold (\<lambda>k a. wr64 a (?b + 16 + 8 * k) 0) [0..<6] (wr32 a (?b + 8) 0)) = length a"
    using wr64_table [of "wr32 a (?b + 8) 0" "length a" "?b + 16" 6] l1 f by simp
  then show ?thesis
    using agree_wr(2) [OF 2] f r unfolding pid_info_entry_def Let_def PIDINFO_MEM_PRIVATE_def
    by simp
qed

lemma get_pid_info_buffer:
  assumes "rewrite_get_pid_info aux rows = Some (aux', n)"
  shows "n = min (min (unat (rd32 aux PIDINFO_COUNT_OFF)) PIDINFO_MAX) ((length aux - PIDINFO_LIST_OFF) div PIDINFO_ENTRY)"
    and "length aux' = length aux" and "rd32 aux' PIDINFO_COUNT_OFF = word_of_nat n"
    and "i < n \<Longrightarrow> entry_lo i + PIDINFO_ENTRY \<le> length aux"
    and "i < n \<Longrightarrow> agree (entry_lo i) (entry_lo i + PIDINFO_ENTRY) aux' (pid_info_entry rows i aux)"
    and "k < length aux \<Longrightarrow> entry_lo n \<le> k \<Longrightarrow> aux' ! k = aux ! k"
proof -
  let ?fits = "(length aux - PIDINFO_LIST_OFF) div PIDINFO_ENTRY"
  let ?L = "length aux"
  let ?a = "fold (pid_info_entry rows) [0..<n] aux"
  have L: "PIDINFO_LIST_OFF + PIDINFO_ENTRY \<le> length aux"
    and n: "n = min (min (unat (rd32 aux PIDINFO_COUNT_OFF)) PIDINFO_MAX) ?fits"
    and aux': "aux' = wr32 ?a PIDINFO_COUNT_OFF (word_of_nat n)"
    using assms by (auto simp: rewrite_get_pid_info_def Let_def split: if_splits)
  have fit: "entry_lo i + PIDINFO_ENTRY \<le> ?L" if "i < n" for i
  proof -
    have "Suc i \<le> ?fits" using that n by simp
    then have "Suc i * PIDINFO_ENTRY \<le> ?L - PIDINFO_LIST_OFF"
      by (simp add: less_eq_div_iff_mult_less_eq PIDINFO_ENTRY_def)
    then show ?thesis using L by (simp add: PIDINFO_ENTRY_def PIDINFO_LIST_OFF_def)
  qed
  have F: "length ?a = ?L \<and>
      (\<forall>k < ?L. (\<forall>i < n. k < entry_lo i \<or> entry_lo i + PIDINFO_ENTRY \<le> k) \<longrightarrow> ?a ! k = aux ! k) \<and>
      (\<forall>j < n. \<forall>k < ?L. entry_lo j \<le> k \<longrightarrow> k < entry_lo j + PIDINFO_ENTRY \<longrightarrow> ?a ! k = pid_info_entry rows j aux ! k)"
  proof (rule fold_regions [where lo = entry_lo and hi = "\<lambda>i. entry_lo i + PIDINFO_ENTRY"])
    fix i and a b :: bytes and k
    assume i: "i < n" and a: "length a = ?L"
    then show "length (pid_info_entry rows i a) = ?L" using pid_info_entry_spec(1) fit by simp
    assume k: "k < ?L"
    { assume "k < entry_lo i \<or> entry_lo i + PIDINFO_ENTRY \<le> k"
      then show "pid_info_entry rows i a ! k = a ! k"
        using pid_info_entry_spec(2) [of i a k rows] fit [OF i] a k by (auto simp: PIDINFO_ENTRY_def) }
    assume "length b = ?L" "\<And>k. entry_lo i \<le> k \<Longrightarrow> k < entry_lo i + PIDINFO_ENTRY \<Longrightarrow> k < ?L \<Longrightarrow> a ! k = b ! k"
      "entry_lo i \<le> k" "k < entry_lo i + PIDINFO_ENTRY"
    moreover from this have "agree (entry_lo i) (entry_lo i + PIDINFO_ENTRY) (pid_info_entry rows i a) (pid_info_entry rows i b)"
      using a fit [OF i] by (intro pid_info_entry_agree) (auto simp: agree_def)
    ultimately show "pid_info_entry rows i a ! k = pid_info_entry rows i b ! k"
      using k a fit [OF i] pid_info_entry_spec(1) [of i a rows] by (auto simp: agree_def)
  qed (auto simp: PIDINFO_ENTRY_def)
  have c: "PIDINFO_COUNT_OFF + 4 \<le> length ?a" using F L by (simp add: pidinfo_defs)
  show "n = min (min (unat (rd32 aux PIDINFO_COUNT_OFF)) PIDINFO_MAX) ?fits" by (rule n)
  show l: "length aux' = length aux" using aux' c F by simp
  show "rd32 aux' PIDINFO_COUNT_OFF = word_of_nat n" using aux' c by (simp add: rd32_wr32)
  have w: "aux' ! k = ?a ! k" if "k < ?L" "PIDINFO_LIST_OFF \<le> k" for k
    unfolding aux' using nth_wr32 [OF c, of k "word_of_nat n"] that F by (simp add: pidinfo_defs)
  show "entry_lo i + PIDINFO_ENTRY \<le> length aux" if "i < n" by (rule fit [OF that])
  show "agree (entry_lo i) (entry_lo i + PIDINFO_ENTRY) aux' (pid_info_entry rows i aux)" if "i < n"
    using F w l that pid_info_entry_spec(1) [OF fit [OF that]] by (auto simp: agree_def)
  show "aux' ! k = aux ! k" if "k < length aux" "entry_lo n \<le> k"
  proof -
    have "\<forall>i < n. k < entry_lo i \<or> entry_lo i + PIDINFO_ENTRY \<le> k"
    proof (intro allI impI disjI2)
      fix i assume "i < n"
      then have "PIDINFO_ENTRY * Suc i \<le> PIDINFO_ENTRY * n" by (intro mult_le_mono2) simp
      then show "entry_lo i + PIDINFO_ENTRY \<le> k" using that(2) by simp
    qed
    then show ?thesis using F w that by simp
  qed
qed



section \<open>Framebuffer answers\<close>

lemma cap_fb_fold:
  "fold (\<lambda>i (l, t). case fb_value limit used (rd32 l (FBINFO_ENTRY * i)) of
             None \<Rightarrow> (l, t) | Some v \<Rightarrow> (wr32 l (FBINFO_ENTRY * i + 4) v, t + 1)) is (l0, t0) =
    (fold (fb_entry limit used) is l0,
     snd (fold (\<lambda>i (l, t). (fb_entry limit used i l,
       case fb_value limit used (rd32 l (FBINFO_ENTRY * i)) of None \<Rightarrow> t | Some _ \<Rightarrow> t + 1)) is (l0, t0)))"
  by (induction "is" arbitrary: l0 t0) (auto simp: fb_entry_def split: option.splits)

lemma fb_entry_spec:
  assumes "FBINFO_ENTRY * i + FBINFO_ENTRY \<le> length l"
  shows "length (fb_entry limit used i l) = length l"
    and "k < length l \<Longrightarrow> k < FBINFO_ENTRY * i + 4 \<or> FBINFO_ENTRY * i + 8 \<le> k \<Longrightarrow> fb_entry limit used i l ! k = l ! k"
    and "rd32 (fb_entry limit used i l) (FBINFO_ENTRY * i + 4) =
      (case fb_value limit used (rd32 l (FBINFO_ENTRY * i)) of None \<Rightarrow> rd32 l (FBINFO_ENTRY * i + 4) | Some v \<Rightarrow> v)"
  using assms nth_wr32 [of "FBINFO_ENTRY * i + 4" l k]
  by (auto simp: fb_entry_def FBINFO_ENTRY_def rd32_wr32 split: option.splits)

lemma fb_entry_agree:
  assumes "agree (FBINFO_ENTRY * i) (FBINFO_ENTRY * i + FBINFO_ENTRY) a b" "FBINFO_ENTRY * i + FBINFO_ENTRY \<le> length a"
  shows "agree (FBINFO_ENTRY * i) (FBINFO_ENTRY * i + FBINFO_ENTRY) (fb_entry limit used i a) (fb_entry limit used i b)"
  using assms agree_wr(1) [OF assms(1), of "FBINFO_ENTRY * i + 4"] agree_rd32 [OF assms(1), of "FBINFO_ENTRY * i"]
  by (simp add: fb_entry_def FBINFO_ENTRY_def split: option.splits)

abbreviation fb_count :: "bytes \<Rightarrow> nat \<Rightarrow> nat" where
  "fb_count lst asked \<equiv> min (min asked FBINFO_MAX) (length lst div FBINFO_ENTRY)"

lemma cap_fb_buffer:
  assumes "cap_fb_entries lst asked limit used = (l, t)"
  shows "length l = length lst"
    and "i < fb_count lst asked \<Longrightarrow> FBINFO_ENTRY * i + FBINFO_ENTRY \<le> length lst"
    and "i < fb_count lst asked \<Longrightarrow>
      agree (FBINFO_ENTRY * i) (FBINFO_ENTRY * i + FBINFO_ENTRY) l (fb_entry limit used i lst)"
    and "k < length lst \<Longrightarrow> FBINFO_ENTRY * fb_count lst asked \<le> k \<Longrightarrow> l ! k = lst ! k"
proof -
  let ?n = "fb_count lst asked" and ?L = "length lst"
  have l: "l = fold (fb_entry limit used) [0..<?n] lst"
    using assms unfolding cap_fb_entries_def Let_def cap_fb_fold by simp
  have fit: "FBINFO_ENTRY * i + FBINFO_ENTRY \<le> ?L" if "i < ?n" for i
  proof -
    have "Suc i \<le> ?L div FBINFO_ENTRY" using that by simp
    then have "Suc i * FBINFO_ENTRY \<le> ?L"
      by (simp add: less_eq_div_iff_mult_less_eq FBINFO_ENTRY_def)
    then show ?thesis by (simp add: FBINFO_ENTRY_def)
  qed
  have F: "length l = ?L \<and>
      (\<forall>k < ?L. (\<forall>i < ?n. k < FBINFO_ENTRY * i \<or> FBINFO_ENTRY * i + FBINFO_ENTRY \<le> k) \<longrightarrow> l ! k = lst ! k) \<and>
      (\<forall>j < ?n. \<forall>k < ?L. FBINFO_ENTRY * j \<le> k \<longrightarrow> k < FBINFO_ENTRY * j + FBINFO_ENTRY \<longrightarrow> l ! k = fb_entry limit used j lst ! k)"
    unfolding l
  proof (rule fold_regions)
    fix i and a b :: bytes and k
    assume i: "i < ?n" and a: "length a = ?L"
    then show "length (fb_entry limit used i a) = ?L" using fb_entry_spec(1) fit by simp
    assume k: "k < ?L"
    { assume "k < FBINFO_ENTRY * i \<or> FBINFO_ENTRY * i + FBINFO_ENTRY \<le> k"
      then show "fb_entry limit used i a ! k = a ! k"
        using fb_entry_spec(2) [of i a k limit used] fit [OF i] a k by (auto simp: FBINFO_ENTRY_def) }
    assume "length b = ?L" "\<And>k. FBINFO_ENTRY * i \<le> k \<Longrightarrow> k < FBINFO_ENTRY * i + FBINFO_ENTRY \<Longrightarrow> k < ?L \<Longrightarrow> a ! k = b ! k"
      "FBINFO_ENTRY * i \<le> k" "k < FBINFO_ENTRY * i + FBINFO_ENTRY"
    moreover from this have "agree (FBINFO_ENTRY * i) (FBINFO_ENTRY * i + FBINFO_ENTRY) (fb_entry limit used i a) (fb_entry limit used i b)"
      using a fit [OF i] by (intro fb_entry_agree) (auto simp: agree_def)
    ultimately show "fb_entry limit used i a ! k = fb_entry limit used i b ! k"
      using k a fit [OF i] fb_entry_spec(1) [of i a limit used] by (auto simp: agree_def)
  qed (auto simp: FBINFO_ENTRY_def)
  show "length l = length lst" using F by simp
  show "FBINFO_ENTRY * i + FBINFO_ENTRY \<le> length lst" if "i < ?n" by (rule fit [OF that])
  show "agree (FBINFO_ENTRY * i) (FBINFO_ENTRY * i + FBINFO_ENTRY) l (fb_entry limit used i lst)" if "i < ?n"
    using F that fb_entry_spec(1) [OF fit [OF that]] by (auto simp: agree_def)
  show "l ! k = lst ! k" if "k < length lst" "FBINFO_ENTRY * ?n \<le> k"
  proof -
    have "FBINFO_ENTRY * i + FBINFO_ENTRY \<le> k" if "i < ?n" for i
    proof -
      have "FBINFO_ENTRY * Suc i \<le> FBINFO_ENTRY * ?n" using that by (intro mult_le_mono2) simp
      then show ?thesis using \<open>FBINFO_ENTRY * ?n \<le> k\<close> by simp
    qed
    then show ?thesis using F that by blast
  qed
qed

lemma unat_kb: "unat (kb b) = min (unat b div 1024) 0xFFFFFFFF"
proof (cases "b div 1024 \<le> 0xFFFFFFFF")
  case True
  then have "unat b div 1024 \<le> 0xFFFFFFFF" by (simp add: word_le_nat_alt unat_div)
  with True show ?thesis by (simp add: kb_def min_def unsigned_ucast_eq take_bit_eq_mod unat_div)
next
  case False
  then have "\<not> unat b div 1024 \<le> 0xFFFFFFFF" by (simp add: word_le_nat_alt unat_div)
  with False show ?thesis by (simp add: kb_def min_def unsigned_ucast_eq take_bit_eq_mod)
qed

lemma kb_mono: "a \<le> b \<Longrightarrow> kb a \<le> kb b"
  using div_le_mono [of "unat a" "unat b" 1024] by (auto simp: word_le_nat_alt unat_kb)

text \<open>C28: Capped framebuffer sizes are consistent.  In a rewritten size list each answered
  entry keeps its question; the size entries all report the same capped total, the free entry
  reports cap minus use and never more than the total, and every other entry and everything past
  the answered entries is what the driver wrote.\<close>

theorem fb_info_list_capped:
  assumes "rewrite_fb_info_list lst asked limit used = Some (l, t)"
  shows "length l = length lst \<and>
    (\<forall>i < fb_count lst asked.
       rd32 l (FBINFO_ENTRY * i) = rd32 lst (FBINFO_ENTRY * i) \<and>
       rd32 l (FBINFO_ENTRY * i + 4) =
         (let index = rd32 lst (FBINFO_ENTRY * i) in
          if index \<in> {0x07, 0x08, 0x09, 0x20} then kb limit
          else if index = 0x16 then kb (saturating_sub limit used)
          else rd32 lst (FBINFO_ENTRY * i + 4))) \<and>
    kb (saturating_sub limit used) \<le> kb limit \<and>
    (\<forall>k < length lst. FBINFO_ENTRY * fb_count lst asked \<le> k \<longrightarrow> l ! k = lst ! k)"
proof -
  have c: "cap_fb_entries lst asked limit used = (l, t)"
    using assms by (simp add: rewrite_fb_info_list_def split: if_splits)
  note B = cap_fb_buffer [OF c]
  have E: "rd32 l (FBINFO_ENTRY * i) = rd32 lst (FBINFO_ENTRY * i) \<and>
      rd32 l (FBINFO_ENTRY * i + 4) =
        (case fb_value limit used (rd32 lst (FBINFO_ENTRY * i)) of
           None \<Rightarrow> rd32 lst (FBINFO_ENTRY * i + 4) | Some v \<Rightarrow> v)" if i: "i < fb_count lst asked" for i
  proof -
    note A = B(3) [OF i] and S = fb_entry_spec [OF B(2) [OF i], where limit = limit and used = used]
    have "rd32 (fb_entry limit used i lst) (FBINFO_ENTRY * i) = rd32 lst (FBINFO_ENTRY * i)"
      using S(1,2) by (intro rd32_cong) auto
    then show ?thesis
      using agree_rd32 [OF A, of "FBINFO_ENTRY * i"] agree_rd32 [OF A, of "FBINFO_ENTRY * i + 4"] S(3)
      by (simp add: FBINFO_ENTRY_def)
  qed
  have "saturating_sub limit used \<le> limit" by (simp add: word_le_nat_alt checked_simps)
  then show ?thesis
    using B(1,4) E kb_mono by (auto simp: fb_value_def fbindex_defs Let_def)
qed

theorem fb_info_list_capped_witness:
  "\<exists>l. rewrite_fb_info_list (wr32 (replicate 8 0) 0 0x16) 1 0x100000 0x40000 = Some (l, 1) \<and>
     rd32 l (FBINFO_ENTRY * 0 + 4) = 768"
proof -
  let ?lst = "wr32 (replicate 8 0) 0 0x16 :: bytes"
  have q: "rd32 ?lst 0 = 0x16" by (simp add: rd32_wr32)
  have "snd (cap_fb_entries ?lst 1 0x100000 0x40000) = 1"
    using q by (simp add: cap_fb_entries_def fbinfo_defs fb_value_def fbindex_defs)
  then obtain l where l: "rewrite_fb_info_list ?lst 1 0x100000 0x40000 = Some (l, 1)"
    by (cases "cap_fb_entries ?lst 1 0x100000 0x40000") (simp add: rewrite_fb_info_list_def FBINFO_ENTRY_def)
  have "rd32 l (FBINFO_ENTRY * 0 + 4) = kb (saturating_sub 0x100000 0x40000)"
    using fb_info_list_capped [OF l] q by (simp add: fbinfo_defs)
  moreover have "kb (saturating_sub 0x100000 0x40000) = 768"
    by (simp add: kb_def saturating_sub_def)
  ultimately show ?thesis using l by simp
qed

end
