(* ===== verification/HostArena.thy ===== *)
theory HostArena
  imports Mirror Vgpu
begin

text \<open>
  \<^verbatim>\<open>crates/vhost-user-nvrm/src/host_pool.rs\<close>, first half: the host addresses that alias
  guest pages.  An arena is one reserved range of host address space, covered run by
  run with \<^verbatim>\<open>MAP_FIXED\<close> mappings of the guest RAM file.

  Everything the code asks of its surroundings is a \<^verbatim>\<open>host_call\<close>; the surroundings are
  a parameter \<^verbatim>\<open>henv\<close> whose answer may depend on the whole history of calls, and the
  history (newest first) is part of the state.  So the theorems hold for every kernel,
  and statements about the order of calls are statements about the history.
\<close>

section \<open>Calls to the host\<close>

datatype host_call =
    MmapReserve nat
  | MmapFixed u64 u64 i32 u64
  | Munmap u64 nat
  | DupFd i32
  | CloseFd i32
  | NewBacking
  | DAllocate u32 u64 guest_len
  | DGrant u32 u32
  | DCreateRange u32 i32 guest_addr guest_len
  | DMap u32 i32 guest_addr guest_len u32
  | DFreeRange u32 i32 guest_addr guest_len
  | DFreeObject u32 u32

type_synonym history = "(host_call \<times> (string + u64)) list"

record region =
  rg_start :: u64
  rg_len :: u64
  rg_file :: "(i32 \<times> u64) option"

record henv =
  he_call :: "history \<Rightarrow> host_call \<Rightarrow> string + u64"
  he_page :: int
  he_pin_var :: "string option"
  he_find_region :: "u64 \<Rightarrow> region option"

definition host_do :: "henv \<Rightarrow> host_call \<Rightarrow> history \<Rightarrow> (string + u64) \<times> history" where
  "host_do env c tr = (let r = he_call env tr c in (r, (c, r) # tr))"

lemma host_do_eq: "host_do env c tr = (he_call env tr c, (c, he_call env tr c) # tr)"
  by (simp add: host_do_def Let_def)

datatype pool_error =
    EmptyArena | NoPageSize | LengthOverflow | BadRun | SumOverflow | SumMismatch | OverPinLimit
  | NoRegion | NoFile | RunOverflow | RegionOverflow | ExceedsRegion | NoLongerFits | BeforeRegion
  | FileOffset | HostError string | BudgetExceeded | BudgetZero
  | RangeOverflow | NotWholePages | PoolOverlap

section \<open>Limits\<close>

definition parse_pin_bytes :: "string \<Rightarrow> u64 option" where
  "parse_pin_bytes raw =
    (case parse_uint 64 (trim raw) of
       None \<Rightarrow> None
     | Some v \<Rightarrow> (case checked_mul (word_of_nat v) (0x100000 :: u64) of
                    None \<Rightarrow> None
                  | Some b \<Rightarrow> if b \<noteq> 0 then Some b else None))"

definition host_page_size :: "henv \<Rightarrow> pool_error + u64" where
  "host_page_size env = (if he_page env \<le> 0 then Inl NoPageSize else Inr (of_int (he_page env)))"

definition registration_bytes :: "henv \<Rightarrow> u64 \<Rightarrow> pool_error + u64" where
  "registration_bytes env n =
    (if n = 0 then Inl EmptyArena
     else case host_page_size env of
            Inl e \<Rightarrow> Inl e
          | Inr page \<Rightarrow>
              (case checked_add n (page - 1) of
                 None \<Rightarrow> Inl LengthOverflow
               | Some rounded \<Rightarrow> Inr (rounded div page * page)))"

definition max_pin_bytes :: "henv \<Rightarrow> u64" where
  "max_pin_bytes env =
    (case he_pin_var env of
       None \<Rightarrow> 256 * 0x100000
     | Some s \<Rightarrow> (case parse_pin_bytes s of Some b \<Rightarrow> b | None \<Rightarrow> 256 * 0x100000))"

section \<open>Runs of guest pages\<close>

record gpa_run =
  gr_gpa :: guest_addr
  gr_len :: guest_len

abbreviation (input) GPA_RUN_WIRE :: nat where "GPA_RUN_WIRE \<equiv> 16"

definition gpa_run_decode :: "bytes \<Rightarrow> nat \<Rightarrow> gpa_run list option" where
  "gpa_run_decode aux count =
    (if 2 ^ 64 \<le> count * GPA_RUN_WIRE \<or> length aux < count * GPA_RUN_WIRE then None
     else Some (map (\<lambda>i. \<lparr> gr_gpa = GuestAddr (rd64 aux (i * GPA_RUN_WIRE)),
                           gr_len = GuestLen (rd64 aux (i * GPA_RUN_WIRE + 8)) \<rparr>) [0..<count]))"

section \<open>Arenas\<close>

record arena =
  ar_base :: u64
  ar_len :: nat
  ar_lease :: "u64 option"

fun sum_runs :: "u64 \<Rightarrow> gpa_run list \<Rightarrow> guest_len \<Rightarrow> pool_error + guest_len" where
  "sum_runs page [] acc = Inr acc"
| "sum_runs page (r # rs) acc =
    (if gl_is_zero (gr_len r) \<or> ga_get (gr_gpa r) mod page \<noteq> 0 \<or> gl_get (gr_len r) mod page \<noteq> 0
     then Inl BadRun
     else case gl_plus acc (gr_len r) of
            None \<Rightarrow> Inl SumOverflow
          | Some acc' \<Rightarrow> sum_runs page rs acc')"

text \<open>The descriptor and file offset behind one run, after the checks of the mapping loop.\<close>

definition run_source :: "henv \<Rightarrow> guest_len \<Rightarrow> u64 \<Rightarrow> gpa_run \<Rightarrow> pool_error + (i32 \<times> u64)" where
  "run_source env tot off r =
    (case he_find_region env (ga_get (gr_gpa r)) of
       None \<Rightarrow> Inl NoRegion
     | Some rg \<Rightarrow>
    (case rg_file rg of
       None \<Rightarrow> Inl NoFile
     | Some (fd, start) \<Rightarrow>
    (case ga_end (gr_gpa r) (gr_len r) of
       None \<Rightarrow> Inl RunOverflow
     | Some run_end \<Rightarrow>
    (case ga_end (GuestAddr (rg_start rg)) (GuestLen (rg_len rg)) of
       None \<Rightarrow> Inl RegionOverflow
     | Some region_end \<Rightarrow>
       if ga_get region_end < ga_get run_end then Inl ExceedsRegion
       else if (case checked_add off (gl_get (gr_len r)) of
                  None \<Rightarrow> True | Some e \<Rightarrow> \<not> e \<le> gl_get tot) then Inl NoLongerFits
       else
    (case ga_offset_from (gr_gpa r) (GuestAddr (rg_start rg)) of
       None \<Rightarrow> Inl BeforeRegion
     | Some in_region \<Rightarrow>
    (case checked_add start in_region of
       None \<Rightarrow> Inl FileOffset
     | Some file_off \<Rightarrow>
         if unat file_off < 2 ^ 63 then Inr (fd, file_off) else Inl FileOffset))))))"

fun map_runs ::
  "henv \<Rightarrow> u64 \<Rightarrow> guest_len \<Rightarrow> u64 \<Rightarrow> gpa_run list \<Rightarrow> history \<Rightarrow> (pool_error + unit) \<times> history"
where
  "map_runs env base tot off [] tr = (Inr (), tr)"
| "map_runs env base tot off (r # rs) tr =
    (case run_source env tot off r of
       Inl e \<Rightarrow> (Inl e, tr)
     | Inr (fd, file_off) \<Rightarrow>
         (case host_do env (MmapFixed (base + off) (gl_get (gr_len r)) fd file_off) tr of
            (Inl s, tr') \<Rightarrow> (Inl (HostError s), tr')
          | (Inr _, tr') \<Rightarrow> map_runs env base tot (off + gl_get (gr_len r)) rs tr'))"

definition arena_build ::
  "henv \<Rightarrow> gpa_run list \<Rightarrow> guest_len \<Rightarrow> history \<Rightarrow> (pool_error + arena) \<times> history"
where
  "arena_build env runs tot tr =
    (case host_page_size env of
       Inl e \<Rightarrow> (Inl e, tr)
     | Inr page \<Rightarrow>
    (case sum_runs page runs (GuestLen 0) of
       Inl e \<Rightarrow> (Inl e, tr)
     | Inr s \<Rightarrow>
       if s \<noteq> tot then (Inl SumMismatch, tr)
       else if gl_is_zero tot \<or> max_pin_bytes env < gl_get tot then (Inl OverPinLimit, tr)
       else
         let len = unat (gl_get tot) in
         (case host_do env (MmapReserve len) tr of
            (Inl e, tr1) \<Rightarrow> (Inl (HostError e), tr1)
          | (Inr base, tr1) \<Rightarrow>
              (case map_runs env base tot 0 runs tr1 of
                 (Inl e, tr2) \<Rightarrow> (Inl e, snd (host_do env (Munmap base len) tr2))
               | (Inr _, tr2) \<Rightarrow>
                   (Inr \<lparr> ar_base = base, ar_len = len, ar_lease = None \<rparr>, tr2)))))"

section \<open>What a built arena covers\<close>

definition runs_bytes :: "gpa_run list \<Rightarrow> nat" where
  "runs_bytes rs = sum_list (map (\<lambda>r. unat (gl_get (gr_len r))) rs)"

lemma runs_bytes_simps [simp]:
  "runs_bytes [] = 0"
  "runs_bytes (r # rs) = unat (gl_get (gr_len r)) + runs_bytes rs"
  by (simp_all add: runs_bytes_def)

lemma sum_runs_total:
  "sum_runs page rs acc = Inr s \<Longrightarrow> unat (gl_get s) = unat (gl_get acc) + runs_bytes rs"
  by (induction rs arbitrary: acc) (auto simp: checked_simps split: if_splits option.splits)

text \<open>A run lies in guest RAM: inside the region found for it, at that region's file offset.\<close>

definition run_in_ram :: "henv \<Rightarrow> gpa_run \<Rightarrow> i32 \<Rightarrow> u64 \<Rightarrow> bool" where
  "run_in_ram env r fd fo \<longleftrightarrow>
    (\<exists>rg start. he_find_region env (ga_get (gr_gpa r)) = Some rg \<and> rg_file rg = Some (fd, start) \<and>
       unat (rg_start rg) \<le> unat (ga_get (gr_gpa r)) \<and>
       unat (ga_get (gr_gpa r)) + unat (gl_get (gr_len r)) \<le> unat (rg_start rg) + unat (rg_len rg) \<and>
       unat fo = unat start + (unat (ga_get (gr_gpa r)) - unat (rg_start rg)) \<and> unat fo < 2 ^ 63)"

lemma run_source_Inr:
  assumes "run_source env tot off r = Inr (fd, fo)"
  shows "run_in_ram env r fd fo \<and> unat off + unat (gl_get (gr_len r)) \<le> unat (gl_get tot)"
proof -
  from assms obtain rg start re ge ir where
    "he_find_region env (ga_get (gr_gpa r)) = Some rg" "rg_file rg = Some (fd, start)"
    "ga_end (gr_gpa r) (gr_len r) = Some re"
    "ga_end (GuestAddr (rg_start rg)) (GuestLen (rg_len rg)) = Some ge"
    "\<not> ga_get ge < ga_get re" "ga_offset_from (gr_gpa r) (GuestAddr (rg_start rg)) = Some ir"
    "checked_add start ir = Some fo" "unat fo < 2 ^ 63"
    and fits: "\<not> (case checked_add off (gl_get (gr_len r)) of
        None \<Rightarrow> True | Some e \<Rightarrow> \<not> e \<le> gl_get tot)"
    by (auto simp: run_source_def split: option.splits if_splits)
  then have "run_in_ram env r fd fo"
    by (auto simp: run_in_ram_def ga_offset_from_def checked_simps word_less_nat_alt)
  moreover have "unat off + unat (gl_get (gr_len r)) \<le> unat (gl_get tot)"
    using fits by (auto simp: checked_simps word_le_nat_alt split: option.splits)
  ultimately show ?thesis ..
qed

fun tile_calls :: "u64 \<Rightarrow> u64 \<Rightarrow> gpa_run list \<Rightarrow> (i32 \<times> u64) list \<Rightarrow> host_call list" where
  "tile_calls base off (r # rs) ((fd, fo) # fs) =
    MmapFixed (base + off) (gl_get (gr_len r)) fd fo # tile_calls base (off + gl_get (gr_len r)) rs fs"
| "tile_calls base off _ _ = []"

text \<open>The mapping loop issues the tiling calls of a prefix of the runs, and of all runs
  exactly when it succeeds.\<close>

lemma map_runs_tiles:
  assumes "map_runs env base tot off rs tr = (res, tr')"
  shows "\<exists>n fs ev. tr' = ev @ tr \<and> map fst (rev ev) = tile_calls base off (take n rs) fs \<and>
    length fs = length (take n rs) \<and>
    list_all2 (\<lambda>r (fd, fo). run_in_ram env r fd fo) (take n rs) fs \<and>
    (n \<noteq> 0 \<longrightarrow> unat off + runs_bytes (take n rs) \<le> unat (gl_get tot)) \<and>
    (res = Inr () \<longrightarrow> n = length rs)"
  using assms
proof (induction rs arbitrary: off tr)
  case Nil
  then show ?case by (intro exI [of _ 0] exI [of _ "[]"]) simp
next
  case (Cons r rs)
  show ?case
  proof (cases "run_source env tot off r")
    case (Inl e)
    then show ?thesis using Cons.prems by (intro exI [of _ 0] exI [of _ "[]"]) auto
  next
    case (Inr src)
    obtain fd fo where src: "src = (fd, fo)" by force
    note fit = run_source_Inr [OF Inr [unfolded src]]
    let ?c = "MmapFixed (base + off) (gl_get (gr_len r)) fd fo"
    have step: "unat (off + gl_get (gr_len r)) = unat off + unat (gl_get (gr_len r))"
      using fit unat_lt_u64 [of "gl_get tot"] by (intro unat_add_bounded) simp
    show ?thesis
    proof (cases "he_call env tr ?c")
      case (Inl e)
      then show ?thesis using Cons.prems Inr src fit
        by (intro exI [of _ 1] exI [of _ "[(fd, fo)]"] exI [of _ "[(?c, Inl e)]"])
           (auto simp: host_do_eq)
    next
      case ok: (Inr v)
      then have "map_runs env base tot (off + gl_get (gr_len r)) rs ((?c, Inr v) # tr) = (res, tr')"
        using Cons.prems Inr src by (simp add: host_do_eq)
      from Cons.IH [OF this] obtain n fs ev where ih:
        "tr' = ev @ (?c, Inr v) # tr"
        "map fst (rev ev) = tile_calls base (off + gl_get (gr_len r)) (take n rs) fs"
        "length fs = length (take n rs)"
        "list_all2 (\<lambda>r (fd, fo). run_in_ram env r fd fo) (take n rs) fs"
        "n \<noteq> 0 \<longrightarrow> unat (off + gl_get (gr_len r)) + runs_bytes (take n rs) \<le> unat (gl_get tot)"
        "res = Inr () \<longrightarrow> n = length rs" by blast
      then show ?thesis using fit step
        by (intro exI [of _ "Suc n"] exI [of _ "(fd, fo) # fs"] exI [of _ "ev @ [(?c, Inr v)]"])
           (cases "n = 0", auto)
    qed
  qed
qed

lemma tile_calls_fixed:
  assumes "c \<in> set (tile_calls base off rs fs)"
  obtains dst len fd fo where "c = MmapFixed dst len fd fo"
  using assms by (induction base off rs fs rule: tile_calls.induct) auto

lemma tile_calls_confined:
  assumes "MmapFixed dst len fd fo \<in> set (tile_calls base off rs fs)"
    and "list_all2 (\<lambda>r (fd, fo). run_in_ram env r fd fo) rs fs"
    and "unat off + runs_bytes rs \<le> T" "T < 2 ^ 64"
  shows "\<exists>o' r. dst = base + o' \<and> unat off \<le> unat o' \<and> unat o' + unat len \<le> T \<and> r \<in> set rs \<and>
    len = gl_get (gr_len r) \<and> run_in_ram env r fd fo"
  using assms
proof (induction base off rs fs rule: tile_calls.induct)
  case (1 base off r rs fd' fo' fs)
  show ?case
  proof (cases "MmapFixed dst len fd fo = MmapFixed (base + off) (gl_get (gr_len r)) fd' fo'")
    case True
    then show ?thesis using "1.prems" by (intro exI [of _ off] exI [of _ r]) auto
  next
    case False
    have step: "unat (off + gl_get (gr_len r)) = unat off + unat (gl_get (gr_len r))"
      using "1.prems" by (intro unat_add_bounded) simp
    show ?thesis using "1.IH" "1.prems" False step by fastforce
  qed
qed simp_all

lemma arena_build_cases:
  assumes "arena_build env runs tot tr = (res, tr')"
  obtains
    (refused) e where "res = Inl e" "tr' = tr"
  | (unreserved) e where "res = Inl (HostError e)" "tr' = (MmapReserve (unat (gl_get tot)), Inl e) # tr"
  | (rolled_back) e base tr2 x where "res = Inl e"
      "map_runs env base tot 0 runs ((MmapReserve (unat (gl_get tot)), Inr base) # tr) = (Inl e, tr2)"
      "tr' = (Munmap base (unat (gl_get tot)), x) # tr2"
      "he_call env tr (MmapReserve (unat (gl_get tot))) = Inr base"
  | (built) base page where
      "res = Inr \<lparr> ar_base = base, ar_len = unat (gl_get tot), ar_lease = None \<rparr>"
      "map_runs env base tot 0 runs ((MmapReserve (unat (gl_get tot)), Inr base) # tr) = (Inr (), tr')"
      "sum_runs page runs (GuestLen 0) = Inr tot" "gl_get tot \<le> max_pin_bytes env" "gl_get tot \<noteq> 0"
      "he_call env tr (MmapReserve (unat (gl_get tot))) = Inr base"
proof (cases "host_page_size env")
  case (Inl e)
  then show thesis using assms refused [of e] by (simp add: arena_build_def)
next
  case page: (Inr page)
  let ?len = "unat (gl_get tot)"
  show thesis
  proof (cases "sum_runs page runs (GuestLen 0)")
    case (Inl e)
    then show thesis using assms page refused [of e] by (simp add: arena_build_def)
  next
    case s: (Inr s)
    consider "s \<noteq> tot" | "s = tot" "gl_is_zero tot \<or> max_pin_bytes env < gl_get tot"
      | "s = tot" "\<not> gl_is_zero tot" "\<not> max_pin_bytes env < gl_get tot" by blast
    then show thesis
    proof cases
      case 1
      then show thesis using assms page s refused [of SumMismatch] by (simp add: arena_build_def)
    next
      case 2
      then show thesis using assms page s refused [of OverPinLimit] by (auto simp: arena_build_def)
    next
      case 3
      show thesis
      proof (cases "he_call env tr (MmapReserve ?len)")
        case (Inl e)
        then show thesis using assms page s 3 unreserved [of e]
          by (simp add: arena_build_def host_do_eq)
      next
        case base: (Inr base)
        obtain r2 tr2 where m: "map_runs env base tot 0 runs ((MmapReserve ?len, Inr base) # tr) = (r2, tr2)"
          by force
        show thesis
        proof (cases r2)
          case (Inl e)
          then show thesis using assms page s 3 base m rolled_back [of e base tr2]
            by (auto simp: arena_build_def host_do_eq Let_def)
        next
          case (Inr u)
          then show thesis using assms page s 3 base m built [of base page]
            by (simp add: arena_build_def host_do_eq gl_is_zero_def not_less)
        qed
      qed
    qed
  qed
qed

lemma map_runs_confined:
  assumes "map_runs env b tot 0 runs tr = (res, tr')"
  shows "\<exists>ev. tr' = ev @ tr \<and> (\<forall>c \<in> fst ` set ev. \<exists>off len fd fo r. c = MmapFixed (b + off) len fd fo \<and>
    unat off + unat len \<le> unat (gl_get tot) \<and> r \<in> set runs \<and> len = gl_get (gr_len r) \<and>
    run_in_ram env r fd fo)"
proof -
  from map_runs_tiles [OF assms] obtain n fs ev where ev:
    "tr' = ev @ tr" "map fst (rev ev) = tile_calls b 0 (take n runs) fs"
    "list_all2 (\<lambda>r (fd, fo). run_in_ram env r fd fo) (take n runs) fs"
    "n \<noteq> 0 \<longrightarrow> unat (0::u64) + runs_bytes (take n runs) \<le> unat (gl_get tot)" by blast
  have le: "unat (0::u64) + runs_bytes (take n runs) \<le> unat (gl_get tot)"
    using ev(4) by (cases "n = 0") auto
  have "\<exists>off len fd fo r. c = MmapFixed (b + off) len fd fo \<and>
    unat off + unat len \<le> unat (gl_get tot) \<and> r \<in> set runs \<and> len = gl_get (gr_len r) \<and>
    run_in_ram env r fd fo" if "c \<in> fst ` set ev" for c
  proof -
    have c: "c \<in> set (tile_calls b 0 (take n runs) fs)"
      using that unfolding ev(2) [symmetric] by (simp add: image_iff)
    then obtain dst len fd fo where c': "c = MmapFixed dst len fd fo" by (rule tile_calls_fixed)
    obtain o' r where "dst = b + o'" "unat o' + unat len \<le> unat (gl_get tot)"
      "r \<in> set (take n runs)" "len = gl_get (gr_len r)" "run_in_ram env r fd fo"
      using tile_calls_confined [OF c [unfolded c'] ev(3) le unat_lt_u64] by blast
    then show ?thesis unfolding c' using in_set_takeD by fast
  qed
  then show ?thesis using ev(1) by blast
qed

text \<open>C16: Whatever guest page runs a request names and however the kernel answers, building an
  arena only ever places MAP_FIXED mappings inside the range the same call reserved, and each
  of them aliases one run that lies inside a region of guest RAM at that region's file offset.\<close>

theorem arena_build_confined:
  assumes "arena_build env runs tot tr = (res, tr')"
  shows "\<exists>ev. tr' = ev @ tr \<and>
    (\<forall>dst len fd fo. MmapFixed dst len fd fo \<in> fst ` set ev \<longrightarrow>
      (\<exists>base off r. (MmapReserve (unat (gl_get tot)), Inr base) \<in> set ev \<and> dst = base + off \<and>
         unat off + unat len \<le> unat (gl_get tot) \<and> r \<in> set runs \<and> len = gl_get (gr_len r) \<and>
         run_in_ram env r fd fo))"
  using assms
proof (cases rule: arena_build_cases)
  case (rolled_back e base tr2 x)
  let ?R = "(MmapReserve (unat (gl_get tot)), Inr base)"
  from map_runs_confined [OF rolled_back(2)] obtain ev where
    ev: "tr2 = ev @ ?R # tr" and c: "\<forall>c \<in> fst ` set ev. \<exists>off len fd fo r.
      c = MmapFixed (base + off) len fd fo \<and> unat off + unat len \<le> unat (gl_get tot) \<and>
      r \<in> set runs \<and> len = gl_get (gr_len r) \<and> run_in_ram env r fd fo" by blast
  let ?ev = "(Munmap base (unat (gl_get tot)), x) # ev @ [?R]"
  have "\<exists>off r. dst = base + off \<and> unat off + unat len \<le> unat (gl_get tot) \<and>
      r \<in> set runs \<and> len = gl_get (gr_len r) \<and> run_in_ram env r fd fo"
    if "MmapFixed dst len fd fo \<in> fst ` set ?ev" for dst len fd fo
  proof -
    have "MmapFixed dst len fd fo \<in> fst ` set ev" using that by auto
    then show ?thesis using bspec [OF c] by blast
  qed
  moreover have "?R \<in> set ?ev" by simp
  moreover have "tr' = ?ev @ tr" using rolled_back(3) ev by simp
  ultimately show ?thesis by (intro exI [of _ ?ev] conjI allI impI) (assumption | blast)+
next
  case (built base page)
  let ?R = "(MmapReserve (unat (gl_get tot)), Inr base)"
  from map_runs_confined [OF built(2)] obtain ev where
    ev: "tr' = ev @ ?R # tr" and c: "\<forall>c \<in> fst ` set ev. \<exists>off len fd fo r.
      c = MmapFixed (base + off) len fd fo \<and> unat off + unat len \<le> unat (gl_get tot) \<and>
      r \<in> set runs \<and> len = gl_get (gr_len r) \<and> run_in_ram env r fd fo" by blast
  let ?ev = "ev @ [?R]"
  have "\<exists>off r. dst = base + off \<and> unat off + unat len \<le> unat (gl_get tot) \<and>
      r \<in> set runs \<and> len = gl_get (gr_len r) \<and> run_in_ram env r fd fo"
    if "MmapFixed dst len fd fo \<in> fst ` set ?ev" for dst len fd fo
  proof -
    have "MmapFixed dst len fd fo \<in> fst ` set ev" using that by auto
    then show ?thesis using bspec [OF c] by blast
  qed
  moreover have "?R \<in> set ?ev" by simp
  moreover have "tr' = ?ev @ tr" using ev by simp
  ultimately show ?thesis by (intro exI [of _ ?ev] conjI allI impI) (assumption | blast)+
next
  case (refused e)
  then show ?thesis by (intro exI [of _ "[]"]) simp
next
  case (unreserved e)
  then show ?thesis by (intro exI [of _ "[(MmapReserve (unat (gl_get tot)), Inl e)]"]) simp
qed

text \<open>C30: A successful build reserves exactly the requested length, within the pin limit, and
  covers it completely: one MAP_FIXED call per run, in order, each starting where the previous
  one ends, with the run lengths adding up to the arena.\<close>

theorem arena_build_tiles:
  assumes "arena_build env runs tot tr = (Inr a, tr')"
  shows "ar_len a = unat (gl_get tot) \<and> 0 < ar_len a \<and> ar_len a \<le> unat (max_pin_bytes env) \<and>
    runs_bytes runs = ar_len a \<and> ar_lease a = None \<and>
    (\<exists>fs ev. length fs = length runs \<and>
       tr' = ev @ (MmapReserve (ar_len a), Inr (ar_base a)) # tr \<and>
       map fst (rev ev) = tile_calls (ar_base a) 0 runs fs)"
  using assms
proof (cases rule: arena_build_cases)
  case (built base page)
  from map_runs_tiles [OF built(2)] obtain fs ev where
    "tr' = ev @ (MmapReserve (unat (gl_get tot)), Inr base) # tr"
    "map fst (rev ev) = tile_calls base 0 runs fs" "length fs = length runs" by auto
  moreover have "runs_bytes runs = unat (gl_get tot)" using sum_runs_total [OF built(3)] by simp
  ultimately show ?thesis using built(1,4,5)
    by (auto simp: word_le_nat_alt unat_gt_0)
qed simp_all

definition sample_henv :: henv where
  "sample_henv =
    \<lparr> he_call = (\<lambda>tr c. case c of MmapReserve n \<Rightarrow> Inr (0x7F0000000000 + 0x10000000 * of_nat (length tr))
                               | _ \<Rightarrow> Inr (of_nat (length tr))),
      he_page = 4096, he_pin_var = None,
      he_find_region = (\<lambda>a. if a < 0x40000000
         then Some \<lparr> rg_start = 0, rg_len = 0x40000000, rg_file = Some (5, 0) \<rparr> else None) \<rparr>"

definition sample_runs :: "gpa_run list" where
  "sample_runs = [\<lparr> gr_gpa = GuestAddr 0x3000, gr_len = GuestLen 0x1000 \<rparr>,
                  \<lparr> gr_gpa = GuestAddr 0x8000, gr_len = GuestLen 0x2000 \<rparr>]"

definition sample_arena :: arena where
  "sample_arena = \<lparr> ar_base = 0x7F0000000000, ar_len = 0x3000, ar_lease = None \<rparr>"

lemma sample_arena_build:
  "arena_build sample_henv sample_runs (GuestLen 0x3000) [] =
    (Inr sample_arena,
     [(MmapFixed 0x7F0000001000 0x2000 5 0x8000, Inr 2), (MmapFixed 0x7F0000000000 0x1000 5 0x3000, Inr 1),
      (MmapReserve 0x3000, Inr 0x7F0000000000)])"
  by (simp add: arena_build_def host_page_size_def sample_henv_def sample_runs_def sample_arena_def
      gl_is_zero_def gl_plus_def checked_add_def checked_sub_def max_pin_bytes_def host_do_eq run_source_def
      ga_end_def ga_offset_from_def)

theorem arena_build_confined_witness:
  "\<exists>base off r. (MmapReserve 0x3000, Inr base) \<in>
      set [(MmapFixed 0x7F0000001000 0x2000 5 0x8000, Inr 2), (MmapFixed 0x7F0000000000 0x1000 5 0x3000, Inr 1),
       (MmapReserve 0x3000, Inr (0x7F0000000000 :: u64)) :: host_call \<times> (string + u64)] \<and>
    (0x7F0000001000 :: u64) = base + off \<and> unat off + unat (0x2000 :: u64) \<le> 0x3000 \<and>
    r \<in> set sample_runs \<and> 0x2000 = gl_get (gr_len r) \<and> run_in_ram sample_henv r 5 0x8000"
proof -
  from arena_build_confined [OF sample_arena_build] obtain ev where
    ev: "ev = snd (arena_build sample_henv sample_runs (GuestLen 0x3000) [])"
    and c: "\<forall>dst len fd fo. MmapFixed dst len fd fo \<in> fst ` set ev \<longrightarrow>
      (\<exists>base off r. (MmapReserve (unat (gl_get (GuestLen 0x3000))), Inr base) \<in> set ev \<and> dst = base + off \<and>
         unat off + unat len \<le> unat (gl_get (GuestLen 0x3000)) \<and> r \<in> set sample_runs \<and>
         len = gl_get (gr_len r) \<and> run_in_ram sample_henv r fd fo)"
    unfolding sample_arena_build by (metis append_Nil2 snd_conv)
  show ?thesis using c [rule_format, of "0x7F0000001000" "0x2000" 5 "0x8000"]
    unfolding ev sample_arena_build by simp
qed

theorem arena_build_tiles_witness:
  "ar_len sample_arena = 0x3000 \<and> runs_bytes sample_runs = 0x3000"
  using arena_build_tiles [OF sample_arena_build] by simp

section \<open>What the history says about the host\<close>

text \<open>Host ranges that are reserved and not yet unmapped, and registrations of such a range
  with the driver that are not yet freed.\<close>

fun mapped :: "history \<Rightarrow> u64 list" where
  "mapped [] = []"
| "mapped ((MmapReserve n, Inr b) # tr) = b # mapped tr"
| "mapped ((Munmap b n, _) # tr) = remove1 b (mapped tr)"
| "mapped (_ # tr) = mapped tr"

fun registered :: "history \<Rightarrow> (u32 \<times> u32 \<times> u64) list" where
  "registered [] = []"
| "registered ((DAllocate root b l, Inr h) # tr) = (root, ucast h, b) # registered tr"
| "registered ((DFreeObject root h, Inr _) # tr) = filter (\<lambda>(r, x, b). (r, x) \<noteq> (root, h)) (registered tr)"
| "registered (_ # tr) = registered tr"

text \<open>No range was ever unmapped while a registration of it was live.\<close>

fun unmaps_safe :: "history \<Rightarrow> bool" where
  "unmaps_safe [] = True"
| "unmaps_safe ((Munmap b n, _) # tr) =
    (list_all (\<lambda>(r, h, b'). b' \<noteq> b) (registered tr) \<and> unmaps_safe tr)"
| "unmaps_safe (_ # tr) = unmaps_safe tr"

text \<open>The one promise taken of \<^verbatim>\<open>mmap\<close>: a fresh reservation does not start where a live one does.\<close>

definition mmap_fresh :: "henv \<Rightarrow> bool" where
  "mmap_fresh env \<longleftrightarrow> (\<forall>tr n b. he_call env tr (MmapReserve n) = Inr b \<longrightarrow> b \<notin> set (mapped tr))"

lemma history_fixed [simp]:
  "mapped ((MmapFixed d l fd fo, x) # tr) = mapped tr"
  "registered ((MmapFixed d l fd fo, x) # tr) = registered tr"
  "unmaps_safe ((MmapFixed d l fd fo, x) # tr) = unmaps_safe tr"
  by (cases x; simp)+

lemma map_runs_history:
  "map_runs env base tot off rs tr = (res, tr') \<Longrightarrow>
    mapped tr' = mapped tr \<and> registered tr' = registered tr \<and> unmaps_safe tr' = unmaps_safe tr"
  by (induction rs arbitrary: off tr)
     (force simp: host_do_eq split: sum.splits prod.splits)+

end
