(* ===== verification/HostPool.thy ===== *)
theory HostPool
  imports HostArena Quota "HOL-Library.Multiset"
begin

text \<open>
  \<^verbatim>\<open>crates/vhost-user-nvrm/src/host_pool.rs\<close>, second half: the VM-wide pin budget, the
  registered pools of one session and what happens to them when cleanup fails or the
  session closes.  The driver behind \<^verbatim>\<open>PoolDriver\<close> is part of the surroundings (its
  calls are host calls, named by the backing client's root handle), so the theorems hold
  for every driver.

  The \<^verbatim>\<open>Option\<close>s around a pool's arena and descriptor are only emptied inside its
  \<^verbatim>\<open>Drop\<close>, when the value is going away; the records hold the content.
\<close>

section \<open>State\<close>

record pool_map =
  pm_token :: u64
  pm_addr :: guest_addr
  pm_len :: guest_len
  pm_arena :: arena
  pm_uvm_fd :: i32
  pm_driver :: u32
  pm_osdesc :: "u32 option"
  pm_range_live :: bool
  pm_active :: bool
  pm_charge :: u64

record pin_budget =
  pb_limit :: u64
  pb_used :: u64
  pb_retained_bytes :: u64
  pb_retained :: "arena list"
  pb_quarantine :: "pool_map list"
  pb_private :: "u32 set"

record host =
  ho_budget :: pin_budget
  ho_hist :: history

record pool_state =
  ps_driver :: "u32 option"
  ps_pools :: "pool_map list"
  ps_osdesc :: "((u32 \<times> u32) \<times> arena) list"

section \<open>The pin budget\<close>

definition budget_new :: "u64 \<Rightarrow> pool_error + pin_budget" where
  "budget_new limit =
    (if limit = 0 then Inl BudgetZero
     else Inr \<lparr> pb_limit = limit, pb_used = 0, pb_retained_bytes = 0, pb_retained = [],
                pb_quarantine = [], pb_private = {} \<rparr>)"

datatype pin_var = PinUnset | PinNotUnicode | PinValue string

definition budget_from_env :: "pin_var \<Rightarrow> (pool_error option) + pin_budget" where
  "budget_from_env v =
    (case (case v of PinValue raw \<Rightarrow> parse_pin_bytes raw
                   | PinUnset \<Rightarrow> Some (1024 * 0x100000)
                   | PinNotUnicode \<Rightarrow> None) of
       None \<Rightarrow> Inl None
     | Some limit \<Rightarrow> (case budget_new limit of Inl e \<Rightarrow> Inl (Some e) | Inr b \<Rightarrow> Inr b))"

definition quarantined_bytes :: "pin_budget \<Rightarrow> u64" where
  "quarantined_bytes B = sum_list (map pm_charge (pb_quarantine B))"

definition pin_reserve :: "pin_budget \<Rightarrow> u64 \<Rightarrow> pin_budget option" where
  "pin_reserve B n =
    (if n = 0 then None
     else case checked_add (pb_used B) n of
            None \<Rightarrow> None
          | Some s \<Rightarrow> if s \<le> pb_limit B then Some (B\<lparr> pb_used := s \<rparr>) else None)"

definition lease_drop :: "pin_budget \<Rightarrow> u64 \<Rightarrow> pin_budget" where
  "lease_drop B n = B\<lparr> pb_used := pb_used B - n \<rparr>"

definition detach_charge :: "arena \<Rightarrow> u64 \<times> arena" where
  "detach_charge a =
    ((case ar_lease a of None \<Rightarrow> 0 | Some b \<Rightarrow> b), a\<lparr> ar_lease := None \<rparr>)"

definition budget_retain :: "pin_budget \<Rightarrow> arena \<Rightarrow> pin_budget" where
  "budget_retain B a =
    (case detach_charge a of
       (n, a') \<Rightarrow> B\<lparr> pb_retained_bytes := pb_retained_bytes B + n, pb_retained := pb_retained B @ [a'] \<rparr>)"

definition budget_quarantine :: "pin_budget \<Rightarrow> pool_map \<Rightarrow> pin_budget" where
  "budget_quarantine B p =
    (case detach_charge (pm_arena p) of
       (n, a') \<Rightarrow> B\<lparr> pb_quarantine := pb_quarantine B @ [p\<lparr> pm_charge := n, pm_arena := a' \<rparr>] \<rparr>)"

definition private_client :: "pin_budget \<Rightarrow> u32 \<Rightarrow> pin_budget" where
  "private_client B root = B\<lparr> pb_private := insert root (pb_private B) \<rparr>"

definition private_client_drop :: "pin_budget \<Rightarrow> u32 \<Rightarrow> pin_budget" where
  "private_client_drop B root = B\<lparr> pb_private := pb_private B - {root} \<rparr>"

section \<open>Dropping arenas and pools\<close>

definition on_budget :: "(pin_budget \<Rightarrow> pin_budget) \<Rightarrow> host \<Rightarrow> host" where
  "on_budget f H = H\<lparr> ho_budget := f (ho_budget H) \<rparr>"

definition host_step :: "henv \<Rightarrow> host_call \<Rightarrow> host \<Rightarrow> (string + u64) \<times> host" where
  "host_step env c H = (case host_do env c (ho_hist H) of (r, tr) \<Rightarrow> (r, H\<lparr> ho_hist := tr \<rparr>))"

definition arena_drop :: "henv \<Rightarrow> arena \<Rightarrow> host \<Rightarrow> host" where
  "arena_drop env a H =
    (let H1 = snd (host_step env (Munmap (ar_base a) (ar_len a)) H) in
     case ar_lease a of None \<Rightarrow> H1 | Some n \<Rightarrow> on_budget (\<lambda>B. lease_drop B n) H1)"

definition pool_cleanup :: "henv \<Rightarrow> pool_map \<Rightarrow> host \<Rightarrow> (string + unit) \<times> pool_map \<times> host" where
  "pool_cleanup env p H =
    (let p1 = p\<lparr> pm_active := False \<rparr> in
     case (if pm_range_live p
           then (case host_step env (DFreeRange (pm_driver p) (pm_uvm_fd p) (pm_addr p) (pm_len p)) H of
                   (Inl e, H1) \<Rightarrow> (Inl e, p1, H1)
                 | (Inr _, H1) \<Rightarrow> (Inr (), p1\<lparr> pm_range_live := False \<rparr>, H1))
           else (Inr (), p1, H)) of
       (Inl e, p2, H2) \<Rightarrow> (Inl e, p2, H2)
     | (Inr _, p2, H2) \<Rightarrow>
         (case pm_osdesc p2 of
            None \<Rightarrow> (Inr (), p2, H2)
          | Some h \<Rightarrow>
              (case host_step env (DFreeObject (pm_driver p) h) H2 of
                 (Inl e, H3) \<Rightarrow> (Inl e, p2, H3)
               | (Inr _, H3) \<Rightarrow> (Inr (), p2\<lparr> pm_osdesc := None \<rparr>, H3))))"

definition pool_drop :: "henv \<Rightarrow> pool_map \<Rightarrow> host \<Rightarrow> host" where
  "pool_drop env p H =
    (case pool_cleanup env p H of
       (Inl e, p', H') \<Rightarrow> H'
     | (Inr _, p', H') \<Rightarrow> snd (host_step env (CloseFd (pm_uvm_fd p')) (arena_drop env (pm_arena p') H')))"

text \<open>\<^verbatim>\<open>Vec::retain_mut\<close> with a cleanup for the selected pools: a pool whose cleanup fails stays;
  the others are dropped.  The last failure is kept.\<close>

fun retain_pools ::
  "henv \<Rightarrow> (pool_map \<Rightarrow> bool) \<Rightarrow> pool_map list \<Rightarrow> host \<Rightarrow> pool_map list \<times> string option \<times> host"
where
  "retain_pools env sel [] H = ([], None, H)"
| "retain_pools env sel (p # ps) H =
    (if \<not> sel p then
       (case retain_pools env sel ps H of (kept, f, H') \<Rightarrow> (p # kept, f, H'))
     else
       (case pool_cleanup env p H of
          (Inr _, p', H1) \<Rightarrow> retain_pools env sel ps (pool_drop env p' H1)
        | (Inl e, p', H1) \<Rightarrow>
            (case retain_pools env sel ps H1 of
               (kept, f, H') \<Rightarrow> (p' # kept, (case f of None \<Rightarrow> Some e | Some _ \<Rightarrow> f), H'))))"

text \<open>The same loop over the quarantine also gives the detached charge back.\<close>

fun retry_quarantine :: "henv \<Rightarrow> pool_map list \<Rightarrow> host \<Rightarrow> pool_map list \<times> host" where
  "retry_quarantine env [] H = ([], H)"
| "retry_quarantine env (p # ps) H =
    (case pool_cleanup env p H of
       (Inl e, p', H1) \<Rightarrow> (case retry_quarantine env ps H1 of (kept, H') \<Rightarrow> (p' # kept, H'))
     | (Inr _, p', H1) \<Rightarrow>
         retry_quarantine env ps
           (pool_drop env (p'\<lparr> pm_charge := 0 \<rparr>) (on_budget (\<lambda>B. lease_drop B (pm_charge p')) H1)))"

definition budget_retry_cleanup :: "henv \<Rightarrow> host \<Rightarrow> host" where
  "budget_retry_cleanup env H =
    (let quar = pb_quarantine (ho_budget H); (kept, H1) = retry_quarantine env quar H;
         gone = pm_driver ` set quar - pm_driver ` set kept in
     on_budget (\<lambda>B. B\<lparr> pb_quarantine := kept, pb_private := pb_private B - gone \<rparr>) H1)"

section \<open>The pools of one session\<close>

definition ps_with_budget :: pool_state where
  "ps_with_budget = \<lparr> ps_driver = None, ps_pools = [], ps_osdesc = [] \<rparr>"

definition get_driver :: "henv \<Rightarrow> pool_state \<Rightarrow> host \<Rightarrow> (pool_error + u32) \<times> pool_state \<times> host" where
  "get_driver env ps H =
    (case ps_driver ps of
       Some root \<Rightarrow> (Inr root, ps, H)
     | None \<Rightarrow>
         (case host_step env NewBacking H of
            (Inl e, H1) \<Rightarrow> (Inl (HostError e), ps, H1)
          | (Inr r, H1) \<Rightarrow>
              (Inr (ucast r), ps\<lparr> ps_driver := Some (ucast r) \<rparr>,
               on_budget (\<lambda>B. private_client B (ucast r)) H1)))"

definition is_private_client :: "host \<Rightarrow> u32 \<Rightarrow> bool" where
  "is_private_client H root \<longleftrightarrow> root \<in> pb_private (ho_budget H)"

definition ps_arena ::
  "henv \<Rightarrow> gpa_run list \<Rightarrow> guest_len \<Rightarrow> host \<Rightarrow> (pool_error + arena) \<times> host"
where
  "ps_arena env runs tot H0 =
    (let H = budget_retry_cleanup env H0 in
     case registration_bytes env (gl_get tot) of
       Inl e \<Rightarrow> (Inl e, H)
     | Inr n \<Rightarrow>
         (case pin_reserve (ho_budget H) n of
            None \<Rightarrow> (Inl BudgetExceeded, H)
          | Some B \<Rightarrow>
              (case arena_build env runs tot (ho_hist H) of
                 (Inl e, tr) \<Rightarrow> (Inl e, \<lparr> ho_budget = lease_drop B n, ho_hist = tr \<rparr>)
               | (Inr a, tr) \<Rightarrow> (Inr (a\<lparr> ar_lease := Some n \<rparr>), \<lparr> ho_budget = B, ho_hist = tr \<rparr>))))"

definition arena_for_osdesc ::
  "henv \<Rightarrow> gpa_run list \<Rightarrow> guest_len \<Rightarrow> host \<Rightarrow> (pool_error + (arena \<times> u64)) \<times> host"
where
  "arena_for_osdesc env runs tot H =
    (case ps_arena env runs tot H of
       (Inl e, H') \<Rightarrow> (Inl e, H')
     | (Inr a, H') \<Rightarrow> (Inr (a, ar_base a), H'))"

definition keep_osdesc_arena :: "pool_state \<Rightarrow> u32 \<Rightarrow> u32 \<Rightarrow> arena \<Rightarrow> host \<Rightarrow> pool_state \<times> host" where
  "keep_osdesc_arena ps root hmemory a H =
    (ps\<lparr> ps_osdesc := AList.update (root, hmemory) a (ps_osdesc ps) \<rparr>,
     (case map_of (ps_osdesc ps) (root, hmemory) of
        None \<Rightarrow> H
      | Some previous \<Rightarrow> on_budget (\<lambda>B. budget_retain B previous) H))"

definition drop_osdesc_arena :: "pool_state \<Rightarrow> u32 \<Rightarrow> u32 \<Rightarrow> host \<Rightarrow> pool_state \<times> host" where
  "drop_osdesc_arena ps root hmemory H =
    (case map_of (ps_osdesc ps) (root, hmemory) of
       None \<Rightarrow> (ps, H)
     | Some a \<Rightarrow> (ps\<lparr> ps_osdesc := AList.delete (root, hmemory) (ps_osdesc ps) \<rparr>,
                   on_budget (\<lambda>B. budget_retain B a) H))"

definition drop_osdesc_client :: "pool_state \<Rightarrow> u32 \<Rightarrow> host \<Rightarrow> pool_state \<times> host" where
  "drop_osdesc_client ps root H =
    fold (\<lambda>(_, h) (ps, H). drop_osdesc_arena ps root h H)
      (filter (\<lambda>(client, _). client = root) (map fst (ps_osdesc ps))) (ps, H)"

text \<open>The address a guest word is written to, if it is written.\<close>

fun find_guest_u32 :: "u64 \<Rightarrow> guest_addr \<Rightarrow> guest_addr \<Rightarrow> pool_map list \<Rightarrow> u64 option" where
  "find_guest_u32 token va va_end [] = None"
| "find_guest_u32 token va va_end (p # ps) =
    (if \<not> pm_active p \<or> pm_token p \<noteq> token then find_guest_u32 token va va_end ps
     else case ga_end (pm_addr p) (pm_len p) of
            None \<Rightarrow> find_guest_u32 token va va_end ps
          | Some pool_end \<Rightarrow>
              if ga_get (pm_addr p) \<le> ga_get va \<and> ga_get va_end \<le> ga_get pool_end
              then (case ga_offset_from va (pm_addr p) of
                      None \<Rightarrow> None
                    | Some off \<Rightarrow> if off mod 4 \<noteq> 0 then None else Some (ar_base (pm_arena p) + off))
              else find_guest_u32 token va va_end ps)"

definition write_guest_u32_for :: "pool_state \<Rightarrow> u64 \<Rightarrow> guest_addr \<Rightarrow> u64 option" where
  "write_guest_u32_for ps token va =
    (case ga_end va (GuestLen 4) of
       None \<Rightarrow> None
     | Some va_end \<Rightarrow> find_guest_u32 token va va_end (ps_pools ps))"

definition ps_retry_cleanup :: "henv \<Rightarrow> pool_state \<Rightarrow> host \<Rightarrow> pool_state \<times> host" where
  "ps_retry_cleanup env ps H =
    (case retain_pools env (\<lambda>p. \<not> pm_active p) (ps_pools ps) (budget_retry_cleanup env H) of
       (kept, f, H') \<Rightarrow> (ps\<lparr> ps_pools := kept \<rparr>, H'))"

text \<open>Every stored pool passed the end check on entry, so the \<^verbatim>\<open>unwrap\<close> in the overlap test does
  not fail; a pool without an end counts as overlapping here.\<close>

definition pool_overlaps :: "u64 \<Rightarrow> guest_addr \<Rightarrow> guest_addr \<Rightarrow> pool_map \<Rightarrow> bool" where
  "pool_overlaps token addr new_end p \<longleftrightarrow>
    pm_token p = token \<and>
    (case ga_end (pm_addr p) (pm_len p) of
       None \<Rightarrow> True
     | Some e \<Rightarrow> ga_get addr < ga_get e \<and> ga_get (pm_addr p) < ga_get new_end)"

definition pool_setup :: "henv \<Rightarrow> pool_map \<Rightarrow> host \<Rightarrow> (string + unit) \<times> pool_map \<times> host" where
  "pool_setup env p H =
    (case host_step env (DAllocate (pm_driver p) (ar_base (pm_arena p)) (pm_len p)) H of
       (Inl e, H1) \<Rightarrow> (Inl e, p, H1)
     | (Inr r, H1) \<Rightarrow>
    (let handle = ucast r; p1 = p\<lparr> pm_osdesc := Some handle \<rparr> in
     case host_step env (DGrant (pm_driver p) handle) H1 of
       (Inl e, H2) \<Rightarrow> (Inl e, p1, H2)
     | (Inr _, H2) \<Rightarrow>
    (case host_step env (DCreateRange (pm_driver p) (pm_uvm_fd p) (pm_addr p) (pm_len p)) H2 of
       (Inl e, H3) \<Rightarrow> (Inl e, p1, H3)
     | (Inr _, H3) \<Rightarrow>
    (let p2 = p1\<lparr> pm_range_live := True \<rparr> in
     case host_step env (DMap (pm_driver p) (pm_uvm_fd p) (pm_addr p) (pm_len p) handle) H3 of
       (Inl e, H4) \<Rightarrow> (Inl e, p2, H4)
     | (Inr _, H4) \<Rightarrow> (Inr (), p2\<lparr> pm_active := True \<rparr>, H4)))))"

definition back_pool_for ::
  "henv \<Rightarrow> u64 \<Rightarrow> i32 \<Rightarrow> guest_addr \<Rightarrow> guest_len \<Rightarrow> gpa_run list \<Rightarrow> pool_state \<Rightarrow> host \<Rightarrow>
   (pool_error + unit) \<times> pool_state \<times> host"
where
  "back_pool_for env token uvm_fd addr len runs ps0 H0 =
    (case ga_end addr len of
       None \<Rightarrow> (Inl RangeOverflow, ps0, H0)
     | Some new_end \<Rightarrow>
       if gl_is_zero len \<or> ga_get addr mod 4096 \<noteq> 0 \<or> gl_get len mod 4096 \<noteq> 0
       then (Inl NotWholePages, ps0, H0)
       else
    (case ps_retry_cleanup env ps0 H0 of (ps, H) \<Rightarrow>
       if list_ex (pool_overlaps token addr new_end) (ps_pools ps) then (Inl PoolOverlap, ps, H)
       else
    (case ps_arena env runs len H of
       (Inl e, H1) \<Rightarrow> (Inl e, ps, H1)
     | (Inr a, H1) \<Rightarrow>
    (case host_step env (DupFd uvm_fd) H1 of
       (Inl e, H2) \<Rightarrow> (Inl (HostError e), ps, arena_drop env a H2)
     | (Inr fd, H2) \<Rightarrow>
    (case get_driver env ps H2 of
       (Inl e, ps1, H3) \<Rightarrow> (Inl e, ps1, arena_drop env a (snd (host_step env (CloseFd (ucast fd)) H3)))
     | (Inr root, ps1, H3) \<Rightarrow>
         let p = \<lparr> pm_token = token, pm_addr = addr, pm_len = len, pm_arena = a,
                   pm_uvm_fd = ucast fd, pm_driver = root, pm_osdesc = None,
                   pm_range_live = False, pm_active = False, pm_charge = 0 \<rparr> in
         (case pool_setup env p H3 of
            (Inr _, p', H4) \<Rightarrow> (Inr (), ps1\<lparr> ps_pools := ps_pools ps1 @ [p'] \<rparr>, H4)
          | (Inl e, p', H4) \<Rightarrow>
              (case pool_cleanup env p' H4 of
                 (Inl _, p'', H5) \<Rightarrow> (Inl (HostError e), ps1\<lparr> ps_pools := ps_pools ps1 @ [p''] \<rparr>, H5)
               | (Inr _, p'', H5) \<Rightarrow> (Inl (HostError e), ps1, pool_drop env p'' H5))))))))"

definition cleanup_matching ::
  "henv \<Rightarrow> u64 \<Rightarrow> guest_addr option \<Rightarrow> pool_state \<Rightarrow> host \<Rightarrow> (string + unit) \<times> pool_state \<times> host"
where
  "cleanup_matching env token addr ps H =
    (case retain_pools env
        (\<lambda>p. \<not> (pm_token p \<noteq> token \<or> (case addr of None \<Rightarrow> False | Some a \<Rightarrow> pm_addr p \<noteq> a)))
        (ps_pools ps) H of
       (kept, f, H') \<Rightarrow>
         ((case f of None \<Rightarrow> Inr () | Some e \<Rightarrow> Inl e), ps\<lparr> ps_pools := kept \<rparr>, H'))"

definition release_uvm_range ::
  "henv \<Rightarrow> u64 \<Rightarrow> guest_addr \<Rightarrow> pool_state \<Rightarrow> host \<Rightarrow> (string + unit) \<times> pool_state \<times> host"
where
  "release_uvm_range env token addr ps H =
    cleanup_matching env token (Some addr)
      (ps\<lparr> ps_pools := map (\<lambda>p. if pm_token p = token \<and> pm_addr p = addr
                               then p\<lparr> pm_range_live := False, pm_active := False \<rparr> else p) (ps_pools ps) \<rparr>) H"

definition close_uvm ::
  "henv \<Rightarrow> u64 \<Rightarrow> pool_state \<Rightarrow> host \<Rightarrow> (string + unit) \<times> pool_state \<times> host"
where
  "close_uvm env token ps H = cleanup_matching env token None ps H"

fun drop_pools :: "henv \<Rightarrow> pool_map list \<Rightarrow> host \<Rightarrow> host" where
  "drop_pools env [] H = H"
| "drop_pools env (p # ps) H =
    (case pool_cleanup env p H of
       (Inr _, p', H1) \<Rightarrow> drop_pools env ps (pool_drop env p' H1)
     | (Inl e, p', H1) \<Rightarrow> drop_pools env ps (on_budget (\<lambda>B. budget_quarantine B p') H1))"

definition pool_state_drop :: "henv \<Rightarrow> pool_state \<Rightarrow> host \<Rightarrow> host" where
  "pool_state_drop env ps H =
    (let H1 = drop_pools env (ps_pools ps) H;
         H2 = fold (\<lambda>(_, a) H. on_budget (\<lambda>B. budget_retain B a) H) (ps_osdesc ps) H1 in
     case ps_driver ps of
       None \<Rightarrow> H2
     | Some root \<Rightarrow>
         if root \<in> pm_driver ` set (pb_quarantine (ho_budget H2)) then H2
         else on_budget (\<lambda>B. private_client_drop B root) H2)"

section \<open>The bookkeeping invariant\<close>

text \<open>\<^verbatim>\<open>A\<close> are the arenas held outside pools and outside the retained list, \<^verbatim>\<open>P\<close> the pools of
  all sessions and of the quarantine.\<close>

definition lease_bytes :: "arena \<Rightarrow> nat" where
  "lease_bytes a = (case ar_lease a of None \<Rightarrow> 0 | Some b \<Rightarrow> unat b)"

definition pool_bytes :: "pool_map \<Rightarrow> nat" where
  "pool_bytes p = lease_bytes (pm_arena p) + unat (pm_charge p)"

definition pool_base :: "pool_map \<Rightarrow> u64" where
  "pool_base p = ar_base (pm_arena p)"

definition budget_exact :: "pin_budget \<Rightarrow> arena multiset \<Rightarrow> pool_map multiset \<Rightarrow> bool" where
  "budget_exact B A P \<longleftrightarrow>
    unat (pb_used B) = (\<Sum>a\<in>#A. lease_bytes a) + (\<Sum>p\<in>#P. pool_bytes p) + unat (pb_retained_bytes B) \<and>
    pb_used B \<le> pb_limit B \<and> list_all (\<lambda>a. ar_lease a = None) (pb_retained B)"

definition owned_bases :: "pin_budget \<Rightarrow> arena multiset \<Rightarrow> pool_map multiset \<Rightarrow> u64 multiset" where
  "owned_bases B A P = image_mset ar_base A + image_mset pool_base P + image_mset ar_base (mset (pb_retained B))"

definition maps_exact :: "history \<Rightarrow> pin_budget \<Rightarrow> arena multiset \<Rightarrow> pool_map multiset \<Rightarrow> bool" where
  "maps_exact tr B A P \<longleftrightarrow> mset (mapped tr) = owned_bases B A P \<and> distinct (mapped tr)"

definition regs_owned :: "history \<Rightarrow> pool_map multiset \<Rightarrow> bool" where
  "regs_owned tr P \<longleftrightarrow>
    (\<forall>(r, h, b) \<in> set (registered tr). \<exists>p \<in># P. pm_driver p = r \<and> pm_osdesc p = Some h \<and> pool_base p = b)"

definition pinv :: "host \<Rightarrow> arena multiset \<Rightarrow> pool_map multiset \<Rightarrow> bool" where
  "pinv H A P \<longleftrightarrow>
    budget_exact (ho_budget H) A P \<and> maps_exact (ho_hist H) (ho_budget H) A P \<and>
    regs_owned (ho_hist H) P \<and> unmaps_safe (ho_hist H)"

lemma host_step_eq:
  "host_step env c H = (he_call env (ho_hist H) c, H\<lparr> ho_hist := (c, he_call env (ho_hist H) c) # ho_hist H \<rparr>)"
  by (simp add: host_step_def host_do_eq)

lemma sum_image_replace:
  "f p = f p' \<Longrightarrow> image_mset f (add_mset p P) = image_mset f (add_mset p' P)"
  by simp

text \<open>Calls that neither map, unmap, register nor free leave the invariant alone.\<close>

fun neutral :: "host_call \<Rightarrow> bool" where
  "neutral (MmapReserve _) = False"
| "neutral (Munmap _ _) = False"
| "neutral (DAllocate _ _ _) = False"
| "neutral (DFreeObject _ _) = False"
| "neutral _ = True"

lemma neutral_history:
  "neutral c \<Longrightarrow> mapped ((c, x) # tr) = mapped tr \<and> registered ((c, x) # tr) = registered tr \<and>
    unmaps_safe ((c, x) # tr) = unmaps_safe tr"
  by (cases c; cases x) auto

lemma pinv_neutral: "neutral c \<Longrightarrow> pinv (H\<lparr> ho_hist := (c, x) # ho_hist H \<rparr>) A P = pinv H A P"
  by (simp add: pinv_def maps_exact_def regs_owned_def neutral_history)

lemma pinv_neutral_hist:
  "neutral c \<Longrightarrow> pinv (H\<lparr> ho_hist := (c, x) # tr \<rparr>) A P = pinv (H\<lparr> ho_hist := tr \<rparr>) A P"
  by (simp add: pinv_def maps_exact_def regs_owned_def neutral_history)

text \<open>A pool may change everything but its accounting, its arena's address and its registration.\<close>

lemma pinv_replace:
  assumes "pinv H A (add_mset p P)" "pm_arena p' = pm_arena p" "pm_charge p' = pm_charge p"
    "pm_driver p' = pm_driver p" "pm_osdesc p' = pm_osdesc p"
  shows "pinv H A (add_mset p' P)"
  using assms
  by (auto simp: pinv_def budget_exact_def maps_exact_def owned_bases_def regs_owned_def pool_bytes_def
      pool_base_def)

lemma pinv_freed:
  assumes "pinv H A (add_mset p P)" "pm_osdesc p = Some h"
  shows "pinv (H\<lparr> ho_hist := (DFreeObject (pm_driver p) h, Inr v) # ho_hist H \<rparr>) A
           (add_mset (p\<lparr> pm_osdesc := None \<rparr>) P)"
proof -
  have "regs_owned ((DFreeObject (pm_driver p) h, Inr v) # ho_hist H) (add_mset (p\<lparr> pm_osdesc := None \<rparr>) P)"
    using assms by (fastforce simp: pinv_def regs_owned_def)
  then show ?thesis using assms(1)
    by (simp add: pinv_def budget_exact_def maps_exact_def owned_bases_def pool_bytes_def pool_base_def)
qed

lemma pinv_free_failed:
  "pinv H A P \<Longrightarrow> pinv (H\<lparr> ho_hist := (DFreeObject r h, Inl e) # ho_hist H \<rparr>) A P"
  by (simp add: pinv_def maps_exact_def regs_owned_def)

text \<open>What a cleanup returns: the pool with the same identity, nothing registered on success.\<close>

lemma pool_cleanup_fields:
  assumes "pool_cleanup env p H = (res, p', H')"
  shows "pm_token p' = pm_token p \<and> pm_addr p' = pm_addr p \<and> pm_len p' = pm_len p \<and>
    pm_arena p' = pm_arena p \<and> pm_charge p' = pm_charge p \<and> pm_driver p' = pm_driver p \<and>
    pm_uvm_fd p' = pm_uvm_fd p \<and> \<not> pm_active p' \<and>
    ho_budget H' = ho_budget H \<and> (res = Inr () \<longrightarrow> pm_osdesc p' = None \<and> \<not> pm_range_live p')"
  using assms
  by (auto simp: pool_cleanup_def host_step_eq Let_def split: if_splits sum.splits option.splits prod.splits)

lemma pool_cleanup_pinv:
  assumes inv: "pinv H A (add_mset p P)" and c: "pool_cleanup env p H = (res, p', H')"
  shows "pinv H' A (add_mset p' P)"
proof -
  let ?p1 = "p\<lparr> pm_active := False \<rparr>"
  let ?c = "DFreeRange (pm_driver p) (pm_uvm_fd p) (pm_addr p) (pm_len p)"
  have i1: "pinv H A (add_mset ?p1 P)" by (rule pinv_replace [OF inv]) simp_all
  have free: "pinv H3 A (add_mset q' P)"
    if i: "pinv H2 A (add_mset q P)" and d: "pm_driver q = pm_driver p"
      and e: "(case pm_osdesc q of
            None \<Rightarrow> (Inr (), q, H2)
          | Some h \<Rightarrow>
              (case host_step env (DFreeObject (pm_driver p) h) H2 of
                 (Inl e, H3) \<Rightarrow> (Inl e, q, H3)
               | (Inr _, H3) \<Rightarrow> (Inr (), q\<lparr> pm_osdesc := None \<rparr>, H3))) = (res, q', H3)" for q q' H2 H3
    using e i pinv_freed [OF i] pinv_free_failed [OF i]
    by (auto simp: host_step_eq d [symmetric] split: option.splits sum.splits)
  show ?thesis
  proof (cases "pm_range_live p")
    case False
    show ?thesis by (rule free [OF i1]) (use c False in \<open>simp_all add: pool_cleanup_def Let_def\<close>)
  next
    case True
    have n: "pinv (H\<lparr> ho_hist := (?c, x) # ho_hist H \<rparr>) A (add_mset q P)"
      if "pinv H A (add_mset q P)" for x q using that by (simp add: pinv_neutral)
    show ?thesis
    proof (cases "he_call env (ho_hist H) ?c")
      case (Inl e)
      then show ?thesis using c True n [OF i1] by (auto simp: pool_cleanup_def host_step_eq Let_def)
    next
      case (Inr v)
      have "pinv (H\<lparr> ho_hist := (?c, Inr v) # ho_hist H \<rparr>) A (add_mset (?p1\<lparr> pm_range_live := False \<rparr>) P)"
        by (rule pinv_replace [OF n [OF i1]]) simp_all
      then show ?thesis by (rule free) (use c True Inr in \<open>simp_all add: pool_cleanup_def host_step_eq Let_def\<close>)
    qed
  qed
qed

lemma mapped_unmap: "mset (mapped ((Munmap b n, x) # tr)) = mset (mapped tr) - {#b#}"
  by simp

lemma budget_release:
  assumes "unat (pb_used B) = k + unat n" "pb_used B \<le> pb_limit B"
  shows "unat (pb_used (lease_drop B n)) = k \<and> pb_used (lease_drop B n) \<le> pb_limit (lease_drop B n)"
proof -
  have "unat (pb_used B - n) = k"
    using assms(1) by (metis add_diff_cancel_right' le_add2 unat_sub word_le_nat_alt)
  then show ?thesis using assms by (simp add: lease_drop_def word_le_nat_alt)
qed

text \<open>Dropping an arena that no registration names.\<close>

lemma arena_drop_eq:
  "arena_drop env a H =
    \<lparr> ho_budget = (case ar_lease a of None \<Rightarrow> ho_budget H | Some n \<Rightarrow> lease_drop (ho_budget H) n),
      ho_hist = (Munmap (ar_base a) (ar_len a), he_call env (ho_hist H) (Munmap (ar_base a) (ar_len a))) # ho_hist H \<rparr>"
  by (simp add: arena_drop_def host_step_eq on_budget_def split: option.splits)

lemma arena_drop_budget:
  assumes "unat (pb_used B) = k + lease_bytes a" "pb_used B \<le> pb_limit B"
    and B': "B' = (case ar_lease a of None \<Rightarrow> B | Some n \<Rightarrow> lease_drop B n)"
  shows "unat (pb_used B') = k \<and> pb_used B' \<le> pb_limit B' \<and> pb_retained B' = pb_retained B \<and>
    pb_retained_bytes B' = pb_retained_bytes B \<and> pb_quarantine B' = pb_quarantine B"
proof (cases "ar_lease a")
  case (Some n)
  then show ?thesis using budget_release [of B k n] assms by (simp add: lease_bytes_def lease_drop_def)
qed (use assms in \<open>simp add: lease_bytes_def\<close>)

lemma registered_unmap [simp]:
  "registered ((Munmap b n, x) # tr) = registered tr"
  by (cases x) simp_all

text \<open>The base of a live registration is the base of one holder only.\<close>

lemma base_unregistered:
  assumes "regs_owned tr P" "distinct (mapped tr)" "mset (mapped tr) = add_mset b (image_mset pool_base P + M)"
  shows "list_all (\<lambda>(r, h, b'). b' \<noteq> b) (registered tr)"
proof -
  have "b \<notin># image_mset pool_base P"
  proof
    assume "b \<in># image_mset pool_base P"
    then have "count (mset (mapped tr)) b > 1" using assms(3) by simp
    moreover have "count (mset (mapped tr)) b \<le> 1"
      using assms(2) by (simp add: distinct_count_atmost_1)
    ultimately show False by simp
  qed
  then show ?thesis using assms(1) by (fastforce simp: regs_owned_def list_all_iff)
qed

lemma arena_drop_pinv:
  assumes "pinv H (add_mset a A) P"
  shows "pinv (arena_drop env a H) A P"
proof -
  let ?B = "ho_budget H" and ?H' = "arena_drop env a H"
  have m: "mset (mapped (ho_hist H)) = add_mset (ar_base a) (image_mset pool_base P +
      (image_mset ar_base A + image_mset ar_base (mset (pb_retained ?B))))"
    using assms by (simp add: pinv_def maps_exact_def owned_bases_def)
  have d: "distinct (mapped (ho_hist H))" using assms by (simp add: pinv_def maps_exact_def)
  have "list_all (\<lambda>(r, h, b'). b' \<noteq> ar_base a) (registered (ho_hist H))"
    by (rule base_unregistered [OF _ d m]) (use assms in \<open>simp add: pinv_def\<close>)
  moreover have "unat (pb_used ?B) = (\<Sum>a\<in>#A. lease_bytes a) + (\<Sum>p\<in>#P. pool_bytes p) +
      unat (pb_retained_bytes ?B) + lease_bytes a" "pb_used ?B \<le> pb_limit ?B"
    using assms by (simp_all add: pinv_def budget_exact_def)
  note bud = arena_drop_budget [OF this refl]
  ultimately show ?thesis using assms m d bud
    by (simp add: pinv_def budget_exact_def maps_exact_def owned_bases_def regs_owned_def arena_drop_eq distinct_remove1)
qed

lemma pinv_move: "pm_osdesc p = None \<Longrightarrow> pm_charge p = 0 \<Longrightarrow>
    pinv H A (add_mset p P) = pinv H (add_mset (pm_arena p) A) P"
  by (simp add: pinv_def budget_exact_def maps_exact_def owned_bases_def regs_owned_def pool_bytes_def
      pool_base_def add_ac)

lemma pool_cleanup_idle:
  "pm_osdesc p = None \<Longrightarrow> \<not> pm_range_live p \<Longrightarrow>
    pool_cleanup env p H = (Inr (), p\<lparr> pm_active := False \<rparr>, H)"
  by (simp add: pool_cleanup_def)

lemma pool_drop_pinv:
  assumes "pinv H A (add_mset p P)" "pm_osdesc p = None" "\<not> pm_range_live p" "pm_charge p = 0"
  shows "pinv (pool_drop env p H) A P"
proof -
  have "pinv (arena_drop env (pm_arena p) H) A P"
    using assms pinv_move arena_drop_pinv by blast
  then show ?thesis using assms
    by (simp add: pool_drop_def pool_cleanup_idle host_step_eq pinv_neutral)
qed

text \<open>Which parts of the budget an operation can touch.\<close>

definition same_books :: "pin_budget \<Rightarrow> pin_budget \<Rightarrow> bool" where
  "same_books B B' \<longleftrightarrow> pb_limit B' = pb_limit B \<and> pb_retained B' = pb_retained B \<and>
    pb_retained_bytes B' = pb_retained_bytes B \<and> pb_quarantine B' = pb_quarantine B"

lemma same_books_refl [simp]: "same_books B B"
  by (simp add: same_books_def)

lemma same_books_trans: "same_books B B' \<Longrightarrow> same_books B' B'' \<Longrightarrow> same_books B B''"
  by (simp add: same_books_def)

lemma same_books_lease [simp]: "same_books B (lease_drop B n)"
  by (simp add: same_books_def lease_drop_def)

lemma arena_drop_books [simp]: "same_books (ho_budget H) (ho_budget (arena_drop env a H))"
  by (simp add: arena_drop_eq split: option.splits)

lemma pool_cleanup_books: "pool_cleanup env p H = (res, p', H') \<Longrightarrow> same_books (ho_budget H) (ho_budget H')"
  using pool_cleanup_fields [of env p H res p' H'] by simp

lemma pool_drop_books [simp]: "same_books (ho_budget H) (ho_budget (pool_drop env p H))"
proof -
  obtain res p' H' where c: "pool_cleanup env p H = (res, p', H')" by (metis prod_cases3)
  then show ?thesis using pool_cleanup_books [OF c] arena_drop_books [of H' env "pm_arena p'"]
    by (cases res) (auto simp: pool_drop_def host_step_eq intro: same_books_trans)
qed

lemma retain_pools_pinv:
  assumes "pinv H A (mset ps + P)" "\<forall>p \<in> set ps. pm_charge p = 0"
    "retain_pools env sel ps H = (kept, f, H')"
  shows "pinv H' A (mset kept + P) \<and> same_books (ho_budget H) (ho_budget H')"
  using assms
proof (induction ps arbitrary: H P kept f)
  case (Cons p ps)
  show ?case
  proof (cases "sel p")
    case False
    then obtain kept' where "retain_pools env sel ps H = (kept', f, H')" "kept = p # kept'"
      using Cons.prems by (auto split: prod.splits)
    then show ?thesis using Cons.IH [of H "add_mset p P" kept' f] Cons.prems by simp
  next
    case True
    obtain res p' H1 where c: "pool_cleanup env p H = (res, p', H1)" by (metis prod_cases3)
    have i: "pinv H1 A (add_mset p' (mset ps + P))"
      by (rule pool_cleanup_pinv [OF _ c]) (use Cons.prems in simp)
    note fl = pool_cleanup_fields [OF c]
    show ?thesis
    proof (cases res)
      case (Inl e)
      then obtain kept' f' where r: "retain_pools env sel ps H1 = (kept', f', H')" "kept = p' # kept'"
        using Cons.prems True c by (auto split: prod.splits)
      then show ?thesis using Cons.IH [of H1 "add_mset p' P" kept' f'] Cons.prems i fl by simp
    next
      case (Inr u)
      have "pinv (pool_drop env p' H1) A (mset ps + P)"
        by (rule pool_drop_pinv [OF i]) (use Inr fl Cons.prems in simp_all)
      moreover have "retain_pools env sel ps (pool_drop env p' H1) = (kept, f, H')"
        using Cons.prems True c Inr by simp
      ultimately have "pinv H' A (mset kept + P) \<and> same_books (ho_budget (pool_drop env p' H1)) (ho_budget H')"
        using Cons.IH Cons.prems by simp
      then show ?thesis using fl pool_drop_books [of H1 env p'] by (auto intro: same_books_trans)
    qed
  qed
qed simp

lemma pinv_release_charge:
  assumes "pinv H A (add_mset p P)"
  shows "pinv (on_budget (\<lambda>B. lease_drop B (pm_charge p)) H) A (add_mset (p\<lparr> pm_charge := 0 \<rparr>) P)"
proof -
  let ?B = "ho_budget H"
  have "unat (pb_used ?B) = (\<Sum>a\<in>#A. lease_bytes a) + (lease_bytes (pm_arena p) + (\<Sum>p\<in>#P. pool_bytes p)) +
      unat (pb_retained_bytes ?B) + unat (pm_charge p)" "pb_used ?B \<le> pb_limit ?B"
    using assms by (simp_all add: pinv_def budget_exact_def pool_bytes_def)
  from budget_release [OF this] show ?thesis using assms
    by (auto simp: pinv_def budget_exact_def maps_exact_def owned_bases_def regs_owned_def pool_bytes_def
        pool_base_def on_budget_def lease_drop_def)
qed

lemma on_budget_books: "same_books B (f B) \<Longrightarrow> ho_budget H = B \<Longrightarrow> same_books B (ho_budget (on_budget f H))"
  by (simp add: on_budget_def)

lemma retry_quarantine_pinv:
  assumes "pinv H A (mset ps + P)" "retry_quarantine env ps H = (kept, H')"
  shows "pinv H' A (mset kept + P) \<and> same_books (ho_budget H) (ho_budget H')"
  using assms
proof (induction ps arbitrary: H P kept)
  case (Cons p ps)
  obtain res p' H1 where c: "pool_cleanup env p H = (res, p', H1)" by (metis prod_cases3)
  have i: "pinv H1 A (add_mset p' (mset ps + P))"
    by (rule pool_cleanup_pinv [OF _ c]) (use Cons.prems in simp)
  note fl = pool_cleanup_fields [OF c]
  show ?case
  proof (cases res)
    case (Inl e)
    then obtain kept' where r: "retry_quarantine env ps H1 = (kept', H')" "kept = p' # kept'"
      using Cons.prems c by (auto split: prod.splits)
    then show ?thesis using Cons.IH [of H1 "add_mset p' P" kept'] i fl by simp
  next
    case (Inr u)
    let ?H2 = "on_budget (\<lambda>B. lease_drop B (pm_charge p')) H1"
    let ?H3 = "pool_drop env (p'\<lparr> pm_charge := 0 \<rparr>) ?H2"
    have "pinv ?H3 A (mset ps + P)"
      by (rule pool_drop_pinv [OF pinv_release_charge [OF i]]) (use Inr fl in simp_all)
    moreover have "retry_quarantine env ps ?H3 = (kept, H')" using Cons.prems c Inr by simp
    ultimately have "pinv H' A (mset kept + P) \<and> same_books (ho_budget ?H3) (ho_budget H')"
      using Cons.IH by simp
    moreover have "same_books (ho_budget H) (ho_budget ?H3)"
      using fl pool_drop_books [of ?H2] by (auto simp: on_budget_def intro: same_books_trans [OF same_books_lease])
    ultimately show ?thesis by (auto intro: same_books_trans)
  qed
qed simp

interpretation pin_quota: quota pb_used "\<lambda>B. unat (pb_limit B)" pin_reserve lease_drop
proof
  fix s s' :: pin_budget and n :: u64
  show "pin_reserve s n = Some s' \<Longrightarrow> unat (pb_used s') = unat (pb_used s) + unat n \<and>
      unat (pb_used s') \<le> unat (pb_limit s) \<and> unat (pb_limit s') = unat (pb_limit s)"
    by (auto simp: pin_reserve_def checked_simps word_le_nat_alt split: if_splits option.splits)
  show "pin_reserve s n = None \<Longrightarrow> n = 0 \<or> unat (pb_limit s) < unat (pb_used s) + unat n"
    using unat_lt_u64 [of "pb_limit s"]
    by (auto simp: pin_reserve_def checked_simps word_le_nat_alt split: if_splits option.splits)
  show "unat n \<le> unat (pb_used s) \<Longrightarrow> unat (pb_used (lease_drop s n)) = unat (pb_used s) - unat n"
    by (simp add: lease_drop_def unat_sub word_le_nat_alt)
  show "unat (pb_limit (lease_drop s n)) = unat (pb_limit s)" by (simp add: lease_drop_def)
qed

lemma pin_reserve_books: "pin_reserve B n = Some B' \<Longrightarrow> same_books B B'"
  by (auto simp: pin_reserve_def same_books_def split: if_splits option.splits)

lemma pin_reserve_release: "pin_reserve B n = Some B' \<Longrightarrow> lease_drop B' n = B"
  by (auto simp: pin_reserve_def lease_drop_def checked_add_def split: if_splits option.splits)

lemma arena_build_history:
  assumes b: "arena_build env runs tot tr = (res, tr')" and fresh: "mmap_fresh env"
    and reg: "\<forall>(r, h, b) \<in> set (registered tr). b \<in> set (mapped tr)"
  shows "registered tr' = registered tr \<and> (unmaps_safe tr \<longrightarrow> unmaps_safe tr') \<and>
    (case res of Inl _ \<Rightarrow> mapped tr' = mapped tr
     | Inr a \<Rightarrow> mapped tr' = ar_base a # mapped tr \<and> ar_base a \<notin> set (mapped tr) \<and> ar_lease a = None)"
  using b
proof (cases rule: arena_build_cases)
  case (rolled_back e base tr2 x)
  have f: "base \<notin> set (mapped tr)" using rolled_back(4) fresh by (auto simp: mmap_fresh_def)
  have "list_all (\<lambda>(r, h, b'). b' \<noteq> base) (registered tr)"
    using reg f by (fastforce simp: list_all_iff)
  then show ?thesis using map_runs_history [OF rolled_back(2)] rolled_back by auto
next
  case (built base page)
  then have "base \<notin> set (mapped tr)" using fresh by (auto simp: mmap_fresh_def)
  then show ?thesis using map_runs_history [OF built(2)] built(1) by simp
qed simp_all

lemma regs_mapped: "pinv H A P \<Longrightarrow> \<forall>(r, h, b) \<in> set (registered (ho_hist H)). b \<in> set (mapped (ho_hist H))"
proof clarify
  fix r h b assume i: "pinv H A P" and m: "(r, h, b) \<in> set (registered (ho_hist H))"
  then obtain p where "p \<in># P" "pool_base p = b" by (fastforce simp: pinv_def regs_owned_def)
  then have "b \<in># owned_bases (ho_budget H) A P" by (auto simp: owned_bases_def)
  then show "b \<in> set (mapped (ho_hist H))" using i by (metis pinv_def maps_exact_def set_mset_mset)
qed

text \<open>The invariant with the pools of the quarantine counted in.\<close>

definition hinv :: "host \<Rightarrow> arena multiset \<Rightarrow> pool_map multiset \<Rightarrow> bool" where
  "hinv H A P \<longleftrightarrow> pinv H A (P + mset (pb_quarantine (ho_budget H)))"

lemma pinv_books:
  "same_books B' B \<Longrightarrow> pb_used B' = pb_used B \<Longrightarrow> pinv (H\<lparr> ho_budget := B' \<rparr>) A P = pinv (H\<lparr> ho_budget := B \<rparr>) A P"
  by (simp add: pinv_def budget_exact_def maps_exact_def owned_bases_def same_books_def)

lemma budget_retry_hinv:
  assumes "hinv H A P"
  shows "hinv (budget_retry_cleanup env H) A P"
proof -
  let ?q = "pb_quarantine (ho_budget H)"
  obtain kept H1 where r: "retry_quarantine env ?q H = (kept, H1)" by force
  have "pinv H A (mset ?q + P)" using assms by (simp add: hinv_def add.commute)
  from retry_quarantine_pinv [OF this r] have "pinv H1 A (mset kept + P)" by simp
  then show ?thesis
    by (simp add: hinv_def budget_retry_cleanup_def r on_budget_def pinv_def budget_exact_def maps_exact_def
        owned_bases_def add.commute)
qed

lemma ps_arena_hinv:
  assumes "hinv H0 A P" "mmap_fresh env" "ps_arena env runs tot H0 = (res, H')"
  shows "case res of Inl _ \<Rightarrow> hinv H' A P | Inr a \<Rightarrow> hinv H' (add_mset a A) P"
proof -
  let ?H = "budget_retry_cleanup env H0"
  let ?Q = "P + mset (pb_quarantine (ho_budget ?H))"
  have i: "pinv ?H A ?Q" using budget_retry_hinv [OF assms(1)] by (simp add: hinv_def)
  show ?thesis
  proof (cases "registration_bytes env (gl_get tot)")
    case (Inl e)
    then show ?thesis using assms(3) i by (auto simp: ps_arena_def hinv_def Let_def)
  next
    case n: (Inr n)
    show ?thesis
    proof (cases "pin_reserve (ho_budget ?H) n")
      case None
      then show ?thesis using assms(3) i n by (auto simp: ps_arena_def hinv_def Let_def)
    next
      case B: (Some B)
      obtain rb tr where bd: "arena_build env runs tot (ho_hist ?H) = (rb, tr)" by force
      note hist = arena_build_history [OF bd assms(2) regs_mapped [OF i]]
      note bk = pin_reserve_books [OF B]
      show ?thesis
      proof (cases rb)
        case (Inl e)
        have "H' = \<lparr> ho_budget = ho_budget ?H, ho_hist = tr \<rparr>" "res = Inl e"
          using assms(3) n B bd Inl pin_reserve_release [OF B] by (simp_all add: ps_arena_def Let_def)
        then show ?thesis using i hist Inl
          by (simp add: hinv_def pinv_def maps_exact_def regs_owned_def)
      next
        case (Inr a)
        have e: "H' = \<lparr> ho_budget = B, ho_hist = tr \<rparr>" "res = Inr (a\<lparr> ar_lease := Some n \<rparr>)"
          using assms(3) n B bd Inr by (simp_all add: ps_arena_def Let_def)
        have "budget_exact B (add_mset (a\<lparr> ar_lease := Some n \<rparr>) A) ?Q"
          using i bk pin_quota.charge_Some [OF B]
          by (simp add: pinv_def budget_exact_def same_books_def lease_bytes_def word_le_nat_alt)
        moreover have "maps_exact tr B (add_mset (a\<lparr> ar_lease := Some n \<rparr>) A) ?Q"
          using i hist Inr bk by (simp add: pinv_def maps_exact_def owned_bases_def same_books_def)
        ultimately show ?thesis using e i hist bk
          by (simp add: hinv_def pinv_def regs_owned_def same_books_def)
      qed
    qed
  qed
qed

section \<open>Pools of one session\<close>

definition pool_id :: "pool_map \<Rightarrow> u64 \<times> guest_addr \<times> guest_len" where
  "pool_id p = (pm_token p, pm_addr p, pm_len p)"

definition ids_apart :: "u64 \<times> guest_addr \<times> guest_len \<Rightarrow> u64 \<times> guest_addr \<times> guest_len \<Rightarrow> bool" where
  "ids_apart x y \<longleftrightarrow>
    (case x of (t, a, l) \<Rightarrow> case y of (t', a', l') \<Rightarrow> t = t' \<longrightarrow>
       unat (ga_get a) + unat (gl_get l) \<le> unat (ga_get a') \<or> unat (ga_get a') + unat (gl_get l') \<le> unat (ga_get a))"

definition id_whole :: "u64 \<times> guest_addr \<times> guest_len \<Rightarrow> bool" where
  "id_whole x \<longleftrightarrow>
    (case x of (t, a, l) \<Rightarrow> 0 < unat (gl_get l) \<and> unat (ga_get a) + unat (gl_get l) < 2 ^ 64 \<and>
       ga_get a mod 4096 = 0 \<and> gl_get l mod 4096 = 0)"

definition sess_ok :: "pool_state \<Rightarrow> bool" where
  "sess_ok ps \<longleftrightarrow>
    (\<forall>p \<in> set (ps_pools ps). pm_charge p = 0) \<and> sorted_wrt ids_apart (map pool_id (ps_pools ps)) \<and>
    list_all id_whole (map pool_id (ps_pools ps)) \<and> dkeys (ps_osdesc ps)"

lemma pool_cleanup_id: "pool_cleanup env p H = (res, p', H') \<Longrightarrow> pool_id p' = pool_id p"
  using pool_cleanup_fields [of env p H res p' H'] by (simp add: pool_id_def)

lemma retain_pools_ids:
  "retain_pools env sel ps H = (kept, f, H') \<Longrightarrow>
    set (map pool_id kept) \<subseteq> set (map pool_id ps) \<and>
    (sorted_wrt R (map pool_id ps) \<longrightarrow> sorted_wrt R (map pool_id kept)) \<and>
    ((\<forall>p \<in> set ps. pm_charge p = 0) \<longrightarrow> (\<forall>p \<in> set kept. pm_charge p = 0))"
proof (induction ps arbitrary: H kept f)
  case (Cons p ps)
  obtain res p' H1 where c: "pool_cleanup env p H = (res, p', H1)" by (metis prod_cases3)
  note fl = pool_cleanup_fields [OF c] pool_cleanup_id [OF c]
  consider "\<not> sel p" | e where "sel p" "res = Inl e" | "sel p" "res = Inr ()" by (cases res) auto
  then show ?case
  proof cases
    case 1
    then obtain kept' where "retain_pools env sel ps H = (kept', f, H')" "kept = p # kept'"
      using Cons.prems by (auto split: prod.splits)
    then show ?thesis using Cons.IH [of H kept' f] by auto
  next
    case 2
    then obtain kept' f' where "retain_pools env sel ps H1 = (kept', f', H')" "kept = p' # kept'"
      using Cons.prems c by (auto split: prod.splits)
    then show ?thesis using Cons.IH [of H1 kept' f'] fl by auto
  next
    case 3
    then have "retain_pools env sel ps (pool_drop env p' H1) = (kept, f, H')"
      using Cons.prems c by simp
    then show ?thesis using Cons.IH [of "pool_drop env p' H1" kept f] by auto
  qed
qed simp

lemma retain_sess_ok:
  assumes "sess_ok ps" "retain_pools env sel (ps_pools ps) H = (kept, f, H')"
  shows "sess_ok (ps\<lparr> ps_pools := kept \<rparr>)"
  using assms(1) retain_pools_ids [OF assms(2), of ids_apart]
  by (auto simp: sess_ok_def list_all_iff)

text \<open>A session's arenas and pools inside the invariant.\<close>

definition osdesc_m :: "pool_state \<Rightarrow> arena multiset" where
  "osdesc_m ps = image_mset snd (mset (ps_osdesc ps))"

definition sinv :: "pool_state \<Rightarrow> host \<Rightarrow> arena multiset \<Rightarrow> pool_map multiset \<Rightarrow> bool" where
  "sinv ps H A P \<longleftrightarrow> sess_ok ps \<and> hinv H (osdesc_m ps + A) (mset (ps_pools ps) + P)"

lemma retain_sinv:
  assumes "sinv ps H A P" "retain_pools env sel (ps_pools ps) H = (kept, f, H')"
  shows "sinv (ps\<lparr> ps_pools := kept \<rparr>) H' A P"
proof -
  let ?Q = "P + mset (pb_quarantine (ho_budget H))"
  have "pinv H (osdesc_m ps + A) (mset (ps_pools ps) + ?Q)"
    using assms(1) by (simp add: sinv_def hinv_def add.assoc)
  from retain_pools_pinv [OF this _ assms(2)] assms(1)
  have "pinv H' (osdesc_m ps + A) (mset kept + ?Q)" "same_books (ho_budget H) (ho_budget H')"
    by (auto simp: sinv_def sess_ok_def)
  then show ?thesis using assms retain_sess_ok [OF _ assms(2)]
    by (simp add: sinv_def hinv_def same_books_def osdesc_m_def add.assoc)
qed

lemma cleanup_matching_sinv:
  "sinv ps H A P \<Longrightarrow> cleanup_matching env token addr ps H = (res, ps', H') \<Longrightarrow> sinv ps' H' A P"
  using retain_sinv [of ps H A P env] by (auto simp: cleanup_matching_def split: prod.splits)

lemma ps_retry_sinv:
  assumes "sinv ps H A P" "ps_retry_cleanup env ps H = (ps', H')"
  shows "sinv ps' H' A P"
proof -
  have "sinv ps (budget_retry_cleanup env H) A P"
    using assms(1) budget_retry_hinv by (simp add: sinv_def)
  then show ?thesis using assms(2) retain_sinv by (fastforce simp: ps_retry_cleanup_def split: prod.splits)
qed

definition same_owner :: "pool_map \<Rightarrow> pool_map \<Rightarrow> bool" where
  "same_owner p q \<longleftrightarrow> pm_arena q = pm_arena p \<and> pm_charge q = pm_charge p \<and> pm_driver q = pm_driver p \<and>
    pm_osdesc q = pm_osdesc p \<and> pool_id q = pool_id p"

lemma pinv_map:
  assumes "\<And>p. same_owner p (f p)" "pinv H A (M + P)"
  shows "pinv H A (image_mset f M + P)"
proof -
  have "pool_bytes (f p) = pool_bytes p" "pool_base (f p) = pool_base p" for p
    using assms(1) [of p] by (simp_all add: same_owner_def pool_bytes_def pool_base_def)
  moreover have "pm_driver (f p) = pm_driver p" "pm_osdesc (f p) = pm_osdesc p" for p
    using assms(1) [of p] by (simp_all add: same_owner_def)
  ultimately have f: "pool_bytes \<circ> f = pool_bytes" "pool_base \<circ> f = pool_base"
    "\<And>p. pm_driver (f p) = pm_driver p" "\<And>p. pm_osdesc (f p) = pm_osdesc p"
    "\<And>p. pool_base (f p) = pool_base p" by (auto simp: fun_eq_iff)
  have "regs_owned (ho_hist H) (image_mset f M + P)"
    unfolding regs_owned_def
  proof clarify
    fix r h b assume "(r, h, b) \<in> set (registered (ho_hist H))"
    then obtain p where "p \<in># M + P" "pm_driver p = r" "pm_osdesc p = Some h" "pool_base p = b"
      using assms(2) by (fastforce simp: pinv_def regs_owned_def)
    then show "\<exists>p \<in># image_mset f M + P. pm_driver p = r \<and> pm_osdesc p = Some h \<and> pool_base p = b"
      using f(3-5) by (cases "p \<in># M") (auto intro: bexI [of _ "f p"] bexI [of _ p])
  qed
  then show ?thesis using assms(2) f
    by (simp add: pinv_def budget_exact_def maps_exact_def owned_bases_def image_mset.compositionality)
qed

lemma map_sinv:
  assumes f: "\<And>p. same_owner p (f p)" and i: "sinv ps H A P"
  shows "sinv (ps\<lparr> ps_pools := map f (ps_pools ps) \<rparr>) H A P"
proof -
  have "pool_id \<circ> f = pool_id" "pm_charge (f p) = pm_charge p" for p
    using f by (auto simp: same_owner_def fun_eq_iff)
  then have "sess_ok (ps\<lparr> ps_pools := map f (ps_pools ps) \<rparr>)" using i by (auto simp: sinv_def sess_ok_def)
  then show ?thesis using i pinv_map [OF f]
    by (simp add: sinv_def hinv_def osdesc_m_def add.assoc)
qed

lemma release_uvm_range_sinv:
  assumes "sinv ps H A P" "release_uvm_range env token addr ps H = (res, ps', H')"
  shows "sinv ps' H' A P"
proof -
  let ?f = "\<lambda>p. if pm_token p = token \<and> pm_addr p = addr
      then p\<lparr> pm_range_live := False, pm_active := False \<rparr> else p"
  have "sinv (ps\<lparr> ps_pools := map ?f (ps_pools ps) \<rparr>) H A P"
    by (rule map_sinv [OF _ assms(1)]) (simp add: same_owner_def pool_id_def)
  then show ?thesis using assms(2) cleanup_matching_sinv unfolding release_uvm_range_def by blast
qed

lemma close_uvm_sinv: "sinv ps H A P \<Longrightarrow> close_uvm env token ps H = (res, ps', H') \<Longrightarrow> sinv ps' H' A P"
  unfolding close_uvm_def by (rule cleanup_matching_sinv)

text \<open>Setting a pool up registers its arena under the handle it stores.\<close>

lemma pinv_registered:
  assumes "pinv H A (add_mset p P)" "pm_osdesc p = None"
  shows "pinv (H\<lparr> ho_hist := (DAllocate (pm_driver p) (ar_base (pm_arena p)) l, Inr v) # ho_hist H \<rparr>) A
     (add_mset (p\<lparr> pm_osdesc := Some (ucast v) \<rparr>) P)"
proof -
  have "regs_owned ((DAllocate (pm_driver p) (ar_base (pm_arena p)) l, Inr v) # ho_hist H)
      (add_mset (p\<lparr> pm_osdesc := Some (ucast v) \<rparr>) P)"
    using assms by (fastforce simp: pinv_def regs_owned_def pool_base_def)
  then show ?thesis using assms(1)
    by (simp add: pinv_def budget_exact_def maps_exact_def owned_bases_def pool_bytes_def pool_base_def)
qed

lemma pinv_register_failed:
  "pinv H A P \<Longrightarrow> pinv (H\<lparr> ho_hist := (DAllocate r b l, Inl e) # ho_hist H \<rparr>) A P"
  by (simp add: pinv_def maps_exact_def regs_owned_def)

lemma pool_setup_pinv:
  assumes "pinv H A (add_mset p P)" "pm_osdesc p = None" "pool_setup env p H = (res, p', H')"
  shows "pinv H' A (add_mset p' P) \<and> ho_budget H' = ho_budget H \<and> pool_id p' = pool_id p \<and>
    pm_charge p' = pm_charge p \<and> (pm_active p' \<longleftrightarrow> res = Inr () \<or> pm_active p)"
proof (cases "he_call env (ho_hist H) (DAllocate (pm_driver p) (ar_base (pm_arena p)) (pm_len p))")
  case (Inl e)
  then show ?thesis using assms pinv_register_failed [OF assms(1)]
    by (auto simp: pool_setup_def host_step_eq)
next
  case (Inr v)
  let ?p1 = "p\<lparr> pm_osdesc := Some (ucast v) \<rparr>"
  let ?H1 = "H\<lparr> ho_hist := (DAllocate (pm_driver p) (ar_base (pm_arena p)) (pm_len p), Inr v) # ho_hist H \<rparr>"
  have i1: "pinv ?H1 A (add_mset ?p1 P)" by (rule pinv_registered [OF assms(1,2)])
  have i2: "pinv ?H1 A (add_mset (?p1\<lparr> pm_range_live := x, pm_active := y \<rparr>) P)" for x y
    by (rule pinv_replace [OF i1]) simp_all
  have i3: "pinv ?H1 A (add_mset (?p1\<lparr> pm_range_live := x \<rparr>) P)" for x
    by (rule pinv_replace [OF i1]) simp_all
  show ?thesis using assms(3) Inr i1 i2 i3
    by (auto simp: pool_setup_def host_step_eq Let_def pool_id_def pinv_neutral_hist split: sum.splits)
qed

lemma get_driver_facts:
  assumes "get_driver env ps H = (res, ps', H')"
  shows "ps_pools ps' = ps_pools ps \<and> ps_osdesc ps' = ps_osdesc ps \<and>
    same_books (ho_budget H) (ho_budget H') \<and> (\<forall>A P. pinv H A P \<longrightarrow> pinv H' A P)"
  using assms
  by (auto simp: get_driver_def host_step_eq on_budget_def private_client_def same_books_def pinv_def
      budget_exact_def maps_exact_def owned_bases_def regs_owned_def neutral_history
      split: option.splits sum.splits)

lemma get_driver_hinv: "get_driver env ps H = (res, ps', H') \<Longrightarrow> hinv H A P \<Longrightarrow> hinv H' A P"
  using get_driver_facts [of env ps H res ps' H'] by (auto simp: hinv_def same_books_def)

lemma neutral_hinv: "neutral c \<Longrightarrow> hinv (snd (host_step env c H)) A P = hinv H A P"
  by (simp add: hinv_def host_step_eq pinv_neutral)

lemma arena_drop_hinv: "hinv H (add_mset a A) P \<Longrightarrow> hinv (arena_drop env a H) A P"
  using arena_drop_pinv [of H a A _ env] arena_drop_books [of H env a] by (auto simp: hinv_def same_books_def)

lemma pool_cleanup_hinv:
  "hinv H A (add_mset p P) \<Longrightarrow> pool_cleanup env p H = (res, p', H') \<Longrightarrow> hinv H' A (add_mset p' P)"
  using pool_cleanup_pinv [of H A p _ env res p' H'] pool_cleanup_fields [of env p H res p' H']
  by (simp add: hinv_def)

lemma pool_drop_hinv:
  "hinv H A (add_mset p P) \<Longrightarrow> pm_osdesc p = None \<Longrightarrow> \<not> pm_range_live p \<Longrightarrow> pm_charge p = 0 \<Longrightarrow>
    hinv (pool_drop env p H) A P"
  using pool_drop_pinv [of H A p _ env] pool_drop_books [of H env p] by (auto simp: hinv_def same_books_def)

lemma pool_setup_hinv:
  "hinv H A (add_mset p P) \<Longrightarrow> pm_osdesc p = None \<Longrightarrow> pool_setup env p H = (res, p', H') \<Longrightarrow>
    hinv H' A (add_mset p' P) \<and> pool_id p' = pool_id p \<and> pm_charge p' = pm_charge p"
  using pool_setup_pinv [of H A p _ env res p' H'] by (simp add: hinv_def)

lemma hinv_move: "pm_osdesc p = None \<Longrightarrow> pm_charge p = 0 \<Longrightarrow>
    hinv H A (add_mset p P) = hinv H (add_mset (pm_arena p) A) P"
  by (simp add: hinv_def pinv_move)

lemma sess_ok_append:
  assumes "sess_ok ps" "pm_charge p = 0" "id_whole (pool_id p)"
    and "\<forall>q \<in> set (ps_pools ps). ids_apart (pool_id q) (pool_id p)"
  shows "sess_ok (ps\<lparr> ps_pools := ps_pools ps @ [p] \<rparr>)"
  using assms by (auto simp: sess_ok_def sorted_wrt_append)

lemma not_overlapping_apart:
  assumes "\<not> pool_overlaps token addr new_end q" "ga_end addr len = Some new_end"
  shows "ids_apart (pool_id q) (token, addr, len)"
  using assms
  by (auto simp: pool_overlaps_def ids_apart_def pool_id_def ga_end_Some word_less_nat_alt not_less
      split: option.splits)

text \<open>The tail of \<^verbatim>\<open>back_pool_for\<close>, once the arena is built: every outcome keeps the books.\<close>

lemma back_pool_tail:
  assumes ok: "sess_ok ps" and i: "hinv H (add_mset a (osdesc_m ps + A)) (mset (ps_pools ps) + P)"
    and p: "p = \<lparr> pm_token = token, pm_addr = addr, pm_len = len, pm_arena = a, pm_uvm_fd = fd,
      pm_driver = root, pm_osdesc = None, pm_range_live = False, pm_active = False, pm_charge = 0 \<rparr>"
    and apart: "\<forall>q \<in> set (ps_pools ps). ids_apart (pool_id q) (token, addr, len)"
    and whole: "id_whole (token, addr, len)"
    and r: "(case pool_setup env p H of
            (Inr _, p', H4) \<Rightarrow> (Inr (), ps\<lparr> ps_pools := ps_pools ps @ [p'] \<rparr>, H4)
          | (Inl e, p', H4) \<Rightarrow>
              (case pool_cleanup env p' H4 of
                 (Inl _, p'', H5) \<Rightarrow> (Inl (HostError e), ps\<lparr> ps_pools := ps_pools ps @ [p''] \<rparr>, H5)
               | (Inr _, p'', H5) \<Rightarrow> (Inl (HostError e), ps, pool_drop env p'' H5))) = (res, ps', H')"
  shows "sinv ps' H' A P"
proof -
  let ?A = "osdesc_m ps + A" and ?P = "mset (ps_pools ps) + P"
  have "hinv H ?A (add_mset p ?P)" using i p by (simp add: hinv_move)
  moreover obtain rs p' H4 where s: "pool_setup env p H = (rs, p', H4)" by (metis prod_cases3)
  ultimately have i4: "hinv H4 ?A (add_mset p' ?P)" "pool_id p' = (token, addr, len)" "pm_charge p' = 0"
    using pool_setup_hinv [of H ?A p ?P env rs p' H4] p by (auto simp: pool_id_def)
  have add: "sinv (ps\<lparr> ps_pools := ps_pools ps @ [q] \<rparr>) K A P"
    if "hinv K ?A (add_mset q ?P)" "pool_id q = (token, addr, len)" "pm_charge q = 0" for q K
    using that sess_ok_append [OF ok that(3)] apart whole by (simp add: sinv_def osdesc_m_def)
  show ?thesis
  proof (cases rs)
    case (Inr u)
    then show ?thesis using r s add [OF i4] by auto
  next
    case (Inl e)
    obtain rc p'' H5 where c: "pool_cleanup env p' H4 = (rc, p'', H5)" by (metis prod_cases3)
    note i5 = pool_cleanup_hinv [OF i4(1) c] pool_cleanup_id [OF c] pool_cleanup_fields [OF c]
    show ?thesis
    proof (cases rc)
      case (Inl e')
      then show ?thesis using r s c \<open>rs = Inl e\<close> add [OF i5(1)] i4 i5 by auto
    next
      case (Inr u)
      have "hinv (pool_drop env p'' H5) ?A ?P" by (rule pool_drop_hinv) (use i4 i5 Inr in auto)
      then show ?thesis using r s c \<open>rs = Inl e\<close> Inr ok by (auto simp: sinv_def)
    qed
  qed
qed

text \<open>The exits of \<^verbatim>\<open>back_pool_for\<close>.\<close>

lemma back_pool_cases:
  assumes r: "back_pool_for env token uvm_fd addr len runs ps0 H0 = (res, ps', H')"
  obtains
    (rejected) "ps' = ps0" "H' = H0"
  | (overlap) "ps_retry_cleanup env ps0 H0 = (ps', H')"
  | (no_arena) H e where "ps_retry_cleanup env ps0 H0 = (ps', H)" "ps_arena env runs len H = (Inl e, H')"
  | (no_fd) H a H1 where "ps_retry_cleanup env ps0 H0 = (ps', H)" "ps_arena env runs len H = (Inr a, H1)"
      "H' = arena_drop env a (snd (host_step env (DupFd uvm_fd) H1))"
  | (no_driver) ps H a H1 fd e H3 where "ps_retry_cleanup env ps0 H0 = (ps, H)"
      "ps_arena env runs len H = (Inr a, H1)"
      "get_driver env ps (snd (host_step env (DupFd uvm_fd) H1)) = (Inl e, ps', H3)"
      "H' = arena_drop env a (snd (host_step env (CloseFd (ucast (fd :: u64))) H3))"
  | (opened) ps H a H1 fd root ps1 H3 new_end where "ps_retry_cleanup env ps0 H0 = (ps, H)"
      "ps_arena env runs len H = (Inr a, H1)"
      "get_driver env ps (snd (host_step env (DupFd uvm_fd) H1)) = (Inr root, ps1, H3)"
      "ga_end addr len = Some new_end" "\<not> list_ex (pool_overlaps token addr new_end) (ps_pools ps)"
      "id_whole (token, addr, len)"
      "(case pool_setup env \<lparr> pm_token = token, pm_addr = addr, pm_len = len, pm_arena = a,
             pm_uvm_fd = ucast (fd :: u64), pm_driver = root, pm_osdesc = None,
             pm_range_live = False, pm_active = False, pm_charge = 0 \<rparr> H3 of
            (Inr _, p', H4) \<Rightarrow> (Inr (), ps1\<lparr> ps_pools := ps_pools ps1 @ [p'] \<rparr>, H4)
          | (Inl e, p', H4) \<Rightarrow>
              (case pool_cleanup env p' H4 of
                 (Inl _, p'', H5) \<Rightarrow> (Inl (HostError e), ps1\<lparr> ps_pools := ps_pools ps1 @ [p''] \<rparr>, H5)
               | (Inr _, p'', H5) \<Rightarrow> (Inl (HostError e), ps1, pool_drop env p'' H5))) = (res, ps', H')"
proof (cases "ga_end addr len = None \<or> gl_is_zero len \<or> ga_get addr mod 4096 \<noteq> 0 \<or> gl_get len mod 4096 \<noteq> 0")
  case True
  show thesis by (rule rejected) (use True r in \<open>auto simp: back_pool_for_def split: option.splits if_splits\<close>)
next
  case False
  then obtain new_end where e: "ga_end addr len = Some new_end" and g: "\<not> gl_is_zero len"
    "ga_get addr mod 4096 = 0" "gl_get len mod 4096 = 0" by auto
  obtain ps H where c: "ps_retry_cleanup env ps0 H0 = (ps, H)" by force
  have whole: "id_whole (token, addr, len)"
    using e g by (simp add: id_whole_def ga_end_Some gl_is_zero_def unat_gt_0)
  obtain ra H1 where a: "ps_arena env runs len H = (ra, H1)" by force
  obtain rf H2 where f: "host_step env (DupFd uvm_fd) H1 = (rf, H2)" by force
  obtain rd ps1 H3 where d: "get_driver env ps H2 = (rd, ps1, H3)" by (metis prod_cases3)
  note eqs = r e g c a f d
  consider "list_ex (pool_overlaps token addr new_end) (ps_pools ps)"
    | x where "\<not> list_ex (pool_overlaps token addr new_end) (ps_pools ps)" "ra = Inl x"
    | y x where "\<not> list_ex (pool_overlaps token addr new_end) (ps_pools ps)" "ra = Inr y" "rf = Inl x"
    | y fd x where "\<not> list_ex (pool_overlaps token addr new_end) (ps_pools ps)" "ra = Inr y" "rf = Inr fd" "rd = Inl x"
    | y fd root where "\<not> list_ex (pool_overlaps token addr new_end) (ps_pools ps)" "ra = Inr y" "rf = Inr fd" "rd = Inr root"
    by (cases ra; cases rf; cases rd) auto
  then show thesis
  proof cases
    case 1
    show thesis by (rule overlap) (use 1 eqs in \<open>simp add: back_pool_for_def\<close>)
  next
    case (2 x)
    show thesis by (rule no_arena [of H x]) (use 2 eqs in \<open>simp_all add: back_pool_for_def\<close>)
  next
    case (3 y x)
    show thesis by (rule no_fd [of H y H1]) (use 3 eqs in \<open>simp_all add: back_pool_for_def\<close>)
  next
    case (4 y fd x)
    show thesis by (rule no_driver [of ps H y H1 x H3 fd]) (use 4 eqs in \<open>simp_all add: back_pool_for_def\<close>)
  next
    case (5 y fd root)
    show thesis by (rule opened [of ps H y H1 root ps1 H3 new_end fd])
      (use 5 eqs whole in \<open>simp_all add: back_pool_for_def Let_def\<close>)
  qed
qed

lemma back_pool_sinv:
  assumes i0: "sinv ps0 H0 A P" and fresh: "mmap_fresh env"
    and r: "back_pool_for env token uvm_fd addr len runs ps0 H0 = (res, ps', H')"
  shows "sinv ps' H' A P"
  using r
proof (cases rule: back_pool_cases)
  case rejected
  then show ?thesis using i0 by simp
next
  case overlap
  then show ?thesis by (rule ps_retry_sinv [OF i0])
next
  case (no_arena H e)
  then show ?thesis using ps_retry_sinv [OF i0 no_arena(1)] ps_arena_hinv [OF _ fresh no_arena(2)]
    by (fastforce simp: sinv_def)
next
  case (no_fd H a H1)
  have "hinv H1 (add_mset a (osdesc_m ps' + A)) (mset (ps_pools ps') + P)"
    using ps_retry_sinv [OF i0 no_fd(1)] ps_arena_hinv [OF _ fresh no_fd(2)] by (auto simp: sinv_def)
  then have "hinv H' (osdesc_m ps' + A) (mset (ps_pools ps') + P)"
    unfolding no_fd(3) by (intro arena_drop_hinv) (simp add: neutral_hinv)
  then show ?thesis using ps_retry_sinv [OF i0 no_fd(1)] by (simp add: sinv_def)
next
  case (no_driver ps H a H1 fd e H3)
  note i = ps_retry_sinv [OF i0 no_driver(1)]
  have "hinv H1 (add_mset a (osdesc_m ps + A)) (mset (ps_pools ps) + P)"
    using i ps_arena_hinv [OF _ fresh no_driver(2)] by (auto simp: sinv_def)
  then have "hinv H3 (add_mset a (osdesc_m ps + A)) (mset (ps_pools ps) + P)"
    by (intro get_driver_hinv [OF no_driver(3)]) (simp add: neutral_hinv)
  then have "hinv H' (osdesc_m ps + A) (mset (ps_pools ps) + P)"
    unfolding no_driver(4) by (intro arena_drop_hinv) (simp add: neutral_hinv)
  then show ?thesis using i get_driver_facts [OF no_driver(3)] by (simp add: sinv_def sess_ok_def osdesc_m_def)
next
  case (opened ps H a H1 fd root ps1 H3 new_end)
  note i = ps_retry_sinv [OF i0 opened(1)] and gf = get_driver_facts [OF opened(3)]
  have "hinv H1 (add_mset a (osdesc_m ps + A)) (mset (ps_pools ps) + P)"
    using i ps_arena_hinv [OF _ fresh opened(2)] by (auto simp: sinv_def)
  then have "hinv H3 (add_mset a (osdesc_m ps1 + A)) (mset (ps_pools ps1) + P)"
    using get_driver_hinv [OF opened(3)] gf by (simp add: neutral_hinv osdesc_m_def)
  moreover have "sess_ok ps1" using i gf by (simp add: sinv_def sess_ok_def)
  moreover have "\<forall>q \<in> set (ps_pools ps1). ids_apart (pool_id q) (token, addr, len)"
    using not_overlapping_apart [OF _ opened(4)] opened(5) gf by (auto simp: list_ex_iff)
  ultimately show ?thesis using back_pool_tail [OF _ _ refl _ opened(6) opened(7)] by blast
qed

lemma retain_hinv:
  assumes "hinv H (add_mset a A) P"
  shows "hinv (on_budget (\<lambda>B. budget_retain B a) H) A P"
proof -
  let ?n = "case ar_lease a of None \<Rightarrow> 0 | Some b \<Rightarrow> b"
  have n: "unat ?n = lease_bytes a" by (simp add: lease_bytes_def split: option.splits)
  have "unat (pb_retained_bytes (ho_budget H)) + unat ?n \<le> unat (pb_used (ho_budget H))"
    using assms n by (simp add: hinv_def pinv_def budget_exact_def)
  then have "unat (pb_retained_bytes (ho_budget H) + ?n) = unat (pb_retained_bytes (ho_budget H)) + unat ?n"
    using unat_lt_u64 [of "pb_used (ho_budget H)"] by (intro unat_add_bounded) simp
  then show ?thesis using assms n
    by (simp add: hinv_def pinv_def budget_exact_def maps_exact_def owned_bases_def on_budget_def
        budget_retain_def detach_charge_def)
qed

lemma quarantine_hinv:
  assumes "hinv H A (add_mset p P)" "pm_charge p = 0"
  shows "hinv (on_budget (\<lambda>B. budget_quarantine B p) H) A P"
proof -
  let ?B = "ho_budget H"
  let ?q = "p\<lparr> pm_charge := fst (detach_charge (pm_arena p)), pm_arena := snd (detach_charge (pm_arena p)) \<rparr>"
  have q: "pool_bytes ?q = pool_bytes p" "pool_base ?q = pool_base p"
    using assms(2) by (simp_all add: pool_bytes_def pool_base_def detach_charge_def lease_bytes_def split: option.splits)
  have "regs_owned (ho_hist H) (add_mset ?q (P + mset (pb_quarantine ?B)))"
    using assms q by (fastforce simp: hinv_def pinv_def regs_owned_def)
  then show ?thesis using assms q
    by (simp add: hinv_def pinv_def budget_exact_def maps_exact_def owned_bases_def on_budget_def
        budget_quarantine_def case_prod_beta)
qed

lemma drop_pools_hinv:
  "hinv H A (mset ps + P) \<Longrightarrow> \<forall>p \<in> set ps. pm_charge p = 0 \<Longrightarrow> hinv (drop_pools env ps H) A P"
proof (induction ps arbitrary: H)
  case (Cons p ps)
  obtain res p' H1 where c: "pool_cleanup env p H = (res, p', H1)" by (metis prod_cases3)
  have i: "hinv H1 A (add_mset p' (mset ps + P))"
    by (rule pool_cleanup_hinv [OF _ c]) (use Cons.prems in simp)
  note fl = pool_cleanup_fields [OF c]
  show ?case
  proof (cases res)
    case (Inl e)
    have "hinv (on_budget (\<lambda>B. budget_quarantine B p') H1) A (mset ps + P)"
      by (rule quarantine_hinv [OF i]) (use fl Cons.prems in simp)
    then show ?thesis using Cons c Inl by simp
  next
    case (Inr u)
    have "hinv (pool_drop env p' H1) A (mset ps + P)"
      by (rule pool_drop_hinv [OF i]) (use fl Cons.prems Inr in simp_all)
    then show ?thesis using Cons c Inr by simp
  qed
qed simp

lemma retain_all_hinv:
  "hinv H (image_mset snd (mset as) + A) P \<Longrightarrow>
    hinv (fold (\<lambda>(_, a) H. on_budget (\<lambda>B. budget_retain B a) H) as H) A P"
proof (induction as arbitrary: H)
  case (Cons ka as)
  then show ?case using retain_hinv [of H "snd ka" "image_mset snd (mset as) + A" P]
    by (simp add: case_prod_beta)
qed simp

lemma pool_state_drop_hinv:
  assumes "sinv ps H A P"
  shows "hinv (pool_state_drop env ps H) A P"
proof -
  let ?H1 = "drop_pools env (ps_pools ps) H"
  let ?H2 = "fold (\<lambda>(_, a) H. on_budget (\<lambda>B. budget_retain B a) H) (ps_osdesc ps) ?H1"
  have "hinv ?H1 (osdesc_m ps + A) P"
    by (rule drop_pools_hinv) (use assms in \<open>auto simp: sinv_def sess_ok_def\<close>)
  then have "hinv ?H2 A P" by (intro retain_all_hinv) (simp add: osdesc_m_def)
  moreover have "hinv (on_budget (\<lambda>B. private_client_drop B r) K) A P = hinv K A P" for r K
    by (simp add: hinv_def pinv_def budget_exact_def maps_exact_def owned_bases_def on_budget_def
        private_client_drop_def)
  ultimately show ?thesis by (simp add: pool_state_drop_def Let_def split: option.splits)
qed

lemma mset_delete_key:
  "dkeys m \<Longrightarrow> map_of m k = Some v \<Longrightarrow> mset m = add_mset (k, v) (mset (AList.delete k m))"
proof (induction m)
  case (Cons kv m)
  show ?case
  proof (cases "fst kv = k")
    case True
    then have "AList.delete k m = m" using Cons.prems by (intro delete_notin) auto
    then show ?thesis using True Cons.prems by (cases kv) (simp add: AList.delete_eq)
  next
    case False
    then show ?thesis using Cons by (cases kv) (simp add: AList.delete_eq)
  qed
qed simp

lemma mset_update_key:
  "dkeys m \<Longrightarrow> mset (AList.update k v m) = add_mset (k, v) (mset (AList.delete k m))"
proof (induction m)
  case (Cons kv m)
  show ?case
  proof (cases "fst kv = k")
    case True
    then have "AList.delete k m = m" using Cons.prems by (intro delete_notin) auto
    then show ?thesis using True by (cases kv) (simp add: AList.delete_eq)
  next
    case False
    then show ?thesis using Cons by (cases kv) (simp add: AList.delete_eq)
  qed
qed simp

lemma drop_osdesc_arena_sinv:
  assumes "sinv ps H A P" "drop_osdesc_arena ps root h H = (ps', H')"
  shows "sinv ps' H' A P"
proof (cases "map_of (ps_osdesc ps) (root, h)")
  case None
  then show ?thesis using assms by (simp add: drop_osdesc_arena_def)
next
  case (Some a)
  let ?d = "ps\<lparr> ps_osdesc := AList.delete (root, h) (ps_osdesc ps) \<rparr>"
  have "osdesc_m ps = add_mset a (osdesc_m ?d)"
    using mset_delete_key [OF _ Some] assms(1) by (simp add: osdesc_m_def sinv_def sess_ok_def)
  then have "hinv H (add_mset a (osdesc_m ?d + A)) (mset (ps_pools ps) + P)"
    using assms(1) by (simp add: sinv_def)
  from retain_hinv [OF this] show ?thesis using assms Some
    by (auto simp: drop_osdesc_arena_def sinv_def sess_ok_def)
qed

lemma drop_osdesc_client_sinv:
  assumes "sinv ps H A P" "drop_osdesc_client ps root H = (ps', H')"
  shows "sinv ps' H' A P"
proof -
  have "sinv (fst (fold (\<lambda>(_, h) (ps, H). drop_osdesc_arena ps root h H) ks (q, K)))
             (snd (fold (\<lambda>(_, h) (ps, H). drop_osdesc_arena ps root h H) ks (q, K))) A P"
    if "sinv q K A P" for ks :: "(u32 \<times> u32) list" and q K
    using that
  proof (induction ks arbitrary: q K)
    case (Cons k ks)
    obtain q' K' where d: "drop_osdesc_arena q root (snd k) K = (q', K')" by force
    then show ?case using Cons.IH drop_osdesc_arena_sinv [OF Cons.prems d] by (simp add: case_prod_beta)
  qed simp
  from this [OF assms(1)] show ?thesis using assms(2) by (simp add: drop_osdesc_client_def) (metis fst_conv snd_conv)
qed

lemma keep_osdesc_arena_sinv:
  assumes "sinv ps H (add_mset a A) P" "keep_osdesc_arena ps root h a H = (ps', H')"
  shows "sinv ps' H' A P"
proof -
  let ?k = "(root, h)" and ?m = "ps_osdesc ps"
  have d: "dkeys ?m" using assms(1) by (simp add: sinv_def sess_ok_def)
  have m: "osdesc_m (ps\<lparr> ps_osdesc := AList.update ?k a ?m \<rparr>) = add_mset a (image_mset snd (mset (AList.delete ?k ?m)))"
    using mset_update_key [OF d] by (simp add: osdesc_m_def)
  show ?thesis
  proof (cases "map_of ?m ?k")
    case None
    then have "AList.delete ?k ?m = ?m" by (intro delete_notin) (simp add: map_of_eq_None_iff)
    then show ?thesis using assms m None
      by (auto simp: keep_osdesc_arena_def sinv_def sess_ok_def osdesc_m_def)
  next
    case (Some b)
    have "osdesc_m ps = add_mset b (image_mset snd (mset (AList.delete ?k ?m)))"
      using mset_delete_key [OF d Some] by (simp add: osdesc_m_def)
    then have "hinv H (add_mset b (add_mset a (image_mset snd (mset (AList.delete ?k ?m))) + A)) (mset (ps_pools ps) + P)"
      using assms(1) by (simp add: sinv_def add_mset_commute)
    from retain_hinv [OF this] show ?thesis using assms m Some
      by (auto simp: keep_osdesc_arena_def sinv_def sess_ok_def)
  qed
qed

section \<open>All sessions of a VM\<close>

text \<open>The pools of every session share one budget; an arena that a request plan holds is
  pending until the request either keeps it or drops it.\<close>

record pworld =
  pw_host :: host
  pw_sessions :: "(nat \<times> pool_state) list"
  pw_pending :: "arena list"

inductive pool_step :: "henv \<Rightarrow> pworld \<Rightarrow> pworld \<Rightarrow> bool" for env where
  step_open: "k \<notin> fst ` set (pw_sessions w) \<Longrightarrow>
    pool_step env w (w\<lparr> pw_sessions := pw_sessions w @ [(k, ps_with_budget)] \<rparr>)"
| step_arena_ok: "arena_for_osdesc env runs tot (pw_host w) = (Inr (a, va), H') \<Longrightarrow>
    pool_step env w (w\<lparr> pw_host := H', pw_pending := a # pw_pending w \<rparr>)"
| step_arena_err: "arena_for_osdesc env runs tot (pw_host w) = (Inl e, H') \<Longrightarrow>
    pool_step env w (w\<lparr> pw_host := H' \<rparr>)"
| step_plan_drop: "a \<in> set (pw_pending w) \<Longrightarrow>
    pool_step env w (w\<lparr> pw_host := arena_drop env a (pw_host w), pw_pending := remove1 a (pw_pending w) \<rparr>)"
| step_keep: "a \<in> set (pw_pending w) \<Longrightarrow> map_of (pw_sessions w) k = Some ps \<Longrightarrow>
    keep_osdesc_arena ps root h a (pw_host w) = (ps', H') \<Longrightarrow>
    pool_step env w (w\<lparr> pw_host := H', pw_sessions := AList.update k ps' (pw_sessions w),
                        pw_pending := remove1 a (pw_pending w) \<rparr>)"
| step_drop_osdesc: "map_of (pw_sessions w) k = Some ps \<Longrightarrow>
    drop_osdesc_arena ps root h (pw_host w) = (ps', H') \<Longrightarrow>
    pool_step env w (w\<lparr> pw_host := H', pw_sessions := AList.update k ps' (pw_sessions w) \<rparr>)"
| step_drop_client: "map_of (pw_sessions w) k = Some ps \<Longrightarrow>
    drop_osdesc_client ps root (pw_host w) = (ps', H') \<Longrightarrow>
    pool_step env w (w\<lparr> pw_host := H', pw_sessions := AList.update k ps' (pw_sessions w) \<rparr>)"
| step_back_pool: "map_of (pw_sessions w) k = Some ps \<Longrightarrow>
    back_pool_for env token fd addr len runs ps (pw_host w) = (res, ps', H') \<Longrightarrow>
    pool_step env w (w\<lparr> pw_host := H', pw_sessions := AList.update k ps' (pw_sessions w) \<rparr>)"
| step_release: "map_of (pw_sessions w) k = Some ps \<Longrightarrow>
    release_uvm_range env token addr ps (pw_host w) = (res, ps', H') \<Longrightarrow>
    pool_step env w (w\<lparr> pw_host := H', pw_sessions := AList.update k ps' (pw_sessions w) \<rparr>)"
| step_close: "map_of (pw_sessions w) k = Some ps \<Longrightarrow>
    close_uvm env token ps (pw_host w) = (res, ps', H') \<Longrightarrow>
    pool_step env w (w\<lparr> pw_host := H', pw_sessions := AList.update k ps' (pw_sessions w) \<rparr>)"
| step_session_drop: "map_of (pw_sessions w) k = Some ps \<Longrightarrow>
    pool_step env w (w\<lparr> pw_host := pool_state_drop env ps (pw_host w),
                        pw_sessions := AList.delete k (pw_sessions w) \<rparr>)"
| step_retry: "pool_step env w (w\<lparr> pw_host := budget_retry_cleanup env (pw_host w) \<rparr>)"

definition pool_start :: "pin_budget \<Rightarrow> pworld" where
  "pool_start B = \<lparr> pw_host = \<lparr> ho_budget = B, ho_hist = [] \<rparr>, pw_sessions = [], pw_pending = [] \<rparr>"

inductive pool_reach :: "henv \<Rightarrow> pin_budget \<Rightarrow> pworld \<Rightarrow> bool" for env B where
  reach_start: "pool_reach env B (pool_start B)"
| reach_step: "pool_reach env B w \<Longrightarrow> pool_step env w w' \<Longrightarrow> pool_reach env B w'"

definition held_m :: "(nat \<times> pool_state) list \<Rightarrow> arena multiset" where
  "held_m ss = (\<Sum>kps\<in>#mset ss. osdesc_m (snd kps))"

definition pools_m :: "(nat \<times> pool_state) list \<Rightarrow> pool_map multiset" where
  "pools_m ss = (\<Sum>kps\<in>#mset ss. mset (ps_pools (snd kps)))"

definition winv :: "pworld \<Rightarrow> bool" where
  "winv w \<longleftrightarrow> dkeys (pw_sessions w) \<and> (\<forall>(k, ps) \<in> set (pw_sessions w). sess_ok ps) \<and>
    hinv (pw_host w) (held_m (pw_sessions w) + mset (pw_pending w)) (pools_m (pw_sessions w))"

lemma winv_focus:
  assumes "winv w" "map_of (pw_sessions w) k = Some ps"
  shows "sinv ps (pw_host w) (held_m (AList.delete k (pw_sessions w)) + mset (pw_pending w))
    (pools_m (AList.delete k (pw_sessions w)))"
proof -
  have "mset (pw_sessions w) = add_mset (k, ps) (mset (AList.delete k (pw_sessions w)))"
    by (rule mset_delete_key) (use assms in \<open>simp_all add: winv_def\<close>)
  moreover have "sess_ok ps" using assms map_of_SomeD by (fastforce simp: winv_def)
  ultimately show ?thesis using assms(1)
    by (simp add: winv_def sinv_def held_m_def pools_m_def add.assoc)
qed

lemma winv_unfocus:
  assumes "winv w" "sinv ps' H' (held_m (AList.delete k (pw_sessions w)) + mset pend) (pools_m (AList.delete k (pw_sessions w)))"
  shows "winv (w\<lparr> pw_host := H', pw_sessions := AList.update k ps' (pw_sessions w), pw_pending := pend \<rparr>)"
proof -
  have d: "dkeys (pw_sessions w)" using assms by (simp add: winv_def)
  have "\<forall>(k, ps) \<in> set (AList.update k ps' (pw_sessions w)). sess_ok ps"
    using set_update_subset [of k ps' "pw_sessions w"] assms by (fastforce simp: winv_def sinv_def)
  then show ?thesis using assms(2) d mset_update_key [OF d, of k ps']
    by (simp add: winv_def sinv_def held_m_def pools_m_def add.assoc)
qed

lemma winv_closed:
  assumes "winv w" "hinv H' (held_m (AList.delete k (pw_sessions w)) + mset (pw_pending w))
    (pools_m (AList.delete k (pw_sessions w)))"
  shows "winv (w\<lparr> pw_host := H', pw_sessions := AList.delete k (pw_sessions w) \<rparr>)"
  using assms by (auto simp: winv_def)

lemma pool_step_winv:
  assumes "pool_step env w w'" "winv w" "mmap_fresh env"
  shows "winv w'"
  using assms(1)
proof cases
  case (step_open k)
  then show ?thesis using assms(2)
    by (auto simp: winv_def held_m_def pools_m_def sess_ok_def osdesc_m_def ps_with_budget_def)
next
  case (step_arena_ok runs tot a va H')
  then obtain "ps_arena env runs tot (pw_host w) = (Inr a, H')"
    by (auto simp: arena_for_osdesc_def split: prod.splits sum.splits)
  from ps_arena_hinv [OF _ assms(3) this] show ?thesis using assms(2) step_arena_ok by (auto simp: winv_def)
next
  case (step_arena_err runs tot e H')
  then obtain "ps_arena env runs tot (pw_host w) = (Inl e, H')"
    by (auto simp: arena_for_osdesc_def split: prod.splits sum.splits)
  from ps_arena_hinv [OF _ assms(3) this] show ?thesis using assms(2) step_arena_err by (auto simp: winv_def)
next
  case (step_plan_drop a)
  then have "hinv (pw_host w) (add_mset a (held_m (pw_sessions w) + mset (remove1 a (pw_pending w)))) (pools_m (pw_sessions w))"
    using assms(2) by (simp add: winv_def)
  from arena_drop_hinv [OF this] show ?thesis using assms(2) step_plan_drop by (auto simp: winv_def)
next
  case (step_keep a k ps root h ps' H')
  then have "sinv ps (pw_host w) (add_mset a (held_m (AList.delete k (pw_sessions w)) + mset (remove1 a (pw_pending w))))
      (pools_m (AList.delete k (pw_sessions w)))"
    using winv_focus [OF assms(2) step_keep(3)] by simp
  from keep_osdesc_arena_sinv [OF this step_keep(4)] show ?thesis
    unfolding step_keep(1) by (rule winv_unfocus [OF assms(2)])
next
  case (step_drop_osdesc k ps root h ps' H')
  from drop_osdesc_arena_sinv [OF winv_focus [OF assms(2) step_drop_osdesc(2)] step_drop_osdesc(3)]
  show ?thesis unfolding step_drop_osdesc(1) using winv_unfocus [OF assms(2)] by fastforce
next
  case (step_drop_client k ps root ps' H')
  from drop_osdesc_client_sinv [OF winv_focus [OF assms(2) step_drop_client(2)] step_drop_client(3)]
  show ?thesis unfolding step_drop_client(1) using winv_unfocus [OF assms(2)] by fastforce
next
  case (step_back_pool k ps token fd addr len runs res ps' H')
  from back_pool_sinv [OF winv_focus [OF assms(2) step_back_pool(2)] assms(3) step_back_pool(3)]
  show ?thesis unfolding step_back_pool(1) using winv_unfocus [OF assms(2)] by fastforce
next
  case (step_release k ps token addr res ps' H')
  from release_uvm_range_sinv [OF winv_focus [OF assms(2) step_release(2)] step_release(3)]
  show ?thesis unfolding step_release(1) using winv_unfocus [OF assms(2)] by fastforce
next
  case (step_close k ps token res ps' H')
  from close_uvm_sinv [OF winv_focus [OF assms(2) step_close(2)] step_close(3)]
  show ?thesis unfolding step_close(1) using winv_unfocus [OF assms(2)] by fastforce
next
  case (step_session_drop k ps)
  from pool_state_drop_hinv [OF winv_focus [OF assms(2) step_session_drop(2)]]
  show ?thesis unfolding step_session_drop(1) by (rule winv_closed [OF assms(2)])
next
  case step_retry
  then show ?thesis using assms(2) budget_retry_hinv by (auto simp: winv_def)
qed

lemma pool_reach_winv:
  assumes "pool_reach env B w" "budget_new limit = Inr B" "mmap_fresh env"
  shows "winv w"
  using assms(1)
proof induction
  case reach_start
  then show ?case using assms(2)
    by (auto simp: pool_start_def winv_def held_m_def pools_m_def hinv_def pinv_def budget_exact_def maps_exact_def
        owned_bases_def regs_owned_def budget_new_def split: if_splits)
next
  case (reach_step w w')
  then show ?case using pool_step_winv assms(3) by blast
qed

text \<open>No operation writes the limit, and the retained arenas only grow.\<close>

abbreviation lim :: "host \<Rightarrow> u64 \<times> arena list" where
  "lim H \<equiv> (pb_limit (ho_budget H), pb_retained (ho_budget H))"

lemma lim_simps:
  "lim (on_budget (\<lambda>B. lease_drop B n) H) = lim H"
  "lim (on_budget (\<lambda>B. budget_quarantine B p) H) = lim H"
  "lim (on_budget (\<lambda>B. private_client_drop B r) H) = lim H"
  "lim (arena_drop env a H) = lim H"
  "lim (pool_drop env p H) = lim H"
  using arena_drop_books [of H env a] pool_drop_books [of H env p]
  by (simp_all add: on_budget_def lease_drop_def budget_quarantine_def private_client_drop_def
      detach_charge_def same_books_def)

lemma lim_cleanup: "pool_cleanup env p H = (r, p', H') \<Longrightarrow> lim H' = lim H"
  using pool_cleanup_fields [of env p H r p' H'] by simp

lemma lim_retain: "retain_pools env sel ps H = (kept, f, H') \<Longrightarrow> lim H' = lim H"
proof (induction ps arbitrary: H kept f)
  case (Cons p ps)
  obtain r p' H1 where c: "pool_cleanup env p H = (r, p', H1)" by (metis prod_cases3)
  consider "\<not> sel p" | e where "sel p" "r = Inl e" | "sel p" "r = Inr ()" by (cases r) auto
  then show ?case
  proof cases
    case 1
    then obtain kept' where "retain_pools env sel ps H = (kept', f, H')"
      using Cons.prems by (auto split: prod.splits)
    then show ?thesis by (rule Cons.IH)
  next
    case 2
    then obtain kept' f' where "retain_pools env sel ps H1 = (kept', f', H')"
      using Cons.prems c by (auto split: prod.splits)
    then show ?thesis using Cons.IH lim_cleanup [OF c] by metis
  next
    case 3
    then have "retain_pools env sel ps (pool_drop env p' H1) = (kept, f, H')" using Cons.prems c by simp
    then show ?thesis using Cons.IH lim_cleanup [OF c] lim_simps(5) by metis
  qed
qed simp

lemma lim_retry: "retry_quarantine env ps H = (kept, H') \<Longrightarrow> lim H' = lim H"
proof (induction ps arbitrary: H kept)
  case (Cons p ps)
  obtain r p' H1 where c: "pool_cleanup env p H = (r, p', H1)" by (metis prod_cases3)
  let ?H2 = "on_budget (\<lambda>B. lease_drop B (pm_charge p')) H1"
  show ?case
  proof (cases r)
    case (Inl e)
    then obtain kept' where "retry_quarantine env ps H1 = (kept', H')"
      using Cons.prems c by (auto split: prod.splits)
    then show ?thesis using Cons.IH lim_cleanup [OF c] by metis
  next
    case (Inr u)
    then have "retry_quarantine env ps (pool_drop env (p'\<lparr> pm_charge := 0 \<rparr>) ?H2) = (kept, H')"
      using Cons.prems c by simp
    then show ?thesis using Cons.IH lim_cleanup [OF c] lim_simps(1,5) by metis
  qed
qed simp

lemma lim_budget_retry: "lim (budget_retry_cleanup env H) = lim H"
proof -
  obtain kept H1 where r: "retry_quarantine env (pb_quarantine (ho_budget H)) H = (kept, H1)" by force
  then show ?thesis using lim_retry [OF r] by (simp add: budget_retry_cleanup_def on_budget_def)
qed

lemma lim_ps_arena: "ps_arena env runs tot H = (res, H') \<Longrightarrow> lim H' = lim H"
  using lim_budget_retry [of env H] pin_reserve_books [of "ho_budget (budget_retry_cleanup env H)"]
  by (auto simp: ps_arena_def Let_def same_books_def lease_drop_def split: sum.splits option.splits prod.splits)

lemma lim_drop_pools: "lim (drop_pools env ps H) = lim H"
proof (induction ps arbitrary: H)
  case (Cons p ps)
  obtain r p' H1 where c: "pool_cleanup env p H = (r, p', H1)" by (metis prod_cases3)
  show ?case
  proof (cases r)
    case (Inl e)
    then have "drop_pools env (p # ps) H = drop_pools env ps (on_budget (\<lambda>B. budget_quarantine B p') H1)"
      using c by simp
    then show ?thesis using Cons.IH lim_cleanup [OF c] lim_simps(2) by metis
  next
    case (Inr u)
    then have "drop_pools env (p # ps) H = drop_pools env ps (pool_drop env p' H1)" using c by simp
    then show ?thesis using Cons.IH lim_cleanup [OF c] lim_simps(5) by metis
  qed
qed simp

lemma lim_setup: "pool_setup env p H = (res, p', H') \<Longrightarrow> lim H' = lim H"
  by (auto simp: pool_setup_def host_step_eq Let_def split: sum.splits)

lemma lim_matching:
  "cleanup_matching env token addr ps H = (res, ps', H') \<Longrightarrow> lim H' = lim H \<and> ps_osdesc ps' = ps_osdesc ps"
  using lim_retain by (auto simp: cleanup_matching_def split: prod.splits)

lemma lim_ps_retry:
  "ps_retry_cleanup env ps H = (ps', H') \<Longrightarrow> lim H' = lim H \<and> ps_osdesc ps' = ps_osdesc ps"
  using lim_retain [of env "\<lambda>p. \<not> pm_active p" "ps_pools ps" "budget_retry_cleanup env H"] lim_budget_retry [of env H]
  by (auto simp: ps_retry_cleanup_def split: prod.splits)

lemma lim_driver: "get_driver env ps H = (res, ps', H') \<Longrightarrow> lim H' = lim H \<and> ps_osdesc ps' = ps_osdesc ps"
  using get_driver_facts [of env ps H res ps' H'] by (simp add: same_books_def)

lemma lim_back_tail:
  assumes "(case pool_setup env p H of
            (Inr _, p', H4) \<Rightarrow> (Inr (), ps\<lparr> ps_pools := ps_pools ps @ [p'] \<rparr>, H4)
          | (Inl e, p', H4) \<Rightarrow>
              (case pool_cleanup env p' H4 of
                 (Inl _, p'', H5) \<Rightarrow> (Inl (HostError e), ps\<lparr> ps_pools := ps_pools ps @ [p''] \<rparr>, H5)
               | (Inr _, p'', H5) \<Rightarrow> (Inl (HostError e), ps, pool_drop env p'' H5))) = (res, ps', H')"
  shows "lim H' = lim H \<and> ps_osdesc ps' = ps_osdesc ps"
proof -
  obtain rs p1 H4 where s: "pool_setup env p H = (rs, p1, H4)" by (metis prod_cases3)
  obtain rc p2 H5 where c: "pool_cleanup env p1 H4 = (rc, p2, H5)" by (metis prod_cases3)
  show ?thesis using assms s c lim_setup [OF s] lim_cleanup [OF c] lim_simps(5) [of env p2 H5]
    by (auto split: sum.splits)
qed

lemma lim_back_pool:
  assumes "back_pool_for env token uvm_fd addr len runs ps0 H0 = (res, ps', H')"
  shows "lim H' = lim H0 \<and> ps_osdesc ps' = ps_osdesc ps0"
  using assms
proof (cases rule: back_pool_cases)
  case (no_arena H e)
  then show ?thesis using lim_ps_retry [OF no_arena(1)] lim_ps_arena [OF no_arena(2)] by simp
next
  case (no_fd H a H1)
  then show ?thesis using lim_ps_retry [OF no_fd(1)] lim_ps_arena [OF no_fd(2)] lim_simps(4) [of env a]
    by (simp add: host_step_eq)
next
  case (no_driver ps H a H1 fd e H3)
  then show ?thesis using lim_ps_retry [OF no_driver(1)] lim_ps_arena [OF no_driver(2)]
      lim_driver [OF no_driver(3)] lim_simps(4) [of env a] by (simp add: host_step_eq)
next
  case (opened ps H a H1 fd root ps1 H3 new_end)
  then show ?thesis using lim_ps_retry [OF opened(1)] lim_ps_arena [OF opened(2)]
      lim_driver [OF opened(3)] lim_back_tail [OF opened(7)] by (simp add: host_step_eq)
qed (use lim_ps_retry in auto)

text \<open>The arenas that may still be referenced by the guest's own objects.\<close>

definition guest_arenas :: "pool_state \<Rightarrow> host \<Rightarrow> u64 multiset" where
  "guest_arenas ps H = image_mset ar_base (osdesc_m ps + mset (pb_retained (ho_budget H)))"

lemma retain_grows:
  "pb_limit (ho_budget (on_budget (\<lambda>B. budget_retain B a) H)) = pb_limit (ho_budget H)"
  "image_mset ar_base (mset (pb_retained (ho_budget (on_budget (\<lambda>B. budget_retain B a) H)))) =
    add_mset (ar_base a) (image_mset ar_base (mset (pb_retained (ho_budget H))))"
  by (simp_all add: on_budget_def budget_retain_def detach_charge_def)

definition guest_m :: "pworld \<Rightarrow> u64 multiset" where
  "guest_m w = image_mset ar_base (held_m (pw_sessions w) + mset (pb_retained (ho_budget (pw_host w))))"

lemma guest_m_focus:
  assumes "dkeys (pw_sessions w)" "map_of (pw_sessions w) k = Some ps"
  shows "guest_m w = guest_arenas ps (pw_host w) + image_mset ar_base (held_m (AList.delete k (pw_sessions w)))"
  using mset_delete_key [OF assms] by (simp add: guest_m_def guest_arenas_def held_m_def)

lemma guest_m_unfocus:
  assumes "dkeys (pw_sessions w)"
  shows "guest_m (w\<lparr> pw_host := H', pw_sessions := AList.update k ps' (pw_sessions w), pw_pending := pend \<rparr>) =
    guest_arenas ps' H' + image_mset ar_base (held_m (AList.delete k (pw_sessions w)))"
  using mset_update_key [OF assms, of k ps'] by (simp add: guest_m_def guest_arenas_def held_m_def)

lemma guest_m_step:
  assumes "dkeys (pw_sessions w)" "map_of (pw_sessions w) k = Some ps"
    "pb_limit (ho_budget H') = pb_limit (ho_budget (pw_host w))" "guest_arenas ps (pw_host w) \<subseteq># guest_arenas ps' H'"
  shows "pb_limit (ho_budget H') = pb_limit (ho_budget (pw_host w)) \<and>
    guest_m w \<subseteq># guest_m (w\<lparr> pw_host := H', pw_sessions := AList.update k ps' (pw_sessions w), pw_pending := pend \<rparr>)"
  using assms by (simp add: guest_m_focus guest_m_unfocus)

lemma guest_arenas_lim:
  "lim H' = lim H \<and> ps_osdesc ps' = ps_osdesc ps \<Longrightarrow>
    pb_limit (ho_budget H') = pb_limit (ho_budget H) \<and> guest_arenas ps H \<subseteq># guest_arenas ps' H'"
  by (simp add: guest_arenas_def osdesc_m_def)

lemma drop_osdesc_guest:
  assumes "dkeys (ps_osdesc ps)" "drop_osdesc_arena ps root h H = (ps', H')"
  shows "pb_limit (ho_budget H') = pb_limit (ho_budget H) \<and> guest_arenas ps' H' = guest_arenas ps H \<and>
    dkeys (ps_osdesc ps')"
proof (cases "map_of (ps_osdesc ps) (root, h)")
  case (Some a)
  then show ?thesis using assms mset_delete_key [OF assms(1) Some] retain_grows [of a H]
    by (auto simp: drop_osdesc_arena_def guest_arenas_def osdesc_m_def)
qed (use assms in \<open>simp add: drop_osdesc_arena_def\<close>)

lemma drop_client_guest:
  assumes "dkeys (ps_osdesc ps)" "drop_osdesc_client ps root H = (ps', H')"
  shows "pb_limit (ho_budget H') = pb_limit (ho_budget H) \<and> guest_arenas ps' H' = guest_arenas ps H"
proof -
  have "pb_limit (ho_budget K') = pb_limit (ho_budget K) \<and> guest_arenas q' K' = guest_arenas q K"
    if "dkeys (ps_osdesc q)" "fold (\<lambda>(_, h) (ps, H). drop_osdesc_arena ps root h H) ks (q, K) = (q', K')"
    for ks :: "(u32 \<times> u32) list" and q K q' K'
    using that
  proof (induction ks arbitrary: q K)
    case (Cons k ks)
    obtain q1 K1 where d: "drop_osdesc_arena q root (snd k) K = (q1, K1)" by force
    then show ?case using Cons.IH [of q1 K1] Cons.prems drop_osdesc_guest [OF Cons.prems(1) d]
      by (simp add: case_prod_beta)
  qed simp
  then show ?thesis using assms unfolding drop_osdesc_client_def by blast
qed

lemma keep_osdesc_guest:
  assumes "dkeys (ps_osdesc ps)" "keep_osdesc_arena ps root h a H = (ps', H')"
  shows "pb_limit (ho_budget H') = pb_limit (ho_budget H) \<and> guest_arenas ps H \<subseteq># guest_arenas ps' H'"
proof (cases "map_of (ps_osdesc ps) (root, h)")
  case None
  then have "AList.delete (root, h) (ps_osdesc ps) = ps_osdesc ps" by (intro delete_notin) (simp add: map_of_eq_None_iff)
  then show ?thesis using assms mset_update_key [OF assms(1), of "(root, h)" a] None
    by (auto simp: keep_osdesc_arena_def guest_arenas_def osdesc_m_def)
next
  case (Some b)
  then show ?thesis using assms mset_update_key [OF assms(1), of "(root, h)" a] mset_delete_key [OF assms(1) Some]
      retain_grows [of b H]
    by (auto simp: keep_osdesc_arena_def guest_arenas_def osdesc_m_def)
qed

lemma pool_state_drop_guest:
  "pb_limit (ho_budget (pool_state_drop env ps H)) = pb_limit (ho_budget H) \<and>
   image_mset ar_base (mset (pb_retained (ho_budget (pool_state_drop env ps H)))) = guest_arenas ps H"
proof -
  have r: "pb_limit (ho_budget (fold (\<lambda>(_, a) H. on_budget (\<lambda>B. budget_retain B a) H) as K)) = pb_limit (ho_budget K) \<and>
    image_mset ar_base (mset (pb_retained (ho_budget (fold (\<lambda>(_, a) H. on_budget (\<lambda>B. budget_retain B a) H) as K)))) =
      image_mset ar_base (image_mset snd (mset as) + mset (pb_retained (ho_budget K)))"
    for as :: "((u32 \<times> u32) \<times> arena) list" and K
    by (induction as arbitrary: K) (simp_all add: case_prod_beta retain_grows)
  show ?thesis using r [of "ps_osdesc ps" "drop_pools env (ps_pools ps) H"] lim_drop_pools [of env "ps_pools ps" H]
    by (simp add: pool_state_drop_def Let_def guest_arenas_def osdesc_m_def on_budget_def private_client_drop_def
        split: option.splits)
qed

lemma pool_step_guest:
  assumes "pool_step env w w'" "winv w"
  shows "pb_limit (ho_budget (pw_host w')) = pb_limit (ho_budget (pw_host w)) \<and> guest_m w \<subseteq># guest_m w'"
proof -
  have d: "dkeys (pw_sessions w)" using assms(2) by (simp add: winv_def)
  have o: "dkeys (ps_osdesc ps)" if "map_of (pw_sessions w) k = Some ps" for k ps
    using winv_focus [OF assms(2) that] by (simp add: sinv_def sess_ok_def)
  from assms(1) show ?thesis
  proof cases
    case (step_open k)
    then show ?thesis by (simp add: guest_m_def held_m_def ps_with_budget_def osdesc_m_def)
  next
    case (step_arena_ok runs tot a va H')
    then obtain "ps_arena env runs tot (pw_host w) = (Inr a, H')"
      by (auto simp: arena_for_osdesc_def split: prod.splits sum.splits)
    from lim_ps_arena [OF this] show ?thesis using step_arena_ok by (simp add: guest_m_def)
  next
    case (step_arena_err runs tot e H')
    then obtain "ps_arena env runs tot (pw_host w) = (Inl e, H')"
      by (auto simp: arena_for_osdesc_def split: prod.splits sum.splits)
    from lim_ps_arena [OF this] show ?thesis using step_arena_err by (simp add: guest_m_def)
  next
    case (step_plan_drop a)
    then show ?thesis using lim_simps(4) [of env a "pw_host w"] by (simp add: guest_m_def)
  next
    case (step_keep a k ps root h ps' H')
    then show ?thesis using guest_m_step [OF d step_keep(3)] keep_osdesc_guest [OF o step_keep(4)] by simp
  next
    case (step_drop_osdesc k ps root h ps' H')
    then show ?thesis using guest_m_step [OF d step_drop_osdesc(2), of H' ps' "pw_pending w"]
        drop_osdesc_guest [OF o step_drop_osdesc(3)] by simp
  next
    case (step_drop_client k ps root ps' H')
    then show ?thesis using guest_m_step [OF d step_drop_client(2), of H' ps' "pw_pending w"]
        drop_client_guest [OF o step_drop_client(3)] by simp
  next
    case (step_back_pool k ps token fd addr len runs res ps' H')
    then show ?thesis using guest_m_step [OF d step_back_pool(2), of H' ps' "pw_pending w"]
        guest_arenas_lim [OF lim_back_pool [OF step_back_pool(3)]] by simp
  next
    case (step_release k ps token addr res ps' H')
    have "lim H' = lim (pw_host w) \<and> ps_osdesc ps' = ps_osdesc ps"
      using lim_matching [OF step_release(3) [unfolded release_uvm_range_def]] by simp
    from guest_arenas_lim [OF this] show ?thesis
      using step_release guest_m_step [OF d step_release(2), of H' ps' "pw_pending w"] by simp
  next
    case (step_close k ps token res ps' H')
    then show ?thesis using guest_m_step [OF d step_close(2), of H' ps' "pw_pending w"]
        guest_arenas_lim [OF lim_matching [OF step_close(3) [unfolded close_uvm_def]]] by simp
  next
    case (step_session_drop k ps)
    then show ?thesis using pool_state_drop_guest [of env ps "pw_host w"] guest_m_focus [OF d step_session_drop(2)]
      by (simp add: guest_m_def)
  next
    case step_retry
    then show ?thesis using lim_budget_retry [of env "pw_host w"] by (simp add: guest_m_def)
  qed
qed

section \<open>Properties\<close>

lemma pool_reach_limit:
  assumes "pool_reach env B w" "budget_new limit = Inr B" "mmap_fresh env"
  shows "pb_limit (ho_budget (pw_host w)) = limit"
  using assms(1)
proof induction
  case reach_start
  then show ?case using assms(2) by (auto simp: pool_start_def budget_new_def split: if_splits)
next
  case (reach_step w w')
  then show ?case using pool_step_guest pool_reach_winv [OF _ assms(2,3)] by metis
qed

definition fresh_henv :: henv where
  "fresh_henv = sample_henv\<lparr> he_call := (\<lambda>tr c. case c of
      MmapReserve n \<Rightarrow> (let b = 0x7F0000000000 + 0x10000000 * of_nat (length tr) in
                        if b \<in> set (mapped tr) then Inl ''ENOMEM'' else Inr b)
    | _ \<Rightarrow> Inr (of_nat (length tr))) \<rparr>"

lemma fresh_henv_fresh: "mmap_fresh fresh_henv"
  by (auto simp: mmap_fresh_def fresh_henv_def Let_def split: if_splits)

definition sample_budget :: pin_budget where
  "sample_budget = \<lparr> pb_limit = 0x40000000, pb_used = 0, pb_retained_bytes = 0, pb_retained = [],
                pb_quarantine = [], pb_private = {} \<rparr>"

lemma sample_budget_new: "budget_new 0x40000000 = Inr sample_budget"
  by (simp add: budget_new_def sample_budget_def)

definition sample_pool :: pool_map where
  "sample_pool = \<lparr> pm_token = 7, pm_addr = GuestAddr 0x700000, pm_len = GuestLen 0x3000,
     pm_arena = \<lparr> ar_base = 0x7F0000000000, ar_len = 0x3000, ar_lease = Some 0x3000 \<rparr>,
     pm_uvm_fd = 3, pm_driver = 4, pm_osdesc = Some 5, pm_range_live = True, pm_active = True, pm_charge = 0 \<rparr>"

definition sample_hist :: history where
  "sample_hist =
    [(DMap 4 3 (GuestAddr 0x700000) (GuestLen 0x3000) 5, Inr 8), (DCreateRange 4 3 (GuestAddr 0x700000) (GuestLen 0x3000), Inr 7),
     (DGrant 4 5, Inr 6), (DAllocate 4 0x7F0000000000 (GuestLen 0x3000), Inr 5), (NewBacking, Inr 4), (DupFd 3, Inr 3),
     (MmapFixed 0x7F0000001000 0x2000 5 0x8000, Inr 2), (MmapFixed 0x7F0000000000 0x1000 5 0x3000, Inr 1),
     (MmapReserve 0x3000, Inr 0x7F0000000000)]"

definition sample_session :: pool_state where
  "sample_session = ps_with_budget\<lparr> ps_driver := Some 4, ps_pools := [sample_pool] \<rparr>"

definition sample_world :: pworld where
  "sample_world = \<lparr> pw_host = \<lparr> ho_budget = sample_budget\<lparr> pb_used := 0x3000, pb_private := {4} \<rparr>, ho_hist = sample_hist \<rparr>,
     pw_sessions = [(0, sample_session)], pw_pending = [] \<rparr>"

lemma sample_back_pool:
  "back_pool_for fresh_henv 7 3 (GuestAddr 0x700000) (GuestLen 0x3000) sample_runs ps_with_budget
      \<lparr> ho_budget = sample_budget, ho_hist = [] \<rparr> =
    (Inr (), sample_session, pw_host sample_world)"
  by (simp add: back_pool_for_def ga_end_def gl_is_zero_def checked_add_def ps_retry_cleanup_def
      budget_retry_cleanup_def on_budget_def sample_budget_def Let_def ps_with_budget_def ps_arena_def
      registration_bytes_def host_page_size_def fresh_henv_def sample_henv_def pin_reserve_def
      arena_build_def sample_runs_def gl_plus_def max_pin_bytes_def host_do_eq run_source_def
      ga_offset_from_def checked_sub_def host_step_eq get_driver_def private_client_def pool_setup_def
      sample_pool_def sample_hist_def sample_session_def sample_world_def)

lemma sample_reach: "pool_reach fresh_henv sample_budget sample_world"
proof -
  let ?w0 = "pool_start sample_budget"
  let ?w1 = "?w0\<lparr> pw_sessions := pw_sessions ?w0 @ [(0, ps_with_budget)] \<rparr>"
  have "pool_reach fresh_henv sample_budget ?w1"
    by (rule reach_step [OF reach_start step_open]) (simp add: pool_start_def)
  moreover have "pool_step fresh_henv ?w1
      (?w1\<lparr> pw_host := pw_host sample_world, pw_sessions := AList.update 0 sample_session (pw_sessions ?w1) \<rparr>)"
    using sample_back_pool
    by (intro step_back_pool [where ps = ps_with_budget]) (simp_all add: pool_start_def)
  ultimately show ?thesis using reach_step by (fastforce simp: sample_world_def pool_start_def)
qed

text \<open>C7: In every reachable state of a VM's pools the pin budget is exact: the bytes in use are
  the leases of the pending and kept arenas and of the session pools, the detached charges of
  quarantined pools and the retained bytes; and they never exceed the configured limit.\<close>

theorem pin_budget_exact:
  assumes "budget_new limit = Inr B" "mmap_fresh env" "pool_reach env B w"
  shows "unat (pb_used (ho_budget (pw_host w))) =
      (\<Sum>a\<in>#held_m (pw_sessions w) + mset (pw_pending w). lease_bytes a) +
      (\<Sum>p\<in>#pools_m (pw_sessions w) + mset (pb_quarantine (ho_budget (pw_host w))). pool_bytes p) +
      unat (pb_retained_bytes (ho_budget (pw_host w))) \<and>
    pb_used (ho_budget (pw_host w)) \<le> limit"
proof -
  have "budget_exact (ho_budget (pw_host w)) (held_m (pw_sessions w) + mset (pw_pending w))
      (pools_m (pw_sessions w) + mset (pb_quarantine (ho_budget (pw_host w))))"
    using pool_reach_winv [OF assms(3,1,2)] by (simp add: winv_def hinv_def pinv_def)
  then show ?thesis using pool_reach_limit [OF assms(3,1,2)] by (auto simp: budget_exact_def)
qed

theorem pin_budget_exact_witness:
  "unat (pb_used (ho_budget (pw_host sample_world))) = 0x3000 \<and>
   (\<Sum>p\<in>#pools_m (pw_sessions sample_world). pool_bytes p) = 0x3000 \<and>
   pb_used (ho_budget (pw_host sample_world)) \<le> 0x40000000"
  using pin_budget_exact [OF sample_budget_new fresh_henv_fresh sample_reach]
  by (simp add: sample_world_def sample_session_def sample_budget_def held_m_def pools_m_def osdesc_m_def ps_with_budget_def)

text \<open>C1: Guest pages are never unmapped from the backend while the driver may still reach them:
  at every munmap in the history of a reachable state, no registration of that range is live;
  and every registration still live belongs to a pool that is still held, by a session or by
  the quarantine.\<close>

theorem registered_pages_stay_mapped:
  assumes "budget_new limit = Inr B" "mmap_fresh env" "pool_reach env B w"
  shows "unmaps_safe (ho_hist (pw_host w)) \<and>
    (\<forall>(root, h, b) \<in> set (registered (ho_hist (pw_host w))).
       \<exists>p \<in># pools_m (pw_sessions w) + mset (pb_quarantine (ho_budget (pw_host w))).
         pm_driver p = root \<and> pm_osdesc p = Some h \<and> ar_base (pm_arena p) = b)"
  using pool_reach_winv [OF assms(3,1,2)]
  by (simp add: winv_def hinv_def pinv_def regs_owned_def pool_base_def)

theorem registered_pages_stay_mapped_witness:
  "unmaps_safe sample_hist \<and> registered sample_hist = [(4, 5, 0x7F0000000000)] \<and>
   (\<exists>p \<in># pools_m (pw_sessions sample_world) + mset (pb_quarantine (ho_budget (pw_host sample_world))).
      pm_driver p = 4 \<and> pm_osdesc p = Some 5 \<and> ar_base (pm_arena p) = 0x7F0000000000)"
proof -
  have r: "registered sample_hist = [(4, 5, 0x7F0000000000)]" by (simp add: sample_hist_def)
  moreover have "ho_hist (pw_host sample_world) = sample_hist" by (simp add: sample_world_def)
  ultimately show ?thesis
    using registered_pages_stay_mapped [OF sample_budget_new fresh_henv_fresh sample_reach] by auto
qed

text \<open>C13: No host range leaks and none is counted twice: the ranges reserved and not yet unmapped
  are exactly the arenas held by requests, sessions, the quarantine and the retained list, and
  their bases are distinct.\<close>

theorem host_ranges_exactly_owned:
  assumes "budget_new limit = Inr B" "mmap_fresh env" "pool_reach env B w"
  shows "mset (mapped (ho_hist (pw_host w))) =
      image_mset ar_base (held_m (pw_sessions w) + mset (pw_pending w) + mset (pb_retained (ho_budget (pw_host w)))) +
      image_mset (\<lambda>p. ar_base (pm_arena p)) (pools_m (pw_sessions w) + mset (pb_quarantine (ho_budget (pw_host w)))) \<and>
    distinct (mapped (ho_hist (pw_host w)))"
proof -
  have "pool_base = (\<lambda>p. ar_base (pm_arena p))" by (simp add: pool_base_def fun_eq_iff)
  then show ?thesis using pool_reach_winv [OF assms(3,1,2)]
    by (simp add: winv_def hinv_def pinv_def maps_exact_def owned_bases_def ac_simps)
qed

theorem host_ranges_exactly_owned_witness:
  "mset (mapped sample_hist) = {#0x7F0000000000#} \<and>
   image_mset (\<lambda>p. ar_base (pm_arena p)) (pools_m (pw_sessions sample_world)) = {#0x7F0000000000#}"
  using host_ranges_exactly_owned [OF sample_budget_new fresh_henv_fresh sample_reach]
  by (simp add: sample_world_def sample_session_def sample_budget_def held_m_def pools_m_def osdesc_m_def
      ps_with_budget_def sample_pool_def sample_hist_def)

text \<open>C14: The arena of an OS descriptor the guest registered itself stays mapped for good: once a
  session keeps it, it is mapped in every later state, through frees, session close and
  cleanup retries, because duplicates of the guest's object may outlive the source handle.\<close>

theorem guest_arena_never_unmapped:
  assumes "budget_new limit = Inr B" "mmap_fresh env" "pool_reach env B w" "(pool_step env)\<^sup>*\<^sup>* w w'"
    and "b \<in># guest_m w"
  shows "b \<in> set (mapped (ho_hist (pw_host w'))) \<and> b \<in># guest_m w'"
proof -
  have r: "pool_reach env B w' \<and> guest_m w \<subseteq># guest_m w'" using assms(4)
  proof induction
    case base
    then show ?case using assms(3) by simp
  next
    case (step y z)
    then show ?case using pool_step_guest [OF step(2)] pool_reach_winv [OF _ assms(1,2)]
      by (auto intro: reach_step subset_mset.order_trans)
  qed
  then have b: "b \<in># guest_m w'" using assms(5) by (auto dest: mset_subset_eqD)
  have "winv w'" using pool_reach_winv r assms(1,2) by blast
  then have "mset (mapped (ho_hist (pw_host w'))) = guest_m w' + (image_mset ar_base (mset (pw_pending w')) +
      image_mset pool_base (pools_m (pw_sessions w') + mset (pb_quarantine (ho_budget (pw_host w')))))"
    by (simp add: winv_def hinv_def pinv_def maps_exact_def owned_bases_def guest_m_def ac_simps)
  then have "b \<in># mset (mapped (ho_hist (pw_host w')))" using b by simp
  then show ?thesis using b by simp
qed

definition sample_kept :: pworld where
  "sample_kept =
    (let w = sample_world; (r, H) = ps_arena fresh_henv sample_runs (GuestLen 0x3000) (pw_host w) in
     w\<lparr> pw_host := H, pw_sessions := [(0, sample_session\<lparr> ps_osdesc := [((9, 11),
          \<lparr> ar_base = 0x7F0090000000, ar_len = 0x3000, ar_lease = Some 0x3000 \<rparr>)] \<rparr>)] \<rparr>)"

lemma sample_arena_call:
  "\<exists>H. ps_arena fresh_henv sample_runs (GuestLen 0x3000) (pw_host sample_world) =
    (Inr \<lparr> ar_base = 0x7F0090000000, ar_len = 0x3000, ar_lease = Some 0x3000 \<rparr>, H)"
  by (simp add: budget_retry_cleanup_def on_budget_def sample_budget_def Let_def ps_arena_def
      registration_bytes_def host_page_size_def fresh_henv_def sample_henv_def pin_reserve_def ga_end_def
      arena_build_def sample_runs_def gl_plus_def max_pin_bytes_def host_do_eq run_source_def gl_is_zero_def
      ga_offset_from_def checked_sub_def checked_add_def sample_hist_def sample_world_def)

lemma sample_kept_reach: "pool_reach fresh_henv sample_budget sample_kept"
proof -
  let ?a = "\<lparr> ar_base = 0x7F0090000000, ar_len = 0x3000, ar_lease = Some 0x3000 \<rparr> :: arena"
  obtain H where h: "ps_arena fresh_henv sample_runs (GuestLen 0x3000) (pw_host sample_world) = (Inr ?a, H)"
    using sample_arena_call by blast
  let ?w1 = "sample_world\<lparr> pw_host := H, pw_pending := ?a # pw_pending sample_world \<rparr>"
  let ?ps = "sample_session\<lparr> ps_osdesc := [((9, 11), ?a)] \<rparr>"
  let ?w2 = "?w1\<lparr> pw_host := H, pw_sessions := AList.update 0 ?ps (pw_sessions ?w1),
      pw_pending := remove1 ?a (pw_pending ?w1) \<rparr>"
  have r: "pool_reach fresh_henv sample_budget ?w1"
    by (rule reach_step [OF sample_reach step_arena_ok [of _ sample_runs "GuestLen 0x3000"]])
       (simp add: arena_for_osdesc_def h)
  have m: "map_of (pw_sessions ?w1) 0 = Some sample_session" by (simp add: sample_world_def)
  have k: "keep_osdesc_arena sample_session 9 11 ?a (pw_host ?w1) = (?ps, H)"
    by (simp add: sample_session_def ps_with_budget_def keep_osdesc_arena_def)
  have "?w2 = sample_kept" by (simp add: sample_kept_def h) (simp add: sample_world_def)
  moreover have "pool_reach fresh_henv sample_budget ?w2"
    by (rule reach_step [OF r step_keep [OF _ m k]]) simp
  ultimately show ?thesis by simp
qed

theorem guest_arena_never_unmapped_witness:
  "0x7F0090000000 \<in> set (mapped (ho_hist (pool_state_drop fresh_henv (snd (hd (pw_sessions sample_kept))) (pw_host sample_kept))))"
proof -
  let ?w = "sample_kept\<lparr> pw_host := pool_state_drop fresh_henv (snd (hd (pw_sessions sample_kept))) (pw_host sample_kept),
                        pw_sessions := AList.delete 0 (pw_sessions sample_kept) \<rparr>"
  have "pool_step fresh_henv sample_kept ?w"
    by (rule step_session_drop) (simp add: sample_kept_def sample_world_def Let_def case_prod_beta)
  moreover have "0x7F0090000000 \<in># guest_m sample_kept"
    by (simp add: guest_m_def held_m_def sample_kept_def sample_world_def Let_def case_prod_beta osdesc_m_def)
  ultimately show ?thesis
    using guest_arena_never_unmapped [OF sample_budget_new fresh_henv_fresh sample_kept_reach
      r_into_rtranclp, of ?w "0x7F0090000000"] by simp
qed

text \<open>C17: Within one session, two registered or cleanup-pending pools of the same UVM descriptor
  never overlap, and each describes whole 4 KiB pages whose end does not overflow.\<close>

theorem session_pools_disjoint:
  assumes "budget_new limit = Inr B" "mmap_fresh env" "pool_reach env B w" "(k, ps) \<in> set (pw_sessions w)"
    and "i < j" "j < length (ps_pools ps)" "pm_token (ps_pools ps ! i) = pm_token (ps_pools ps ! j)"
  shows "(let p = ps_pools ps ! i; q = ps_pools ps ! j in
      unat (ga_get (pm_addr p)) + unat (gl_get (pm_len p)) \<le> unat (ga_get (pm_addr q)) \<or>
      unat (ga_get (pm_addr q)) + unat (gl_get (pm_len q)) \<le> unat (ga_get (pm_addr p))) \<and>
    id_whole (pool_id (ps_pools ps ! i)) \<and> id_whole (pool_id (ps_pools ps ! j))"
proof -
  have ok: "sess_ok ps" using pool_reach_winv [OF assms(3,1,2)] assms(4) by (auto simp: winv_def)
  have "ids_apart (map pool_id (ps_pools ps) ! i) (map pool_id (ps_pools ps) ! j)"
    by (rule sorted_wrt_nth_less) (use ok assms in \<open>auto simp: sess_ok_def\<close>)
  moreover have "id_whole (pool_id (ps_pools ps ! n))" if "n < length (ps_pools ps)" for n
    using ok that by (simp add: sess_ok_def list_all_length)
  ultimately have "ids_apart (pool_id (ps_pools ps ! i)) (pool_id (ps_pools ps ! j))"
    "id_whole (pool_id (ps_pools ps ! i))" "id_whole (pool_id (ps_pools ps ! j))"
    using assms(5,6) by simp_all
  then show ?thesis using assms(7) unfolding ids_apart_def pool_id_def Let_def by simp
qed

definition sample_pool2 :: pool_map where
  "sample_pool2 = \<lparr> pm_token = 7, pm_addr = GuestAddr 0x703000, pm_len = GuestLen 0x3000,
     pm_arena = \<lparr> ar_base = 0x7F0090000000, ar_len = 0x3000, ar_lease = Some 0x3000 \<rparr>,
     pm_uvm_fd = 12, pm_driver = 4, pm_osdesc = Some 13, pm_range_live = True, pm_active = True, pm_charge = 0 \<rparr>"

lemma sample_back_pool2:
  "\<exists>H. back_pool_for fresh_henv 7 3 (GuestAddr 0x703000) (GuestLen 0x3000) sample_runs sample_session
      (pw_host sample_world) = (Inr (), sample_session\<lparr> ps_pools := [sample_pool, sample_pool2] \<rparr>, H)"
  by (simp add: back_pool_for_def ga_end_def gl_is_zero_def checked_add_def ps_retry_cleanup_def
      budget_retry_cleanup_def on_budget_def sample_budget_def Let_def ps_with_budget_def ps_arena_def
      registration_bytes_def host_page_size_def fresh_henv_def sample_henv_def pin_reserve_def
      arena_build_def sample_runs_def gl_plus_def max_pin_bytes_def host_do_eq run_source_def pool_overlaps_def
      ga_offset_from_def checked_sub_def host_step_eq get_driver_def private_client_def pool_setup_def
      sample_pool_def sample_pool2_def sample_hist_def sample_session_def sample_world_def)

theorem session_pools_disjoint_witness:
  "(let p = sample_pool; q = sample_pool2 in
      unat (ga_get (pm_addr p)) + unat (gl_get (pm_len p)) \<le> unat (ga_get (pm_addr q)) \<or>
      unat (ga_get (pm_addr q)) + unat (gl_get (pm_len q)) \<le> unat (ga_get (pm_addr p))) \<and>
    id_whole (pool_id sample_pool) \<and> id_whole (pool_id sample_pool2)"
proof -
  let ?ps = "sample_session\<lparr> ps_pools := [sample_pool, sample_pool2] \<rparr>"
  obtain H where h: "back_pool_for fresh_henv 7 3 (GuestAddr 0x703000) (GuestLen 0x3000) sample_runs sample_session
      (pw_host sample_world) = (Inr (), ?ps, H)" using sample_back_pool2 by blast
  let ?w = "sample_world\<lparr> pw_host := H, pw_sessions := AList.update 0 ?ps (pw_sessions sample_world) \<rparr>"
  have "pool_reach fresh_henv sample_budget ?w"
    by (rule reach_step [OF sample_reach step_back_pool [OF _ h]]) (simp add: sample_world_def)
  from session_pools_disjoint [OF sample_budget_new fresh_henv_fresh this, of 0 ?ps 0 1]
  show ?thesis by (simp add: sample_world_def sample_pool_def sample_pool2_def)
qed

lemma dvd4_mod: "4 dvd (x :: u64) \<Longrightarrow> x mod 4 = 0"
proof -
  assume "4 dvd x"
  then obtain k where x: "x = 4 * k" by (rule dvdE)
  have "unat (x mod 4) = 0" unfolding x unat_mod unat_word_ariths by (simp add: mod_mod_cancel)
  then show ?thesis by (simp add: unat_eq_zero)
qed

lemma find_guest_u32_inside:
  "find_guest_u32 token va e ps = Some a \<Longrightarrow> ga_end va (GuestLen 4) = Some e \<Longrightarrow>
    \<exists>p \<in> set ps. \<exists>off. pm_active p \<and> pm_token p = token \<and> a = ar_base (pm_arena p) + off \<and> off mod 4 = 0 \<and>
      unat off + 4 \<le> unat (gl_get (pm_len p)) \<and> unat (ga_get (pm_addr p)) + unat off = unat (ga_get va)"
  by (induction ps)
     (auto simp: checked_simps ga_offset_from_def word_le_nat_alt dvd4_mod split: if_splits option.splits)




end
