(* ===== verification/RequestShape.thy ===== *)
theory RequestShape
  imports Wire Xlate
begin

text \<open>
  \<^verbatim>\<open>crates/vhost-user-nvrm/src/request_shape.rs\<close>: the checks a forwarded request passes
  before any resource is acquired, against the tables of \<^verbatim>\<open>xlate.rs\<close>, and
  \<^verbatim>\<open>client_policy.rs\<close>, which recognises requests that name a client of the backend itself.

  A refusal is a constructor of \<^verbatim>\<open>shape_error\<close>, one per message of the source;
  \<^verbatim>\<open>shape_errno\<close> gives the errno the guest sees.
\<close>

unbundle bit_operations_syntax

section \<open>Errors\<close>

datatype shape_error =
    FieldOutside | UnexpectedFd | MisplacedFd | UnresolvedFd
  | LengthMismatch | ToolsForwarding | UnknownUvm | UvmSize | TooLarge | UnknownFrontend | FrontendSize
  | CapabilityFd | ControlBlocked | SerializedControl | SerializedAlloc | VidHeapCallback | RightsRequested
  | UnknownLayout | EmbeddedMissing | EmbeddedUnexpected
  | RunsNotOsDesc | RunBytes | OsDescNeedsRuns | AuxNoTarget
  | NestedCount | NestedLength | NestedMissing | NestedDiffers | NestedOverlap | NestedUnexpected

definition EPERM :: int where "EPERM = 1"
definition EINVAL :: int where "EINVAL = 22"
definition EMSGSIZE :: int where "EMSGSIZE = 90"
definition ENOTSUP :: int where "ENOTSUP = 95"

fun shape_errno :: "shape_error \<Rightarrow> int" where
  "shape_errno ToolsForwarding = ENOTSUP"
| "shape_errno UnknownUvm = ENOTSUP"
| "shape_errno TooLarge = EMSGSIZE"
| "shape_errno UnknownFrontend = ENOTSUP"
| "shape_errno CapabilityFd = ENOTSUP"
| "shape_errno ControlBlocked = EPERM"
| "shape_errno SerializedControl = ENOTSUP"
| "shape_errno SerializedAlloc = ENOTSUP"
| "shape_errno VidHeapCallback = ENOTSUP"
| "shape_errno RightsRequested = ENOTSUP"
| "shape_errno UnknownLayout = ENOTSUP"
| "shape_errno OsDescNeedsRuns = ENOTSUP"
| "shape_errno _ = EINVAL"

definition rbind :: "'e + 'a \<Rightarrow> ('a \<Rightarrow> 'e + 'b) \<Rightarrow> 'e + 'b" where
  "rbind m f = (case m of Inl e \<Rightarrow> Inl e | Inr a \<Rightarrow> f a)"

lemma rbind_simps [simp]: "rbind (Inl e) f = Inl e" "rbind (Inr a) f = f a"
  by (simp_all add: rbind_def)

lemma rbind_Inr: "rbind m f = Inr b \<longleftrightarrow> (\<exists>a. m = Inr a \<and> f a = Inr b)"
  by (cases m) auto

definition guard :: "bool \<Rightarrow> 'e \<Rightarrow> 'e + unit" where
  "guard ok e = (if ok then Inr () else Inl e)"

lemma guard_Inr [simp]: "guard ok e = Inr u \<longleftrightarrow> ok"
  by (simp add: guard_def)

section \<open>Fields\<close>

record shape =
  sh_zero_inline :: "nat option"
  sh_zero_aux :: "nat list"

definition clear_unused_pointers :: "shape \<Rightarrow> bytes \<Rightarrow> bytes \<Rightarrow> bytes \<times> bytes" where
  "clear_unused_pointers s inl aux =
    ((case sh_zero_inline s of None \<Rightarrow> inl | Some off \<Rightarrow> wr64 inl off 0),
     fold (\<lambda>off a. wr64 a off 0) (sh_zero_aux s) aux)"

definition u32_at :: "bytes \<Rightarrow> nat \<Rightarrow> shape_error + u32" where
  "u32_at b off = (if off + 4 \<le> length b then Inr (rd32 b off) else Inl FieldOutside)"

definition u64_at :: "bytes \<Rightarrow> nat \<Rightarrow> shape_error + u64" where
  "u64_at b off = (if off + 8 \<le> length b then Inr (rd64 b off) else Inl FieldOutside)"

text \<open>A descriptor field that carries no descriptor: negative as RM reads it, which for the
  eight-byte form means a sign-extended 32-bit value.\<close>

definition fd_negative :: "bytes \<Rightarrow> nat \<Rightarrow> nat \<Rightarrow> shape_error + bool" where
  "fd_negative b off width =
    (if width = 4 then rbind (u32_at b off) (\<lambda>v. Inr (sint v < 0))
     else rbind (u64_at b off) (\<lambda>v. Inr (sint v < 0 \<and> sint (ucast v :: u32) = sint v)))"

definition fd_field :: "bytes \<Rightarrow> (u32 \<times> nat) option \<Rightarrow> u32 \<Rightarrow> u64 \<Rightarrow> u32 \<Rightarrow> shape_error + unit" where
  "fd_field b expected off token owner =
    (case expected of
       None \<Rightarrow> guard (off = NONE_U32 \<and> token = NONE_U64 \<and> owner = NONE_U32) UnexpectedFd
     | Some (expected_off, width) \<Rightarrow>
         rbind (guard (off = expected_off) MisplacedFd) (\<lambda>_.
         rbind (fd_negative b (unat off) width) (\<lambda>negative.
         guard (\<not> (token = NONE_U64 \<and> (\<not> negative \<or> owner \<noteq> NONE_U32))) UnresolvedFd)))"

section \<open>Validation\<close>

abbreviation (input) NVOS54_FLAGS_FINN_SERIALIZED :: u32 where "NVOS54_FLAGS_FINN_SERIALIZED \<equiv> 4"
abbreviation (input) NVOS64_FLAGS_FINN_SERIALIZED :: u32 where "NVOS64_FLAGS_FINN_SERIALIZED \<equiv> 1"
abbreviation (input) NVOS32_FUNCTION_HW_ALLOC :: u32 where "NVOS32_FUNCTION_HW_ALLOC \<equiv> 19"
abbreviation (input) NVOS32_FUNCTION_ALLOC_OS_DESCRIPTOR :: u32 where "NVOS32_FUNCTION_ALLOC_OS_DESCRIPTOR \<equiv> 27"
abbreviation (input) NV01_MEMORY_SYSTEM_OS_DESCRIPTOR :: u32 where "NV01_MEMORY_SYSTEM_OS_DESCRIPTOR \<equiv> 0x71"
definition NVOS64_LEN :: nat where "NVOS64_LEN = 48"

definition validate_envelope :: "rm_abi \<Rightarrow> dev \<Rightarrow> req \<Rightarrow> bytes \<Rightarrow> bytes \<Rightarrow> shape_error + unit" where
  "validate_envelope A d rq inl aux =
    rbind (guard (length inl = unat (rq_inline_len rq) \<and> length aux = unat (rq_aux_len rq)) LengthMismatch) (\<lambda>_.
    rbind (guard (d \<noteq> UvmTools) ToolsForwarding) (\<lambda>_.
    if d = Uvm then
      (case uvm_param_size_for A (rq_ioctl_nr rq) of
         None \<Rightarrow> Inl UnknownUvm
       | Some sz \<Rightarrow> guard (rq_inline_len rq = sz) UvmSize)
    else
      rbind (guard (rq_inline_len rq < 0x4000) TooLarge) (\<lambda>_.
      case frontend_size (rq_ioctl_nr rq) of
        None \<Rightarrow> Inl UnknownFrontend
      | Some rule \<Rightarrow> guard (accepts rule (rq_inline_len rq)) FrontendSize)))"

definition is_alloc :: "dev \<Rightarrow> u32 \<Rightarrow> bool" where
  "is_alloc d nr \<longleftrightarrow> \<not> is_uvm d \<and> nr = NV_ESC_RM_ALLOC"

definition is_control :: "dev \<Rightarrow> u32 \<Rightarrow> bool" where
  "is_control d nr \<longleftrightarrow> \<not> is_uvm d \<and> nr = NV_ESC_RM_CONTROL"

text \<open>\<^verbatim>\<open>c && p(read)?\<close>: the field is only read when the first conjunct holds.\<close>

definition refuse_if :: "bool \<Rightarrow> 'e + 'a \<Rightarrow> ('a \<Rightarrow> bool) \<Rightarrow> 'e \<Rightarrow> 'e + unit" where
  "refuse_if c rd p e = (if c then rbind rd (\<lambda>v. guard (\<not> p v) e) else Inr ())"

definition validate_blocked :: "dev \<Rightarrow> u32 \<Rightarrow> bytes \<Rightarrow> shape_error + unit" where
  "validate_blocked d nr inl =
    rbind (refuse_if (\<not> is_uvm d \<and> nr \<in> set [NV_ESC_RM_ALLOC, NV_ESC_RM_ALLOC_OBJECT, NV_ESC_RM_ALLOC_MEMORY])
       (u32_at inl 12) alloc_class_blocked CapabilityFd) (\<lambda>_.
    rbind (refuse_if (is_control d nr) (u32_at inl 8) ctrl_blocked ControlBlocked) (\<lambda>_.
    rbind (refuse_if (is_control d nr) (u32_at inl 12)
       (\<lambda>v. v AND NVOS54_FLAGS_FINN_SERIALIZED \<noteq> 0) SerializedControl) (\<lambda>_.
    rbind (refuse_if (is_alloc d nr \<and> length inl = NVOS64_LEN) (u32_at inl 36)
       (\<lambda>v. v AND NVOS64_FLAGS_FINN_SERIALIZED \<noteq> 0) SerializedAlloc) (\<lambda>_.
    rbind (refuse_if (\<not> is_uvm d \<and> nr = NV_ESC_RM_VID_HEAP_CONTROL) (u32_at inl 8)
       (\<lambda>v. v \<in> set [NVOS32_FUNCTION_HW_ALLOC, NVOS32_FUNCTION_ALLOC_OS_DESCRIPTOR]) VidHeapCallback) (\<lambda>_.
    refuse_if (is_alloc d nr \<and> length inl = NVOS64_LEN) (u64_at inl 24) (\<lambda>v. v \<noteq> 0) RightsRequested)))))"

definition zero_inline :: "dev \<Rightarrow> u32 \<Rightarrow> bytes \<Rightarrow> shape_error + nat option" where
  "zero_inline d nr inl =
    (if is_control d nr then
       rbind (u64_at inl 16) (\<lambda>p.
       if p \<noteq> 0 then rbind (u32_at inl 24) (\<lambda>n. Inr (if n = 0 then Some 16 else None))
       else Inr None)
     else Inr None)"

definition validate_params :: "rm_abi \<Rightarrow> dev \<Rightarrow> req \<Rightarrow> bytes \<Rightarrow> bytes \<Rightarrow> shape_error + nat" where
  "validate_params A d rq inl aux =
    (case embedded_ptr A d (rq_ioctl_nr rq) inl (rq_inline_len rq) of
       Inl _ \<Rightarrow> Inl UnknownLayout
     | Inr (Some e) \<Rightarrow>
         if rq_embedded_ptr_off rq \<noteq> emb_ptr_off e \<or> length aux < unat (emb_len e)
         then Inl EmbeddedMissing else Inr (unat (emb_len e))
     | Inr None \<Rightarrow> if rq_embedded_ptr_off rq \<noteq> NONE_U32 then Inl EmbeddedUnexpected else Inr 0)"

definition is_osdesc :: "dev \<Rightarrow> u32 \<Rightarrow> bytes \<Rightarrow> shape_error + bool" where
  "is_osdesc d nr inl =
    (if \<not> is_uvm d \<and> (is_alloc d nr \<or> nr = NV_ESC_RM_ALLOC_MEMORY)
     then rbind (u32_at inl 12) (\<lambda>v. Inr (v = NV01_MEMORY_SYSTEM_OS_DESCRIPTOR)) else Inr False)"

definition validate_runs :: "dev \<Rightarrow> req \<Rightarrow> bytes \<Rightarrow> bytes \<Rightarrow> nat \<Rightarrow> shape_error + unit" where
  "validate_runs d rq inl aux params_len =
    rbind (is_osdesc d (rq_ioctl_nr rq) inl) (\<lambda>osdesc.
    if rq_gpa_run_count rq \<noteq> 0 then
      (if \<not> osdesc \<or> (is_alloc d (rq_ioctl_nr rq) \<and> length inl \<noteq> NVOS64_LEN) then Inl RunsNotOsDesc
       else guard (params_len + unat (rq_gpa_run_count rq) * 16 = length aux) RunBytes)
    else if osdesc then Inl OsDescNeedsRuns
    else guard (\<not> (params_len = 0 \<and> aux \<noteq> [])) AuxNoTarget)"

definition aux_fd :: "dev \<Rightarrow> u32 \<Rightarrow> bytes \<Rightarrow> bytes \<Rightarrow> shape_error + (u32 \<times> nat) option" where
  "aux_fd d nr inl params =
    (if is_alloc d nr \<and> params \<noteq> [] then
       rbind (u32_at inl 12) (\<lambda>cls.
       rbind (case alloc_fd_guard cls of
                Some (off, v) \<Rightarrow> rbind (u32_at params (unat off)) (\<lambda>x. Inr (x = v))
              | None \<Rightarrow> Inr True) (\<lambda>enabled.
       Inr (if enabled then map_option (\<lambda>off. (off, 8)) (alloc_fd_field cls) else None)))
     else if is_control d nr \<and> params \<noteq> [] then
       rbind (u32_at inl 8) (\<lambda>cmd. Inr (map_option (\<lambda>off. (off, 4)) (ctrl_fd_offset cmd)))
     else Inr None)"

text \<open>The loop over the pointers the host knows in a control's parameters.\<close>

fun nested_loop ::
  "req \<Rightarrow> bytes \<Rightarrow> nat \<Rightarrow> nested_ptr list \<Rightarrow> nat \<Rightarrow> (nat \<times> nat) list \<Rightarrow> nat list \<Rightarrow>
   shape_error + (nat \<times> nat list)"
where
  "nested_loop rq params aux_len [] used ranges zero = Inr (used, zero)"
| "nested_loop rq params aux_len (spec # specs) used ranges zero =
    rbind (u64_at params (unat (np_ptr_off spec))) (\<lambda>pointer.
    case len_resolve (np_len spec) params (word_of_nat (length params)) of
      None \<Rightarrow> Inl NestedLength
    | Some len \<Rightarrow>
        if pointer = 0 \<or> len = 0 then
          nested_loop rq params aux_len specs used ranges
            (if pointer \<noteq> 0 then zero @ [unat (np_ptr_off spec)] else zero)
        else if \<not> (used < length (rq_nested rq) \<and> used < unat (rq_nested_count rq)) then Inl NestedMissing
        else
          let d = rq_nested rq ! used; start = unat (nd_aux_off d); stop = start + unat (nd_len d) in
          if nd_ptr_off d \<noteq> np_ptr_off spec \<or> nd_len d < len then Inl NestedDiffers
          else if start < length params \<or> aux_len < stop \<or> list_ex (\<lambda>(a, b). start < b \<and> a < stop) ranges
          then Inl NestedOverlap
          else nested_loop rq params aux_len specs (Suc used) (ranges @ [(start, stop)]) zero)"

definition nested_specs :: "dev \<Rightarrow> u32 \<Rightarrow> bytes \<Rightarrow> bytes \<Rightarrow> shape_error + nested_ptr list" where
  "nested_specs d nr inl params =
    (if is_control d nr \<and> params \<noteq> [] then rbind (u32_at inl 8) (\<lambda>cmd. Inr (nested_ptrs cmd)) else Inr [])"

definition validate :: "rm_abi \<Rightarrow> dev \<Rightarrow> req \<Rightarrow> bytes \<Rightarrow> bytes \<Rightarrow> shape_error + shape" where
  "validate A d rq inl aux =
    rbind (validate_envelope A d rq inl aux) (\<lambda>_.
    rbind (fd_field inl (map_option (\<lambda>off. (off, 4)) (fd_field_offset d (rq_ioctl_nr rq) (rq_inline_len rq)))
       (rq_fd_field_off rq) (rq_fd_field_token rq) (rq_fd_field_proc rq)) (\<lambda>_.
    rbind (validate_blocked d (rq_ioctl_nr rq) inl) (\<lambda>_.
    rbind (zero_inline d (rq_ioctl_nr rq) inl) (\<lambda>zi.
    rbind (validate_params A d rq inl aux) (\<lambda>params_len.
    let params = take params_len aux in
    rbind (validate_runs d rq inl aux params_len) (\<lambda>_.
    rbind (aux_fd d (rq_ioctl_nr rq) inl params) (\<lambda>afd.
    rbind (fd_field params afd (rq_aux_fd_field_off rq) (rq_aux_fd_field_token rq) (rq_aux_fd_field_proc rq)) (\<lambda>_.
    rbind (guard (unat (rq_nested_count rq) \<le> length (rq_nested rq)) NestedCount) (\<lambda>_.
    rbind (nested_specs d (rq_ioctl_nr rq) inl params) (\<lambda>specs.
    rbind (nested_loop rq params (length aux) specs 0 [] []) (\<lambda>(used, zero).
    rbind (guard (used = unat (rq_nested_count rq)) NestedUnexpected) (\<lambda>_.
    Inr \<lparr> sh_zero_inline = zi, sh_zero_aux = zero \<rparr>))))))))))))"

section \<open>Clients of the backend\<close>

abbreviation (input) NV01_DEVICE_0 :: u32 where "NV01_DEVICE_0 \<equiv> 0x80"

definition client_offsets :: "rm_abi \<Rightarrow> dev \<Rightarrow> u32 \<Rightarrow> nat list option" where
  "client_offsets A d nr =
    (if is_uvm d then
       (if nr = UVM_REGISTER_GPU_VASPACE then Some [20]
        else if nr = UVM_REGISTER_CHANNEL then Some [20]
        else if nr = UVM_UNREGISTER_CHANNEL then Some [abi_uvm_unregister_channel_off_hClient A]
        else if nr = UVM_MAP_EXTERNAL_ALLOCATION then Some [9252]
        else if nr = UVM_REGISTER_GPU then Some [28]
        else None)
     else if nr = NV_ESC_RM_DUP_OBJECT then Some [0, 12]
     else if nr \<in> set [NV_ESC_RM_ALLOC, NV_ESC_RM_ALLOC_OBJECT, NV_ESC_RM_ALLOC_MEMORY, NV_ESC_RM_FREE,
         NV_ESC_RM_CONTROL, NV_ESC_RM_SHARE, NV_ESC_RM_MAP_MEMORY, NV_ESC_RM_UNMAP_MEMORY,
         NV_ESC_RM_VID_HEAP_CONTROL, NV_ESC_RM_BIND_CONTEXT_DMA, NV_ESC_RM_MAP_MEMORY_DMA,
         NV_ESC_RM_UNMAP_MEMORY_DMA, NV_ESC_ALLOC_OS_EVENT, NV_ESC_FREE_OS_EVENT] then Some [0]
     else None)"

definition class_client_offsets :: "u32 \<Rightarrow> nat list option" where
  "class_client_offsets cls =
    (if cls = NV01_DEVICE_0 then Some [4, 8]
     else if cls = 0xcb33 then Some [0]
     else if cls = 0x83de then Some [4]
     else if cls = 0xc574 \<or> cls = 0xb2cc then Some [0]
     else None)"

definition find_client :: "(u32 \<Rightarrow> bool) \<Rightarrow> bytes \<Rightarrow> nat list \<Rightarrow> u32 option" where
  "find_client is_private b offs =
    find is_private (map (rd32 b) (filter (\<lambda>off. off + 4 \<le> length b) offs))"

definition named_private_client ::
  "rm_abi \<Rightarrow> dev \<Rightarrow> u32 \<Rightarrow> bytes \<Rightarrow> bytes \<Rightarrow> (u32 \<Rightarrow> bool) \<Rightarrow> u32 option"
where
  "named_private_client A d nr inl aux is_private =
    (case client_offsets A d nr of
       None \<Rightarrow> None
     | Some offs \<Rightarrow>
    (case find_client is_private inl offs of
       Some c \<Rightarrow> Some c
     | None \<Rightarrow>
         if is_uvm d \<or> nr \<noteq> NV_ESC_RM_ALLOC then None
         else if length inl < 16 then None
         else (case class_client_offsets (rd32 inl 12) of
                 None \<Rightarrow> None
               | Some offs' \<Rightarrow> find_client is_private aux offs')))"

section \<open>What an accepted request satisfies\<close>

abbreviation nd_start :: "nested_desc \<Rightarrow> nat" where "nd_start d \<equiv> unat (nd_aux_off d)"
abbreviation nd_stop :: "nested_desc \<Rightarrow> nat" where "nd_stop d \<equiv> unat (nd_aux_off d) + unat (nd_len d)"

definition spec_done :: "req \<Rightarrow> bytes \<Rightarrow> nat \<Rightarrow> nat \<Rightarrow> nat list \<Rightarrow> nested_ptr \<Rightarrow> bool" where
  "spec_done rq params lo hi zero spec \<longleftrightarrow>
    unat (np_ptr_off spec) + 8 \<le> length params \<and>
    (rd64 params (unat (np_ptr_off spec)) = 0 \<or> unat (np_ptr_off spec) \<in> set zero \<or>
     (\<exists>i len. lo \<le> i \<and> i < hi \<and> nd_ptr_off (rq_nested rq ! i) = np_ptr_off spec \<and>
        len_resolve (np_len spec) params (word_of_nat (length params)) = Some len \<and> len \<le> nd_len (rq_nested rq ! i)))"

lemma spec_done_mono: "spec_done rq params lo hi zero s \<Longrightarrow> lo' \<le> lo \<Longrightarrow> spec_done rq params lo' hi zero s"
  unfolding spec_done_def by (meson le_trans)

definition nested_sound :: "req \<Rightarrow> bytes \<Rightarrow> nat \<Rightarrow> nat \<Rightarrow> nat \<Rightarrow> (nat \<times> nat) list \<Rightarrow> bool" where
  "nested_sound rq params aux_len lo hi ranges \<longleftrightarrow>
    lo \<le> hi \<and> (lo < hi \<longrightarrow> hi \<le> unat (rq_nested_count rq)) \<and>
    (\<forall>i. lo \<le> i \<and> i < hi \<longrightarrow> length params \<le> nd_start (rq_nested rq ! i) \<and> nd_stop (rq_nested rq ! i) \<le> aux_len \<and>
       (\<forall>(a, b) \<in> set ranges. nd_stop (rq_nested rq ! i) \<le> a \<or> b \<le> nd_start (rq_nested rq ! i))) \<and>
    (\<forall>i j. lo \<le> i \<and> i < j \<and> j < hi \<longrightarrow>
       nd_stop (rq_nested rq ! j) \<le> nd_start (rq_nested rq ! i) \<or> nd_stop (rq_nested rq ! i) \<le> nd_start (rq_nested rq ! j))"

lemma nested_sound_Cons:
  assumes s: "nested_sound rq params aux_len (Suc lo) hi (ranges @ [(nd_start d, nd_stop d)])"
    and d: "d = rq_nested rq ! lo" "lo < unat (rq_nested_count rq)" "length params \<le> nd_start d" "nd_stop d \<le> aux_len"
    and r: "\<not> list_ex (\<lambda>(a, b). nd_start d < b \<and> a < nd_stop d) ranges"
  shows "nested_sound rq params aux_len lo hi ranges"
proof -
  have old: "nd_stop d \<le> a \<or> b \<le> nd_start d" if "(a, b) \<in> set ranges" for a b
    using r that by (fastforce simp: list_ex_iff)
  have split: "i = lo \<or> Suc lo \<le> i" if "lo \<le> i" for i using that by auto
  have new: "length params \<le> nd_start (rq_nested rq ! i) \<and> nd_stop (rq_nested rq ! i) \<le> aux_len \<and>
      (\<forall>(a, b) \<in> set (ranges @ [(nd_start d, nd_stop d)]).
        nd_stop (rq_nested rq ! i) \<le> a \<or> b \<le> nd_start (rq_nested rq ! i))" if "Suc lo \<le> i" "i < hi" for i
    using s that unfolding nested_sound_def by blast
  show ?thesis unfolding nested_sound_def
  proof (intro conjI allI impI)
    show "lo \<le> hi" using s unfolding nested_sound_def by auto
  next
    assume "lo < hi"
    then show "hi \<le> unat (rq_nested_count rq)"
      using s d(2) unfolding nested_sound_def by (cases "Suc lo < hi") auto
  next
    fix i assume i: "lo \<le> i \<and> i < hi"
    show "length params \<le> nd_start (rq_nested rq ! i)" "nd_stop (rq_nested rq ! i) \<le> aux_len"
      using split [of i] i d new [of i] by auto
    show "\<forall>(a, b) \<in> set ranges. nd_stop (rq_nested rq ! i) \<le> a \<or> b \<le> nd_start (rq_nested rq ! i)"
      using split [of i] i d(1) new [of i] old by auto
  next
    fix i j assume ij: "lo \<le> i \<and> i < j \<and> j < hi"
    show "nd_stop (rq_nested rq ! j) \<le> nd_start (rq_nested rq ! i) \<or> nd_stop (rq_nested rq ! i) \<le> nd_start (rq_nested rq ! j)"
    proof (cases "i = lo")
      case True
      then show ?thesis using new [of j] ij d(1) by auto
    next
      case False
      then show ?thesis using s ij split [of i] unfolding nested_sound_def by blast
    qed
  qed
qed

lemma nested_loop_sound:
  "nested_loop rq params aux_len specs used ranges zero = Inr (used', zero') \<Longrightarrow>
    nested_sound rq params aux_len used used' ranges \<and> set zero \<subseteq> set zero' \<and>
    (\<forall>z \<in> set zero' - set zero. z + 8 \<le> length params) \<and>
    (\<forall>spec \<in> set specs. spec_done rq params used used' zero' spec)"
proof (induction specs arbitrary: used ranges zero)
  case Nil
  then show ?case by (auto simp: nested_sound_def)
next
  case (Cons spec specs)
  let ?off = "unat (np_ptr_off spec)"
  from Cons.prems obtain len where off: "?off + 8 \<le> length params"
    and len: "len_resolve (np_len spec) params (word_of_nat (length params)) = Some len"
    by (auto simp: rbind_Inr u64_at_def split: option.splits if_splits)
  show ?case
  proof (cases "rd64 params ?off = 0 \<or> len = 0")
    case True
    let ?zero = "if rd64 params ?off \<noteq> 0 then zero @ [?off] else zero"
    have "nested_loop rq params aux_len specs used ranges ?zero = Inr (used', zero')"
      using Cons.prems off len True by (simp add: u64_at_def)
    from Cons.IH [OF this] show ?thesis using off
      by (auto simp: spec_done_def split: if_splits)
  next
    case False
    let ?d = "rq_nested rq ! used"
    have u: "used < unat (rq_nested_count rq)" "nd_ptr_off ?d = np_ptr_off spec" "len \<le> nd_len ?d"
      "length params \<le> nd_start ?d" "nd_stop ?d \<le> aux_len"
      "\<not> list_ex (\<lambda>(a, b). nd_start ?d < b \<and> a < nd_stop ?d) ranges"
      and l: "nested_loop rq params aux_len specs (Suc used) (ranges @ [(nd_start ?d, nd_stop ?d)]) zero = Inr (used', zero')"
      using Cons.prems off len False by (auto simp: u64_at_def Let_def split: if_splits)
    note ih = Cons.IH [OF l]
    have "nested_sound rq params aux_len used used' ranges"
      by (rule nested_sound_Cons [OF _ refl u(1,4,5,6)]) (use ih in simp)
    moreover have "used < used'" using ih by (simp add: nested_sound_def)
    then have "spec_done rq params used used' zero' spec"
      using off len u by (auto simp: spec_done_def)
    ultimately show ?thesis using ih spec_done_mono by fastforce
  qed
qed

text \<open>An accepted request, taken apart.\<close>

lemma validate_cases:
  assumes "validate A d rq inl aux = Inr s"
  obtains n afd specs where
    "validate_envelope A d rq inl aux = Inr ()"
    "fd_field inl (map_option (\<lambda>off. (off, 4)) (fd_field_offset d (rq_ioctl_nr rq) (rq_inline_len rq)))
       (rq_fd_field_off rq) (rq_fd_field_token rq) (rq_fd_field_proc rq) = Inr ()"
    "validate_blocked d (rq_ioctl_nr rq) inl = Inr ()"
    "zero_inline d (rq_ioctl_nr rq) inl = Inr (sh_zero_inline s)"
    "validate_params A d rq inl aux = Inr n" "validate_runs d rq inl aux n = Inr ()"
    "aux_fd d (rq_ioctl_nr rq) inl (take n aux) = Inr afd"
    "fd_field (take n aux) afd (rq_aux_fd_field_off rq) (rq_aux_fd_field_token rq) (rq_aux_fd_field_proc rq) = Inr ()"
    "unat (rq_nested_count rq) \<le> length (rq_nested rq)"
    "nested_specs d (rq_ioctl_nr rq) inl (take n aux) = Inr specs"
    "nested_loop rq (take n aux) (length aux) specs 0 [] [] = Inr (unat (rq_nested_count rq), sh_zero_aux s)"
  using assms unfolding validate_def Let_def by (auto simp: rbind_Inr split: prod.splits)

lemma validate_params_le: "validate_params A d rq inl aux = Inr n \<Longrightarrow> n \<le> length aux"
  by (auto simp: validate_params_def split: sum.splits option.splits if_splits)

lemma rd64_zero_bytes:
  "off + 8 \<le> length b \<Longrightarrow> rd64 b off = 0 \<longleftrightarrow> (\<forall>k. off \<le> k \<and> k < off + 8 \<longrightarrow> b ! k = 0)"
proof -
  assume len: "off + 8 \<le> length b"
  have z: "u64_to_le 0 = replicate 8 0" by (simp add: u64_to_le_def numeral_eq_Suc)
  have "rd64 b off = 0 \<longleftrightarrow> subslice off 8 b = replicate 8 0"
  proof
    assume "rd64 b off = 0"
    then have "u64_to_le (u64_of_le (subslice off 8 b)) = replicate 8 0" by (simp add: rd64_def z)
    then show "subslice off 8 b = replicate 8 0" using len by (simp add: le_simps)
  next
    assume "subslice off 8 b = replicate 8 0"
    then have "rd64 b off = u64_of_le (u64_to_le 0)" by (simp add: rd64_def z)
    then show "rd64 b off = 0" by simp
  qed
  also have "\<dots> \<longleftrightarrow> (\<forall>i < 8. b ! (off + i) = 0)"
    using len by (auto simp: list_eq_iff_nth_eq nth_slice)
  also have "\<dots> \<longleftrightarrow> (\<forall>k. off \<le> k \<and> k < off + 8 \<longrightarrow> b ! k = 0)"
    by (metis add_less_cancel_left le_add1 le_add_diff_inverse)
  finally show ?thesis .
qed

lemma wr64_zero_keeps:
  assumes "off + 8 \<le> length b" "o' + 8 \<le> length b" "rd64 b off = 0"
  shows "rd64 (wr64 b o' 0) off = 0"
proof -
  have n: "wr64 b o' 0 ! k = (if o' \<le> k \<and> k < o' + 8 then 0 else b ! k)" if "k < length b" for k
  proof (cases "o' \<le> k \<and> k < o' + 8")
    case True
    have "rd64 (wr64 b o' 0) o' = 0" using assms(2) by (simp add: slice_simps)
    then show ?thesis using True assms(2) by (simp add: rd64_zero_bytes)
  next
    case False
    then show ?thesis using nth_wr64 [OF assms(2) that] by auto
  qed
  show ?thesis using assms by (auto simp: rd64_zero_bytes n)
qed

lemma fold_zero:
  assumes "\<forall>z \<in> set zs. z + 8 \<le> length b" "off + 8 \<le> length b" "off \<in> set zs \<or> rd64 b off = 0"
  shows "rd64 (fold (\<lambda>o' a. wr64 a o' 0) zs b) off = 0"
  using assms
proof (induction zs arbitrary: b)
  case (Cons z zs)
  have "off \<in> set zs \<or> rd64 (wr64 b z 0) off = 0"
    using Cons.prems wr64_zero_keeps [of off b z] by (auto simp: slice_simps)
  then show ?case using Cons by simp
qed simp

lemma rd64_take: "off + 8 \<le> n \<Longrightarrow> n \<le> length b \<Longrightarrow> rd64 (take n b) off = rd64 b off"
  by (simp add: rd64_def subslice_def drop_take min_def)

lemma envelope_control:
  assumes "validate_envelope A d rq inl aux = Inr ()" "is_control d (rq_ioctl_nr rq)"
  shows "length inl = 32 \<and> rq_inline_len rq = 32"
  using assms
  by (cases d) (auto simp: validate_envelope_def is_control_def rbind_Inr frontend_size_def NV_ESC_RM_CONTROL_def
      NV_ESC_RM_ALLOC_def NV_ESC_RM_ALLOC_OBJECT_def NV_ESC_RM_FREE_def split: option.splits)

lemma envelope_alloc:
  assumes "validate_envelope A d rq inl aux = Inr ()" "is_alloc d (rq_ioctl_nr rq)"
  shows "rq_inline_len rq \<in> {48, 32} \<and> length inl = unat (rq_inline_len rq)"
  using assms
  by (cases d) (auto simp: validate_envelope_def is_alloc_def rbind_Inr frontend_size_def split: option.splits)

definition sample_inline :: bytes where
  "sample_inline = u32_to_le 0xc1d00001 @ u32_to_le 0xcaf00080 @ u32_to_le 0x80170d @ u32_to_le 0 @
     u64_to_le 0x7ffc1000 @ u32_to_le 24 @ u32_to_le 0"

definition sample_aux :: bytes where
  "sample_aux = u32_to_le 1 @ u32_to_le 0 @ u64_to_le 0x7ffc2000 @ u64_to_le 0x7ffc3000 @
     u32_to_le 7 @ u32_to_le 0"

definition sample_req :: req where
  "sample_req = req_default\<lparr> rq_ioctl_nr := 42, rq_inline_len := 32, rq_aux_len := 32, rq_embedded_ptr_off := 16,
     rq_nested_count := 2,
     rq_nested := [\<lparr> nd_ptr_off = 8, nd_aux_off = 24, nd_len = 4, nd_pad = 0 \<rparr>,
                   \<lparr> nd_ptr_off = 16, nd_aux_off = 28, nd_len = 4, nd_pad = 0 \<rparr>,
                   nested_desc_default, nested_desc_default] \<rparr>"

lemma sample_valid: "validate abi_v615 Ctl sample_req sample_inline sample_aux = Inr \<lparr> sh_zero_inline = None, sh_zero_aux = [] \<rparr>"
  by code_simp

text \<open>C11: The second-level buffers of an accepted request are usable as they are: every nested
  descriptor lies inside the auxiliary buffer, behind the primary parameters, and no two of
  them overlap.\<close>

theorem nested_buffers_disjoint:
  assumes "validate A d rq inl aux = Inr s"
  shows "\<exists>n. validate_params A d rq inl aux = Inr n \<and> unat (rq_nested_count rq) \<le> length (rq_nested rq) \<and>
    (\<forall>i < unat (rq_nested_count rq). n \<le> nd_start (rq_nested rq ! i) \<and> nd_stop (rq_nested rq ! i) \<le> length aux) \<and>
    (\<forall>i j. i < j \<and> j < unat (rq_nested_count rq) \<longrightarrow>
       nd_stop (rq_nested rq ! i) \<le> nd_start (rq_nested rq ! j) \<or> nd_stop (rq_nested rq ! j) \<le> nd_start (rq_nested rq ! i))"
  using assms
proof (cases rule: validate_cases)
  case (1 n afd specs)
  have "nested_sound rq (take n aux) (length aux) 0 (unat (rq_nested_count rq)) []"
    using nested_loop_sound [OF 1(11)] by simp
  moreover have "length (take n aux) = n" using validate_params_le [OF 1(5)] by simp
  ultimately show ?thesis using 1(5,9) unfolding nested_sound_def by (intro exI [of _ n]) auto
qed

theorem nested_buffers_disjoint_witness:
  "unat (rq_nested_count sample_req) = 2 \<and>
   (nd_stop (rq_nested sample_req ! 0) \<le> nd_start (rq_nested sample_req ! 1) \<or>
    nd_stop (rq_nested sample_req ! 1) \<le> nd_start (rq_nested sample_req ! 0)) \<and>
   nd_stop (rq_nested sample_req ! 1) \<le> length sample_aux"
proof -
  have "unat (rq_nested_count sample_req) = 2" by (simp add: sample_req_def)
  moreover obtain n where
    "\<forall>i < unat (rq_nested_count sample_req). n \<le> nd_start (rq_nested sample_req ! i) \<and>
       nd_stop (rq_nested sample_req ! i) \<le> length sample_aux"
    and d: "\<forall>i j. i < j \<and> j < unat (rq_nested_count sample_req) \<longrightarrow>
       nd_stop (rq_nested sample_req ! i) \<le> nd_start (rq_nested sample_req ! j) \<or>
       nd_stop (rq_nested sample_req ! j) \<le> nd_start (rq_nested sample_req ! i)"
    using nested_buffers_disjoint [OF sample_valid] by blast
  ultimately show ?thesis using d [rule_format, of 0 1] by simp
qed

text \<open>C8: No raw guest pointer the host knows of reaches the driver through an accepted control
  or allocation: after clearing, the parameter pointer is null or marked for translation, and
  each pointer that the host tables name inside the parameters is null or described by a
  nested descriptor.\<close>

theorem no_raw_pointer_forwarded:
  assumes "validate A d rq inl aux = Inr s" "is_control d (rq_ioctl_nr rq) \<or> is_alloc d (rq_ioctl_nr rq)"
  shows "(let inl' = fst (clear_unused_pointers s inl aux); aux' = snd (clear_unused_pointers s inl aux) in
     (rd64 inl' 16 = 0 \<or> rq_embedded_ptr_off rq = 16) \<and>
     (is_control d (rq_ioctl_nr rq) \<and> aux \<noteq> [] \<longrightarrow>
       (\<forall>spec \<in> set (nested_ptrs (rd32 inl 8)).
          rd64 aux' (unat (np_ptr_off spec)) = 0 \<or>
          (\<exists>i < unat (rq_nested_count rq). nd_ptr_off (rq_nested rq ! i) = np_ptr_off spec))))"
  using assms(1)
proof (cases rule: validate_cases)
  case (1 n afd specs)
  have n: "n \<le> length aux" by (rule validate_params_le [OF 1(5)])
  note sound = nested_loop_sound [OF 1(11)]
  have z: "\<forall>z \<in> set (sh_zero_aux s). z + 8 \<le> length aux" using sound n by force
  have emb: "rd64 (fst (clear_unused_pointers s inl aux)) 16 = 0 \<or> rq_embedded_ptr_off rq = 16"
  proof (cases "is_control d (rq_ioctl_nr rq)")
    case True
    note len = envelope_control [OF 1(1) True]
    show ?thesis using 1(4,5) True len
      by (auto simp: zero_inline_def u64_at_def u32_at_def clear_unused_pointers_def slice_simps validate_params_def
          embedded_ptr_def is_control_def Let_def split: if_splits sum.splits option.splits)
  next
    case False
    then have al: "is_alloc d (rq_ioctl_nr rq)" using assms(2) by simp
    have ne: "NV_ESC_RM_ALLOC \<noteq> NV_ESC_RM_CONTROL" by (simp add: NV_ESC_RM_ALLOC_def NV_ESC_RM_CONTROL_def)
    show ?thesis using 1(4,5) al False ne envelope_alloc [OF 1(1) al]
      by (auto simp: zero_inline_def clear_unused_pointers_def validate_params_def embedded_ptr_def is_alloc_def
          split: if_splits sum.splits option.splits)
  qed
  have "rd64 (snd (clear_unused_pointers s inl aux)) (unat (np_ptr_off spec)) = 0 \<or>
      (\<exists>i < unat (rq_nested_count rq). nd_ptr_off (rq_nested rq ! i) = np_ptr_off spec)"
    if c: "is_control d (rq_ioctl_nr rq)" "aux \<noteq> []" and m: "spec \<in> set (nested_ptrs (rd32 inl 8))" for spec
  proof -
    have "rq_gpa_run_count rq = 0 \<and> n \<noteq> 0" using 1(6) c
      by (auto simp: validate_runs_def is_osdesc_def rbind_Inr is_control_def is_alloc_def NV_ESC_RM_CONTROL_def
          NV_ESC_RM_ALLOC_def NV_ESC_RM_ALLOC_MEMORY_def split: if_splits)
    then have "take n aux \<noteq> []" using c by simp
    then have "specs = nested_ptrs (rd32 inl 8)" using 1(10) c envelope_control [OF 1(1) c(1)]
      by (simp add: nested_specs_def u32_at_def)
    then have "spec_done rq (take n aux) 0 (unat (rq_nested_count rq)) (sh_zero_aux s) spec"
      using sound m by simp
    then show ?thesis using fold_zero [OF z, of "unat (np_ptr_off spec)"] n
      by (auto simp: spec_done_def clear_unused_pointers_def rd64_take)
  qed
  then show ?thesis using emb by (simp add: Let_def)
qed

theorem no_raw_pointer_forwarded_witness:
  "\<exists>i < unat (rq_nested_count sample_req). nd_ptr_off (rq_nested sample_req ! i) = 16"
proof -
  have c: "is_control Ctl (rq_ioctl_nr sample_req)" by (simp add: is_control_def sample_req_def NV_ESC_RM_CONTROL_def)
  have p: "\<lparr> np_ptr_off = 16, np_len = LenField 0 4 \<rparr> \<in> set (nested_ptrs (rd32 sample_inline 8))" by code_simp
  have "rd64 (snd (clear_unused_pointers \<lparr> sh_zero_inline = None, sh_zero_aux = [] \<rparr> sample_inline sample_aux)) 16 \<noteq> 0"
    "sample_aux \<noteq> []" by code_simp+
  moreover have all: "\<forall>spec \<in> set (nested_ptrs (rd32 sample_inline 8)).
      rd64 (snd (clear_unused_pointers \<lparr> sh_zero_inline = None, sh_zero_aux = [] \<rparr> sample_inline sample_aux))
        (unat (np_ptr_off spec)) = 0 \<or>
      (\<exists>i < unat (rq_nested_count sample_req). nd_ptr_off (rq_nested sample_req ! i) = np_ptr_off spec)"
    using no_raw_pointer_forwarded [OF sample_valid disjI1 [OF c]] c \<open>sample_aux \<noteq> []\<close> by (simp add: Let_def)
  ultimately show ?thesis using bspec [OF all p] by simp
qed


lemma sample_fd_valid:
  "validate abi_v615 Gpu (req_default\<lparr> rq_ioctl_nr := 201, rq_inline_len := 4, rq_fd_field_off := 0, rq_fd_field_token := 9 \<rparr>)
     (u32_to_le 5) [] = Inr \<lparr> sh_zero_inline = None, sh_zero_aux = [] \<rparr>"
  by code_simp


lemma find_client_None:
  "find_client is_private b offs = None \<Longrightarrow> off \<in> set offs \<Longrightarrow> off + 4 \<le> length b \<Longrightarrow> \<not> is_private (rd32 b off)"
  by (auto simp: find_client_def find_None_iff)

lemma client_offsets_inside_uvm:
  assumes "A \<in> set supported_abis" "client_offsets A Uvm nr = Some offs" "off \<in> set offs"
    "uvm_param_size_for A nr = Some sz"
  shows "off + 4 \<le> unat sz"
  using assms
  by (auto simp: client_offsets_def abi_defs uvm_param_size_for_def uvm_param_size_compiled_def esc_defs split: if_splits)

lemma client_offsets_inside_frontend:
  assumes "\<not> is_uvm d" "client_offsets A d nr = Some offs" "off \<in> set offs"
    "frontend_size nr = Some rule" "accepts rule sz"
  shows "off + 4 \<le> unat sz"
  using assms
  by (auto simp: client_offsets_def frontend_size_def esc_defs split: if_splits)

lemma class_sizes:
  "alloc_param_size A 0x80 = Some 56" "alloc_param_size A 0xcb33 = Some 4" "alloc_param_size A 0x83de = Some 12"
  "alloc_param_size A 0xc574 = Some 8" "alloc_param_size A 0xb2cc = Some 8"
  by (simp_all add: alloc_param_size_def alloc_param_size_rest_def)

lemma class_offsets_inside:
  assumes "class_client_offsets cls = Some offs" "off \<in> set offs" "alloc_param_size A cls = Some n"
  shows "off + 4 \<le> unat n"
  using assms
  by (auto simp: class_client_offsets_def class_sizes split: if_splits)


lemma client_offsets_inside:
  assumes "A \<in> set supported_abis" "validate_envelope A d rq inl aux = Inr ()"
    "client_offsets A d (rq_ioctl_nr rq) = Some offs" "off \<in> set offs"
  shows "off + 4 \<le> length inl"
proof (cases "d = Uvm")
  case True
  then obtain sz where "uvm_param_size_for A (rq_ioctl_nr rq) = Some sz" "length inl = unat sz"
    using assms(2) by (auto simp: validate_envelope_def rbind_Inr split: option.splits)
  then show ?thesis using client_offsets_inside_uvm [OF assms(1)] assms(3,4) True by simp
next
  case False
  then obtain rule where "\<not> is_uvm d" "frontend_size (rq_ioctl_nr rq) = Some rule"
    "accepts rule (rq_inline_len rq)" "length inl = unat (rq_inline_len rq)"
    using assms(2) by (cases d) (auto simp: validate_envelope_def rbind_Inr split: option.splits)
  then show ?thesis using client_offsets_inside_frontend assms(3,4) by metis
qed

text \<open>C12: An accepted request that the client check lets through names no client of the backend:
  every handle field the check knows lies inside the request, and none of them, nor any
  client handle in the parameters of an allocation, is one of the backend's own clients.\<close>

theorem private_client_never_forwarded:
  assumes "A \<in> set supported_abis" "validate A d rq inl aux = Inr s"
    and "named_private_client A d (rq_ioctl_nr rq) inl aux is_private = None"
    and "client_offsets A d (rq_ioctl_nr rq) = Some offs"
  shows "(\<forall>off \<in> set offs. off + 4 \<le> length inl \<and> \<not> is_private (rd32 inl off)) \<and>
    (is_alloc d (rq_ioctl_nr rq) \<and> rd64 inl 16 \<noteq> 0 \<longrightarrow>
      (\<forall>coffs. class_client_offsets (rd32 inl 12) = Some coffs \<longrightarrow>
        (\<forall>off \<in> set coffs. off + 4 \<le> length aux \<and> \<not> is_private (rd32 aux off))))"
  using assms(2)
proof (cases rule: validate_cases)
  case (1 n afd specs)
  have none: "find_client is_private inl offs = None"
    using assms(3,4) by (simp add: named_private_client_def split: option.splits)
  have first: "off + 4 \<le> length inl \<and> \<not> is_private (rd32 inl off)" if "off \<in> set offs" for off
    using client_offsets_inside [OF assms(1) 1(1) assms(4) that] find_client_None [OF none that] by simp
  have "off + 4 \<le> length aux \<and> \<not> is_private (rd32 aux off)"
    if al: "is_alloc d (rq_ioctl_nr rq)" "rd64 inl 16 \<noteq> 0"
      and c: "class_client_offsets (rd32 inl 12) = Some coffs" "off \<in> set coffs" for coffs off
  proof -
    have len: "rq_inline_len rq \<in> {48, 32}" "length inl = unat (rq_inline_len rq)"
      using envelope_alloc [OF 1(1) al(1)] by simp_all
    have ne: "NV_ESC_RM_ALLOC \<noteq> NV_ESC_RM_CONTROL" by (simp add: NV_ESC_RM_ALLOC_def NV_ESC_RM_CONTROL_def)
    obtain m where "alloc_param_size A (rd32 inl 12) = Some m" "unat m \<le> length aux"
      using 1(5) al len(1) ne
      by (auto simp: validate_params_def embedded_ptr_def is_alloc_def split: if_splits option.splits sum.splits)
    then have inside: "off + 4 \<le> length aux" using class_offsets_inside [OF c] by fastforce
    have "16 \<le> length inl" using len by auto
    then have "find_client is_private aux coffs = None"
      using assms(3,4) none al c by (simp add: named_private_client_def is_alloc_def)
    then show ?thesis using find_client_None inside c(2) by blast
  qed
  then show ?thesis using first by blast
qed

theorem private_client_never_forwarded_witness:
  "rd32 sample_inline 0 = 0xc1d00001 \<and> 0 + 4 \<le> length sample_inline \<and> \<not> rd32 sample_inline 0 = 0xc1d0beef"
proof -
  have "named_private_client abi_v615 Ctl (rq_ioctl_nr sample_req) sample_inline sample_aux (\<lambda>c. c = 0xc1d0beef) = None"
    "client_offsets abi_v615 Ctl (rq_ioctl_nr sample_req) = Some [0]" by code_simp+
  moreover have "abi_v615 \<in> set supported_abis" by (simp add: supported_abis_def)
  moreover have "rd32 sample_inline 0 = 0xc1d00001" by code_simp
  ultimately show ?thesis using private_client_never_forwarded [OF _ sample_valid] by fastforce
qed

end
