(* ===== verification/Waiters.thy ===== *)
theory Waiters
  imports Nvrm_Prelude "HOL-Library.Multiset"
begin

text \<open>
  \<^verbatim>\<open>crates/vhost-user-nvrm/src/waiters.rs\<close>: one-shot notifications for semaphore-surface
  waiters.  A thread owns the armed descriptors; commands run only between two polls.

  One iteration of the thread's loop is a sequence of commands followed by one poll.  The
  clock readings and the poll results are arguments; times are in microseconds.  The
  parsing of the pacing rate (a floating-point number) is not modelled: the period is an
  argument.
\<close>

unbundle bit_operations_syntax

section \<open>State\<close>

record registration_id =
  ri_event_id :: u32
  ri_generation :: u64

record fired =
  fi_guest_proc :: u32
  fi_registration :: registration_id

record watch =
  wa_fired :: fired
  wa_fd :: i32

datatype operation =
    OpWatch watch
  | OpCancelSlots u32 "u32 list"
  | OpCancelProcess u32
  | OpShutdown

record wstate =
  ws_watches :: "watch list"
  ws_next_at :: "(u32 \<times> nat) list"
  ws_fired :: "fired list"
  ws_failure :: bool
  ws_running :: bool

definition waiters_start :: wstate where
  "waiters_start = \<lparr> ws_watches = [], ws_next_at = [], ws_fired = [], ws_failure = False, ws_running = True \<rparr>"

abbreviation fi_event_id :: "fired \<Rightarrow> u32" where "fi_event_id f \<equiv> ri_event_id (fi_registration f)"
abbreviation slot_of :: "fired \<Rightarrow> u32 \<times> u32" where "slot_of f \<equiv> (fi_guest_proc f, fi_event_id f)"

section \<open>Commands\<close>

definition already_armed :: "watch list \<Rightarrow> watch \<Rightarrow> bool" where
  "already_armed ws w \<longleftrightarrow>
    list_ex (\<lambda>x. wa_fd x = wa_fd w \<or>
       (fi_guest_proc (wa_fired x) = fi_guest_proc (wa_fired w) \<and>
        fi_event_id (wa_fired x) = fi_event_id (wa_fired w))) ws"

definition keeps_slot :: "u32 \<Rightarrow> u32 list \<Rightarrow> fired \<Rightarrow> bool" where
  "keeps_slot guest_proc ids f \<longleftrightarrow> fi_guest_proc f \<noteq> guest_proc \<or> fi_event_id f \<notin> set ids"

text \<open>The acknowledgement: \<^verbatim>\<open>Inl\<close> is the error text's case, a slot that is already armed.\<close>

fun waiter_command :: "operation \<Rightarrow> wstate \<Rightarrow> (unit + unit) \<times> wstate" where
  "waiter_command OpShutdown s = (Inr (), s\<lparr> ws_running := False \<rparr>)"
| "waiter_command (OpWatch w) s =
    (if already_armed (ws_watches s) w then (Inl (), s)
     else (Inr (), s\<lparr> ws_watches := ws_watches s @ [w] \<rparr>))"
| "waiter_command (OpCancelSlots guest_proc ids) s =
    (Inr (), s\<lparr> ws_watches := filter (\<lambda>w. keeps_slot guest_proc ids (wa_fired w)) (ws_watches s),
                ws_fired := filter (keeps_slot guest_proc ids) (ws_fired s) \<rparr>)"
| "waiter_command (OpCancelProcess guest_proc) s =
    (Inr (), s\<lparr> ws_watches := filter (\<lambda>w. fi_guest_proc (wa_fired w) \<noteq> guest_proc) (ws_watches s),
                ws_fired := filter (\<lambda>f. fi_guest_proc f \<noteq> guest_proc) (ws_fired s),
                ws_next_at := AList.delete guest_proc (ws_next_at s) \<rparr>)"

text \<open>\<^verbatim>\<open>cancel_slots\<close> does not reach the thread for an empty list.\<close>

definition cancel_slots :: "u32 \<Rightarrow> u32 list \<Rightarrow> wstate \<Rightarrow> wstate" where
  "cancel_slots guest_proc ids s = (if ids = [] then s else snd (waiter_command (OpCancelSlots guest_proc ids) s))"

section \<open>One poll\<close>

definition POLLNVAL :: u16 where "POLLNVAL = 0x20"

definition expire :: "nat \<Rightarrow> (u32 \<times> nat) list \<Rightarrow> (u32 \<times> nat) list" where
  "expire now next_at = filter (\<lambda>(_, deadline). now < deadline) next_at"

definition snapshot :: "wstate \<Rightarrow> watch list" where
  "snapshot s = filter (\<lambda>w. map_of (ws_next_at s) (fi_guest_proc (wa_fired w)) = None) (ws_watches s)"

definition soonest :: "wstate \<Rightarrow> nat option" where
  "soonest s = fold (\<lambda>w acc. case map_of (ws_next_at s) (fi_guest_proc (wa_fired w)) of
      None \<Rightarrow> acc
    | Some deadline \<Rightarrow> Some (case acc of None \<Rightarrow> deadline | Some x \<Rightarrow> min x deadline)) (ws_watches s) None"

definition poll_timeout :: "nat option \<Rightarrow> nat \<Rightarrow> int" where
  "poll_timeout next_deadline now =
    (case next_deadline of
       None \<Rightarrow> -1
     | Some deadline \<Rightarrow> max 1 (min (2 ^ 31 - 1) (int (cdiv (deadline - now) 1000))))"

text \<open>The loop over the snapshot and its poll results.\<close>

fun collect_fired :: "(watch \<times> u16) list \<Rightarrow> fired list \<Rightarrow> watch list \<Rightarrow> (unit + (fired list \<times> watch list))" where
  "collect_fired [] acc ws = Inr (acc, ws)"
| "collect_fired ((w, revents) # rest) acc ws =
    (if revents AND POLLNVAL \<noteq> 0 then Inl ()
     else if revents \<noteq> 0 then collect_fired rest (acc @ [wa_fired w]) (filter (\<lambda>x. wa_fired x \<noteq> wa_fired w) ws)
     else collect_fired rest acc ws)"

definition waiter_poll :: "nat option \<Rightarrow> nat \<Rightarrow> u16 list \<Rightarrow> nat \<Rightarrow> wstate \<Rightarrow> wstate" where
  "waiter_poll pace now revents now' s0 =
    (let s = s0\<lparr> ws_next_at := expire now (ws_next_at s0) \<rparr> in
     case collect_fired (zip (snapshot s) revents) [] (ws_watches s) of
       Inl _ \<Rightarrow> s\<lparr> ws_failure := True, ws_running := False \<rparr>
     | Inr (fs, ws) \<Rightarrow>
         s\<lparr> ws_watches := ws,
            ws_next_at := (case pace of None \<Rightarrow> ws_next_at s
                           | Some p \<Rightarrow> fold (\<lambda>f m. AList.update (fi_guest_proc f) (now' + p) m) fs (ws_next_at s)),
            ws_fired := ws_fired s @ fs \<rparr>)"

text \<open>A failed poll ends the thread, an interrupted one repeats the iteration.\<close>

definition poll_failed :: "bool \<Rightarrow> wstate \<Rightarrow> wstate" where
  "poll_failed interrupted s = (if interrupted then s else s\<lparr> ws_failure := True, ws_running := False \<rparr>)"

definition take_fired :: "wstate \<Rightarrow> (unit + fired list) \<times> wstate" where
  "take_fired s = (if ws_failure s then (Inl (), s) else (Inr (ws_fired s), s\<lparr> ws_fired := [] \<rparr>))"

section \<open>Runs\<close>

datatype wevent = WCommand operation | WPoll nat "u16 list" nat | WPollErr bool | WTake

text \<open>One event, with the registrations it armed and the completions it handed out.\<close>

fun wstep :: "nat option \<Rightarrow> wevent \<Rightarrow> wstate \<Rightarrow> fired list \<times> fired list \<times> wstate" where
  "wstep pace (WCommand op) s =
    (if \<not> ws_running s then ([], [], s)
     else case waiter_command op s of
            (Inr _, s') \<Rightarrow> ((case op of OpWatch w \<Rightarrow> [wa_fired w] | _ \<Rightarrow> []), [], s')
          | (Inl _, s') \<Rightarrow> ([], [], s'))"
| "wstep pace (WPoll now revents now') s =
    ([], [], if ws_running s then waiter_poll pace now revents now' s else s)"
| "wstep pace (WPollErr interrupted) s = ([], [], if ws_running s then poll_failed interrupted s else s)"
| "wstep pace WTake s =
    (case take_fired s of (Inr fs, s') \<Rightarrow> ([], fs, s') | (Inl _, s') \<Rightarrow> ([], [], s'))"

fun wrun :: "nat option \<Rightarrow> wevent list \<Rightarrow> wstate \<Rightarrow> fired list \<times> fired list \<times> wstate" where
  "wrun pace [] s = ([], [], s)"
| "wrun pace (e # es) s =
    (case wstep pace e s of (a, d, s') \<Rightarrow>
       case wrun pace es s' of (a', d', s'') \<Rightarrow> (a @ a', d @ d', s''))"

definition slots_unique :: "watch list \<Rightarrow> bool" where
  "slots_unique ws \<longleftrightarrow> distinct (map (\<lambda>w. slot_of (wa_fired w)) ws) \<and> distinct (map wa_fd ws)"

lemma slots_unique_filter: "slots_unique ws \<Longrightarrow> slots_unique (filter P ws)"
  by (simp add: slots_unique_def distinct_map_filter)

lemma slots_unique_fired: "slots_unique ws \<Longrightarrow> distinct (map wa_fired ws)"
proof -
  assume "slots_unique ws"
  then have "distinct (map slot_of (map wa_fired ws))" by (simp add: slots_unique_def comp_def)
  then show ?thesis by (auto simp: distinct_map inj_on_def)
qed

lemma mset_filter_fired:
  assumes "distinct (map wa_fired ws)" "w \<in> set ws"
  shows "mset (map wa_fired ws) = add_mset (wa_fired w) (mset (map wa_fired (filter (\<lambda>x. wa_fired x \<noteq> wa_fired w) ws)))"
  using assms
proof (induction ws)
  case (Cons x ws)
  show ?case
  proof (cases "wa_fired x = wa_fired w")
    case True
    then have "filter (\<lambda>x. wa_fired x \<noteq> wa_fired w) ws = ws"
      using Cons.prems(1) by (intro filter_True) (auto simp: image_iff)
    then show ?thesis using True by simp
  next
    case False
    then show ?thesis using Cons by auto
  qed
qed simp

lemma collect_fired_conserves:
  assumes "collect_fired zs acc ws = Inr (acc', ws')" "distinct (map wa_fired ws)"
    "distinct (map (\<lambda>z. wa_fired (fst z)) zs)" "set (map fst zs) \<subseteq> set ws"
  shows "mset acc' + mset (map wa_fired ws') = mset acc + mset (map wa_fired ws) \<and>
    (\<exists>P. ws' = filter P ws) \<and> set acc' \<subseteq> set acc \<union> set (map wa_fired ws)"
  using assms
proof (induction zs acc ws rule: collect_fired.induct)
  case (1 acc ws)
  then show ?case by (auto intro: exI [of _ "\<lambda>_. True"])
next
  case (2 w revents rest acc ws)
  show ?case
  proof (cases "revents = 0")
    case True
    then show ?thesis using 2 by simp
  next
    case False
    let ?ws = "filter (\<lambda>x. wa_fired x \<noteq> wa_fired w) ws"
    have c: "revents AND POLLNVAL = 0" using "2.prems"(1) by (auto split: if_splits)
    have sub: "set (map fst rest) \<subseteq> set ?ws" using "2.prems"(3,4) by (auto simp: image_iff)
    have "mset acc' + mset (map wa_fired ws') = mset (acc @ [wa_fired w]) + mset (map wa_fired ?ws) \<and>
        (\<exists>P. ws' = filter P ?ws) \<and> set acc' \<subseteq> set (acc @ [wa_fired w]) \<union> set (map wa_fired ?ws)"
      using "2.IH"(1) "2.prems" False c sub by (simp add: distinct_map_filter)
    then show ?thesis using mset_filter_fired [OF "2.prems"(2), of w] "2.prems"(4)
      by (auto simp: filter_filter)
  qed
qed

definition outstanding :: "wstate \<Rightarrow> fired multiset" where
  "outstanding s = mset (ws_fired s) + mset (map wa_fired (ws_watches s))"

lemma filter_subset_mset: "mset (filter P xs) \<subseteq># mset xs"
  by (simp add: multiset_filter_subset)

lemma map_filter_subset_mset: "mset (map f (filter P xs)) \<subseteq># mset (map f xs)"
  by (simp add: image_mset_subseteq_mono multiset_filter_subset)

lemma waiter_poll_conserves:
  assumes "slots_unique (ws_watches s)"
  shows "outstanding (waiter_poll pace now revents now' s) = outstanding s \<and>
    slots_unique (ws_watches (waiter_poll pace now revents now' s)) \<and>
    set (ws_fired (waiter_poll pace now revents now' s)) \<subseteq> set (ws_fired s) \<union> set (map wa_fired (ws_watches s)) \<and>
    set (ws_watches (waiter_poll pace now revents now' s)) \<subseteq> set (ws_watches s)"
proof -
  let ?s = "s\<lparr> ws_next_at := expire now (ws_next_at s) \<rparr>"
  let ?zs = "zip (snapshot ?s) revents"
  show ?thesis
  proof (cases "collect_fired ?zs [] (ws_watches ?s)")
    case (Inl e)
    then show ?thesis using assms by (simp add: waiter_poll_def Let_def outstanding_def)
  next
    case (Inr r)
    obtain fs ws where r: "r = (fs, ws)" by force
    have d: "distinct (map wa_fired (ws_watches s))" by (rule slots_unique_fired [OF assms])
    have "map fst ?zs = take (length revents) (snapshot ?s)" by (simp add: map_fst_zip_take min_def)
    then have "map wa_fired (map fst ?zs) = take (length revents) (map wa_fired (snapshot ?s))"
      "set (map fst ?zs) \<subseteq> set (snapshot ?s)"
      by (simp_all only: take_map set_take_subset)
    then have m: "map (\<lambda>z. wa_fired (fst z)) ?zs = take (length revents) (map wa_fired (snapshot ?s))"
      "set (map fst ?zs) \<subseteq> set (ws_watches s)"
      by (auto simp: comp_def snapshot_def)
    have "distinct (map (\<lambda>z. wa_fired (fst z)) ?zs)"
      unfolding m(1) using d by (simp add: snapshot_def distinct_map_filter)
    from collect_fired_conserves [OF Inr [unfolded r] _ this] d m(2)
    have c: "mset fs + mset (map wa_fired ws) = mset (map wa_fired (ws_watches s))" "\<exists>P. ws = filter P (ws_watches s)"
      "set fs \<subseteq> set (map wa_fired (ws_watches s))" by simp_all
    then show ?thesis using Inr r assms slots_unique_filter
      by (auto simp: waiter_poll_def Let_def outstanding_def)
  qed
qed

lemma slots_unique_snoc:
  "slots_unique ws \<Longrightarrow> \<not> already_armed ws w \<Longrightarrow> slots_unique (ws @ [w])"
  by (auto simp: slots_unique_def already_armed_def list_ex_iff)

lemma waiter_command_conserves:
  assumes "slots_unique (ws_watches s)" "waiter_command op s = (r, s')"
  shows "slots_unique (ws_watches s') \<and>
    outstanding s' \<subseteq># outstanding s + (case (op, r) of (OpWatch w, Inr _) \<Rightarrow> {# wa_fired w #} | _ \<Rightarrow> {#})"
proof (cases op)
  case (OpWatch w)
  then show ?thesis using assms slots_unique_snoc by (auto simp: outstanding_def split: if_splits)
next
  case (OpCancelSlots p ids)
  then show ?thesis using assms slots_unique_filter
    by (auto simp: outstanding_def intro!: subset_mset.add_mono filter_subset_mset map_filter_subset_mset
        simp del: mset_map mset_filter)
next
  case (OpCancelProcess p)
  then show ?thesis using assms slots_unique_filter
    by (auto simp: outstanding_def intro!: subset_mset.add_mono filter_subset_mset map_filter_subset_mset
        simp del: mset_map mset_filter)
next
  case OpShutdown
  then show ?thesis using assms by (auto simp: outstanding_def)
qed

lemma wstep_conserves:
  assumes "slots_unique (ws_watches s)" "wstep pace e s = (a, d, s')"
  shows "slots_unique (ws_watches s') \<and> mset d + outstanding s' \<subseteq># mset a + outstanding s"
proof (cases e)
  case (WCommand op)
  obtain r s1 where c: "waiter_command op s = (r, s1)" by force
  show ?thesis using assms WCommand c waiter_command_conserves [OF assms(1) c]
    by (cases op; cases r) (auto split: if_splits)
next
  case (WPoll now revents now')
  then show ?thesis using assms waiter_poll_conserves [OF assms(1)] by auto
next
  case (WPollErr i)
  then show ?thesis using assms by (auto simp: poll_failed_def outstanding_def)
next
  case WTake
  then show ?thesis using assms by (auto simp: take_fired_def outstanding_def split: if_splits)
qed

lemma wrun_conserves:
  "slots_unique (ws_watches s) \<Longrightarrow> wrun pace es s = (a, d, s') \<Longrightarrow>
    slots_unique (ws_watches s') \<and> mset d + outstanding s' \<subseteq># mset a + outstanding s"
proof (induction es arbitrary: s a d)
  case (Cons e es)
  obtain a1 d1 s1 where st: "wstep pace e s = (a1, d1, s1)" by (metis prod_cases3)
  obtain a2 d2 where r: "wrun pace es s1 = (a2, d2, s')" "a = a1 @ a2" "d = d1 @ d2"
    using Cons.prems(2) st by (auto split: prod.splits)
  note s1 = wstep_conserves [OF Cons.prems(1) st]
  have "mset d2 + outstanding s' \<subseteq># mset a2 + outstanding s1" using Cons.IH s1 r by blast
  then have "mset d1 + (mset d2 + outstanding s') \<subseteq># mset d1 + (mset a2 + outstanding s1)"
    by (rule subset_mset.add_left_mono)
  also have "mset d1 + (mset a2 + outstanding s1) = mset a2 + (mset d1 + outstanding s1)" by (rule add.left_commute)
  also have "\<dots> \<subseteq># mset a2 + (mset a1 + outstanding s)" by (rule subset_mset.add_left_mono) (use s1 in simp)
  finally have "mset d1 + (mset d2 + outstanding s') \<subseteq># mset a2 + (mset a1 + outstanding s)" .
  then have "mset d + outstanding s' \<subseteq># mset a + outstanding s"
    unfolding r(2,3) mset_append by (simp only: ac_simps)
  then show ?case using Cons.IH [OF _ r(1)] s1 by simp
qed simp

section \<open>Properties\<close>

text \<open>C19: A waiter notification is one-shot: whatever the order of commands, polls and pick-ups,
  a registration is handed out at most as often as it was successfully armed, counting those
  still armed or queued; and at any time no slot and no descriptor is armed twice.\<close>

theorem waiter_one_shot:
  "case wrun pace es waiters_start of (armed, delivered, s) \<Rightarrow>
    mset delivered + (mset (ws_fired s) + mset (map wa_fired (ws_watches s))) \<subseteq># mset armed \<and>
    distinct (map (\<lambda>w. slot_of (wa_fired w)) (ws_watches s)) \<and> distinct (map wa_fd (ws_watches s))"
proof -
  obtain a d s where r: "wrun pace es waiters_start = (a, d, s)" by (metis prod_cases3)
  have "slots_unique (ws_watches waiters_start)" by (simp add: waiters_start_def slots_unique_def)
  from wrun_conserves [OF this r] show ?thesis
    using r by (simp add: outstanding_def waiters_start_def slots_unique_def)
qed

definition live :: "wstate \<Rightarrow> fired set" where
  "live s = set (ws_fired s) \<union> wa_fired ` set (ws_watches s)"

lemma collect_fired_from:
  "collect_fired zs acc ws = Inr (acc', ws') \<Longrightarrow>
    set acc' \<subseteq> set acc \<union> (\<lambda>z. wa_fired (fst z)) ` set zs \<and> set ws' \<subseteq> set ws"
proof (induction zs acc ws rule: collect_fired.induct)
  case (2 w revents rest acc ws)
  consider "revents = 0" | "revents AND POLLNVAL = 0" "revents \<noteq> 0" using "2.prems" by (auto split: if_splits)
  then show ?case
  proof cases
    case 1
    then show ?thesis using 2 by auto
  next
    case 2
    then show ?thesis using "2.IH"(1) "2.prems" by auto
  qed
qed simp

lemma waiter_poll_live: "live (waiter_poll pace now revents now' s) \<subseteq> live s"
proof -
  let ?s = "s\<lparr> ws_next_at := expire now (ws_next_at s) \<rparr>"
  have z: "wa_fired (fst z) \<in> wa_fired ` set (ws_watches s)" if "z \<in> set (zip (snapshot ?s) revents)" for z
  proof -
    obtain w v where z: "z = (w, v)" by force
    then have "w \<in> set (snapshot ?s)" using that by (blast dest: set_zip_leftD)
    then show ?thesis using z by (simp add: snapshot_def)
  qed
  show ?thesis
  proof (cases "collect_fired (zip (snapshot ?s) revents) [] (ws_watches ?s)")
    case (Inl e)
    then show ?thesis by (simp add: waiter_poll_def Let_def live_def)
  next
    case (Inr r)
    obtain fs ws where r: "r = (fs, ws)" by force
    have c: "set fs \<subseteq> wa_fired ` set (ws_watches s)" "set ws \<subseteq> set (ws_watches s)"
      using collect_fired_from [OF Inr [unfolded r]] z by auto
    have "ws_fired (waiter_poll pace now revents now' s) = ws_fired s @ fs"
      "ws_watches (waiter_poll pace now revents now' s) = ws"
      using Inr r by (simp_all add: waiter_poll_def Let_def)
    then show ?thesis using c by (auto simp: live_def)
  qed
qed

lemma wstep_live:
  assumes "wstep pace e s = (a, d, s')"
  shows "live s' \<union> set d \<subseteq> live s \<union> set a"
proof (cases e)
  case (WCommand op)
  then show ?thesis using assms by (cases op) (auto simp: live_def split: if_splits)
next
  case (WPoll now revents now')
  then show ?thesis using assms waiter_poll_live [of pace now revents now' s] by (auto split: if_splits)
next
  case (WPollErr i)
  then show ?thesis using assms by (auto simp: poll_failed_def live_def split: if_splits)
next
  case WTake
  then show ?thesis using assms by (auto simp: take_fired_def live_def split: if_splits)
qed

lemma wrun_live: "wrun pace es s = (a, d, s') \<Longrightarrow> set d \<subseteq> live s \<union> set a"
proof (induction es arbitrary: s a d)
  case (Cons e es)
  obtain a1 d1 s1 where st: "wstep pace e s = (a1, d1, s1)" by (metis prod_cases3)
  obtain a2 d2 where r: "wrun pace es s1 = (a2, d2, s')" "a = a1 @ a2" "d = d1 @ d2"
    using Cons.prems st by (auto split: prod.splits)
  show ?case using wstep_live [OF st] Cons.IH [OF r(1)] r(2,3) by auto
qed simp

text \<open>C20: Once a cancellation is acknowledged, no old poll and no queued completion can use the
  cancelled slots: a later run hands out a completion for such a slot only if it armed the
  slot again.\<close>

theorem cancelled_slot_stays_quiet:
  assumes "waiter_command (OpCancelSlots p ids) s = (r, s1)" "wrun pace es s1 = (armed, delivered, s2)"
    and "eid \<in> set ids" "\<forall>f \<in> set armed. slot_of f \<noteq> (p, eid)"
  shows "\<forall>f \<in> set delivered. slot_of f \<noteq> (p, eid)"
proof -
  have "\<forall>f \<in> live s1. slot_of f \<noteq> (p, eid)"
    using assms(1,3) by (auto simp: live_def keeps_slot_def)
  then show ?thesis using wrun_live [OF assms(2)] assms(4) by blast
qed

definition sample_watch :: watch where
  "sample_watch = \<lparr> wa_fired = \<lparr> fi_guest_proc = 7, fi_registration = \<lparr> ri_event_id = 3, ri_generation = 1 \<rparr> \<rparr>, wa_fd = 40 \<rparr>"

definition sample_armed :: wstate where
  "sample_armed = snd (waiter_command (OpWatch sample_watch) waiters_start)"

lemma sample_cancel: "waiter_command (OpCancelSlots 7 [3]) sample_armed = (Inr (), waiters_start)"
  by (simp add: sample_armed_def waiters_start_def already_armed_def keeps_slot_def sample_watch_def)

definition sample_other :: watch where
  "sample_other = \<lparr> wa_fired = \<lparr> fi_guest_proc = 7, fi_registration = \<lparr> ri_event_id = 4, ri_generation = 2 \<rparr> \<rparr>, wa_fd = 41 \<rparr>"

lemma sample_run:
  "wrun None [WCommand (OpWatch sample_other), WPoll 0 [1] 0, WTake] waiters_start =
   ([wa_fired sample_other], [wa_fired sample_other], waiters_start)"
  by (simp add: waiters_start_def already_armed_def sample_other_def waiter_poll_def expire_def
      snapshot_def take_fired_def POLLNVAL_def)

theorem cancelled_slot_stays_quiet_witness:
  "ws_watches sample_armed = [sample_watch] \<and> slot_of (wa_fired sample_watch) = (7, 3) \<and>
   (7, 3) \<notin> slot_of ` set (fst (snd (wrun None [WCommand (OpWatch sample_other), WPoll 0 [1] 0, WTake] waiters_start)))"
proof -
  have "\<forall>f \<in> set [wa_fired sample_other]. slot_of f \<noteq> (7, 3)"
    by (rule cancelled_slot_stays_quiet [OF sample_cancel sample_run]) (simp_all add: sample_other_def)
  then show ?thesis unfolding sample_run
    by (auto simp: sample_armed_def waiters_start_def already_armed_def sample_watch_def)
qed

text \<open>The poll timeout rounds the remaining time up: it is between one millisecond and the
  largest int, the deadline has passed when the poll returns on time, and it overshoots by
  less than a millisecond once more than none remains.\<close>

theorem poll_timeout_rounds_up:
  assumes "deadline - now \<le> 2147483647 * 1000"
  shows "1 \<le> poll_timeout (Some deadline) now \<and> poll_timeout (Some deadline) now \<le> 2147483647 \<and>
    deadline \<le> now + nat (poll_timeout (Some deadline) now) * 1000 \<and>
    (now < deadline \<longrightarrow> nat (poll_timeout (Some deadline) now) * 1000 < deadline - now + 1000)"
proof -
  define c where "c = cdiv (deadline - now) 1000"
  have u: "deadline - now \<le> c * 1000" unfolding c_def by (rule cdiv_upper) simp
  have l: "c * 1000 < deadline - now + 1000" unfolding c_def by (rule cdiv_lower) simp
  have b: "c \<le> 2147483647" using assms unfolding c_def by (subst cdiv_le_iff) simp_all
  then have t: "poll_timeout (Some deadline) now = int (max 1 c)" by (simp add: poll_timeout_def c_def)
  show ?thesis unfolding t nat_int using u l b by (cases "c = 0") auto
qed

theorem poll_timeout_rounds_up_witness:
  "poll_timeout (Some 16667) 10000 = 7 \<and> 16667 \<le> 10000 + nat (poll_timeout (Some 16667) 10000) * 1000"
  using poll_timeout_rounds_up [of 16667 10000] by (simp add: poll_timeout_def cdiv_def)

end
