(* ===== verification/Naming.thy ===== *)
theory Naming
  imports Vgpu
begin

text \<open>
  \<^verbatim>\<open>crates/nvrm-abi/src/naming.rs\<close>: the guest-visible name of a virtual GPU, generated from
  its specification and read back.  Names are byte strings in UTF-8, as \<^verbatim>\<open>str\<close> holds them;
  \<^verbatim>\<open>str::trim\<close> strips the Unicode white space in its encoded form.
\<close>

section \<open>Strings\<close>

definition ascii :: "string \<Rightarrow> bytes" where
  "ascii s = map (\<lambda>c. word_of_nat (of_char c)) s"

definition ws_seqs :: "bytes list" where
  "ws_seqs = map (\<lambda>b. [b]) [9, 10, 11, 12, 13, 32] @ [[0xC2, 0x85], [0xC2, 0xA0], [0xE1, 0x9A, 0x80]] @
     map (\<lambda>b. [0xE2, 0x80, b]) [0x80, 0x81, 0x82, 0x83, 0x84, 0x85, 0x86, 0x87, 0x88, 0x89, 0x8A, 0xA8, 0xA9, 0xAF] @
     [[0xE2, 0x81, 0x9F], [0xE3, 0x80, 0x80]]"

definition starts_with :: "bytes \<Rightarrow> bytes \<Rightarrow> bool" where
  "starts_with p s \<longleftrightarrow> take (length p) s = p"

function strip_seqs :: "bytes list \<Rightarrow> bytes \<Rightarrow> bytes" where
  "strip_seqs ws s =
    (case find (\<lambda>w. w \<noteq> [] \<and> starts_with w s) ws of
       None \<Rightarrow> s
     | Some w \<Rightarrow> strip_seqs ws (drop (length w) s))"
  by pat_completeness auto
termination
proof (relation "measure (length \<circ> snd)")
  fix ws :: "bytes list" and s w
  assume "find (\<lambda>w. w \<noteq> [] \<and> starts_with w s) ws = Some w"
  then have "w \<noteq> []" "starts_with w s" by (auto simp: find_Some_iff)
  then show "((ws, drop (length w) s), (ws, s)) \<in> measure (length \<circ> snd)"
    by (cases s; cases w) (auto simp: starts_with_def)
qed simp

declare strip_seqs.simps [simp del]

definition utrim :: "bytes \<Rightarrow> bytes" where
  "utrim s = rev (strip_seqs (map rev ws_seqs) (rev (strip_seqs ws_seqs s)))"

definition to_lower :: "bytes \<Rightarrow> bytes" where
  "to_lower s = map (\<lambda>b. if 65 \<le> b \<and> b \<le> 90 then b + 32 else b) s"

definition ustrip_prefix :: "bytes \<Rightarrow> bytes \<Rightarrow> bytes option" where
  "ustrip_prefix p s = (if starts_with p s then Some (drop (length p) s) else None)"

definition split_once :: "u8 \<Rightarrow> bytes \<Rightarrow> (bytes \<times> bytes) option" where
  "split_once c s = (if c \<in> set s then Some (takeWhile (\<lambda>b. b \<noteq> c) s, tl (dropWhile (\<lambda>b. b \<noteq> c) s)) else None)"

definition rsplit_once :: "u8 \<Rightarrow> bytes \<Rightarrow> (bytes \<times> bytes) option" where
  "rsplit_once c s = map_option (\<lambda>(a, b). (rev b, rev a)) (split_once c (rev s))"

section \<open>The fields\<close>

datatype name_error = BadTransport | EmptyBackend | BadFormat | NotLeandro | NamesNoBoard

datatype transport = Vfio | Virtio

definition PLATFORM :: bytes where "PLATFORM = ascii ''Leandro''"
definition NAME_FALLBACK :: bytes where "NAME_FALLBACK = ascii ''Leandro GPU''"

fun transport_word :: "transport \<Rightarrow> bytes" where
  "transport_word Vfio = ascii ''VFIO''"
| "transport_word Virtio = ascii ''VirtIO''"

definition transport_from_str :: "bytes \<Rightarrow> name_error + transport" where
  "transport_from_str s =
    (let t = to_lower (utrim s) in
     if t \<in> set (map ascii [''vfio'', ''vfio-user'', ''caraxes'', ''v2'']) then Inr Vfio
     else if t \<in> set (map ascii [''virtio'', ''vhost-user'', ''virtio-nvrm'', ''v1'']) then Inr Virtio
     else Inl BadTransport)"

datatype personality = Personality (pers_str: bytes)

definition personality_new :: "bytes \<Rightarrow> personality" where
  "personality_new name = Personality (utrim name)"

definition from_driver_name :: "bytes \<Rightarrow> personality" where
  "from_driver_name real0 =
    (let real = utrim real0;
         real = (case ustrip_prefix (ascii ''NVIDIA '') real of Some r \<Rightarrow> r | None \<Rightarrow> real) in
     personality_new (case ustrip_prefix (ascii ''GeForce '') real of Some r \<Rightarrow> r | None \<Rightarrow> real))"

datatype nprofile = NProfile (fb_mib: u64)

definition nprofile_from_mib :: "u64 \<Rightarrow> nprofile option" where
  "nprofile_from_mib n = (if 0 < n then Some (NProfile n) else None)"

definition nprofile_from_fb_bytes :: "u64 \<Rightarrow> nprofile option" where
  "nprofile_from_fb_bytes n = nprofile_from_mib (drop_bit 20 n)"

definition from_catalogue :: "vprofile \<Rightarrow> nprofile option" where
  "from_catalogue p = nprofile_from_fb_bytes (vp_fb_length p)"

definition label :: "nprofile \<Rightarrow> bytes" where
  "label p = (if fb_mib p mod 1024 = 0 then ascii (dec_str (unat (fb_mib p div 1024)) @ ''G'')
              else ascii (dec_str (unat (fb_mib p)) @ ''M''))"

definition is_digit_byte :: "u8 \<Rightarrow> bool" where
  "is_digit_byte b \<longleftrightarrow> 48 \<le> b \<and> b \<le> 57"

text \<open>\<^verbatim>\<open>split_at\<close> panics where the index is inside a character; here the index is the last byte, and
  \<^verbatim>\<open>None\<close> is the panic.\<close>

definition is_continuation :: "u8 \<Rightarrow> bool" where
  "is_continuation b \<longleftrightarrow> 0x80 \<le> b \<and> b < 0xC0"

definition from_label :: "bytes \<Rightarrow> nprofile option option" where
  "from_label s =
    (if s = [] then Some None
     else if is_continuation (last s) then None
     else
       (let n = butlast s; unt = last s in
        Some (if n = [] \<or> \<not> list_all is_digit_byte n then None
        else case (if unt = 71 then Some 1024 else if unt = 77 then Some (1 :: u64) else None) of
               None \<Rightarrow> None
             | Some scale \<Rightarrow>
                 (case parse_uint 64 (map (\<lambda>b. char_of (unat b)) n) of
                    None \<Rightarrow> None
                  | Some v \<Rightarrow> (case checked_mul (word_of_nat v) scale of
                                 None \<Rightarrow> None
                               | Some m \<Rightarrow> nprofile_from_mib m)))))"

datatype backend = OpenRm | NovaCore | OtherBackend bytes

definition backend_from_str :: "bytes \<Rightarrow> name_error + backend" where
  "backend_from_str s =
    (let t = utrim s; l = to_lower t in
     if l = [] then Inl EmptyBackend
     else if l \<in> set (map ascii [''openrm'', ''open-rm'', ''rm'']) then Inr OpenRm
     else if l \<in> set (map ascii [''nova'', ''nova-core'', ''novacore'']) then Inr NovaCore
     else Inr (OtherBackend t))"

datatype name_format = Legacy | TransportFormat

definition format_from_str :: "bytes \<Rightarrow> name_error + name_format" where
  "format_from_str s =
    (let t = to_lower (utrim s) in
     if t = [] then Inr TransportFormat
     else if t \<in> set (map ascii [''legacy'', ''short'']) then Inr Legacy
     else if t \<in> set (map ascii [''transport'', ''full'']) then Inr TransportFormat
     else Inl BadFormat)"

definition format_from_env :: "bytes option \<Rightarrow> name_error + name_format" where
  "format_from_env v = (case v of None \<Rightarrow> Inr TransportFormat | Some s \<Rightarrow> format_from_str s)"

section \<open>The name\<close>

record gpu_spec =
  gs_transport :: transport
  gs_personality :: personality
  gs_profile :: "nprofile option"
  gs_backend :: backend

definition head_of :: "gpu_spec \<Rightarrow> name_format \<Rightarrow> bytes" where
  "head_of sp f =
    (case f of
       Legacy \<Rightarrow> PLATFORM @ ascii '' '' @ pers_str (gs_personality sp)
     | TransportFormat \<Rightarrow>
         PLATFORM @ ascii '' '' @ transport_word (gs_transport sp) @ ascii '' '' @ pers_str (gs_personality sp))"

definition guest_name :: "gpu_spec \<Rightarrow> name_format \<Rightarrow> bytes" where
  "guest_name sp f =
    head_of sp f @ (case gs_profile sp of None \<Rightarrow> [] | Some p \<Rightarrow> ascii ''-'' @ label p)"

definition guest_name_within :: "gpu_spec \<Rightarrow> name_format \<Rightarrow> nat \<Rightarrow> bytes" where
  "guest_name_within sp f mx =
    (if length (guest_name sp f) < mx then guest_name sp f
     else if length (head_of sp f) < mx then head_of sp f
     else NAME_FALLBACK)"

record parsed_name =
  pn_transport :: "transport option"
  pn_personality :: personality
  pn_profile :: "nprofile option"

definition parse_transport :: "bytes \<Rightarrow> transport option \<times> bytes" where
  "parse_transport s =
    (case split_once 32 s of
       Some (w, r) \<Rightarrow>
         if w = transport_word Vfio then (Some Vfio, r)
         else if w = transport_word Virtio then (Some Virtio, r) else (None, s)
     | None \<Rightarrow> (None, s))"

definition parse_size :: "bytes \<Rightarrow> (bytes \<times> nprofile option) option" where
  "parse_size s =
    (case rsplit_once 45 s of
       Some (p, sz) \<Rightarrow>
         map_option (\<lambda>r. case r of Some sz' \<Rightarrow> (p, Some sz') | None \<Rightarrow> (s, None)) (from_label sz)
     | None \<Rightarrow> Some (s, None))"

text \<open>The outer \<^verbatim>\<open>None\<close> is the panic of \<^verbatim>\<open>from_label\<close>.\<close>

definition parse_name :: "bytes \<Rightarrow> (name_error + parsed_name) option" where
  "parse_name name =
    (case Option.bind (ustrip_prefix PLATFORM (utrim name)) (ustrip_prefix (ascii '' '')) of
       None \<Rightarrow> Some (Inl NotLeandro)
     | Some rest0 \<Rightarrow>
         (case parse_transport rest0 of (t, rest) \<Rightarrow>
         map_option (\<lambda>(p, sz).
            if utrim p = [] then Inl NamesNoBoard
            else Inr \<lparr> pn_transport = t, pn_personality = personality_new p, pn_profile = sz \<rparr>) (parse_size rest)))"

section \<open>Trimming\<close>

definition no_seq :: "bytes list \<Rightarrow> bytes \<Rightarrow> bool" where
  "no_seq ws s \<longleftrightarrow> (\<forall>w \<in> set ws. w \<noteq> [] \<longrightarrow> \<not> starts_with w s)"

lemma find_no_seq: "find (\<lambda>w. w \<noteq> [] \<and> starts_with w s) ws = None \<longleftrightarrow> no_seq ws s"
  by (auto simp: find_None_iff no_seq_def)

lemma strip_seqs_id: "no_seq ws s \<Longrightarrow> strip_seqs ws s = s"
  using find_no_seq [of s ws] by (subst strip_seqs.simps) simp

lemma strip_seqs_less: "strip_seqs ws s = s \<or> length (strip_seqs ws s) < length s"
proof (induction ws s rule: strip_seqs.induct)
  case (1 ws s)
  show ?case
  proof (cases "find (\<lambda>w. w \<noteq> [] \<and> starts_with w s) ws")
    case None
    then show ?thesis by (subst (1 2) strip_seqs.simps) simp
  next
    case (Some w)
    have "w \<noteq> []" "starts_with w s" using Some by (auto simp: find_Some_iff)
    then have "length (drop (length w) s) < length s" by (cases s; cases w) (auto simp: starts_with_def)
    moreover have "strip_seqs ws s = strip_seqs ws (drop (length w) s)"
      using Some by (subst strip_seqs.simps) simp
    ultimately show ?thesis using 1 [OF Some] by auto
  qed
qed

lemma strip_seqs_no_seq: "no_seq ws (strip_seqs ws s)"
proof (induction ws s rule: strip_seqs.induct)
  case (1 ws s)
  show ?case
  proof (cases "find (\<lambda>w. w \<noteq> [] \<and> starts_with w s) ws")
    case None
    then show ?thesis using find_no_seq [of s ws] by (simp add: strip_seqs_id)
  next
    case (Some w)
    then show ?thesis using 1 [OF Some] by (subst strip_seqs.simps) simp
  qed
qed

lemma utrim_id: "no_seq ws_seqs s \<Longrightarrow> no_seq (map rev ws_seqs) (rev s) \<Longrightarrow> utrim s = s"
  by (simp add: utrim_def strip_seqs_id)

lemma utrim_fixed:
  assumes "utrim s = s"
  shows "no_seq ws_seqs s" "no_seq (map rev ws_seqs) (rev s)"
proof -
  let ?a = "strip_seqs ws_seqs s" and ?b = "\<lambda>t. strip_seqs (map rev ws_seqs) t"
  have eq: "?b (rev ?a) = rev s" using assms by (metis utrim_def rev_rev_ident)
  have "length (?b (rev ?a)) \<le> length ?a" using strip_seqs_less [of "map rev ws_seqs" "rev ?a"] by auto
  then have a: "?a = s" using eq strip_seqs_less [of ws_seqs s] by auto
  show "no_seq ws_seqs s" using strip_seqs_no_seq [of ws_seqs s] a by simp
  show "no_seq (map rev ws_seqs) (rev s)"
    using strip_seqs_no_seq [of "map rev ws_seqs" "rev ?a"] a eq by simp
qed

lemma no_ws_start: "b \<notin> set [9, 10, 11, 12, 13, 32, 0xC2, 0xE1, 0xE2, 0xE3] \<Longrightarrow> no_seq ws_seqs (b # s)"
  by (simp add: no_seq_def ws_seqs_def starts_with_def)

lemma no_ws_end: "b \<in> {71, 77} \<Longrightarrow> no_seq (map rev ws_seqs) (b # s)"
  by (auto simp: no_seq_def ws_seqs_def starts_with_def)

lemma ws_inner_no_space:
  assumes "w \<in> set (map rev ws_seqs)" "0 < i" "i < length w"
  shows "w ! i \<noteq> 32"
proof -
  have "list_all (\<lambda>w. 32 \<notin> set (tl w)) (map rev ws_seqs)" by code_simp
  then have "32 \<notin> set (tl w)" using assms(1) by (auto simp: list_all_iff)
  moreover have "w ! i \<in> set (tl w)" using assms(2,3) by (cases w) (auto simp: nth_Cons')
  ultimately show ?thesis by metis
qed

lemma no_ws_after_space:
  assumes "no_seq (map rev ws_seqs) (rev p)" "p \<noteq> []"
  shows "no_seq (map rev ws_seqs) (rev (x @ 32 # p))"
  unfolding no_seq_def
proof (intro ballI impI)
  fix w assume w: "w \<in> set (map rev ws_seqs)" "w \<noteq> []"
  show "\<not> starts_with w (rev (x @ 32 # p))"
  proof
    assume s: "starts_with w (rev (x @ 32 # p))"
    show False
    proof (cases "length w \<le> length p")
      case True
      then show False using s w assms(1) by (auto simp: starts_with_def no_seq_def)
    next
      case False
      then have "w ! length p = rev (x @ 32 # p) ! length p"
        using s unfolding starts_with_def by (metis nth_take not_le)
      also have "\<dots> = 32" by (simp add: nth_append)
      finally show False using ws_inner_no_space [OF w(1), of "length p"] False assms(2) by simp
    qed
  qed
qed

section \<open>Reading sizes back\<close>

lemma ascii_append [simp]: "ascii (a @ b) = ascii a @ ascii b"
  by (simp add: ascii_def)

lemma length_ascii [simp]: "length (ascii s) = length s"
  by (simp add: ascii_def)

lemma ascii_nonempty [simp]: "ascii s = [] \<longleftrightarrow> s = []"
  by (simp add: ascii_def)

lemma unascii: "map (\<lambda>b. char_of (unat b)) (ascii s) = s"
proof -
  have "unat (word_of_nat (of_char c) :: u8) = of_char c" for c :: char
    by (simp add: unsigned_of_nat take_bit_nat_def)
  then show ?thesis unfolding ascii_def map_map comp_def by (simp add: char_of_char)
qed

lemma dec_digit: "n < 10 \<Longrightarrow> of_char (char_of (48 + n :: nat)) = (48 + n :: nat)"
  by (simp add: of_char_of)

lemma dec_str_digits: "list_all is_digit (dec_str n)"
proof (induction n rule: dec_str.induct)
  case (1 n)
  then show ?case
    by (subst dec_str.simps) (auto simp: is_digit_def [of "char_of _"] dec_digit)
qed

lemma dec_str_nonempty [simp]: "dec_str n \<noteq> []"
  by (subst dec_str.simps) simp

lemma digits_val_snoc: "digits_val (s @ [c]) = digits_val s * 10 + (of_char c - 48)"
  by (simp add: digits_val_def)

lemma digits_val_dec_str [simp]: "digits_val (dec_str n) = n"
proof (induction n rule: dec_str.induct)
  case (1 n)
  show ?case
  proof (cases "n < 10")
    case True
    then show ?thesis by (subst dec_str.simps) (simp add: digits_val_def dec_digit)
  next
    case False
    then have "digits_val (dec_str n) = digits_val (dec_str (n div 10)) * 10 + n mod 10"
      by (subst dec_str.simps) (simp add: digits_val_snoc dec_digit)
    then show ?thesis using 1 False by simp
  qed
qed

lemma parse_dec_str: "n < 2 ^ w \<Longrightarrow> parse_uint w (dec_str n) = Some n"
proof -
  assume n: "n < 2 ^ w"
  have "\<not> is_digit (CHR ''+'')" by (simp add: is_digit_def)
  then have "(case dec_str n of CHR ''+'' # r \<Rightarrow> r | _ \<Rightarrow> dec_str n) = dec_str n"
    using dec_str_digits [of n] by (cases "dec_str n") (auto split: char.splits bool.splits)
  then show ?thesis using n dec_str_digits [of n] by (simp add: parse_uint_def Let_def)
qed

lemma ascii_digits: "list_all is_digit s \<Longrightarrow> list_all is_digit_byte (ascii s)"
proof (induction s)
  case (Cons c s)
  then have "(48 :: nat) \<le> of_char c" "of_char c \<le> (57 :: nat)" by (simp_all add: is_digit_def)
  then have "is_digit_byte (word_of_nat (of_char c))"
    by (simp add: is_digit_byte_def word_le_nat_alt unsigned_of_nat take_bit_nat_def)
  then show ?case using Cons by (simp add: ascii_def)
qed (simp add: ascii_def)

lemma from_label_unit:
  assumes "n < 2 ^ 64" "(u, scale) \<in> {(71, 1024), (77, 1)}" "checked_mul (word_of_nat n) scale = Some m" "0 < m"
  shows "from_label (ascii (dec_str n) @ [u]) = Some (Some (NProfile m))"
  using assms ascii_digits [OF dec_str_digits, of n]
  by (auto simp: from_label_def is_continuation_def Let_def unascii parse_dec_str nprofile_from_mib_def)

lemma from_label_label: "fb_mib p \<noteq> 0 \<Longrightarrow> from_label (label p) = Some (Some p)"
proof -
  assume nz: "fb_mib p \<noteq> 0"
  obtain m where p: "p = NProfile m" by (cases p)
  have G: "ascii ''G'' = [71]" and M: "ascii ''M'' = [77]" by (simp_all add: ascii_def)
  show ?thesis
  proof (cases "m mod 1024 = 0")
    case True
    have "unat (m mod 1024) = 0" using True by simp
    then have "unat m mod 1024 = 0" by (simp add: unat_mod)
    then have "unat m = unat (m div 1024) * 1024" by (auto simp: unat_div)
    then have "checked_mul (word_of_nat (unat (m div 1024))) 1024 = Some m"
      using unat_lt_u64 [of m] by (simp add: checked_simps)
    then show ?thesis using nz p True from_label_unit [of "unat (m div 1024)" 71 1024 m]
      unat_lt_u64 [of "m div 1024"] by (simp add: label_def G word_neq_0_conv)
  next
    case False
    then have "label p = ascii (dec_str (unat m)) @ [77]" using p by (simp add: label_def M)
    moreover have "0 < m" using nz p by (simp add: word_neq_0_conv)
    ultimately show ?thesis using from_label_unit [of "unat m" 77 1 m] unat_lt_u64 [of m] p
      by (simp add: checked_simps)
  qed
qed

lemma label_parts: "\<exists>n u. label p = ascii (dec_str n) @ [u] \<and> u \<in> {71, 77}"
  by (auto simp: label_def ascii_def)

lemma digit_bytes: "list_all is_digit_byte s \<Longrightarrow> c \<notin> set s" if "\<not> is_digit_byte c" for c
  using that by (induction s) auto

lemma label_no_sep: "45 \<notin> set (label p)" "32 \<notin> set (label p)"
proof -
  obtain n u where l: "label p = ascii (dec_str n) @ [u]" "u \<in> {71, 77}" using label_parts by blast
  have "\<not> is_digit_byte 45" "\<not> is_digit_byte 32" by (simp_all add: is_digit_byte_def)
  then have "45 \<notin> set (ascii (dec_str n))" "32 \<notin> set (ascii (dec_str n))"
    using digit_bytes ascii_digits [OF dec_str_digits, of n] by blast+
  then show "45 \<notin> set (label p)" "32 \<notin> set (label p)" using l by auto
qed

lemma split_once_first: "c \<notin> set a \<Longrightarrow> split_once c (a @ c # b) = Some (a, b)"
  by (simp add: split_once_def takeWhile_tail dropWhile_append)

lemma split_once_extend:
  "split_once c a = Some (x, y) \<Longrightarrow> split_once c (a @ b) = Some (x, y @ b)"
  by (auto simp: split_once_def takeWhile_append dropWhile_append split: if_splits)

lemma rsplit_once_last: "c \<notin> set b \<Longrightarrow> rsplit_once c (a @ c # b) = Some (a, b)"
  using split_once_first [of c "rev b" "rev a"] by (simp add: rsplit_once_def)

lemma parse_size_label: "fb_mib q \<noteq> 0 \<Longrightarrow> parse_size (p @ ascii ''-'' @ label q) = Some (p, Some q)"
  using rsplit_once_last [OF label_no_sep(1), of p q]
  by (simp add: parse_size_def ascii_def from_label_label)

section \<open>Claims\<close>

text \<open>A specification whose name can be read back: a trimmed, non-empty board that is not itself
  mistaken for a transport word or a size.\<close>

definition readable_spec :: "gpu_spec \<Rightarrow> name_format \<Rightarrow> bool" where
  "readable_spec sp f \<longleftrightarrow>
    (let p = pers_str (gs_personality sp) in
     utrim p = p \<and> p \<noteq> [] \<and>
     (f = Legacy \<longrightarrow> fst (parse_transport p) = None) \<and>
     (case gs_profile sp of None \<Rightarrow> parse_size p = Some (p, None) | Some q \<Rightarrow> fb_mib q \<noteq> 0))"

definition size_suffix :: "gpu_spec \<Rightarrow> bytes" where
  "size_suffix sp = (case gs_profile sp of None \<Rightarrow> [] | Some q \<Rightarrow> ascii ''-'' @ label q)"

lemma guest_name_trimmed:
  assumes "readable_spec sp f"
  shows "utrim (guest_name sp f) = guest_name sp f"
proof (rule utrim_id)
  let ?p = "pers_str (gs_personality sp)"
  have p: "no_seq (map rev ws_seqs) (rev ?p)" "?p \<noteq> []"
    using assms utrim_fixed by (auto simp: readable_spec_def Let_def)
  obtain h where h: "head_of sp f = h @ 32 # ?p"
    by (cases f) (auto simp: head_of_def ascii_def PLATFORM_def)
  show "no_seq ws_seqs (guest_name sp f)"
    by (cases f) (auto simp: guest_name_def head_of_def PLATFORM_def ascii_def intro!: no_ws_start)
  show "no_seq (map rev ws_seqs) (rev (guest_name sp f))"
  proof (cases "gs_profile sp")
    case None
    then show ?thesis using no_ws_after_space [OF p, of h] h by (simp add: guest_name_def)
  next
    case (Some q)
    then show ?thesis using label_parts [of q] by (auto simp: guest_name_def intro: no_ws_end)
  qed
qed

lemma parse_size_suffix:
  assumes "readable_spec sp f"
  shows "parse_size (pers_str (gs_personality sp) @ size_suffix sp) = Some (pers_str (gs_personality sp), gs_profile sp)"
proof (cases "gs_profile sp")
  case None
  then show ?thesis using assms by (simp add: size_suffix_def readable_spec_def Let_def)
next
  case (Some q)
  then show ?thesis using assms
    by (simp add: size_suffix_def readable_spec_def Let_def parse_size_label del: append_assoc)
qed

lemma parse_transport_legacy:
  assumes "fst (parse_transport p) = None" "32 \<notin> set b"
  shows "parse_transport (p @ b) = (None, p @ b)"
proof (cases "split_once 32 p")
  case None
  then have "32 \<notin> set (p @ b)" using assms(2) by (simp add: split_once_def split: if_splits)
  then show ?thesis by (simp add: parse_transport_def split_once_def)
next
  case (Some xy)
  obtain x y where xy: "xy = (x, y)" by (cases xy)
  then show ?thesis using assms(1) Some split_once_extend [of 32 p x y b]
    by (simp add: parse_transport_def split: if_splits)
qed

lemma parse_transport_word:
  "parse_transport (transport_word t @ 32 # r) = (Some t, r)"
proof -
  have "split_once 32 (transport_word t @ 32 # r) = Some (transport_word t, r)"
    by (rule split_once_first) (cases t; simp add: ascii_def)
  then show ?thesis by (cases t) (simp_all add: parse_transport_def ascii_def)
qed

text \<open>C39: A guest-visible name reads back to the fields it was made from.  For a trimmed board that
  is not itself mistaken for a transport word or a size (and, without a size, does not end its last
  hyphenated part in a character outside ASCII, on which the reader panics), parsing the generated name in either
  format gives the board, the framebuffer size and, in the transport format, the transport.\<close>

theorem name_roundtrip:
  assumes "readable_spec sp f"
  shows "parse_name (guest_name sp f) =
    Some (Inr \<lparr> pn_transport = (if f = Legacy then None else Some (gs_transport sp)),
                pn_personality = gs_personality sp, pn_profile = gs_profile sp \<rparr>)"
proof -
  let ?p = "pers_str (gs_personality sp)"
  have trimmed: "utrim ?p = ?p" "?p \<noteq> []" using assms by (auto simp: readable_spec_def Let_def)
  have sp32: "ascii '' '' = [32]" by (simp add: ascii_def)
  have pre: "ustrip_prefix PLATFORM (PLATFORM @ x) = Some x" "ustrip_prefix [32] (32 # x) = Some x" for x
    by (simp_all add: ustrip_prefix_def starts_with_def)
  have name: "guest_name sp f = PLATFORM @ 32 # (if f = Legacy then [] else transport_word (gs_transport sp) @ [32]) @ ?p @ size_suffix sp"
    by (cases f) (simp_all add: guest_name_def head_of_def size_suffix_def sp32)
  have sep: "32 \<notin> set (size_suffix sp)"
    using label_no_sep(2) by (auto simp: size_suffix_def ascii_def split: option.splits)
  have "parse_transport ((if f = Legacy then [] else transport_word (gs_transport sp) @ [32]) @ ?p @ size_suffix sp) =
      (if f = Legacy then None else Some (gs_transport sp), ?p @ size_suffix sp)"
    using parse_transport_legacy [OF _ sep, of ?p] parse_transport_word [of "gs_transport sp" "?p @ size_suffix sp"] assms
    by (auto simp: readable_spec_def Let_def)
  then show ?thesis
    using guest_name_trimmed [OF assms] parse_size_suffix [OF assms] trimmed
    by (simp add: parse_name_def name pre sp32 personality_new_def)
qed

definition sample_spec :: gpu_spec where
  "sample_spec = \<lparr> gs_transport = Virtio, gs_personality = Personality (ascii ''RTX 2070''),
     gs_profile = Some (NProfile 1333), gs_backend = OpenRm \<rparr>"

theorem name_roundtrip_witness:
  "guest_name sample_spec Legacy = ascii ''Leandro RTX 2070-1333M'' \<and>
   parse_name (ascii ''Leandro RTX 2070-1333M'') =
     Some (Inr \<lparr> pn_transport = None, pn_personality = Personality (ascii ''RTX 2070''), pn_profile = Some (NProfile 1333) \<rparr>)"
proof -
  have n: "guest_name sample_spec Legacy = ascii ''Leandro RTX 2070-1333M''" by code_simp
  have "readable_spec sample_spec Legacy" by code_simp
  from name_roundtrip [OF this] n show ?thesis by (simp add: sample_spec_def)
qed

text \<open>Reading a name can panic: the part after the last hyphen ends in a two-byte character.\<close>

lemma parse_name_panics: "parse_name (ascii ''Leandro A-'' @ [0xC3, 0xA9]) = None"
  by code_simp


end
