(* ===== verification/Identity.thy ===== *)
theory Identity
  imports Naming Policy Xlate
begin

text \<open>
  What a guest is told about the card, \<^verbatim>\<open>crates/vhost-user-nvrm/src/grid.rs\<close> (the VM's own
  UUID and its exchange with the card's), the name rewrite of \<^verbatim>\<open>vram.rs\<close>, the parameter
  blocks of \<^verbatim>\<open>crates/nvrm-abi/src/share.rs\<close>, and the ioctl numbers of \<^verbatim>\<open>nvrm-abi/src/lib.rs\<close>
  with the wrapper of \<^verbatim>\<open>xfer.rs\<close>.
\<close>

unbundle bit_operations_syntax

section \<open>Ioctl numbers\<close>

definition NV_IOCTL_MAGIC :: u32 where "NV_IOCTL_MAGIC = 70"

definition ioc :: "u32 \<Rightarrow> u32 \<Rightarrow> u32 \<Rightarrow> u32 \<Rightarrow> u32" where
  "ioc dir ty nr sz = push_bit 30 dir OR push_bit 8 ty OR nr OR push_bit 16 sz"

definition iowr_raw :: "u32 \<Rightarrow> u32 \<Rightarrow> u32" where
  "iowr_raw nr sz = ioc 3 NV_IOCTL_MAGIC nr sz"

definition ioc_nr :: "u32 \<Rightarrow> u32" where "ioc_nr cmd = cmd AND mask 8"
definition ioc_type :: "u32 \<Rightarrow> u32" where "ioc_type cmd = drop_bit 8 cmd AND mask 8"
definition ioc_size :: "u32 \<Rightarrow> u32" where "ioc_size cmd = drop_bit 16 cmd AND mask 14"

definition is_nv_cmd :: "u32 \<Rightarrow> bool" where "is_nv_cmd cmd \<longleftrightarrow> ioc_type cmd = NV_IOCTL_MAGIC"

record xfer =
  xf_cmd :: u32
  xf_size :: u32
  xf_ptr :: u64

abbreviation (input) ABSOLUTE_MAX_IOCTL_SIZE :: nat where "ABSOLUTE_MAX_IOCTL_SIZE \<equiv> 16384"

text \<open>The wrapper a caller passed, \<^verbatim>\<open>None\<close> for a null argument.\<close>

definition unwrap_xfer :: "u32 \<Rightarrow> xfer option \<Rightarrow> (unit + u32 \<times> u64 \<times> nat) option" where
  "unwrap_xfer cmd arg =
    (if ioc_nr cmd \<noteq> NV_ESC_IOCTL_XFER_CMD then None
     else case arg of
            None \<Rightarrow> Some (Inl ())
          | Some x \<Rightarrow>
              (let n = unat (xf_size x) in
               if n = 0 \<or> ABSOLUTE_MAX_IOCTL_SIZE < n \<or> xf_ptr x = 0 then Some (Inl ())
               else Some (Inr (xf_cmd x, xf_ptr x, n))))"

section \<open>Shared objects and attribution\<close>

definition uvm_dupes_class :: "u32 \<Rightarrow> bool" where
  "uvm_dupes_class c \<longleftrightarrow> c \<in> set [0x90f1, 0xa06c, 0x9067, 0x3e, 0x40, 0x71, 0x50a0]"

definition SHARE_NAME_MAX :: nat where "SHARE_NAME_MAX = 100"

definition sub_process_id_params :: "u32 \<Rightarrow> bytes \<Rightarrow> bytes" where
  "sub_process_id_params sub_id name =
    (let n = min (length name) (SHARE_NAME_MAX - 1) in
     write_at (wr32 (replicate (4 + SHARE_NAME_MAX) 0) 0 sub_id) 4 (take n name))"

definition share_object_params :: "u32 \<Rightarrow> bytes" where
  "share_object_params hobject =
    (write_at (wr32 (wr32 (replicate 16 0) 0 hobject) 8 1) 12 [4, 0])[14 := 4]"

definition nvos54_client_control :: "u32 \<Rightarrow> u32 \<Rightarrow> u64 \<Rightarrow> bytes \<Rightarrow> bytes" where
  "nvos54_client_control hclient cmd params_addr params =
    wr32 (wr64 (wr32 (wr32 (wr32 (replicate 32 0) 0 hclient) 4 hclient) 8 cmd) 16 params_addr)
      24 (word_of_nat (length params))"

section \<open>The UUID of the VM\<close>

definition fnv1a :: "bytes \<Rightarrow> u64" where
  "fnv1a seed = foldl (\<lambda>h b. (h XOR ucast b) * 0x100000001b3) 0xcbf29ce484222325 seed"

definition u64_to_be :: "u64 \<Rightarrow> bytes" where "u64_to_be w = rev (u64_to_le w)"

definition vm_uuid :: "bytes \<Rightarrow> bytes" where
  "vm_uuid name =
    (let out = u64_to_be (fnv1a name) @ u64_to_be (fnv1a (name @ ascii ''/leandro-vgpu''));
         out = out[6 := (out ! 6 AND 0x0f) OR 0x40] in
     out[8 := (out ! 8 AND 0x3f) OR 0x80])"

definition hex_digit :: "nat \<Rightarrow> u8" where
  "hex_digit n = (if n < 10 then word_of_nat (48 + n) else word_of_nat (87 + n))"

definition hex :: "bytes \<Rightarrow> bytes" where
  "hex bs = concat (map (\<lambda>b. [hex_digit (unat b div 16), hex_digit (unat b mod 16)]) bs)"

definition format_uuid :: "bytes \<Rightarrow> bytes" where
  "format_uuid u = ascii ''GPU-'' @ hex (subslice 0 4 u) @ ascii ''-'' @ hex (subslice 4 2 u) @ ascii ''-'' @
     hex (subslice 6 2 u) @ ascii ''-'' @ hex (subslice 8 2 u) @ ascii ''-'' @ hex (subslice 10 6 u)"

record card =
  cd_host :: bytes
  cd_guest :: bytes
  cd_total :: u64
  cd_ascii :: "bytes \<times> bytes"

section \<open>The socket's name\<close>

text \<open>\<^verbatim>\<open>std::path\<close> on Unix, as far as the identity seed uses it.\<close>

datatype path_comp = RootDir | CurDir | ParentDir | NormalComp bytes

fun split_on :: "u8 \<Rightarrow> bytes \<Rightarrow> bytes list" where
  "split_on c [] = [[]]"
| "split_on c (b # s) =
    (if b = c then [] # split_on c s
     else case split_on c s of [] \<Rightarrow> [[b]] | w # ws \<Rightarrow> (b # w) # ws)"

definition comp_of :: "bytes \<Rightarrow> path_comp" where
  "comp_of w = (if w = ascii ''..'' then ParentDir else NormalComp w)"

definition path_components :: "bytes \<Rightarrow> path_comp list" where
  "path_components s =
    (let ws = split_on 47 s;
         rest = map comp_of (filter (\<lambda>w. w \<noteq> [] \<and> w \<noteq> ascii ''.'') ws) in
     if s \<noteq> [] \<and> hd s = 47 then RootDir # rest
     else if hd ws = ascii ''.'' then CurDir # rest else rest)"

definition path_file_name :: "path_comp list \<Rightarrow> bytes option" where
  "path_file_name cs = (if cs = [] then None else case last cs of NormalComp w \<Rightarrow> Some w | _ \<Rightarrow> None)"

definition path_parent :: "path_comp list \<Rightarrow> path_comp list option" where
  "path_parent cs = (if cs = [] \<or> last cs = RootDir then None else Some (butlast cs))"

definition path_file_stem :: "path_comp list \<Rightarrow> bytes option" where
  "path_file_stem cs =
    map_option (\<lambda>w. case rsplit_once 46 w of
                      None \<Rightarrow> w
                    | Some (before, _) \<Rightarrow> if before = [] then w else before) (path_file_name cs)"

definition name_from_socket :: "bytes \<Rightarrow> bytes" where
  "name_from_socket socket =
    (let p = path_components socket; part = (\<lambda>v. case v of None \<Rightarrow> [] | Some w \<Rightarrow> w) in
     part (Option.bind (path_parent p) path_file_name) @ ascii ''/'' @ part (path_file_stem p))"

definition card_new :: "bytes \<Rightarrow> bytes \<Rightarrow> u64 \<Rightarrow> card" where
  "card_new socket host tot =
    (let guest = vm_uuid (name_from_socket socket) in
     \<lparr> cd_host = host, cd_guest = guest, cd_total = tot, cd_ascii = (format_uuid host, format_uuid guest) \<rparr>)"

section \<open>Exchanging UUIDs\<close>

definition swap_at :: "bytes \<Rightarrow> bytes \<Rightarrow> nat \<Rightarrow> bytes \<Rightarrow> bytes" where
  "swap_at old new i buf = (if subslice (4 * i) (length old) buf = old then write_at buf (4 * i) new else buf)"

definition swap_count :: "bytes \<Rightarrow> bytes \<Rightarrow> nat" where
  "swap_count old buf = (if length old \<le> length buf then (length buf - length old) div 4 + 1 else 0)"

definition swap :: "bytes \<Rightarrow> bytes \<Rightarrow> bytes \<Rightarrow> bytes" where
  "swap buf old new = fold (swap_at old new) [0..<swap_count old buf] buf"

definition to_host :: "card \<Rightarrow> bytes \<Rightarrow> bytes" where
  "to_host c buf = swap (swap buf (cd_guest c) (cd_host c)) (snd (cd_ascii c)) (fst (cd_ascii c))"

definition to_guest :: "card \<Rightarrow> bytes \<Rightarrow> bytes" where
  "to_guest c buf = swap (swap buf (cd_host c) (cd_guest c)) (fst (cd_ascii c)) (snd (cd_ascii c))"

definition switches :: "bytes option \<Rightarrow> bool \<times> bool \<times> bool" where
  "switches v =
    (let raw = utrim (case v of None \<Rightarrow> [] | Some s \<Rightarrow> s) in
     if raw = [] then (False, True, True)
     else if to_lower raw = ascii ''none'' then (False, False, False)
     else
       (let has = (\<lambda>w. list_ex (\<lambda>p. to_lower (utrim p) = ascii w) (split_on 44 raw));
            al = has ''all'' in
        (al \<or> has ''mode'', al \<or> has ''uuid'', al \<or> has ''enc'')))"

section \<open>The card's name\<close>

text \<open>\<^verbatim>\<open>String::from_utf8_lossy\<close>: one replacement character for every maximal invalid
  sequence.  \<^verbatim>\<open>utf8_step\<close> gives how many bytes the next step consumes and whether they are
  valid.\<close>

definition is_cont :: "bytes \<Rightarrow> nat \<Rightarrow> bool" where
  "is_cont s i \<longleftrightarrow> i < length s \<and> s ! i AND 192 = 128"

definition in_rng :: "bytes \<Rightarrow> nat \<Rightarrow> u8 \<Rightarrow> u8 \<Rightarrow> bool" where
  "in_rng s i lo hi \<longleftrightarrow> i < length s \<and> lo \<le> s ! i \<and> s ! i \<le> hi"

definition utf8_step :: "u8 \<Rightarrow> bytes \<Rightarrow> nat \<times> bool" where
  "utf8_step b r =
    (if b < 128 then (1, True)
     else if 0xC2 \<le> b \<and> b \<le> 0xDF then (if is_cont r 0 then (2, True) else (1, False))
     else if 0xE0 \<le> b \<and> b \<le> 0xEF then
       (if \<not> (if b = 0xE0 then in_rng r 0 0xA0 0xBF else if b = 0xED then in_rng r 0 0x80 0x9F
               else in_rng r 0 0x80 0xBF) then (1, False)
        else if \<not> is_cont r 1 then (2, False) else (3, True))
     else if 0xF0 \<le> b \<and> b \<le> 0xF4 then
       (if \<not> (if b = 0xF0 then in_rng r 0 0x90 0xBF else if b = 0xF4 then in_rng r 0 0x80 0x8F
               else in_rng r 0 0x80 0xBF) then (1, False)
        else if \<not> is_cont r 1 then (2, False)
        else if \<not> is_cont r 2 then (3, False) else (4, True))
     else (1, False))"

function utf8_lossy :: "bytes \<Rightarrow> bytes" where
  "utf8_lossy [] = []"
| "utf8_lossy (b # r) =
    (case utf8_step b r of
       (n, ok) \<Rightarrow> (if ok then take n (b # r) else [0xEF, 0xBF, 0xBD]) @ utf8_lossy (drop (n - 1) r))"
  by pat_completeness auto
termination by (relation "measure length") auto

definition guest_card_name :: "bytes \<Rightarrow> profile \<Rightarrow> name_format \<Rightarrow> bytes" where
  "guest_card_name real p f =
    guest_name_within \<lparr> gs_transport = Virtio, gs_personality = from_driver_name real,
       gs_profile = nprofile_from_fb_bytes (pf_fb_length p), gs_backend = OpenRm \<rparr> f (abi_name_max abi_v615)"

definition rewrite_gpu_name :: "name_format \<Rightarrow> bytes \<Rightarrow> profile \<Rightarrow> (bytes \<times> bytes) option" where
  "rewrite_gpu_name f aux p =
    (let off = abi_name_off abi_v615; mx = abi_name_max abi_v615 in
     if length aux < off + mx then None
     else
       (let raw = subslice off mx aux;
            name = guest_card_name (utf8_lossy (takeWhile (\<lambda>c. c \<noteq> 0) raw)) p f;
            n = min (length name) (mx - 1) in
        Some (write_at (write_at aux off (take n name)) (off + n) (replicate (mx - n) 0), name)))"

section \<open>Ioctl numbers read back\<close>

lemma bit_small: "(x :: u32) < 2 ^ n \<Longrightarrow> n \<le> k \<Longrightarrow> \<not> bit x k"
proof
  assume x: "x < 2 ^ n" and k: "n \<le> k" "bit x k"
  have "x AND mask n = x" using x by (rule less_mask_eq)
  then have "bit (x AND mask n) k" using k by simp
  then show False using k by (simp add: bit_simps)
qed

lemma ioc_fields:
  assumes "nr < 2 ^ 8" "ty < 2 ^ 8" "sz < 2 ^ 14"
  shows "ioc_nr (ioc dir ty nr sz) = nr" "ioc_size (ioc dir ty nr sz) = sz" "ioc_type (ioc dir ty nr sz) = ty"
proof -
  note small = bit_small [OF assms(1)] bit_small [OF assms(2)] bit_small [OF assms(3)]
  show "ioc_nr (ioc dir ty nr sz) = nr"
    by (rule bit_word_eqI) (use small in \<open>auto simp: ioc_nr_def ioc_def bit_simps not_le [symmetric]\<close>)
  show "ioc_size (ioc dir ty nr sz) = sz"
    by (rule bit_word_eqI) (use small in \<open>auto simp: ioc_size_def ioc_def bit_simps not_le [symmetric]\<close>)
  show "ioc_type (ioc dir ty nr sz) = ty"
    by (rule bit_word_eqI) (use small in \<open>auto simp: ioc_type_def ioc_def bit_simps not_le [symmetric]\<close>)
qed

text \<open>A frontend request number carries its escape, its type and its size apart: for every
  escape below 256 and size below 16 KiB the three decoders read back what was encoded, so the
  number names the NVIDIA frontend and the driver sees exactly the validated length.\<close>

theorem ioctl_number_roundtrip:
  assumes "nr < 256" "sz < 0x4000"
  shows "ioc_nr (iowr_raw nr sz) = nr \<and> ioc_size (iowr_raw nr sz) = sz \<and> is_nv_cmd (iowr_raw nr sz)"
  using ioc_fields [of nr NV_IOCTL_MAGIC sz 3] assms by (simp add: iowr_raw_def is_nv_cmd_def NV_IOCTL_MAGIC_def)

theorem ioctl_number_roundtrip_witness:
  "iowr_raw 42 32 = 0xC020462A \<and> ioc_nr 0xC020462A = 42 \<and> ioc_size 0xC020462A = 32"
proof -
  have e: "iowr_raw 42 32 = 0xC020462A" by code_simp
  show ?thesis using ioctl_number_roundtrip [of 42 32] by (simp add: e)
qed

section \<open>Exchange\<close>

lemma length_swap_at [simp]:
  "length old = length new \<Longrightarrow> 4 * i + length old \<le> length buf \<Longrightarrow> length (swap_at old new i buf) = length buf"
  by (simp add: swap_at_def)

lemma swap_count_bound: "i < swap_count old buf \<longleftrightarrow> 4 * i + length old \<le> length buf"
  by (auto simp: swap_count_def)

text \<open>Writing \<^verbatim>\<open>new\<close> over part of an aligned window cannot make that window read \<^verbatim>\<open>old\<close>, nor may
  the values be equal.\<close>

definition no_overlap :: "bytes \<Rightarrow> bytes \<Rightarrow> bool" where
  "no_overlap old new \<longleftrightarrow>
    list_all (\<lambda>k. drop (4 * k) old \<noteq> take (length old - 4 * k) new) [0..<(length old + 3) div 4]"

lemma no_overlapD: "no_overlap old new \<Longrightarrow> 4 * k < length old \<Longrightarrow> drop (4 * k) old \<noteq> take (length old - 4 * k) new"
  by (auto simp: no_overlap_def list_all_iff)

lemma swap_at_clean:
  assumes len: "length old = length new" "0 < length old" and no: "no_overlap old new"
    and i: "4 * i + length old \<le> length buf"
    and clean: "\<And>j. j < i \<Longrightarrow> subslice (4 * j) (length old) buf \<noteq> old" and j: "j \<le> i"
  shows "subslice (4 * j) (length old) (swap_at old new i buf) \<noteq> old"
proof (cases "subslice (4 * i) (length old) buf = old")
  case False
  then show ?thesis using clean [of j] j by (cases "j = i") (simp_all add: swap_at_def)
next
  case True
  then have w: "swap_at old new i buf = write_at buf (4 * i) new" by (simp add: swap_at_def)
  let ?k = "i - j"
  show ?thesis
  proof (cases "4 * ?k < length old")
    case False
    then have "subslice (4 * j) (length old) (write_at buf (4 * i) new) = subslice (4 * j) (length old) buf"
      using len i j by (intro slice_write_at_before) auto
    then show ?thesis unfolding w using clean [of j] False j len by (cases "j = i") auto
  next
    case k: True
    show ?thesis
    proof
      assume eq: "subslice (4 * j) (length old) (swap_at old new i buf) = old"
      have "drop (4 * ?k) old = take (length old - 4 * ?k) new"
      proof (rule nth_equalityI)
        show "length (drop (4 * ?k) old) = length (take (length old - 4 * ?k) new)" using len by simp
        fix m assume m: "m < length (drop (4 * ?k) old)"
        have p: "4 * ?k + m < length old" and e: "4 * j + (4 * ?k + m) = 4 * i + m" using m j by auto
        have "4 * j + (4 * ?k + m) < length (write_at buf (4 * i) new)" unfolding e using p i len(1) by simp
        then have "old ! (4 * ?k + m) = write_at buf (4 * i) new ! (4 * j + (4 * ?k + m))"
          using eq w p nth_slice [of "4 * ?k + m" "length old" "4 * j" "write_at buf (4 * i) new"] by simp
        also have "\<dots> = write_at buf (4 * i) new ! (4 * i + m)" unfolding e ..
        also have "\<dots> = new ! m" using p i len(1) by (subst nth_write_at) auto
        finally show "drop (4 * ?k) old ! m = take (length old - 4 * ?k) new ! m" using p m by simp
      qed
      then show False using no_overlapD [OF no k] by simp
    qed
  qed
qed

lemma swap_prefix:
  assumes len: "length old = length new" "0 < length old" and no: "no_overlap old new" and m: "m \<le> swap_count old buf"
  shows "length (fold (swap_at old new) [0..<m] buf) = length buf \<and>
    (\<forall>j < m. subslice (4 * j) (length old) (fold (swap_at old new) [0..<m] buf) \<noteq> old)"
  using m
proof (induction m)
  case (Suc m)
  let ?b = "fold (swap_at old new) [0..<m] buf"
  have ih: "length ?b = length buf" "\<And>j. j < m \<Longrightarrow> subslice (4 * j) (length old) ?b \<noteq> old"
    using Suc by auto
  have m: "4 * m + length old \<le> length ?b" using Suc.prems ih(1) swap_count_bound [of m old buf] by simp
  show ?case using swap_at_clean [OF len no m ih(2)] m len ih(1) by (auto simp: less_Suc_eq_le)
qed simp

lemma length_swap [simp]:
  assumes "length old = length new"
  shows "length (swap buf old new) = length buf"
proof -
  have "m \<le> swap_count old buf \<Longrightarrow> length (fold (swap_at old new) [0..<m] buf) = length buf" for m
  proof (induction m)
    case (Suc m)
    then show ?case using assms swap_count_bound [of m old buf] by simp
  qed simp
  then show ?thesis by (simp add: swap_def)
qed

lemma swap_clean:
  assumes "length old = length new" "0 < length old" "no_overlap old new"
  shows "subslice (4 * j) (length old) (swap buf old new) \<noteq> old"
proof (cases "j < swap_count old buf")
  case True
  then show ?thesis using swap_prefix [OF assms order_refl, of buf] by (simp add: swap_def)
next
  case False
  then have "length (subslice (4 * j) (length old) (swap buf old new)) < length old"
    using assms swap_count_bound [of j old buf] by (simp; arith)
  then show ?thesis by (metis less_irrefl)
qed

text \<open>Writing \<^verbatim>\<open>new\<close> anywhere cannot create an aligned \<^verbatim>\<open>pat\<close>: wherever an aligned window meets
  the written bytes, they differ on the common part.\<close>

definition clash_free :: "bytes \<Rightarrow> bytes \<Rightarrow> bool" where
  "clash_free pat new \<longleftrightarrow>
    list_all (\<lambda>k. \<exists>m < length pat - 4 * k. m < length new \<and> pat ! (4 * k + m) \<noteq> new ! m) [0..<(length pat + 3) div 4] \<and>
    list_all (\<lambda>k. \<exists>m < length new - 4 * k. m < length pat \<and> pat ! m \<noteq> new ! (4 * k + m)) [0..<(length new + 3) div 4]"

lemma clash_freeD:
  assumes "clash_free pat new"
  shows "4 * k < length pat \<Longrightarrow> \<exists>m < length pat - 4 * k. m < length new \<and> pat ! (4 * k + m) \<noteq> new ! m"
    and "4 * k < length new \<Longrightarrow> \<exists>m < length new - 4 * k. m < length pat \<and> pat ! m \<noteq> new ! (4 * k + m)"
proof -
  have in_range: "4 * k < n \<Longrightarrow> k \<in> set [0..<(n + 3) div 4]" for n :: nat by simp
  show "4 * k < length pat \<Longrightarrow> \<exists>m < length pat - 4 * k. m < length new \<and> pat ! (4 * k + m) \<noteq> new ! m"
    using assms in_range [of "length pat"] unfolding clash_free_def list_all_iff by blast
  show "4 * k < length new \<Longrightarrow> \<exists>m < length new - 4 * k. m < length pat \<and> pat ! m \<noteq> new ! (4 * k + m)"
    using assms in_range [of "length new"] unfolding clash_free_def list_all_iff by blast
qed

lemma swap_at_keeps:
  assumes len: "length old = length new" "4 * i + length old \<le> length buf" and cf: "clash_free pat new"
    and absent: "subslice (4 * j) (length pat) buf \<noteq> pat"
  shows "subslice (4 * j) (length pat) (swap_at old new i buf) \<noteq> pat"
proof (cases "subslice (4 * i) (length old) buf = old \<and> 4 * j + length pat \<le> length buf")
  case False
  have ne: "pat \<noteq> []" using absent by (auto simp: subslice_def)
  have "subslice (4 * j) (length pat) b \<noteq> pat" if "\<not> 4 * j + length pat \<le> length b" for b
  proof
    assume e: "subslice (4 * j) (length pat) b = pat"
    have "length (subslice (4 * j) (length pat) b) = length pat" using e by simp
    then show False using that ne by (cases pat) auto
  qed
  then show ?thesis using False absent len by (auto simp: swap_at_def)
next
  case True
  let ?b = "write_at buf (4 * i) new"
  have w: "swap_at old new i buf = ?b" using True by (simp add: swap_at_def)
  have n: "?b ! p = (if 4 * i \<le> p \<and> p < 4 * i + length new then new ! (p - 4 * i) else buf ! p)"
    if "p < length buf" for p using nth_write_at [of "4 * i" new buf p] len that by simp
  show ?thesis
  proof
    assume "subslice (4 * j) (length pat) (swap_at old new i buf) = pat"
    then have eq: "pat ! m = ?b ! (4 * j + m)" if "m < length pat" for m
      using nth_slice [of m "length pat" "4 * j" ?b] that True len w by simp
    show False
    proof (cases "j \<le> i")
      case ji: True
      show False
      proof (cases "4 * (i - j) < length pat")
        case True
        then obtain m where m: "m < length pat - 4 * (i - j)" "m < length new" "pat ! (4 * (i - j) + m) \<noteq> new ! m"
          using clash_freeD(1) [OF cf] by blast
        have at: "4 * j + (4 * (i - j) + m) = 4 * i + m" using ji by simp
        have "pat ! (4 * (i - j) + m) = new ! m"
          using eq [of "4 * (i - j) + m", unfolded at] n [of "4 * i + m"] m(1,2) len by simp
        then show False using m(3) by simp
      next
        case far: False
        have "subslice (4 * j) (length pat) ?b = subslice (4 * j) (length pat) buf"
          using len far ji by (intro slice_write_at_before) auto
        then show False using absent eq \<open>subslice (4 * j) (length pat) (swap_at old new i buf) = pat\<close> w by simp
      qed
    next
      case ij: False
      show False
      proof (cases "4 * (j - i) < length new")
        case True
        then obtain m where m: "m < length new - 4 * (j - i)" "m < length pat" "pat ! m \<noteq> new ! (4 * (j - i) + m)"
          using clash_freeD(2) [OF cf] by blast
        have at: "4 * j + m = 4 * i + (4 * (j - i) + m)" using ij by simp
        have in_new: "4 * (j - i) + m < length new" using m(1) by simp
        then have "4 * i + (4 * (j - i) + m) < length buf" using len by simp
        then have "pat ! m = new ! (4 * (j - i) + m)"
          using eq [of m, unfolded at] n [of "4 * i + (4 * (j - i) + m)"] in_new m(2) by simp
        then show False using m(3) by simp
      next
        case far: False
        have "subslice (4 * j) (length pat) ?b = subslice (4 * j) (length pat) buf"
          using len far ij by (intro slice_write_at_after) auto
        then show False using absent \<open>subslice (4 * j) (length pat) (swap_at old new i buf) = pat\<close> w by simp
      qed
    qed
  qed
qed

lemma swap_keeps:
  assumes len: "length old = length new" and cf: "clash_free pat new"
    and absent: "\<And>j. subslice (4 * j) (length pat) buf \<noteq> pat"
  shows "subslice (4 * j) (length pat) (swap buf old new) \<noteq> pat"
proof -
  have "m \<le> swap_count old buf \<Longrightarrow> length (fold (swap_at old new) [0..<m] buf) = length buf \<and>
      (\<forall>j. subslice (4 * j) (length pat) (fold (swap_at old new) [0..<m] buf) \<noteq> pat)" for m
  proof (induction m)
    case (Suc m)
    then show ?case using len swap_count_bound [of m old buf] swap_at_keeps [OF len _ cf] by simp
  qed (use absent in simp)
  then show ?thesis by (simp add: swap_def)
qed

section \<open>Claims\<close>

definition uuid_safe :: "card \<Rightarrow> bool" where
  "uuid_safe c \<longleftrightarrow> no_overlap (cd_host c) (cd_guest c) \<and>
     no_overlap (fst (cd_ascii c)) (snd (cd_ascii c)) \<and> clash_free (cd_host c) (snd (cd_ascii c))"

lemma length_hex [simp]: "length (hex bs) = 2 * length bs"
  by (induction bs) (simp_all add: hex_def)

lemma length_format_uuid [simp]: "length u = 16 \<Longrightarrow> length (format_uuid u) = 40"
  by (simp add: format_uuid_def)

lemma length_vm_uuid [simp]: "length (vm_uuid name) = 16"
  by (simp add: vm_uuid_def Let_def u64_to_be_def)


definition sample_host :: bytes where
  "sample_host = [0x3f, 0x11, 0x9a, 0xc2, 0x77, 0x01, 0x55, 0x10, 0xa4, 0x02, 0x6d, 0x88, 0x19, 0xee, 0xb0, 0x7c]"

definition sample_card :: card where
  "sample_card = card_new (ascii ''/run/vm1/nvrm.sock'') sample_host 8589934592"

lemma sample_card_safe: "length sample_host = 16 \<and> uuid_safe sample_card"
  by code_simp


section \<open>Name rewrite\<close>

lemma guest_name_within_bound: "12 \<le> mx \<Longrightarrow> length (guest_name_within sp f mx) < mx"
  by (simp add: guest_name_within_def NAME_FALLBACK_def)

lemma guest_name_within_platform: "take 7 (guest_name_within sp f mx) = PLATFORM"
  by (cases f) (simp_all add: guest_name_within_def guest_name_def head_of_def PLATFORM_def NAME_FALLBACK_def ascii_def)

text \<open>The card-name answer is rewritten exactly: the 64-byte name field holds a Leandro name
  followed by zeros to its end (so it is always terminated, and nothing of the driver's own
  string is left behind), and every byte outside the field is the driver's.\<close>

theorem name_field_exact:
  assumes "rewrite_gpu_name f aux p = Some (aux', name)"
  shows "length aux' = length aux \<and> length name < 64 \<and> take 7 name = PLATFORM \<and>
    subslice 4 64 aux' = name @ replicate (64 - length name) 0 \<and>
    (\<forall>k < length aux. k < 4 \<or> 68 \<le> k \<longrightarrow> aux' ! k = aux ! k)"
proof -
  have lim: "abi_name_off abi_v615 = 4" "abi_name_max abi_v615 = 64" by (simp_all add: abi_v615_def)
  define real where "real = utf8_lossy (takeWhile (\<lambda>c. c \<noteq> 0) (subslice 4 64 aux))"
  have len: "68 \<le> length aux" and nm: "name = guest_card_name real p f"
    and aux': "aux' = write_at (write_at aux 4 (take (min (length name) 63) name)) (4 + min (length name) 63)
      (replicate (64 - min (length name) 63) 0)"
    using assms by (auto simp: rewrite_gpu_name_def lim Let_def real_def split: if_splits)
  have n: "length name < 64" "take 7 name = PLATFORM"
    by (simp_all add: nm guest_card_name_def lim guest_name_within_bound guest_name_within_platform)
  then have w: "aux' = write_at (write_at aux 4 name) (4 + length name) (replicate (64 - length name) 0)"
    using aux' by simp
  have inner: "length (write_at aux 4 name) = length aux" using n len by simp
  have "subslice 4 (length name) aux' = name"
    unfolding w using n len inner by (simp add: slice_simps)
  moreover have "subslice (4 + length name) (64 - length name) aux' = replicate (64 - length name) 0"
    unfolding w using n len inner by (simp add: slice_simps)
  ultimately have "subslice 4 64 aux' = name @ replicate (64 - length name) 0"
    using slice_join [of "4 + length name" 4 "length name" aux' "64 - length name"] n(1) by simp
  moreover have "aux' ! k = aux ! k" if "k < length aux" "k < 4 \<or> 68 \<le> k" for k
    unfolding w using that n len inner by (subst nth_write_at, simp, simp, subst nth_write_at) auto
  ultimately show ?thesis using n inner len w by simp
qed

definition sample_name_aux :: bytes where
  "sample_name_aux = replicate 4 7 @ ascii ''NVIDIA GeForce RTX 2070'' @ replicate 41 0 @ [9]"

theorem name_field_exact_witness:
  "\<exists>aux'. rewrite_gpu_name TransportFormat sample_name_aux (profile_OFF\<lparr> pf_fb_length := 4294967296 \<rparr>)
       = Some (aux', ascii ''Leandro VirtIO RTX 2070-4G'') \<and>
     subslice 4 64 aux' = ascii ''Leandro VirtIO RTX 2070-4G'' @ replicate 38 0 \<and> aux' ! 68 = 9"
proof -
  have "map_option snd (rewrite_gpu_name TransportFormat sample_name_aux (profile_OFF\<lparr> pf_fb_length := 4294967296 \<rparr>))
      = Some (ascii ''Leandro VirtIO RTX 2070-4G'')" by code_simp
  then obtain aux' where a: "rewrite_gpu_name TransportFormat sample_name_aux (profile_OFF\<lparr> pf_fb_length := 4294967296 \<rparr>)
      = Some (aux', ascii ''Leandro VirtIO RTX 2070-4G'')" by (auto simp: map_option_case split: option.splits)
  have "length sample_name_aux = 69 \<and> sample_name_aux ! 68 = 9" by code_simp
  then show ?thesis using name_field_exact [OF a] a by (intro exI [of _ aux']) simp
qed

text \<open>The attribution block always leaves its name terminated.\<close>

lemma sub_process_name_terminated:
  "length (sub_process_id_params sub_id name) = 104 \<and> rd32 (sub_process_id_params sub_id name) 0 = sub_id \<and>
   sub_process_id_params sub_id name ! 103 = 0"
proof -
  let ?b = "wr32 (replicate 104 0) 0 sub_id" and ?t = "take (min (length name) 99) name"
  have p: "sub_process_id_params sub_id name = write_at ?b 4 ?t"
    by (simp add: sub_process_id_params_def SHARE_NAME_MAX_def Let_def)
  have l: "length ?b = 104" "length ?t \<le> 99" by simp_all
  have "rd32 (write_at ?b 4 ?t) 0 = rd32 ?b 0"
    using l by (intro rd32_cong) (auto simp: nth_write_at)
  moreover have "write_at ?b 4 ?t ! 103 = 0" using l by (subst nth_write_at) (auto simp: nth_wr32)
  ultimately show ?thesis unfolding p using l by (simp add: slice_simps)
qed

end
