(* ===== verification/Effects.thy ===== *)
theory Effects
  imports Nvrm_Prelude
begin

text \<open>
  Stateful code with early returns and panics.  A computation takes a state and ends in one
  of three ways: it panics (\<^verbatim>\<open>None\<close>), it returns early with an error, or it returns a value;
  in the last two the state is the one it left behind.  \<^verbatim>\<open>wp m Q s\<close> says that \<^verbatim>\<open>m\<close> does not
  panic from \<^verbatim>\<open>s\<close> and that its outcome satisfies \<^verbatim>\<open>Q\<close>; the rules below reduce it along the
  structure of \<^verbatim>\<open>m\<close>.
\<close>

type_synonym ('s, 'e, 'a) em = "'s \<Rightarrow> (('e + 'a) \<times> 's) option"

named_theorems wp_simps \<open>weakest preconditions of the basic computations\<close>

definition ret :: "'a \<Rightarrow> ('s, 'e, 'a) em" where "ret a s = Some (Inr a, s)"
definition fail :: "'e \<Rightarrow> ('s, 'e, 'a) em" where "fail e s = Some (Inl e, s)"
definition panic :: "('s, 'e, 'a) em" where "panic s = None"
definition getm :: "('s \<Rightarrow> 'a) \<Rightarrow> ('s, 'e, 'a) em" where "getm f s = Some (Inr (f s), s)"
definition modm :: "('s \<Rightarrow> 's) \<Rightarrow> ('s, 'e, unit) em" where "modm f s = Some (Inr (), f s)"
definition stepm :: "('s \<Rightarrow> 'a \<times> 's) \<Rightarrow> ('s, 'e, 'a) em" where
  "stepm f s = (case f s of (a, s') \<Rightarrow> Some (Inr a, s'))"

definition bindm :: "('s, 'e, 'a) em \<Rightarrow> ('a \<Rightarrow> ('s, 'e, 'b) em) \<Rightarrow> ('s, 'e, 'b) em" where
  "bindm m f s =
    (case m s of
       None \<Rightarrow> None
     | Some (Inl e, s') \<Rightarrow> Some (Inl e, s')
     | Some (Inr a, s') \<Rightarrow> f a s')"

definition seqm :: "('s, 'e, 'a) em \<Rightarrow> ('s, 'e, 'b) em \<Rightarrow> ('s, 'e, 'b) em" where
  "seqm m k = bindm m (\<lambda>_. k)"

definition whenm :: "bool \<Rightarrow> ('s, 'e, unit) em \<Rightarrow> ('s, 'e, unit) em" where
  "whenm c m = (if c then m else ret ())"

definition refuse :: "bool \<Rightarrow> 'e \<Rightarrow> ('s, 'e, unit) em" where
  "refuse c e = (if c then fail e else ret ())"

definition assertm :: "bool \<Rightarrow> ('s, 'e, unit) em" where
  "assertm c = (if c then ret () else panic)"

text \<open>A local value with a destructor: \<^verbatim>\<open>dropm c m\<close> runs \<^verbatim>\<open>c\<close> when \<^verbatim>\<open>m\<close> returns early.\<close>

definition dropm :: "('s \<Rightarrow> 's) \<Rightarrow> ('s, 'e, 'a) em \<Rightarrow> ('s, 'e, 'a) em" where
  "dropm c m s =
    (case m s of
       None \<Rightarrow> None
     | Some (Inl e, s') \<Rightarrow> Some (Inl e, c s')
     | Some (Inr a, s') \<Rightarrow> Some (Inr a, s'))"

fun foldm :: "('x \<Rightarrow> 'a \<Rightarrow> ('s, 'e, 'a) em) \<Rightarrow> 'x list \<Rightarrow> 'a \<Rightarrow> ('s, 'e, 'a) em" where
  "foldm f [] a = ret a"
| "foldm f (x # xs) a = bindm (f x a) (foldm f xs)"

text \<open>Slices of a buffer, with the panic of the source out of range.\<close>

definition rd32m :: "bytes \<Rightarrow> nat \<Rightarrow> ('s, 'e, u32) em" where
  "rd32m b off = (if off + 4 \<le> length b then ret (rd32 b off) else panic)"

definition rd64m :: "bytes \<Rightarrow> nat \<Rightarrow> ('s, 'e, u64) em" where
  "rd64m b off = (if off + 8 \<le> length b then ret (rd64 b off) else panic)"

definition wp :: "('s, 'e, 'a) em \<Rightarrow> ('e + 'a \<Rightarrow> 's \<Rightarrow> bool) \<Rightarrow> 's \<Rightarrow> bool" where
  "wp m Q s \<longleftrightarrow> (case m s of None \<Rightarrow> False | Some (r, s') \<Rightarrow> Q r s')"

text \<open>What follows a computation: early returns skip the rest.\<close>

definition andthen :: "('a \<Rightarrow> ('s, 'e, 'b) em) \<Rightarrow> ('e + 'b \<Rightarrow> 's \<Rightarrow> bool) \<Rightarrow> 'e + 'a \<Rightarrow> 's \<Rightarrow> bool" where
  "andthen f Q r s = (case r of Inl e \<Rightarrow> Q (Inl e) s | Inr a \<Rightarrow> wp (f a) Q s)"

lemma andthen_simps [simp]:
  "andthen f Q (Inl e) s = Q (Inl e) s" "andthen f Q (Inr a) s = wp (f a) Q s"
  by (simp_all add: andthen_def)

lemma wp_ret [wp_simps]: "wp (ret a) Q s \<longleftrightarrow> Q (Inr a) s"
  by (simp add: wp_def ret_def)

lemma wp_fail [wp_simps]: "wp (fail e) Q s \<longleftrightarrow> Q (Inl e) s"
  by (simp add: wp_def fail_def)

lemma wp_getm [wp_simps]: "wp (getm g) Q s \<longleftrightarrow> Q (Inr (g s)) s"
  by (simp add: wp_def getm_def)

lemma wp_modm [wp_simps]: "wp (modm f) Q s \<longleftrightarrow> Q (Inr ()) (f s)"
  by (simp add: wp_def modm_def)

lemma wp_panic [wp_simps]: "\<not> wp panic Q s"
  by (simp add: wp_def panic_def)

lemma wp_stepm [wp_simps]: "wp (stepm f) Q s \<longleftrightarrow> Q (Inr (fst (f s))) (snd (f s))"
  by (simp add: wp_def stepm_def split: prod.splits)

lemma wp_bindm [wp_simps]: "wp (bindm m f) Q s \<longleftrightarrow> wp m (andthen f Q) s"
  by (auto simp: wp_def bindm_def andthen_def split: option.splits sum.splits prod.splits)

lemma wp_seqm [wp_simps]: "wp (seqm m k) Q s \<longleftrightarrow> wp m (andthen (\<lambda>_. k) Q) s"
  by (simp add: seqm_def wp_bindm)

lemma wp_whenm [wp_simps]: "wp (whenm c m) Q s \<longleftrightarrow> (if c then wp m Q s else Q (Inr ()) s)"
  by (simp add: whenm_def wp_simps)

lemma wp_refuse [wp_simps]: "wp (refuse c e) Q s \<longleftrightarrow> (if c then Q (Inl e) s else Q (Inr ()) s)"
  by (simp add: refuse_def wp_simps)

lemma wp_assertm [wp_simps]: "wp (assertm c) Q s \<longleftrightarrow> c \<and> Q (Inr ()) s"
  by (simp add: assertm_def wp_simps)

lemma wp_dropm [wp_simps]:
  "wp (dropm c m) Q s \<longleftrightarrow> wp m (\<lambda>r s'. case r of Inl e \<Rightarrow> Q (Inl e) (c s') | Inr a \<Rightarrow> Q (Inr a) s') s"
  by (auto simp: wp_def dropm_def split: option.splits sum.splits prod.splits)

lemma wp_rd [wp_simps]:
  "wp (rd32m b off) Q s \<longleftrightarrow> off + 4 \<le> length b \<and> Q (Inr (rd32 b off)) s"
  "wp (rd64m b off) R s \<longleftrightarrow> off + 8 \<le> length b \<and> R (Inr (rd64 b off)) s"
  by (simp_all add: rd32m_def rd64m_def wp_simps)

lemma wp_if [wp_simps]: "wp (if c then m else k) Q s \<longleftrightarrow> (if c then wp m Q s else wp k Q s)"
  by simp

lemma wp_mono: "wp m Q s \<Longrightarrow> (\<And>r s'. Q r s' \<Longrightarrow> R r s') \<Longrightarrow> wp m R s"
  by (auto simp: wp_def split: option.splits)

lemma wp_conj: "wp m Q s \<Longrightarrow> wp m R s \<Longrightarrow> wp m (\<lambda>r s'. Q r s' \<and> R r s') s"
  by (auto simp: wp_def split: option.splits)

lemma wp_Some: "wp m Q s \<longleftrightarrow> (\<exists>r s'. m s = Some (r, s') \<and> Q r s')"
  by (auto simp: wp_def split: option.splits)

text \<open>An invariant carried through a loop.\<close>

lemma wp_foldm:
  assumes "I a s" "\<And>x a s. x \<in> set xs \<Longrightarrow> I a s \<Longrightarrow> wp (f x a) (\<lambda>r s'. case r of Inl e \<Rightarrow> Q (Inl e) s' | Inr a' \<Rightarrow> I a' s') s"
    and "\<And>a s. I a s \<Longrightarrow> Q (Inr a) s"
  shows "wp (foldm f xs a) Q s"
  using assms(1,2)
proof (induction xs arbitrary: a s)
  case Nil
  then show ?case by (simp add: wp_simps assms(3))
next
  case (Cons x xs)
  have "wp (f x a) (\<lambda>r s'. case r of Inl e \<Rightarrow> Q (Inl e) s' | Inr a' \<Rightarrow> I a' s') s" using Cons.prems by simp
  then have "wp (f x a) (andthen (foldm f xs) Q) s"
    by (rule wp_mono) (use Cons.IH Cons.prems in \<open>auto simp: andthen_def split: sum.splits\<close>)
  then show ?case by (simp add: wp_simps)
qed

section \<open>Preservation\<close>

text \<open>\<^verbatim>\<open>keeps g c\<close> says that \<^verbatim>\<open>c\<close> leaves \<^verbatim>\<open>g\<close> alone, \<^verbatim>\<open>nofail c\<close> that it does not return early, and
  \<^verbatim>\<open>tri I c E J\<close> that from \<^verbatim>\<open>I\<close> an early return ends in \<^verbatim>\<open>E\<close> and a value in \<^verbatim>\<open>J\<close>.\<close>

definition keeps :: "('s \<Rightarrow> 'c) \<Rightarrow> ('s, 'e, 'a) em \<Rightarrow> bool" where
  "keeps g c \<longleftrightarrow> (\<forall>s r s'. c s = Some (r, s') \<longrightarrow> g s' = g s)"

definition nofail :: "('s, 'e, 'a) em \<Rightarrow> bool" where
  "nofail c \<longleftrightarrow> (\<forall>s e s'. c s \<noteq> Some (Inl e, s'))"

named_theorems keeps_rules \<open>computations that leave the shared parts alone\<close>
named_theorems nofail_rules \<open>computations that do not return early\<close>

lemma keeps_basic [keeps_rules]:
  "keeps g (ret a)" "keeps g (fail e)" "keeps g (getm q)" "keeps g (refuse b e)" "keeps g (assertm b)"
  "keeps g (rd32m bs off)" "keeps g (rd64m bs off)"
  by (auto simp: keeps_def ret_def fail_def getm_def refuse_def assertm_def panic_def rd32m_def rd64m_def)

lemma keeps_modm [keeps_rules]: "(\<And>s. g (f s) = g s) \<Longrightarrow> keeps g (modm f)"
  by (simp add: keeps_def modm_def)

lemma keeps_stepm [keeps_rules]: "(\<And>s. g (snd (f s)) = g s) \<Longrightarrow> keeps g (stepm f)"
  by (auto simp: keeps_def stepm_def split: prod.splits) (metis snd_conv)

lemma keeps_bindm [keeps_rules]: "keeps g c \<Longrightarrow> (\<And>a. keeps g (f a)) \<Longrightarrow> keeps g (bindm c f)"
  unfolding keeps_def bindm_def by (fastforce split: option.splits sum.splits prod.splits)

lemma keeps_seqm [keeps_rules]: "keeps g c \<Longrightarrow> keeps g d \<Longrightarrow> keeps g (seqm c d)"
  by (simp add: seqm_def keeps_bindm)

lemma keeps_dropm: "keeps g c \<Longrightarrow> (\<And>s. g (d s) = g s) \<Longrightarrow> keeps g (dropm d c)"
  unfolding keeps_def dropm_def by (fastforce split: option.splits sum.splits prod.splits)

lemma keeps_whenm [keeps_rules]: "keeps g c \<Longrightarrow> keeps g (whenm b c)"
  by (simp add: whenm_def keeps_basic)

lemma keeps_cases [keeps_rules]:
  "(b \<Longrightarrow> keeps g c) \<Longrightarrow> (\<not> b \<Longrightarrow> keeps g d) \<Longrightarrow> keeps g (if b then c else d)"
  "keeps g c \<Longrightarrow> (\<And>y. keeps g (h y)) \<Longrightarrow> keeps g (case x of None \<Rightarrow> c | Some y \<Rightarrow> h y)"
  "(\<And>a b. keeps g (k a b)) \<Longrightarrow> keeps g (case p of (a, b) \<Rightarrow> k a b)"
  "(\<And>y. keeps g (u y)) \<Longrightarrow> (\<And>y. keeps g (w y)) \<Longrightarrow> keeps g (case z of Inl y \<Rightarrow> u y | Inr y \<Rightarrow> w y)"
  "keeps g c \<Longrightarrow> (\<And>y ys. keeps g (q y ys)) \<Longrightarrow> keeps g (case l of [] \<Rightarrow> c | y # ys \<Rightarrow> q y ys)"
  by (auto split: option.split prod.split sum.split list.split)

lemma keeps_foldm: "(\<And>x a. keeps g (f x a)) \<Longrightarrow> keeps g (foldm f xs a)"
  by (induction xs arbitrary: a) (simp_all add: keeps_basic keeps_bindm)

lemma nofail_basic [nofail_rules]:
  "nofail (ret a)" "nofail (getm g)" "nofail (modm f)" "nofail (stepm h)" "nofail (assertm c)"
  "nofail (rd32m b off)" "nofail (rd64m b off)"
  by (auto simp: nofail_def ret_def getm_def modm_def stepm_def assertm_def panic_def rd32m_def rd64m_def split: prod.splits)

lemma nofail_bindm [nofail_rules]: "nofail c \<Longrightarrow> (\<And>a. nofail (f a)) \<Longrightarrow> nofail (bindm c f)"
  unfolding nofail_def bindm_def by (fastforce split: option.splits sum.splits prod.splits)

lemma nofail_seqm [nofail_rules]: "nofail c \<Longrightarrow> nofail d \<Longrightarrow> nofail (seqm c d)"
  by (simp add: seqm_def nofail_bindm)

lemma nofail_cases [nofail_rules]:
  "nofail c \<Longrightarrow> nofail d \<Longrightarrow> nofail (if b then c else d)"
  "nofail c \<Longrightarrow> (\<And>y. nofail (h y)) \<Longrightarrow> nofail (case x of None \<Rightarrow> c | Some y \<Rightarrow> h y)"
  "(\<And>a b. nofail (k a b)) \<Longrightarrow> nofail (case p of (a, b) \<Rightarrow> k a b)"
  by (auto split: option.split prod.split)

section \<open>Triples\<close>

definition tri :: "('s \<Rightarrow> bool) \<Rightarrow> ('s, 'e, 'a) em \<Rightarrow> ('s \<Rightarrow> bool) \<Rightarrow> ('a \<Rightarrow> 's \<Rightarrow> bool) \<Rightarrow> bool" where
  "tri I c E J \<longleftrightarrow> (\<forall>s r s'. c s = Some (r, s') \<longrightarrow> I s \<longrightarrow> (case r of Inl e \<Rightarrow> E s' | Inr a \<Rightarrow> J a s'))"

lemma tri_ret: "(\<And>s. I s \<Longrightarrow> J a s) \<Longrightarrow> tri I (ret a) E J"
  by (simp add: tri_def ret_def)

lemma tri_fail: "(\<And>s. I s \<Longrightarrow> E s) \<Longrightarrow> tri I (fail e) E J"
  by (simp add: tri_def fail_def)

lemma tri_modm: "(\<And>s. I s \<Longrightarrow> J () (f s)) \<Longrightarrow> tri I (modm f) E J"
  by (simp add: tri_def modm_def)

lemma tri_stepm: "(\<And>s. I s \<Longrightarrow> J (fst (f s)) (snd (f s))) \<Longrightarrow> tri I (stepm f) E J"
  by (auto simp: tri_def stepm_def split: prod.splits) (metis fst_conv snd_conv)

lemma tri_bindm: "tri I c E M \<Longrightarrow> (\<And>a. tri (M a) (f a) E J) \<Longrightarrow> tri I (bindm c f) E J"
  unfolding tri_def bindm_def by (fastforce split: option.splits sum.splits prod.splits)

lemma tri_seqm: "tri I c E (\<lambda>_. M) \<Longrightarrow> tri M d E J \<Longrightarrow> tri I (seqm c d) E J"
  by (simp add: seqm_def tri_bindm)

lemma tri_dropm: "tri I c E' J \<Longrightarrow> (\<And>s. E' s \<Longrightarrow> E (g s)) \<Longrightarrow> tri I (dropm g c) E J"
  unfolding tri_def dropm_def by (fastforce split: option.splits sum.splits prod.splits)

lemma tri_weaken: "tri I c E J \<Longrightarrow> (\<And>s. I' s \<Longrightarrow> I s) \<Longrightarrow> (\<And>s. E s \<Longrightarrow> E' s) \<Longrightarrow> (\<And>a s. J a s \<Longrightarrow> J' a s) \<Longrightarrow> tri I' c E' J'"
  unfolding tri_def by (fastforce split: sum.splits)

lemma tri_nofail: "tri I c E J \<Longrightarrow> nofail c \<Longrightarrow> tri I c E' J"
  unfolding tri_def nofail_def by (fastforce split: sum.splits)

lemma tri_cases:
  "(b \<Longrightarrow> tri I c E J) \<Longrightarrow> (\<not> b \<Longrightarrow> tri I d E J) \<Longrightarrow> tri I (if b then c else d) E J"
  "(x = None \<Longrightarrow> tri I c E J) \<Longrightarrow> (\<And>y. x = Some y \<Longrightarrow> tri I (h y) E J) \<Longrightarrow> tri I (case x of None \<Rightarrow> c | Some y \<Rightarrow> h y) E J"
  "(\<And>a b. p = (a, b) \<Longrightarrow> tri I (k a b) E J) \<Longrightarrow> tri I (case p of (a, b) \<Rightarrow> k a b) E J"
  "(\<And>y. z = Inl y \<Longrightarrow> tri I (u y) E J) \<Longrightarrow> (\<And>y. z = Inr y \<Longrightarrow> tri I (w y) E J) \<Longrightarrow> tri I (case z of Inl y \<Rightarrow> u y | Inr y \<Rightarrow> w y) E J"
  by (auto split: option.split prod.split sum.split)

section \<open>Invariants\<close>

text \<open>\<^verbatim>\<open>safe I c\<close>: whichever way \<^verbatim>\<open>c\<close> returns, \<^verbatim>\<open>I\<close> holds again.\<close>

definition safe :: "('s \<Rightarrow> bool) \<Rightarrow> ('s, 'e, 'a) em \<Rightarrow> bool" where
  "safe I c \<longleftrightarrow> (\<forall>s r s'. c s = Some (r, s') \<longrightarrow> I s \<longrightarrow> I s')"

named_theorems safe_rules \<open>computations that keep an invariant\<close>

lemma safeD: "safe I c \<Longrightarrow> c s = Some (r, s') \<Longrightarrow> I s \<Longrightarrow> I s'"
  unfolding safe_def by blast

lemma safe_tri: "tri I c I (\<lambda>_. I) \<longleftrightarrow> safe I c"
  unfolding tri_def safe_def by (metis (mono_tags, lifting) sum.case_eq_if)

lemma safe_keeps: "keeps g c \<Longrightarrow> (\<And>s s'. g s' = g s \<Longrightarrow> I s \<Longrightarrow> I s') \<Longrightarrow> safe I c"
  unfolding safe_def keeps_def by blast

lemma safe_basic [safe_rules]:
  "safe I (ret a)" "safe I (fail e)" "safe I (getm q)" "safe I (refuse b e)" "safe I (assertm b)" "safe I panic"
  by (auto simp: safe_def ret_def fail_def getm_def refuse_def assertm_def panic_def)

lemma safe_modm [safe_rules]: "(\<And>s. I s \<Longrightarrow> I (f s)) \<Longrightarrow> safe I (modm f)"
  by (simp add: safe_def modm_def)

lemma safe_stepm [safe_rules]: "(\<And>s. I s \<Longrightarrow> I (snd (f s))) \<Longrightarrow> safe I (stepm f)"
  by (auto simp: safe_def stepm_def split: prod.splits) (metis snd_conv)

lemma safe_bindm [safe_rules]: "safe I c \<Longrightarrow> (\<And>a. safe I (f a)) \<Longrightarrow> safe I (bindm c f)"
  unfolding safe_def bindm_def by (fastforce split: option.splits sum.splits prod.splits)

lemma safe_seqm [safe_rules]: "safe I c \<Longrightarrow> safe I d \<Longrightarrow> safe I (seqm c d)"
  by (simp add: seqm_def safe_bindm)

lemma safe_whenm [safe_rules]: "safe I c \<Longrightarrow> safe I (whenm b c)"
  by (simp add: whenm_def safe_basic)

lemma safe_dropm: "safe I c \<Longrightarrow> (\<And>s. I s \<Longrightarrow> I (d s)) \<Longrightarrow> safe I (dropm d c)"
  unfolding safe_def dropm_def by (fastforce split: option.splits sum.splits prod.splits)

lemma safe_cases [safe_rules]:
  "(b \<Longrightarrow> safe I c) \<Longrightarrow> (\<not> b \<Longrightarrow> safe I d) \<Longrightarrow> safe I (if b then c else d)"
  "(x = None \<Longrightarrow> safe I c) \<Longrightarrow> (\<And>y. x = Some y \<Longrightarrow> safe I (h y)) \<Longrightarrow> safe I (case x of None \<Rightarrow> c | Some y \<Rightarrow> h y)"
  "(\<And>a b. p = (a, b) \<Longrightarrow> safe I (k a b)) \<Longrightarrow> safe I (case p of (a, b) \<Rightarrow> k a b)"
  "(\<And>y. safe I (u y)) \<Longrightarrow> (\<And>y. safe I (w y)) \<Longrightarrow> safe I (case z of Inl y \<Rightarrow> u y | Inr y \<Rightarrow> w y)"
  "safe I c \<Longrightarrow> (\<And>y ys. safe I (q y ys)) \<Longrightarrow> safe I (case l of [] \<Rightarrow> c | y # ys \<Rightarrow> q y ys)"
  by (auto split: option.split prod.split sum.split list.split)

lemma safe_foldm: "(\<And>x a. safe I (f x a)) \<Longrightarrow> safe I (foldm f xs a)"
  by (induction xs arbitrary: a) (simp_all add: safe_basic safe_bindm)

end
