(* ===== verification/Session.thy ===== *)
theory Session
  imports Effects Identity Answers HostPool RequestShape Waiters
begin

text \<open>
  \<^verbatim>\<open>crates/vhost-user-nvrm/src/session.rs\<close>: the host state of one guest process.  This theory
  holds the state, the calls a session makes of its surroundings, and everything except the
  forwarded ioctl itself: descriptors, pending mappings, guest-backed pools, OS events and
  waiter slots.

  A session shares the VM's ledger and pin budget.  The surroundings are the parameter
  \<^verbatim>\<open>senv\<close>: the driver, \<^verbatim>\<open>open\<close> and \<^verbatim>\<open>dup\<close>, which may answer as they like from the history,
  and the switches read once from the environment.  What the driver writes back is given as
  a function on positions, so a buffer keeps its length, as the memory of a \<^verbatim>\<open>Vec\<close> does.
  Log lines and the counters only they read are not modelled; the guest's memory table is
  the one of the surroundings for the whole run.
\<close>

section \<open>Surroundings\<close>

datatype node = NodeCtl | NodeGpu u32 | NodeUvm

record sys_ans =
  an_ret :: i32
  an_errno :: i32
  an_inline :: "nat \<Rightarrow> u8"
  an_aux :: "nat \<Rightarrow> u8"

datatype sys_call =
    SIoctl i32 u64 bytes bytes
  | SOpen node "i32 option"
  | SDup i32 "i32 option"
  | SClose i32
  | SStore u64 u32

record xhost =
  xh_host :: host
  xh_ledger :: ledger
  xh_calls :: "sys_call list"
  xh_open :: "i32 list"

record senv =
  sv_abi :: rm_abi
  sv_henv :: henv
  sv_ioctl :: "xhost \<Rightarrow> i32 \<Rightarrow> u64 \<Rightarrow> bytes \<Rightarrow> bytes \<Rightarrow> sys_ans"
  sv_open :: "xhost \<Rightarrow> node \<Rightarrow> i32 option"
  sv_dup :: "xhost \<Rightarrow> i32 \<Rightarrow> i32 option"
  sv_addr :: "xhost \<Rightarrow> u64"
  sv_card :: "card option"
  sv_switches :: "bool \<times> bool \<times> bool"
  sv_managed :: bool
  sv_name_raw :: bool
  sv_name_format :: name_format

section \<open>State\<close>

record pending_map =
  pd_token :: u64
  pd_len :: u64
  pd_dev :: dev

record event_reg =
  er_h_client :: u32
  er_h_event :: u32
  er_class :: u32
  er_notify_index :: u32
  er_guest_data :: u64
  er_token :: u64
  er_id :: u32

record waiter_slot =
  sl_ctl :: i32
  sl_id :: u32

record waiter_retirement =
  wr_slot :: waiter_slot
  wr_reuse_for :: "u32 option"

record waiter_target =
  wt_surface :: u32
  wt_index :: u64
  wt_wait_value :: u64

text \<open>\<^verbatim>\<open>ActiveWaiter\<close> and \<^verbatim>\<open>PendingWaiter\<close> have the same fields.\<close>

record active_waiter =
  aw_slot :: waiter_slot
  aw_generation :: u64
  aw_target :: waiter_target
  aw_h_client :: u32
  aw_guest_kc :: u64
  aw_token :: u64

datatype pollable =
    PollEventCtl u32 i32
  | PollClient u64 i32 "u32 option"
  | PollWaiter registration_id i32

record os_fired =
  of_reg :: event_reg
  of_info32 :: u32

record sess =
  se_sub_id :: u32
  se_mirror :: mirror
  se_aux_fd_host :: "i32 option"
  se_fd_field_host :: "i32 option"
  se_scratch :: bytes
  se_aux :: bytes
  se_pending_maps :: "(u64 \<times> pending_map) list"
  se_next_blob_id :: u64
  se_pool :: pool_state
  se_mem :: bool
  se_proc :: proc_info
  se_vram :: books
  se_event_ctls :: "(u32 \<times> i32) list"
  se_next_event_id :: u64
  se_next_generation :: u64
  se_events :: "((u32 \<times> u32) \<times> event_reg) list"
  se_waiter_pool :: "(u32 \<times> waiter_slot list) list"
  se_waiters :: "(u32 \<times> active_waiter) list"
  se_pending_unwatch :: "waiter_retirement list"
  se_pending_ctl_unwatch :: "(u32 \<times> i32) list"
  se_pending_pollables :: "pollable list"
  se_ev_registered :: u64
  se_ev_fired :: u64
  se_ev_unmatched :: u64
  se_ev_dataless :: u64
  se_client_token :: "(u32 \<times> u64) list"
  se_osdesc_gpu :: "i32 option"

record st =
  st_se :: sess
  st_x :: xhost

type_synonym 'a sm = "(st, int, 'a) em"

definition EIO :: int where "EIO = 5"
definition EBADF :: int where "EBADF = 9"
definition ENOMEM :: int where "ENOMEM = 12"
definition EACCES :: int where "EACCES = 13"
definition EBUSY :: int where "EBUSY = 16"
definition ENOSPC :: int where "ENOSPC = 28"
definition EPROTO :: int where "EPROTO = 71"
definition NV_OK :: u32 where "NV_OK = 0"
definition NV_ERR_NO_MEMORY :: u32 where "NV_ERR_NO_MEMORY = 81"
definition NV_ERR_OPERATING_SYSTEM :: u32 where "NV_ERR_OPERATING_SYSTEM = 89"
definition MAX_MAP_LEN :: u64 where "MAX_MAP_LEN = 0x10000000"
abbreviation (input) NV_MAX_DEVICES :: u32 where "NV_MAX_DEVICES \<equiv> 32"

abbreviation se_mod :: "(sess \<Rightarrow> sess) \<Rightarrow> unit sm" where
  "se_mod f \<equiv> modm (\<lambda>s. s\<lparr> st_se := f (st_se s) \<rparr>)"

abbreviation se_get :: "(sess \<Rightarrow> 'a) \<Rightarrow> 'a sm" where
  "se_get f \<equiv> getm (\<lambda>s. f (st_se s))"

text \<open>Operations on the pin budget and the ledger.\<close>

definition on_host :: "(host \<Rightarrow> 'a \<times> host) \<Rightarrow> 'a sm" where
  "on_host f = stepm (\<lambda>s. case f (xh_host (st_x s)) of (a, H) \<Rightarrow> (a, s\<lparr> st_x := (st_x s)\<lparr> xh_host := H \<rparr> \<rparr>))"

definition on_pool :: "(pool_state \<Rightarrow> host \<Rightarrow> 'a \<times> pool_state \<times> host) \<Rightarrow> 'a sm" where
  "on_pool f = stepm (\<lambda>s. case f (se_pool (st_se s)) (xh_host (st_x s)) of
     (a, ps, H) \<Rightarrow> (a, s\<lparr> st_se := (st_se s)\<lparr> se_pool := ps \<rparr>, st_x := (st_x s)\<lparr> xh_host := H \<rparr> \<rparr>))"

definition on_books :: "(ledger \<Rightarrow> books \<Rightarrow> 'a \<times> ledger \<times> books) \<Rightarrow> 'a sm" where
  "on_books f = stepm (\<lambda>s. case f (xh_ledger (st_x s)) (se_vram (st_se s)) of
     (a, l, b) \<Rightarrow> (a, s\<lparr> st_se := (st_se s)\<lparr> se_vram := b \<rparr>, st_x := (st_x s)\<lparr> xh_ledger := l \<rparr> \<rparr>))"

definition x_log :: "sys_call \<Rightarrow> xhost \<Rightarrow> xhost" where
  "x_log c x = x\<lparr> xh_calls := c # xh_calls x \<rparr>"

definition x_close :: "i32 \<Rightarrow> xhost \<Rightarrow> xhost" where
  "x_close fd x = x_log (SClose fd) (x\<lparr> xh_open := remove1 fd (xh_open x) \<rparr>)"

definition sys_close :: "i32 \<Rightarrow> unit sm" where
  "sys_close fd = modm (\<lambda>s. s\<lparr> st_x := x_close fd (st_x s) \<rparr>)"

definition sys_open :: "senv \<Rightarrow> node \<Rightarrow> i32 option sm" where
  "sys_open env n = stepm (\<lambda>s. let r = sv_open env (st_x s) n; x = x_log (SOpen n r) (st_x s) in
     (r, s\<lparr> st_x := (case r of None \<Rightarrow> x | Some fd \<Rightarrow> x\<lparr> xh_open := fd # xh_open x \<rparr>) \<rparr>))"

definition sys_dup :: "senv \<Rightarrow> i32 \<Rightarrow> i32 option sm" where
  "sys_dup env fd = stepm (\<lambda>s. let r = sv_dup env (st_x s) fd; x = x_log (SDup fd r) (st_x s) in
     (r, s\<lparr> st_x := (case r of None \<Rightarrow> x | Some fd' \<Rightarrow> x\<lparr> xh_open := fd' # xh_open x \<rparr>) \<rparr>))"

text \<open>One ioctl on a buffer and the buffer it points to; both come back with their lengths.\<close>

definition sys_ioctl :: "senv \<Rightarrow> i32 \<Rightarrow> u32 \<Rightarrow> bytes \<Rightarrow> bytes \<Rightarrow> (i32 \<times> i32 \<times> bytes \<times> bytes) sm" where
  "sys_ioctl env fd request inl aux = stepm (\<lambda>s.
     let a = sv_ioctl env (st_x s) fd (ucast request) inl aux in
     ((an_ret a, an_errno a, map (an_inline a) [0..<length inl], map (an_aux a) [0..<length aux]),
      s\<lparr> st_x := x_log (SIoctl fd (ucast request) inl aux) (st_x s) \<rparr>))"

section \<open>A new session\<close>

definition proc_info_default :: proc_info where
  "proc_info_default = \<lparr> pi_pid = 0, pi_pad = 0, pi_comm = replicate 16 0 \<rparr>"

definition detached_proc :: "u32 \<Rightarrow> sess" where
  "detached_proc sub_id = \<lparr>
     se_sub_id = sub_id, se_mirror = mirror_new, se_aux_fd_host = None, se_fd_field_host = None,
     se_scratch = [], se_aux = [], se_pending_maps = [],
     se_next_blob_id = push_bit 32 (ucast sub_id) OR 1, se_pool = ps_with_budget, se_mem = False,
     se_proc = proc_info_default, se_vram = books_new sub_id, se_event_ctls = [], se_next_event_id = 1,
     se_next_generation = 1, se_events = [], se_waiter_pool = [], se_waiters = [],
     se_pending_unwatch = [], se_pending_ctl_unwatch = [], se_pending_pollables = [],
     se_ev_registered = 0, se_ev_fired = 0, se_ev_unmatched = 0, se_ev_dataless = 0,
     se_client_token = [], se_osdesc_gpu = None \<rparr>"

section \<open>OS events\<close>

definition take_event_id :: "u32 sm" where
  "take_event_id =
    bindm (se_get se_next_event_id) (\<lambda>n.
    if 0xFFFFFFFF < n then fail ENOSPC
    else seqm (se_mod (\<lambda>s. s\<lparr> se_next_event_id := se_next_event_id s + 1 \<rparr>)) (ret (ucast n)))"

text \<open>\<^verbatim>\<open>IoctlAllocOsEvent\<close> and \<^verbatim>\<open>IoctlFreeOsEvent\<close>: client, device, id and status.\<close>

definition os_event_block :: "u32 \<Rightarrow> u32 \<Rightarrow> bytes" where
  "os_event_block h_client eid = u32_to_le h_client @ u32_to_le 0 @ u32_to_le eid @ u32_to_le 0"

definition alloc_os_event_on :: "senv \<Rightarrow> i32 \<Rightarrow> u32 \<Rightarrow> u32 \<Rightarrow> unit sm" where
  "alloc_os_event_on env fd h_client eid =
    bindm (sys_ioctl env fd (iowr_raw NV_ESC_ALLOC_OS_EVENT 16) (os_event_block h_client eid) []) (\<lambda>(r, _, p, _).
    seqm (refuse (r \<noteq> 0) EIO)
         (refuse (rd32 p 12 \<noteq> NV_OK) EIO))"

definition alloc_os_event_id :: "senv \<Rightarrow> u32 \<Rightarrow> u32 sm" where
  "alloc_os_event_id env h_client =
    bindm take_event_id (\<lambda>eid.
    bindm (se_get (\<lambda>s. map_of (se_event_ctls s) h_client)) (\<lambda>found.
    bindm (case found of
             Some fd \<Rightarrow> ret fd
           | None \<Rightarrow>
               bindm (sys_open env NodeCtl) (\<lambda>ctl.
               case ctl of
                 None \<Rightarrow> fail EIO
               | Some fd \<Rightarrow>
                   seqm (se_mod (\<lambda>s. s\<lparr> se_event_ctls := AList.update h_client fd (se_event_ctls s),
                       se_pending_pollables := se_pending_pollables s @ [PollEventCtl h_client fd] \<rparr>))
                   (ret fd))) (\<lambda>fd.
    seqm (alloc_os_event_on env fd h_client eid)
    (ret eid))))"

definition free_os_event :: "senv \<Rightarrow> u32 \<Rightarrow> u32 \<Rightarrow> unit sm" where
  "free_os_event env h_client eid =
    bindm (se_get (\<lambda>s. map_of (se_event_ctls s) h_client)) (\<lambda>found.
    case found of
      None \<Rightarrow> ret ()
    | Some fd \<Rightarrow>
        seqm (sys_ioctl env fd (iowr_raw NV_ESC_FREE_OS_EVENT 16) (os_event_block h_client eid) [])
        (ret ()))"

section \<open>Waiter slots\<close>

definition pool_push :: "u32 \<Rightarrow> waiter_slot \<Rightarrow> sess \<Rightarrow> sess" where
  "pool_push c sl s = s\<lparr> se_waiter_pool :=
     AList.update c ((case map_of (se_waiter_pool s) c of Some v \<Rightarrow> v | None \<Rightarrow> []) @ [sl]) (se_waiter_pool s) \<rparr>"

definition waiter_slot_get :: "senv \<Rightarrow> u32 \<Rightarrow> waiter_slot sm" where
  "waiter_slot_get env h_client =
    bindm (se_get (\<lambda>s. map_of (se_waiter_pool s) h_client)) (\<lambda>pooled.
    case pooled of
      Some (sl # sls) \<Rightarrow>
        seqm (se_mod (\<lambda>s. s\<lparr> se_waiter_pool := AList.update h_client (butlast (sl # sls)) (se_waiter_pool s) \<rparr>))
        (ret (last (sl # sls)))
    | _ \<Rightarrow>
        bindm take_event_id (\<lambda>eid.
        bindm (sys_open env NodeCtl) (\<lambda>ctl.
        case ctl of
          None \<Rightarrow> fail EIO
        | Some fd \<Rightarrow>
            seqm (dropm (\<lambda>s. s\<lparr> st_x := x_close fd (st_x s) \<rparr>) (alloc_os_event_on env fd h_client eid))
            (ret \<lparr> sl_ctl = fd, sl_id = eid \<rparr>))))"

definition take_waiter_generation :: "u64 sm" where
  "take_waiter_generation =
    bindm (se_get se_next_generation) (\<lambda>g.
    case checked_add g 1 of
      None \<Rightarrow> fail ENOSPC
    | Some g' \<Rightarrow> seqm (se_mod (\<lambda>s. s\<lparr> se_next_generation := g' \<rparr>)) (ret g))"

definition semsurf_wake :: "registration_id \<Rightarrow> sess \<Rightarrow> (u32 \<times> u64 \<times> u64) option \<times> sess" where
  "semsurf_wake r s =
    (case map_of (se_waiters s) (ri_event_id r) of
       None \<Rightarrow> (None, s)
     | Some w \<Rightarrow>
         if aw_generation w \<noteq> ri_generation r then (None, s)
         else (Some (aw_h_client w, aw_guest_kc w, aw_token w),
               pool_push (aw_h_client w) (aw_slot w)
                 (s\<lparr> se_waiters := AList.delete (ri_event_id r) (se_waiters s), se_ev_fired := se_ev_fired s + 1 \<rparr>)))"

definition take_unwatch :: "sess \<Rightarrow> waiter_retirement list \<times> sess" where
  "take_unwatch s = (se_pending_unwatch s, s\<lparr> se_pending_unwatch := [] \<rparr>)"

text \<open>Slots without a client are dropped, which closes their descriptor: the poller has let go of
  it by then.\<close>

fun finish_unwatch :: "waiter_retirement list \<Rightarrow> sess \<Rightarrow> xhost \<Rightarrow> sess \<times> xhost" where
  "finish_unwatch [] s x = (s, x)"
| "finish_unwatch (r # rs) s x =
    (case wr_reuse_for r of
       Some c \<Rightarrow> finish_unwatch rs (pool_push c (wr_slot r) s) x
     | None \<Rightarrow> finish_unwatch rs s (x_close (sl_ctl (wr_slot r)) x))"

definition take_ctl_unwatch :: "sess \<Rightarrow> (u32 \<times> i32) list \<times> sess" where
  "take_ctl_unwatch s = (se_pending_ctl_unwatch s, s\<lparr> se_pending_ctl_unwatch := [] \<rparr>)"

definition take_pollables :: "sess \<Rightarrow> pollable list \<times> sess" where
  "take_pollables s = (se_pending_pollables s, s\<lparr> se_pending_pollables := [] \<rparr>)"

definition has_event_ctl :: "sess \<Rightarrow> u32 \<Rightarrow> bool" where
  "has_event_ctl s h_client \<longleftrightarrow> map_of (se_event_ctls s) h_client \<noteq> None"

definition event_stats :: "sess \<Rightarrow> u64 \<times> u64 \<times> u64 \<times> u64" where
  "event_stats s = (se_ev_registered s, se_ev_fired s, se_ev_unmatched s, se_ev_dataless s)"

definition pooled_slots :: "sess \<Rightarrow> waiter_slot list" where
  "pooled_slots s = concat (map snd (se_waiter_pool s))"

definition census :: "sess \<Rightarrow> nat list" where
  "census s = [mirror_len (se_mirror s), mirror_ever (se_mirror s), length (se_event_ctls s),
     length (pooled_slots s), length (se_waiters s),
     length (se_pending_unwatch s) + length (se_pending_ctl_unwatch s),
     (if se_osdesc_gpu s = None then 0 else 1)]"

definition retire :: "u32 option \<Rightarrow> waiter_slot \<Rightarrow> waiter_retirement" where
  "retire c sl = \<lparr> wr_slot = sl, wr_reuse_for = c \<rparr>"

definition release_client :: "u32 \<Rightarrow> sess \<Rightarrow> host \<Rightarrow> sess \<times> host" where
  "release_client h_client s0 H =
    (case drop_osdesc_client (se_pool s0) h_client H of (ps, H') \<Rightarrow>
     let pooled = (case map_of (se_waiter_pool s0) h_client of Some v \<Rightarrow> v | None \<Rightarrow> []);
         armed = map (aw_slot \<circ> snd) (filter (\<lambda>(_, w). aw_h_client w = h_client) (se_waiters s0)) in
     (s0\<lparr> se_pool := ps,
         se_events := filter (\<lambda>((c, _), _). c \<noteq> h_client) (se_events s0),
         se_client_token := AList.delete h_client (se_client_token s0),
         se_event_ctls := AList.delete h_client (se_event_ctls s0),
         se_pending_ctl_unwatch := se_pending_ctl_unwatch s0 @
           (case map_of (se_event_ctls s0) h_client of Some fd \<Rightarrow> [(h_client, fd)] | None \<Rightarrow> []),
         se_waiter_pool := AList.delete h_client (se_waiter_pool s0),
         se_waiters := filter (\<lambda>(_, w). aw_h_client w \<noteq> h_client) (se_waiters s0),
         se_pending_unwatch := se_pending_unwatch s0 @ map (retire None) (pooled @ armed) \<rparr>, H'))"

fun release_clients :: "u32 list \<Rightarrow> sess \<Rightarrow> host \<Rightarrow> sess \<times> host" where
  "release_clients [] s H = (s, H)"
| "release_clients (c # cs) s H = (case release_client c s H of (s', H') \<Rightarrow> release_clients cs s' H')"

definition close_clients_of_token :: "u64 \<Rightarrow> sess \<Rightarrow> host \<Rightarrow> sess \<times> host" where
  "close_clients_of_token token s H =
    release_clients (map fst (filter (\<lambda>(_, t). t = token) (se_client_token s))) s H"

section \<open>Draining events\<close>

text \<open>\<^verbatim>\<open>NVOS41_PARAMETERS\<close>: the event's address, MoreEvents at 8, status at 12; the event itself has
  hObject at 0, NotifyIndex at 4, info32 at 8.\<close>

definition drop_ctl :: "u32 \<Rightarrow> sess \<Rightarrow> sess" where
  "drop_ctl h_client s = s\<lparr> se_event_ctls := AList.delete h_client (se_event_ctls s),
     se_events := filter (\<lambda>((c, _), _). c \<noteq> h_client) (se_events s) \<rparr>"

fun drain_loop :: "senv \<Rightarrow> nat \<Rightarrow> u32 \<Rightarrow> i32 \<Rightarrow> os_fired list \<Rightarrow> os_fired list sm" where
  "drain_loop env 0 h_client fd out = ret out"
| "drain_loop env (Suc n) h_client fd out =
    bindm (getm (\<lambda>s. sv_addr env (st_x s))) (\<lambda>addr.
    bindm (sys_ioctl env fd (iowr_raw NV_ESC_RM_GET_EVENT_DATA 16)
             (u64_to_le addr @ u32_to_le 0 @ u32_to_le 0) (replicate 16 0)) (\<lambda>(r, _, p, ev).
    if r \<noteq> 0 then seqm (se_mod (drop_ctl h_client)) (seqm (sys_close fd) (ret out))
    else if rd32 p 12 \<noteq> NV_OK then
      (if rd32 p 12 = NV_ERR_OPERATING_SYSTEM
       then seqm (se_mod (\<lambda>s. s\<lparr> se_ev_dataless := se_ev_dataless s + 1 \<rparr>)) (ret out)
       else seqm (se_mod (drop_ctl h_client)) (seqm (sys_close fd) (ret out)))
    else
      seqm (se_mod (\<lambda>s. s\<lparr> se_ev_fired := se_ev_fired s + 1 \<rparr>))
      (bindm (se_get (\<lambda>s. map_of (se_events s) (h_client, rd32 ev 0))) (\<lambda>found.
       bindm (case found of
                Some reg \<Rightarrow> ret (out @ [\<lparr> of_reg = reg, of_info32 = rd32 ev 8 \<rparr>])
              | None \<Rightarrow> seqm (se_mod (\<lambda>s. s\<lparr> se_ev_unmatched := se_ev_unmatched s + 1 \<rparr>)) (ret out)) (\<lambda>out'.
       if rd32 p 8 = 0 then ret out' else drain_loop env n h_client fd out')))))"

definition drain_os_events :: "senv \<Rightarrow> u32 \<Rightarrow> os_fired list sm" where
  "drain_os_events env h_client =
    bindm (se_get (\<lambda>s. map_of (se_event_ctls s) h_client)) (\<lambda>found.
    case found of None \<Rightarrow> ret [] | Some fd \<Rightarrow> drain_loop env 256 h_client fd [])"

section \<open>Replies\<close>

definition reply :: "rsp \<Rightarrow> bytes \<Rightarrow> bytes \<Rightarrow> bytes" where
  "reply r inl aux = rsp_as_bytes r @ inl @ aux"

definition ok_rsp :: "u32 \<Rightarrow> rsp" where
  "ok_rsp sq = rsp_default\<lparr> rs_seq := sq \<rparr>"

definition reply_err :: "u32 \<Rightarrow> int \<Rightarrow> bytes" where
  "reply_err sq e = reply ((ok_rsp sq)\<lparr> rs_ret := - of_int e \<rparr>) [] []"

definition dev_of :: "u32 \<Rightarrow> dev option" where
  "dev_of tag =
    (case dev_tag_from_u32 tag of
       None \<Rightarrow> None
     | Some TagCtl \<Rightarrow> Some Ctl | Some TagGpu \<Rightarrow> Some Gpu | Some TagUvm \<Rightarrow> Some Uvm
     | Some TagUvmTools \<Rightarrow> Some UvmTools)"

section \<open>Requests other than ioctls\<close>

text \<open>A handler that refuses answers with \<^verbatim>\<open>reply_err\<close>.\<close>

definition answering :: "u32 \<Rightarrow> bytes sm \<Rightarrow> bytes sm" where
  "answering sq m s =
    (case m s of
       None \<Rightarrow> None
     | Some (Inl e, s') \<Rightarrow> Some (Inr (reply_err sq e), s')
     | Some (Inr b, s') \<Rightarrow> Some (Inr b, s'))"

definition on_hello :: "req \<Rightarrow> bytes sm" where
  "on_hello rq = seqm (refuse (rq_ioctl_nr rq \<noteq> PROTO_VERSION) EPROTO) (ret (reply (ok_rsp (rq_seq rq)) [] []))"

definition adopt_identity :: "req \<Rightarrow> bytes \<Rightarrow> unit sm" where
  "adopt_identity rq payload =
    bindm (se_get se_proc) (\<lambda>p.
    if PROC_INFO_LEN \<le> unat (rq_inline_len rq) \<and> PROC_INFO_LEN \<le> length payload \<and>
       pi_pid p = 0 \<and> pi_comm p ! 0 = 0
    then (case proc_info_from_bytes payload of
            None \<Rightarrow> ret ()
          | Some info \<Rightarrow>
              seqm (se_mod (\<lambda>s. s\<lparr> se_proc := info \<rparr>))
              (on_books (\<lambda>l b. ((), announce l b (pi_pid info) (comm_str info), b))))
    else ret ())"

definition open_node :: "dev \<Rightarrow> u32 \<Rightarrow> node option" where
  "open_node d nr = (case d of Ctl \<Rightarrow> Some NodeCtl | Gpu \<Rightarrow> Some (NodeGpu nr) | Uvm \<Rightarrow> Some NodeUvm | UvmTools \<Rightarrow> None)"

definition mirror_insertm :: "i32 \<Rightarrow> dev \<Rightarrow> u64 sm" where
  "mirror_insertm fd d s =
    (case mirror_insert (se_mirror (st_se s)) \<lparr> me_fd = fd, me_kind = d \<rparr> of
       None \<Rightarrow> None
     | Some (m, t) \<Rightarrow> Some (Inr t, s\<lparr> st_se := (st_se s)\<lparr> se_mirror := m \<rparr> \<rparr>))"

definition on_open :: "senv \<Rightarrow> req \<Rightarrow> bytes \<Rightarrow> bytes sm" where
  "on_open env rq payload =
    seqm (adopt_identity rq payload)
    (seqm (refuse (rq_dev_tag rq = dev_tag_to_u32 TagGpu \<and> NV_MAX_DEVICES \<le> rq_ioctl_nr rq) EINVAL)
    (case dev_of (rq_dev_tag rq) of
       None \<Rightarrow> fail EINVAL
     | Some d \<Rightarrow>
         (case open_node d (rq_ioctl_nr rq) of
            None \<Rightarrow> fail ENOTSUP
          | Some n \<Rightarrow>
              bindm (sys_open env n) (\<lambda>opened.
              case opened of
                None \<Rightarrow> fail EACCES
              | Some fd \<Rightarrow>
                  bindm (mirror_insertm fd d) (\<lambda>t.
                  ret (reply ((ok_rsp (rq_seq rq))\<lparr> rs_token := t \<rparr>) [] []))))))"

definition next_blob :: "u64 \<Rightarrow> u64" where
  "next_blob n = (let low = (n + 1) AND 0xFFFFFFFF in (n AND NOT 0xFFFFFFFF) OR (if low = 0 then 1 else low))"

definition on_map_prepare :: "req \<Rightarrow> bytes sm" where
  "on_map_prepare rq =
    bindm (se_get (\<lambda>s. mirror_raw (se_mirror s) (rq_target_token rq))) (\<lambda>raw.
    seqm (refuse (raw = None) EBADF)
    (seqm (refuse (rq_map_len rq = 0 \<or> MAX_MAP_LEN < rq_map_len rq) EINVAL)
    (bindm (se_get (\<lambda>s. mirror_kind (se_mirror s) (rq_target_token rq))) (\<lambda>kind.
     case kind of
       None \<Rightarrow> fail EBADF
     | Some d \<Rightarrow>
         seqm (refuse (dev_of (rq_dev_tag rq) \<noteq> Some d) EINVAL)
         (bindm (se_get se_next_blob_id) (\<lambda>bid.
          seqm (se_mod (\<lambda>s. s\<lparr> se_next_blob_id := next_blob bid,
              se_pending_maps := AList.update bid
                \<lparr> pd_token = rq_target_token rq, pd_len = rq_map_len rq, pd_dev = d \<rparr> (se_pending_maps s) \<rparr>))
          (ret (reply ((ok_rsp (rq_seq rq))\<lparr> rs_token := bid \<rparr>) [] []))))))))"

definition on_uvm_pool_back :: "senv \<Rightarrow> req \<Rightarrow> bytes \<Rightarrow> bytes sm" where
  "on_uvm_pool_back env rq payload =
    bindm (se_get (\<lambda>s. mirror_kind (se_mirror s) (rq_target_token rq))) (\<lambda>kind.
    seqm (refuse (kind \<noteq> Some Uvm) EBADF)
    (bindm (se_get se_mem) (\<lambda>mem.
     seqm (refuse (\<not> mem) EIO)
     (bindm (se_get (\<lambda>s. mirror_raw (se_mirror s) (rq_target_token rq))) (\<lambda>raw.
      case raw of
        None \<Rightarrow> fail EBADF
      | Some fd \<Rightarrow>
          (case gpa_run_decode payload (unat (rq_gpa_run_count rq)) of
             None \<Rightarrow> fail EINVAL
           | Some runs \<Rightarrow>
               bindm (on_pool (back_pool_for (sv_henv env) (rq_target_token rq) fd
                        (GuestAddr (rq_addr rq)) (GuestLen (rq_map_len rq)) runs)) (\<lambda>r.
               case r of
                 Inl _ \<Rightarrow> fail EIO
               | Inr _ \<Rightarrow> ret (reply (ok_rsp (rq_seq rq)) [] []))))))))"

definition take_pending_map :: "senv \<Rightarrow> u64 \<Rightarrow> (i32 \<times> u64 \<times> dev) option sm" where
  "take_pending_map env bid =
    bindm (se_get (\<lambda>s. map_of (se_pending_maps s) bid)) (\<lambda>found.
    case found of
      None \<Rightarrow> ret None
    | Some pd \<Rightarrow>
        seqm (se_mod (\<lambda>s. s\<lparr> se_pending_maps := AList.delete bid (se_pending_maps s) \<rparr>))
        (bindm (se_get (\<lambda>s. mirror_raw (se_mirror s) (pd_token pd))) (\<lambda>raw.
         case raw of
           None \<Rightarrow> ret None
         | Some fd \<Rightarrow>
             bindm (sys_dup env fd) (\<lambda>r. ret (map_option (\<lambda>fd'. (fd', pd_len pd, pd_dev pd)) r)))))"

definition on_close :: "senv \<Rightarrow> req \<Rightarrow> bytes sm" where
  "on_close env rq =
    seqm (on_pool (close_uvm (sv_henv env) (rq_target_token rq)))
    (bindm (se_get (\<lambda>s. mirror_raw (se_mirror s) (rq_target_token rq))) (\<lambda>raw.
     seqm (se_mod (\<lambda>s. s\<lparr> se_mirror := mirror_remove (se_mirror s) (rq_target_token rq) \<rparr>))
     (seqm (case raw of None \<Rightarrow> ret () | Some fd \<Rightarrow> sys_close fd)
     (seqm (on_books (\<lambda>l b. case close_token l b (rq_target_token rq) of (l', b') \<Rightarrow> ((), l', b')))
     (seqm (stepm (\<lambda>s. case close_clients_of_token (rq_target_token rq) (st_se s) (xh_host (st_x s)) of
              (se, H) \<Rightarrow> ((), s\<lparr> st_se := se, st_x := (st_x s)\<lparr> xh_host := H \<rparr> \<rparr>)))
     (ret (reply (ok_rsp (rq_seq rq)) [] [])))))))"

end
