(* ===== verification/Prepare.thy ===== *)
theory Prepare
  imports Session
begin

text \<open>
  \<^verbatim>\<open>Session::prepare\<close> of \<^verbatim>\<open>crates/vhost-user-nvrm/src/session.rs\<close>: validation and translation of a
  forwarded ioctl.  The steps are separate definitions in the order of the source, composed
  by \<^verbatim>\<open>prepare\<close>.  Every index into the buffers carries the panic of the source.
\<close>

section \<open>Buffers\<close>

abbreviation scr :: "bytes sm" where "scr \<equiv> se_get se_scratch"
abbreviation auxb :: "bytes sm" where "auxb \<equiv> se_get se_aux"

definition scr_rd32 :: "nat \<Rightarrow> u32 sm" where "scr_rd32 off = bindm scr (\<lambda>b. rd32m b off)"
definition scr_rd64 :: "nat \<Rightarrow> u64 sm" where "scr_rd64 off = bindm scr (\<lambda>b. rd64m b off)"
definition aux_rd32 :: "nat \<Rightarrow> u32 sm" where "aux_rd32 off = bindm auxb (\<lambda>b. rd32m b off)"
definition aux_rd64 :: "nat \<Rightarrow> u64 sm" where "aux_rd64 off = bindm auxb (\<lambda>b. rd64m b off)"

definition scr_wr32 :: "nat \<Rightarrow> u32 \<Rightarrow> unit sm" where
  "scr_wr32 off v = bindm scr (\<lambda>b. seqm (assertm (off + 4 \<le> length b)) (se_mod (\<lambda>s. s\<lparr> se_scratch := wr32 b off v \<rparr>)))"

definition scr_wr64 :: "nat \<Rightarrow> u64 \<Rightarrow> unit sm" where
  "scr_wr64 off v = bindm scr (\<lambda>b. seqm (assertm (off + 8 \<le> length b)) (se_mod (\<lambda>s. s\<lparr> se_scratch := wr64 b off v \<rparr>)))"

definition aux_wr32 :: "nat \<Rightarrow> u32 \<Rightarrow> unit sm" where
  "aux_wr32 off v = bindm auxb (\<lambda>b. seqm (assertm (off + 4 \<le> length b)) (se_mod (\<lambda>s. s\<lparr> se_aux := wr32 b off v \<rparr>)))"

definition aux_wr64 :: "nat \<Rightarrow> u64 \<Rightarrow> unit sm" where
  "aux_wr64 off v = bindm auxb (\<lambda>b. seqm (assertm (off + 8 \<le> length b)) (se_mod (\<lambda>s. s\<lparr> se_aux := wr64 b off v \<rparr>)))"

section \<open>The plan\<close>

datatype action = Forward | FakeSemaphorePool | FakeManaged | FakeVramFull

record plan =
  pp_seq :: u32
  pp_target_fd :: i32
  pp_request :: u32
  pp_action :: action
  pp_ioctl_nr :: u32
  pp_dev_tag :: u32
  pp_inline_len :: nat
  pp_aux_len :: nat
  pp_osdesc_arena :: "arena option"
  pp_target_token :: u64
  pp_vram_reserved :: u64
  pp_vram_status_off :: nat
  pp_osdesc_tail :: "bytes option"
  pp_event_reg :: "event_reg option"
  pp_waiter_reg :: "active_waiter option"
  pp_waiter_unreg :: "u32 option"
  pp_vram_vidheap :: bool
  pp_vram_ask :: "ask option"
  pp_fb_info_list :: "(nat \<times> nat) option"

definition alloc_status_off :: "nat \<Rightarrow> nat option" where
  "alloc_status_off n = (if 48 \<le> n then Some 40 else if n = 32 then Some 28 else None)"

abbreviation (input) CMD_FB_GET_INFO :: u32 where "CMD_FB_GET_INFO \<equiv> 0x20801301"
abbreviation (input) CTRL_SEMSURF_REGISTER_WAITER :: u32 where "CTRL_SEMSURF_REGISTER_WAITER \<equiv> 14286851"
abbreviation (input) CTRL_SEMSURF_UNREGISTER_WAITER :: u32 where "CTRL_SEMSURF_UNREGISTER_WAITER \<equiv> 14286853"
definition NV01_EVENT_KERNEL_CALLBACK :: u32 where "NV01_EVENT_KERNEL_CALLBACK = 0x78"
definition NV01_EVENT_OS_EVENT :: u32 where "NV01_EVENT_OS_EVENT = 0x79"
definition NV01_EVENT_KERNEL_CALLBACK_EX :: u32 where "NV01_EVENT_KERNEL_CALLBACK_EX = 0x7e"

section \<open>Admission\<close>

definition prepare_admit :: "senv \<Rightarrow> req \<Rightarrow> bytes \<Rightarrow> (dev \<times> shape) sm" where
  "prepare_admit env rq payload =
    (let il = unat (rq_inline_len rq); al = unat (rq_aux_len rq) in
     seqm (refuse (length payload < il + al \<or> MAX_PAYLOAD < il \<or> MAX_AUX < al) EINVAL)
     (case dev_of (rq_dev_tag rq) of
        None \<Rightarrow> fail EINVAL
      | Some d \<Rightarrow>
          bindm (getm (\<lambda>s. is_private_client (xh_host (st_x s)))) (\<lambda>private.
          seqm (refuse (named_private_client (sv_abi env) d (rq_ioctl_nr rq) (take il payload)
                          (subslice il al payload) private \<noteq> None) EPERM)
          (seqm (if \<not> is_uvm d \<and> rq_ioctl_nr rq = NV_ESC_RM_CONTROL \<and> 12 \<le> il
                 then bindm (rd32m payload 8) (\<lambda>cmd. refuse (ctrl_blocked cmd) EPERM) else ret ())
          (case validate (sv_abi env) d rq (take il payload) (subslice il al payload) of
             Inl e \<Rightarrow> fail (shape_errno e)
           | Inr shape \<Rightarrow> ret (d, shape))))))"

definition clear_unusedm :: "shape \<Rightarrow> unit sm" where
  "clear_unusedm shape =
    bindm scr (\<lambda>inl. bindm auxb (\<lambda>aux.
    seqm (assertm ((case sh_zero_inline shape of None \<Rightarrow> True | Some off \<Rightarrow> off + 8 \<le> length inl) \<and>
                   list_all (\<lambda>off. off + 8 \<le> length aux) (sh_zero_aux shape)))
    (case clear_unused_pointers shape inl aux of
       (inl', aux') \<Rightarrow> se_mod (\<lambda>s. s\<lparr> se_scratch := inl', se_aux := aux' \<rparr>))))"

definition load_buffers :: "req \<Rightarrow> bytes \<Rightarrow> dev \<Rightarrow> shape \<Rightarrow> i32 sm" where
  "load_buffers rq payload d shape =
    (let il = unat (rq_inline_len rq); al = unat (rq_aux_len rq) in
     bindm (se_get (\<lambda>s. mirror_raw (se_mirror s) (rq_target_token rq))) (\<lambda>raw.
     case raw of
       None \<Rightarrow> fail EBADF
     | Some fd \<Rightarrow>
         bindm (se_get (\<lambda>s. mirror_kind (se_mirror s) (rq_target_token rq))) (\<lambda>kind.
         seqm (refuse (kind \<noteq> Some d) EINVAL)
         (seqm (se_mod (\<lambda>s. s\<lparr> se_scratch := take il payload, se_aux := subslice il al payload \<rparr>))
         (seqm (clear_unusedm shape) (ret fd))))))"

section \<open>Descriptors and events\<close>

definition fd_field_xlate :: "req \<Rightarrow> unit sm" where
  "fd_field_xlate rq =
    (if rq_fd_field_off rq = NONE_U32 then ret ()
     else
       (let off = unat (rq_fd_field_off rq) in
        seqm (refuse (unat (rq_inline_len rq) < off + 4) EINVAL)
        (bindm (if rq_fd_field_token rq = NONE_U64 then scr_rd32 off
                else bindm (se_get se_fd_field_host) (\<lambda>h.
                     case h of
                       Some f \<Rightarrow> ret f
                     | None \<Rightarrow>
                         if rq_fd_field_proc rq = NONE_U32 then
                           bindm (se_get (\<lambda>s. mirror_raw (se_mirror s) (rq_fd_field_token rq))) (\<lambda>raw.
                           case raw of Some f \<Rightarrow> ret f | None \<Rightarrow> fail EBADF)
                         else fail EBADF)) (\<lambda>host_num.
        scr_wr32 off host_num))))"

definition watch_client :: "u64 \<Rightarrow> i32 \<Rightarrow> u32 option \<Rightarrow> unit sm" where
  "watch_client token fd owner =
    se_mod (\<lambda>s. s\<lparr> se_pending_pollables := se_pending_pollables s @ [PollClient token fd owner] \<rparr>)"

section \<open>OS descriptors backed by guest pages\<close>

abbreviation (input) f02_PHYSICALITY :: drf where "f02_PHYSICALITY \<equiv> \<lparr> drf_shift = 4, drf_mask = 0xf \<rparr>"
abbreviation (input) f02_LOCATION :: drf where "f02_LOCATION \<equiv> \<lparr> drf_shift = 8, drf_mask = 0xf \<rparr>"
abbreviation (input) f02_COHERENCY :: drf where "f02_COHERENCY \<equiv> \<lparr> drf_shift = 12, drf_mask = 0xf \<rparr>"
abbreviation (input) f02_GPU_CACHEABLE :: drf where "f02_GPU_CACHEABLE \<equiv> \<lparr> drf_shift = 18, drf_mask = 0x1 \<rparr>"
abbreviation (input) f02_MAPPING :: drf where "f02_MAPPING \<equiv> \<lparr> drf_shift = 30, drf_mask = 0x3 \<rparr>"
abbreviation (input) attr2_GPU_CACHEABLE :: drf where "attr2_GPU_CACHEABLE \<equiv> \<lparr> drf_shift = 2, drf_mask = 0x3 \<rparr>"

abbreviation (input) attr_COHERENCY :: drf where "attr_COHERENCY \<equiv> \<lparr> drf_shift = 29, drf_mask = 0x7 \<rparr>"

definition coherency_lost :: "u32 \<Rightarrow> string option" where
  "coherency_lost c =
    (if c = 1 \<or> c = 5 then None
     else if c = 0 then Some ''UNCACHED'' else if c = 2 then Some ''WRITE_COMBINE''
     else if c = 3 then Some ''WRITE_THROUGH'' else if c = 4 then Some ''WRITE_PROTECT'' else Some ''(unknown)'')"

definition nvos02_flags_for_osdesc :: "u32 \<Rightarrow> u32 \<Rightarrow> u32 \<times> string option" where
  "nvos02_flags_for_osdesc attr attr2 =
    (drf_set f02_PHYSICALITY 1 OR drf_set f02_LOCATION 0 OR drf_set f02_COHERENCY 5 OR
       drf_set f02_GPU_CACHEABLE (if drf_get attr2_GPU_CACHEABLE attr2 = 1 then 1 else 0) OR drf_set f02_MAPPING 1,
     coherency_lost (drf_get attr_COHERENCY attr))"

definition osdesc_gpu_fd :: "senv \<Rightarrow> i32 \<Rightarrow> i32 sm" where
  "osdesc_gpu_fd env ctl_fd =
    bindm (se_get se_osdesc_gpu) (\<lambda>have.
    case have of
      Some fd \<Rightarrow> ret fd
    | None \<Rightarrow>
        bindm (sys_open env (NodeGpu 0)) (\<lambda>opened.
        case opened of
          None \<Rightarrow> fail EIO
        | Some gpu \<Rightarrow>
            bindm (sys_ioctl env gpu (iowr_raw NV_ESC_REGISTER_FD 4) (u32_to_le ctl_fd) []) (\<lambda>(r, _, _, _).
            if r \<noteq> 0 then seqm (sys_close gpu) (fail EIO)
            else seqm (se_mod (\<lambda>s. s\<lparr> se_osdesc_gpu := Some gpu \<rparr>)) (ret gpu))))"

definition arena_dropm :: "senv \<Rightarrow> arena \<Rightarrow> st \<Rightarrow> st" where
  "arena_dropm env a s = s\<lparr> st_x := (st_x s)\<lparr> xh_host := arena_drop (sv_henv env) a (xh_host (st_x s)) \<rparr> \<rparr>"

record osdesc =
  od_arena :: "arena option"
  od_tail :: "bytes option"
  od_nr :: "u32 option"
  od_fd :: "i32 option"
  od_inline_len :: nat
  od_aux_len :: nat

text \<open>The kernel form is rewritten into the userspace form on the GPU node.\<close>

definition osdesc_kernel_form :: "senv \<Rightarrow> i32 \<Rightarrow> u64 \<Rightarrow> arena \<Rightarrow> osdesc sm" where
  "osdesc_kernel_form env target_fd limit a =
    bindm scr (\<lambda>b.
    seqm (refuse (length b < 48) EINVAL)
    (bindm (aux_rd64 16) (\<lambda>va.
     bindm (aux_rd32 8) (\<lambda>attr.
     bindm (aux_rd32 12) (\<lambda>attr2.
     seqm (scr_wr64 16 0)
     (seqm (scr_wr32 16 (fst (nvos02_flags_for_osdesc attr attr2)))
     (seqm (scr_wr64 24 va)
     (seqm (scr_wr64 32 limit)
     (seqm (se_mod (\<lambda>s. if length (se_scratch s) < 56
                        then s\<lparr> se_scratch := se_scratch s @ replicate (56 - length (se_scratch s)) 0 \<rparr> else s))
     (bindm (osdesc_gpu_fd env target_fd) (\<lambda>gpu.
      seqm (scr_wr32 48 gpu)
      (seqm (se_mod (\<lambda>s. s\<lparr> se_aux := [] \<rparr>))
      (ret \<lparr> od_arena = Some a, od_tail = Some (subslice 16 24 b), od_nr = Some NV_ESC_RM_ALLOC_MEMORY,
             od_fd = Some gpu, od_inline_len = 56, od_aux_len = 0 \<rparr>)))))))))))))"

definition osdesc_runs :: "senv \<Rightarrow> req \<Rightarrow> i32 \<Rightarrow> osdesc sm" where
  "osdesc_runs env rq target_fd =
    (let kern = rq_ioctl_nr rq = NV_ESC_RM_ALLOC; il = unat (rq_inline_len rq) in
     seqm (refuse (\<not> kern \<and> (rq_ioctl_nr rq \<noteq> NV_ESC_RM_ALLOC_MEMORY \<or> il < 44)) EINVAL)
     (bindm (se_get se_mem) (\<lambda>mem.
      seqm (refuse (\<not> mem) EIO)
      (bindm auxb (\<lambda>aux.
       seqm (refuse (kern \<and> length aux < 40) EINVAL)
       (case gpa_run_decode (if kern then drop 40 aux else aux) (unat (rq_gpa_run_count rq)) of
          None \<Rightarrow> fail EINVAL
        | Some runs \<Rightarrow>
            bindm (if kern then aux_rd64 24 else scr_rd64 32) (\<lambda>limit.
            case checked_add limit 1 of
              None \<Rightarrow> fail EINVAL
            | Some tot \<Rightarrow>
                bindm (on_host (arena_for_osdesc (sv_henv env) runs (GuestLen tot))) (\<lambda>r.
                case r of
                  Inl _ \<Rightarrow> fail EIO
                | Inr (a, va) \<Rightarrow>
                    dropm (arena_dropm env a)
                     (if kern then
                        seqm (aux_wr64 16 va) (seqm (aux_wr32 32 0) (seqm (aux_wr32 0 0)
                        (osdesc_kernel_form env target_fd limit a)))
                      else
                        seqm (scr_wr64 24 va) (seqm (se_mod (\<lambda>s. s\<lparr> se_aux := [] \<rparr>))
                        (ret \<lparr> od_arena = Some a, od_tail = None, od_nr = None, od_fd = None,
                               od_inline_len = il, od_aux_len = 0 \<rparr>)))))))))))"

section \<open>Pointers\<close>

definition aux_fd_xlate :: "req \<Rightarrow> dev \<Rightarrow> nat \<Rightarrow> unit sm" where
  "aux_fd_xlate rq d il =
    (if rq_aux_fd_field_off rq = NONE_U32 then ret ()
     else
       (let off = unat (rq_aux_fd_field_off rq) in
        bindm (if \<not> is_uvm d \<and> rq_ioctl_nr rq = NV_ESC_RM_CONTROL \<and> 32 \<le> il
               then bindm (scr_rd32 8) (\<lambda>cmd. ret (ctrl_fd_offset cmd)) else ret None) (\<lambda>ctrl_fd.
        bindm (case ctrl_fd of
                 Some o1 \<Rightarrow> if unat o1 = off then ret 4 else fail EINVAL
               | None \<Rightarrow> ret (8 :: nat)) (\<lambda>width.
        bindm auxb (\<lambda>aux.
        seqm (refuse (length aux < off + width) EINVAL)
        (if rq_aux_fd_field_token rq = NONE_U64 then ret ()
         else bindm (se_get se_aux_fd_host) (\<lambda>h.
              case h of
                None \<Rightarrow> fail EBADF
              | Some f \<Rightarrow>
                  if width = 4 then aux_wr32 off f
                  else seqm (aux_wr64 off (scast f))
                       (watch_client (rq_aux_fd_field_token rq) f
                          (if rq_aux_fd_field_proc rq \<noteq> NONE_U32 then Some (rq_aux_fd_field_proc rq) else None)))))))))"

definition nested_ptr_xlate :: "req \<Rightarrow> dev \<Rightarrow> u64 \<Rightarrow> nested_desc \<Rightarrow> (nat \<times> nat) option \<Rightarrow> (nat \<times> nat) option sm" where
  "nested_ptr_xlate rq d addr nd acc =
    seqm (aux_wr64 (unat (nd_ptr_off nd)) (addr + ucast (nd_aux_off nd)))
    (bindm (getm (\<lambda>s. ledger_enabled (xh_ledger (st_x s)))) (\<lambda>enabled.
     if \<not> is_uvm d \<and> enabled \<and> rq_ioctl_nr rq = NV_ESC_RM_CONTROL then
       bindm (scr_rd32 8) (\<lambda>cmd.
       if cmd = CMD_FB_GET_INFO
       then bindm (aux_rd32 0) (\<lambda>asked. ret (Some (unat (nd_aux_off nd), unat asked)))
       else ret acc)
     else ret acc))"

definition nested_xlate :: "req \<Rightarrow> dev \<Rightarrow> u64 \<Rightarrow> (nat \<times> nat) option sm" where
  "nested_xlate rq d addr =
    seqm (assertm (unat (rq_nested_count rq) \<le> length (rq_nested rq)))
    (foldm (nested_ptr_xlate rq d addr) (take (unat (rq_nested_count rq)) (rq_nested rq)) None)"

section \<open>Substituted callbacks\<close>

definition subst_event :: "senv \<Rightarrow> req \<Rightarrow> dev \<Rightarrow> nat \<Rightarrow> event_reg option sm" where
  "subst_event env rq d il =
    bindm auxb (\<lambda>aux.
    if \<not> (\<not> is_uvm d \<and> rq_ioctl_nr rq = NV_ESC_RM_ALLOC \<and> 16 \<le> il \<and> 24 \<le> length aux) then ret None
    else
      bindm (scr_rd32 12) (\<lambda>hclass.
      if hclass \<noteq> NV01_EVENT_KERNEL_CALLBACK \<and> hclass \<noteq> NV01_EVENT_KERNEL_CALLBACK_EX then ret None
      else
        bindm (scr_rd32 0) (\<lambda>h_client.
        bindm (aux_rd64 16) (\<lambda>guest_data.
        bindm (aux_rd32 12) (\<lambda>notify.
        bindm (alloc_os_event_id env h_client) (\<lambda>eid.
        seqm (aux_wr32 8 NV01_EVENT_OS_EVENT)
        (seqm (aux_wr64 16 (ucast eid))
        (seqm (scr_wr32 12 NV01_EVENT_OS_EVENT)
        (ret (Some \<lparr> er_h_client = h_client, er_h_event = 0, er_class = hclass, er_notify_index = notify,
                     er_guest_data = guest_data, er_token = rq_target_token rq, er_id = eid \<rparr>))))))))))"

definition target_from_params :: "waiter_target sm" where
  "target_from_params =
    bindm (scr_rd32 4) (\<lambda>surface. bindm (aux_rd64 0) (\<lambda>i. bindm (aux_rd64 8) (\<lambda>v.
    ret \<lparr> wt_surface = surface, wt_index = i, wt_wait_value = v \<rparr>)))"

definition subst_register :: "senv \<Rightarrow> req \<Rightarrow> active_waiter option sm" where
  "subst_register env rq =
    bindm (aux_rd64 24) (\<lambda>kc.
    if kc \<le> 0xFFFFFFFF then ret None
    else
      bindm (scr_rd32 0) (\<lambda>h_client.
      bindm take_waiter_generation (\<lambda>g.
      bindm (waiter_slot_get env h_client) (\<lambda>sl.
      seqm (aux_wr64 24 (ucast (sl_id sl)))
      (bindm target_from_params (\<lambda>tgt.
       ret (Some \<lparr> aw_slot = sl, aw_generation = g, aw_target = tgt, aw_h_client = h_client,
                   aw_guest_kc = kc, aw_token = rq_target_token rq \<rparr>)))))))"

text \<open>The order in which the source walks its hash map is unspecified; here it is the order of
  registration.\<close>

definition find_waiter :: "u32 \<Rightarrow> u64 \<Rightarrow> waiter_target \<Rightarrow> sess \<Rightarrow> u32 option" where
  "find_waiter h_client kc tgt s =
    map_option fst (find (\<lambda>(_, w). aw_h_client w = h_client \<and> aw_guest_kc w = kc \<and> aw_target w = tgt) (se_waiters s))"

definition subst_unregister :: "u32 option sm" where
  "subst_unregister =
    bindm (aux_rd64 16) (\<lambda>kc.
    if kc \<le> 0xFFFFFFFF then ret None
    else
      bindm (scr_rd32 0) (\<lambda>h_client.
      bindm target_from_params (\<lambda>tgt.
      bindm (se_get (find_waiter h_client kc tgt)) (\<lambda>found.
      case found of
        None \<Rightarrow> ret None
      | Some eid \<Rightarrow> seqm (aux_wr64 16 (ucast eid)) (ret (Some eid))))))"

definition subst_waiter :: "senv \<Rightarrow> req \<Rightarrow> dev \<Rightarrow> nat \<Rightarrow> (active_waiter option \<times> u32 option) sm" where
  "subst_waiter env rq d il =
    (if \<not> (\<not> is_uvm d \<and> rq_ioctl_nr rq = NV_ESC_RM_CONTROL \<and> 32 \<le> il) then ret (None, None)
     else
       bindm (scr_rd32 8) (\<lambda>cmd.
       bindm auxb (\<lambda>aux.
       if cmd = CTRL_SEMSURF_REGISTER_WAITER \<and> 32 \<le> length aux then
         bindm (subst_register env rq) (\<lambda>w. ret (w, None))
       else if cmd = CTRL_SEMSURF_UNREGISTER_WAITER \<and> 24 \<le> length aux then
         bindm subst_unregister (\<lambda>u. ret (None, u))
       else ret (None, None))))"

section \<open>Video memory\<close>

definition vram_reservem :: "u64 \<Rightarrow> bool sm" where
  "vram_reservem n = on_books (\<lambda>l b. case reserve l n of None \<Rightarrow> (False, l, b) | Some l' \<Rightarrow> (True, l', b))"

record vram_plan =
  vq_reserved :: u64
  vq_full :: bool
  vq_status_off :: nat
  vq_vidheap :: bool
  vq_ask :: "ask option"

definition vram_none :: vram_plan where
  "vram_none = \<lparr> vq_reserved = 0, vq_full = False, vq_status_off = 0, vq_vidheap = False, vq_ask = None \<rparr>"

definition vram_reserve_for :: "u64 \<Rightarrow> nat \<Rightarrow> bool \<Rightarrow> ask option \<Rightarrow> vram_plan sm" where
  "vram_reserve_for n off vidheap ask =
    bindm (vram_reservem n) (\<lambda>ok.
    ret \<lparr> vq_reserved = (if ok then n else 0), vq_full = (\<not> ok), vq_status_off = off,
          vq_vidheap = vidheap, vq_ask = ask \<rparr>)"

definition vram_alloc :: "req \<Rightarrow> dev \<Rightarrow> nat \<Rightarrow> vram_plan sm" where
  "vram_alloc rq d il =
    (if is_uvm d \<or> rq_ioctl_nr rq \<noteq> NV_ESC_RM_ALLOC then ret vram_none
     else case alloc_status_off il of
            None \<Rightarrow> ret vram_none
          | Some off \<Rightarrow>
              bindm (scr_rd32 12) (\<lambda>hclass.
              bindm auxb (\<lambda>aux.
              case request_bytes hclass aux of
                None \<Rightarrow> ret vram_none
              | Some n \<Rightarrow>
                  vram_reserve_for n off False (ask_of_alloc (if off = 40 then Nvos64 else Nvos21) hclass aux))))"

definition vram_vidheap :: "req \<Rightarrow> dev \<Rightarrow> nat \<Rightarrow> vram_plan \<Rightarrow> vram_plan sm" where
  "vram_vidheap rq d il v =
    (if is_uvm d \<or> rq_ioctl_nr rq \<noteq> NV_ESC_RM_VID_HEAP_CONTROL then ret v
     else
       bindm scr (\<lambda>b.
       seqm (assertm (il \<le> length b))
       (case vidheap_request_bytes (take il b) of
          None \<Rightarrow> ret v
        | Some n \<Rightarrow> vram_reserve_for n V_STATUS_OFF True (ask_of_vidheap (take il b)))))"

section \<open>The whole preparation\<close>

definition ioctl_request :: "dev \<Rightarrow> u32 \<Rightarrow> nat \<Rightarrow> u32 sm" where
  "ioctl_request d nr il =
    (if is_uvm d then ret nr
     else if 0x3fff < il then fail EMSGSIZE
     else ret (iowr_raw nr (word_of_nat il)))"

definition managed_cmds :: "u32 list" where "managed_cmds = [42, 43, 44, 45, 46, 47, 51]"

definition choose_action :: "senv \<Rightarrow> req \<Rightarrow> dev \<Rightarrow> bool \<Rightarrow> action" where
  "choose_action env rq d full =
    (if is_uvm d \<and> rq_ioctl_nr rq = UVM_ALLOC_SEMAPHORE_POOL then FakeSemaphorePool
     else if is_uvm d \<and> rq_ioctl_nr rq \<in> set managed_cmds \<and> sv_managed env then FakeManaged
     else if full then FakeVramFull else Forward)"

text \<open>Everything after the arena, which is dropped when one of these steps refuses.\<close>

definition prepare_rest :: "senv \<Rightarrow> req \<Rightarrow> dev \<Rightarrow> i32 \<Rightarrow> osdesc \<Rightarrow> plan sm" where
  "prepare_rest env rq d target_fd od =
    (let il = od_inline_len od; nr = (case od_nr od of Some n \<Rightarrow> n | None \<Rightarrow> rq_ioctl_nr rq) in
     bindm (getm (\<lambda>s. sv_addr env (st_x s))) (\<lambda>addr.
     seqm (if rq_embedded_ptr_off rq \<noteq> NONE_U32 \<and> od_nr od = None
           then scr_wr64 (unat (rq_embedded_ptr_off rq)) addr else ret ())
     (seqm (aux_fd_xlate rq d il)
     (bindm (nested_xlate rq d addr) (\<lambda>fb_list.
      bindm (ioctl_request d nr il) (\<lambda>request.
      bindm (subst_event env rq d il) (\<lambda>ev.
      bindm (subst_waiter env rq d il) (\<lambda>(wreg, wunreg).
      bindm (vram_alloc rq d il) (\<lambda>v0.
      bindm (vram_vidheap rq d il v0) (\<lambda>v.
      ret \<lparr> pp_seq = rq_seq rq, pp_target_fd = (case od_fd od of Some f \<Rightarrow> f | None \<Rightarrow> target_fd),
            pp_request = request, pp_action = choose_action env rq d (vq_full v), pp_ioctl_nr = nr,
            pp_dev_tag = rq_dev_tag rq, pp_inline_len = il, pp_aux_len = od_aux_len od,
            pp_osdesc_arena = od_arena od, pp_target_token = rq_target_token rq,
            pp_vram_reserved = vq_reserved v, pp_vram_status_off = vq_status_off v,
            pp_osdesc_tail = od_tail od, pp_event_reg = ev, pp_waiter_reg = wreg, pp_waiter_unreg = wunreg,
            pp_vram_vidheap = vq_vidheap v, pp_vram_ask = vq_ask v, pp_fb_info_list = fb_list \<rparr>))))))))))"

definition prepare :: "senv \<Rightarrow> req \<Rightarrow> bytes \<Rightarrow> plan sm" where
  "prepare env rq payload =
    bindm (prepare_admit env rq payload) (\<lambda>(d, shape).
    bindm (load_buffers rq payload d shape) (\<lambda>target_fd.
    seqm (fd_field_xlate rq)
    (seqm (whenm (\<not> is_uvm d \<and> rq_ioctl_nr rq = NV_ESC_ALLOC_OS_EVENT)
             (watch_client (rq_target_token rq) target_fd None))
    (bindm (if \<not> is_uvm d \<and> rq_gpa_run_count rq \<noteq> 0 then osdesc_runs env rq target_fd
            else ret \<lparr> od_arena = None, od_tail = None, od_nr = None, od_fd = None,
                       od_inline_len = unat (rq_inline_len rq), od_aux_len = unat (rq_aux_len rq) \<rparr>) (\<lambda>od.
     dropm (case od_arena od of None \<Rightarrow> (\<lambda>s. s) | Some a \<Rightarrow> arena_dropm env a)
       (prepare_rest env rq d target_fd od))))))"

end
