(* ===== verification/Execute.thy ===== *)
theory Execute
  imports Prepare
begin

text \<open>
  \<^verbatim>\<open>Session::execute\<close> of \<^verbatim>\<open>crates/vhost-user-nvrm/src/session.rs\<close>: the prepared call, the books it
  settles, the answers it rewrites and the reply; and \<^verbatim>\<open>Session::handle_msg_with\<close>, which dispatches one
  message.  Of the diagnostic blocks the reads are kept, because a read past a buffer would
  panic; what they print is not modelled.  The volatile store of \<^verbatim>\<open>write_guest_u32_for\<close> is the call
  \<^verbatim>\<open>SStore\<close> of the history.
\<close>

section \<open>The call itself\<close>

definition UUID_CONTROLS :: "u32 list" where "UUID_CONTROLS = [0x2080014a, 628, 629]"

definition uuid_swap :: "senv \<Rightarrow> plan \<Rightarrow> bool \<Rightarrow> sess \<Rightarrow> sess" where
  "uuid_swap env p toward_host s =
    (case (if fst (snd (sv_switches env)) then sv_card env else None) of
       None \<Rightarrow> s
     | Some c \<Rightarrow>
         (let n = min (pp_inline_len p) (length (se_scratch s));
              conv = (if toward_host then to_host c else to_guest c) in
          if (case dev_of (pp_dev_tag p) of Some d \<Rightarrow> is_uvm d | None \<Rightarrow> False)
          then s\<lparr> se_scratch := conv (take n (se_scratch s)) @ drop n (se_scratch s) \<rparr>
          else if pp_ioctl_nr p = NV_ESC_RM_CONTROL \<and> 32 \<le> n \<and> rd32 (se_scratch s) 8 \<in> set UUID_CONTROLS
          then s\<lparr> se_aux := conv (se_aux s) \<rparr>
          else s))"

definition SEMAPHORE_POOL_RMSTATUS_OFF :: nat where "SEMAPHORE_POOL_RMSTATUS_OFF = 9240"

definition fake_managed :: "plan \<Rightarrow> unit sm" where
  "fake_managed p =
    (let il = pp_inline_len p; nr = pp_ioctl_nr p in
     if nr \<in> set [43, 44, 45] \<and> 20 \<le> il then scr_wr32 16 NV_OK
     else if nr = 42 \<and> 40 \<le> il then scr_wr32 36 NV_OK
     else if nr \<in> set [46, 47] \<and> 36 \<le> il then scr_wr32 32 NV_OK
     else if nr = 51 \<and> 80 \<le> il then
       seqm (scr_wr64 56 0) (seqm (scr_wr64 64 0) (seqm (scr_wr32 72 NV_OK)
       (bindm (scr_rd64 40) (\<lambda>sema. bindm (scr_rd32 48) (\<lambda>pay.
        bindm (se_get se_pool) (\<lambda>ps.
        if sema \<noteq> 0
        then (case write_guest_u32_for ps (pp_target_token p) (GuestAddr sema) of
                None \<Rightarrow> ret ()
              | Some va \<Rightarrow> modm (\<lambda>s. s\<lparr> st_x := x_log (SStore va pay) (st_x s) \<rparr>))
        else ret ()))))))
     else fail EINVAL)"

definition vram_refused :: "plan \<Rightarrow> unit sm" where
  "vram_refused p =
    seqm (scr_wr32 (pp_vram_status_off p) NV_ERR_NO_MEMORY)
    (case pp_vram_ask p of
       None \<Rightarrow> ret ()
     | Some ask \<Rightarrow> on_books (\<lambda>l b. ((), l, fst (count_refusal b ask))))"

definition forward :: "senv \<Rightarrow> plan \<Rightarrow> (i32 \<times> i32) sm" where
  "forward env p =
    seqm (se_mod (uuid_swap env p True))
    (bindm scr (\<lambda>b. bindm auxb (\<lambda>a.
     bindm (sys_ioctl env (pp_target_fd p) (pp_request p) b a) (\<lambda>(r, e, b', a').
     seqm (se_mod (\<lambda>s. s\<lparr> se_scratch := b', se_aux := a' \<rparr>))
     (ret (r, if r <s 0 then e else 0))))))"

definition plan_drop :: "senv \<Rightarrow> plan \<Rightarrow> st \<Rightarrow> st" where
  "plan_drop env p s =
    (let s1 = (case pp_osdesc_arena p of None \<Rightarrow> s | Some a \<Rightarrow> arena_dropm env a s) in
     case pp_waiter_reg p of None \<Rightarrow> s1 | Some w \<Rightarrow> s1\<lparr> st_x := x_close (sl_ctl (aw_slot w)) (st_x s1) \<rparr>)"

definition run_action :: "senv \<Rightarrow> plan \<Rightarrow> (i32 \<times> i32) sm" where
  "run_action env p =
    bindm (case pp_action p of
       FakeVramFull \<Rightarrow> seqm (vram_refused p) (ret (0, 0))
     | FakeSemaphorePool \<Rightarrow>
         seqm (if SEMAPHORE_POOL_RMSTATUS_OFF + 4 \<le> pp_inline_len p
               then scr_wr32 SEMAPHORE_POOL_RMSTATUS_OFF NV_OK else ret ()) (ret (0, 0))
     | FakeManaged \<Rightarrow> dropm (plan_drop env p) (seqm (fake_managed p) (ret (0, 0)))
     | Forward \<Rightarrow> forward env p) (\<lambda>res.
    seqm (se_mod (uuid_swap env p False)) (ret res))"

section \<open>Books after the call\<close>

definition settle_osdesc :: "senv \<Rightarrow> plan \<Rightarrow> i32 \<Rightarrow> unit sm" where
  "settle_osdesc env p r =
    (case pp_osdesc_arena p of
       None \<Rightarrow> ret ()
     | Some a \<Rightarrow>
         bindm (scr_rd32 40) (\<lambda>status.
         if r = 0 \<and> status = NV_OK then
           bindm (scr_rd32 0) (\<lambda>hroot. bindm (scr_rd32 8) (\<lambda>hnew.
           on_pool (\<lambda>ps H. case keep_osdesc_arena ps hroot hnew a H of (ps', H') \<Rightarrow> ((), ps', H'))))
         else modm (arena_dropm env a)))"

definition settle_event :: "senv \<Rightarrow> plan \<Rightarrow> i32 \<Rightarrow> unit sm" where
  "settle_event env p r =
    (case pp_event_reg p of
       None \<Rightarrow> ret ()
     | Some reg \<Rightarrow>
         bindm scr (\<lambda>b.
         let ok = (r = 0 \<and> (case alloc_status_off (pp_inline_len p) of
                               None \<Rightarrow> False | Some off \<Rightarrow> off + 4 \<le> length b \<and> rd32 b off = NV_OK)) in
         if ok \<and> 12 \<le> length b then
           se_mod (\<lambda>s. s\<lparr> se_events := AList.update (er_h_client reg, rd32 b 8) (reg\<lparr> er_h_event := rd32 b 8 \<rparr>) (se_events s),
                          se_ev_registered := se_ev_registered s + 1 \<rparr>)
         else free_os_event env (er_h_client reg) (er_id reg)))"

definition control_ok :: "plan \<Rightarrow> i32 \<Rightarrow> bool sm" where
  "control_ok p r =
    (if r = 0 \<and> 32 \<le> pp_inline_len p then bindm (scr_rd32 28) (\<lambda>status. ret (status = NV_OK)) else ret False)"

definition settle_waiter_reg :: "plan \<Rightarrow> i32 \<Rightarrow> unit sm" where
  "settle_waiter_reg p r =
    (case pp_waiter_reg p of
       None \<Rightarrow> ret ()
     | Some w \<Rightarrow>
         bindm (control_ok p r) (\<lambda>ok.
         if ok then
           se_mod (\<lambda>s. s\<lparr>
             se_pending_pollables := se_pending_pollables s @
               [PollWaiter \<lparr> ri_event_id = sl_id (aw_slot w), ri_generation = aw_generation w \<rparr> (sl_ctl (aw_slot w))],
             se_waiters := AList.update (sl_id (aw_slot w)) w (se_waiters s),
             se_ev_registered := se_ev_registered s + 1 \<rparr>)
         else se_mod (pool_push (aw_h_client w) (aw_slot w))))"

definition settle_waiter_unreg :: "plan \<Rightarrow> i32 \<Rightarrow> unit sm" where
  "settle_waiter_unreg p r =
    (case pp_waiter_unreg p of
       None \<Rightarrow> ret ()
     | Some eid \<Rightarrow>
         bindm (control_ok p r) (\<lambda>ok.
         if ok then
           se_mod (\<lambda>s. case map_of (se_waiters s) eid of
             None \<Rightarrow> s
           | Some w \<Rightarrow> s\<lparr> se_waiters := AList.delete eid (se_waiters s),
               se_pending_unwatch := se_pending_unwatch s @ [retire (Some (aw_h_client w)) (aw_slot w)] \<rparr>)
         else ret ()))"

definition restore_tail :: "plan \<Rightarrow> unit sm" where
  "restore_tail p =
    (case pp_osdesc_tail p of
       None \<Rightarrow> ret ()
     | Some t \<Rightarrow>
         bindm scr (\<lambda>b.
         if 40 \<le> length b \<and> 24 \<le> length t
         then se_mod (\<lambda>s. s\<lparr> se_scratch := write_at b 16 (take 24 t) \<rparr>) else ret ()))"

section \<open>Rewritten answers\<close>

abbreviation (input) CMD_GPU_GET_PIDS :: u32 where "CMD_GPU_GET_PIDS \<equiv> 0x2080018d"
abbreviation (input) CMD_GPU_GET_PID_INFO :: u32 where "CMD_GPU_GET_PID_INFO \<equiv> 0x2080018e"
abbreviation (input) CMD_FB_GET_INFO_V2 :: u32 where "CMD_FB_GET_INFO_V2 \<equiv> 0x20801303"
abbreviation (input) CMD_GPU_GET_NAME_STRING :: u32 where "CMD_GPU_GET_NAME_STRING \<equiv> 0x20800110"
abbreviation (input) CMD_GPU_GET_VIRTUALIZATION_MODE :: u32 where "CMD_GPU_GET_VIRTUALIZATION_MODE \<equiv> 0x00800289"
abbreviation (input) CMD_GPU_GET_ENCODER_CAPACITY :: u32 where "CMD_GPU_GET_ENCODER_CAPACITY \<equiv> 0x2080016c"

definition aux_rewrite :: "(bytes \<Rightarrow> (bytes \<times> 'a) option) \<Rightarrow> sess \<Rightarrow> sess" where
  "aux_rewrite f s = (case f (se_aux s) of None \<Rightarrow> s | Some (a, _) \<Rightarrow> s\<lparr> se_aux := a \<rparr>)"

definition rewrite_sizes :: "plan \<Rightarrow> u32 \<Rightarrow> u32 \<Rightarrow> ledger \<Rightarrow> sess \<Rightarrow> sess" where
  "rewrite_sizes p cmd status l s =
    (let s1 = (if ledger_enabled l \<and> cmd = CMD_FB_GET_INFO_V2 \<and> status = NV_OK
               then aux_rewrite (\<lambda>a. rewrite_fb_info a (ledger_limit l) (lg_used l)) s else s) in
     case pp_fb_info_list p of
       None \<Rightarrow> s1
     | Some (off, asked) \<Rightarrow>
         if status = NV_OK \<and> off \<le> length (se_aux s1) then
           aux_rewrite (\<lambda>a. map_option (\<lambda>(b, t). (take off a @ b, t))
              (rewrite_fb_info_list (drop off a) asked (ledger_limit l) (lg_used l))) s1
         else s1)"

definition rewrite_name :: "senv \<Rightarrow> u32 \<Rightarrow> u32 \<Rightarrow> ledger \<Rightarrow> sess \<Rightarrow> sess" where
  "rewrite_name env cmd status l s =
    (if cmd = CMD_GPU_GET_NAME_STRING \<and> \<not> sv_name_raw env \<and> status = NV_OK
     then aux_rewrite (\<lambda>a. rewrite_gpu_name (sv_name_format env) a (lg_profile l)) s else s)"

text \<open>The process lists: an answer that is not the documented structure is refused.\<close>

definition rewrite_pids :: "u32 \<Rightarrow> u32 \<Rightarrow> ledger \<Rightarrow> sess \<Rightarrow> bool \<times> sess" where
  "rewrite_pids cmd status l s =
    (if cmd \<in> set [CMD_GPU_GET_PIDS, CMD_GPU_GET_PID_INFO] \<and> status = NV_OK then
       (case (if cmd = CMD_GPU_GET_PIDS then rewrite_get_pids (se_aux s) (roster l)
              else rewrite_get_pid_info (se_aux s) (roster l)) of
          None \<Rightarrow> (True, s)
        | Some (a, _) \<Rightarrow> (False, s\<lparr> se_aux := a \<rparr>))
     else (False, s))"

definition rewrite_grid :: "senv \<Rightarrow> u32 \<Rightarrow> u32 \<Rightarrow> ledger \<Rightarrow> sess \<Rightarrow> sess" where
  "rewrite_grid env cmd status l s =
    (if status \<noteq> NV_OK then s
     else if cmd = CMD_GPU_GET_VIRTUALIZATION_MODE \<and> pf_policy (lg_profile l) = Grid \<and> fst (sv_switches env)
     then aux_rewrite rewrite_virtualization_mode s
     else if cmd = CMD_GPU_GET_ENCODER_CAPACITY \<and> snd (snd (sv_switches env))
     then aux_rewrite (\<lambda>a. rewrite_encoder_capacity a (pf_encoder_capacity (lg_profile l))) s
     else s)"

definition rewrite_control :: "senv \<Rightarrow> plan \<Rightarrow> bool \<Rightarrow> i32 \<Rightarrow> bool sm" where
  "rewrite_control env p frontend r =
    (if \<not> (frontend \<and> r = 0 \<and> pp_ioctl_nr p = NV_ESC_RM_CONTROL \<and> 32 \<le> pp_inline_len p) then ret False
     else
       bindm (scr_rd32 8) (\<lambda>cmd. bindm (scr_rd32 28) (\<lambda>status.
       bindm (getm (\<lambda>s. xh_ledger (st_x s))) (\<lambda>l.
       seqm (se_mod (\<lambda>s. rewrite_name env cmd status l (rewrite_sizes p cmd status l s)))
       (bindm (stepm (\<lambda>s. case rewrite_pids cmd status l (st_se s) of (bad, se) \<Rightarrow> (bad, s\<lparr> st_se := se \<rparr>))) (\<lambda>bad.
        seqm (se_mod (rewrite_grid env cmd status l)) (ret bad)))))))"

definition vidheap_status_ok :: "plan \<Rightarrow> bool \<Rightarrow> i32 \<Rightarrow> bool sm" where
  "vidheap_status_ok p frontend r =
    (if frontend \<and> r = 0 \<and> pp_ioctl_nr p = NV_ESC_RM_VID_HEAP_CONTROL \<and> V_STATUS_OFF + 4 \<le> pp_inline_len p
     then bindm (scr_rd32 V_STATUS_OFF) (\<lambda>status. ret (status = NV_OK)) else ret False)"

definition inline_prefix :: "plan \<Rightarrow> bytes sm" where
  "inline_prefix p = bindm scr (\<lambda>b. seqm (assertm (pp_inline_len p \<le> length b)) (ret (take (pp_inline_len p) b)))"

definition rewrite_vidheap :: "plan \<Rightarrow> bool \<Rightarrow> i32 \<Rightarrow> unit sm" where
  "rewrite_vidheap p frontend r =
    bindm (getm (\<lambda>s. xh_ledger (st_x s))) (\<lambda>l.
    if \<not> ledger_enabled l then ret ()
    else
      bindm (vidheap_status_ok p frontend r) (\<lambda>ok.
      if \<not> ok then ret ()
      else
        bindm (inline_prefix p) (\<lambda>b.
        se_mod (\<lambda>s. s\<lparr> se_scratch := fst (rewrite_vidheap_info b (ledger_limit l) (lg_used l)) @
                        drop (pp_inline_len p) (se_scratch s) \<rparr>))))"

section \<open>Accounting after the call\<close>

definition settle_outcome :: "plan \<Rightarrow> (u32 \<times> u32) sm" where
  "settle_outcome p =
    (if pp_vram_vidheap p then bindm (inline_prefix p) (\<lambda>b. ret (vidheap_attr_out b, vidheap_handle b))
     else
       bindm auxb (\<lambda>a. bindm (scr_rd32 8) (\<lambda>h. ret (if 28 \<le> length a then rd32 a 24 else 0, h))))"

definition settle_vram :: "plan \<Rightarrow> i32 \<Rightarrow> unit sm" where
  "settle_vram p r =
    (if pp_vram_reserved p = 0 then ret ()
     else
       bindm (scr_rd32 (pp_vram_status_off p)) (\<lambda>status.
       bindm (settle_outcome p) (\<lambda>(attr_out, handle).
       bindm (scr_rd32 0) (\<lambda>root. bindm (scr_rd32 4) (\<lambda>parent.
       let ok = (r = 0 \<and> status = NV_OK) in
       seqm (case pp_vram_ask p of
               None \<Rightarrow> ret ()
             | Some ask \<Rightarrow> on_books (\<lambda>l b. ((), fst (note_placement l ask ok status attr_out), b)))
       (on_books (\<lambda>l b. case settle l b ok attr_out \<lparr> ch_token = pp_target_token p, ch_root = root,
             ch_parent = parent, ch_handle = handle, ch_bytes = pp_vram_reserved p \<rparr> of (l', b') \<Rightarrow> ((), l', b')))))))) "

definition UVM_FREE_PARAMS_OFF_base :: nat where "UVM_FREE_PARAMS_OFF_base = 0"

definition after_uvm_free :: "senv \<Rightarrow> plan \<Rightarrow> i32 \<Rightarrow> unit sm" where
  "after_uvm_free env p r =
    (if r = 0 \<and> (case dev_of (pp_dev_tag p) of Some d \<Rightarrow> is_uvm d | None \<Rightarrow> False) \<and>
        pp_ioctl_nr p = UVM_FREE \<and> abi_uvm_free_size (sv_abi env) \<le> pp_inline_len p then
       bindm (scr_rd32 (abi_uvm_free_off_rmStatus (sv_abi env))) (\<lambda>status.
       if status = NV_OK then
         bindm (scr_rd64 UVM_FREE_PARAMS_OFF_base) (\<lambda>base.
         seqm (on_pool (release_uvm_range (sv_henv env) (pp_target_token p) (GuestAddr base))) (ret ()))
       else ret ())
     else ret ())"

abbreviation (input) NVOS32_FUNCTION_FREE :: u32 where "NVOS32_FUNCTION_FREE \<equiv> 3"

definition free_vidheap :: "plan \<Rightarrow> bool \<Rightarrow> i32 \<Rightarrow> unit sm" where
  "free_vidheap p frontend r =
    bindm (vidheap_status_ok p frontend r) (\<lambda>ok.
    if \<not> ok then ret ()
    else
      bindm (inline_prefix p) (\<lambda>b.
      if vidheap_function b = Some NVOS32_FUNCTION_FREE then
        bindm (scr_rd32 0) (\<lambda>hroot.
        on_books (\<lambda>l bk. case free_object l bk hroot (vidheap_handle b) of (l', bk') \<Rightarrow> ((), l', bk')))
      else ret ()))"

definition note_client :: "plan \<Rightarrow> bool \<Rightarrow> i32 \<Rightarrow> unit sm" where
  "note_client p frontend r =
    (if frontend \<and> r = 0 \<and> pp_ioctl_nr p = NV_ESC_RM_ALLOC \<and> 12 \<le> pp_inline_len p then
       bindm (case alloc_status_off (pp_inline_len p) of
                None \<Rightarrow> ret False
              | Some off \<Rightarrow>
                  if off + 4 \<le> pp_inline_len p
                  then bindm (scr_rd32 off) (\<lambda>status. ret (status = NV_OK)) else ret False) (\<lambda>ok.
       bindm (scr_rd32 4) (\<lambda>parent. bindm (scr_rd32 8) (\<lambda>h_new.
       if ok \<and> parent = 0 \<and> h_new \<noteq> 0
       then se_mod (\<lambda>s. s\<lparr> se_client_token := AList.update h_new (pp_target_token p) (se_client_token s) \<rparr>)
       else ret ())))
     else ret ())"

definition after_rm_free :: "senv \<Rightarrow> plan \<Rightarrow> bool \<Rightarrow> i32 \<Rightarrow> unit sm" where
  "after_rm_free env p frontend r =
    (if frontend \<and> r = 0 \<and> pp_ioctl_nr p = NV_ESC_RM_FREE \<and> 16 \<le> pp_inline_len p then
       bindm (scr_rd32 12) (\<lambda>status.
       if status \<noteq> NV_OK then ret ()
       else
         bindm (scr_rd32 0) (\<lambda>hroot. bindm (scr_rd32 8) (\<lambda>hold.
         seqm (on_pool (\<lambda>ps H. case drop_osdesc_arena ps hroot hold H of (ps', H') \<Rightarrow> ((), ps', H')))
         (seqm (on_books (\<lambda>l b. case free_object l b hroot hold of (l', b') \<Rightarrow> ((), l', b')))
         (if hold = hroot then
            stepm (\<lambda>s. case release_client hroot (st_se s) (xh_host (st_x s)) of
              (se, H) \<Rightarrow> ((), s\<lparr> st_se := se, st_x := (st_x s)\<lparr> xh_host := H \<rparr> \<rparr>))
          else
            bindm (se_get (\<lambda>s. map_of (se_events s) (hroot, hold))) (\<lambda>found.
            case found of
              None \<Rightarrow> ret ()
            | Some reg \<Rightarrow>
                seqm (se_mod (\<lambda>s. s\<lparr> se_events := AList.delete (hroot, hold) (se_events s) \<rparr>))
                (free_os_event env (er_h_client reg) (er_id reg))))))))
     else ret ())"

section \<open>Attribution and grants\<close>

definition sub_name :: "sess \<Rightarrow> bytes" where
  "sub_name s =
    (if pi_pid (se_proc s) = 0 \<and> pi_comm (se_proc s) ! 0 = 0
     then ascii (''guest-'' @ dec_str (unat (se_sub_id s)))
     else ascii (comm_str (se_proc s) @ ''['' @ dec_str (unat (pi_pid (se_proc s))) @ '']''))"

definition client_control :: "senv \<Rightarrow> i32 \<Rightarrow> u32 \<Rightarrow> u32 \<Rightarrow> bytes \<Rightarrow> unit sm" where
  "client_control env fd hclient cmd params =
    bindm (getm (\<lambda>s. sv_addr env (st_x s))) (\<lambda>addr.
    seqm (sys_ioctl env fd (iowr_raw NV_ESC_RM_CONTROL 32) (nvos54_client_control hclient cmd addr params) params)
    (ret ()))"

abbreviation (input) NV01_ROOT_CLIENT :: u32 where "NV01_ROOT_CLIENT \<equiv> 65"

definition label_client :: "senv \<Rightarrow> plan \<Rightarrow> bool \<Rightarrow> i32 \<Rightarrow> unit sm" where
  "label_client env p frontend r =
    bindm (se_get se_sub_id) (\<lambda>sub_id.
    if frontend \<and> r = 0 \<and> sub_id \<noteq> 0 \<and> pp_ioctl_nr p = NV_ESC_RM_ALLOC \<and> 44 \<le> pp_inline_len p then
      bindm (scr_rd32 12) (\<lambda>hclass. bindm (scr_rd32 40) (\<lambda>status.
      if hclass = NV01_ROOT_CLIENT \<and> status = NV_OK then
        bindm (scr_rd32 8) (\<lambda>hclient. bindm (se_get sub_name) (\<lambda>name.
        client_control env (pp_target_fd p) hclient 0x901 (sub_process_id_params sub_id name)))
      else ret ()))
    else ret ())"

definition grant_dup :: "senv \<Rightarrow> plan \<Rightarrow> bool \<Rightarrow> i32 \<Rightarrow> unit sm" where
  "grant_dup env p frontend r =
    (if frontend \<and> r = 0 \<and> pp_ioctl_nr p = NV_ESC_RM_ALLOC \<and> 48 \<le> pp_inline_len p then
       bindm (scr_rd32 40) (\<lambda>status. bindm (scr_rd32 12) (\<lambda>hclass.
       if status = 0 \<and> uvm_dupes_class hclass then
         bindm (scr_rd32 0) (\<lambda>hclient. bindm (scr_rd32 8) (\<lambda>hobject.
         client_control env (pp_target_fd p) hclient 0xd06 (share_object_params hobject)))
       else ret ()))
     else ret ())"

section \<open>Diagnostic reads\<close>

definition uvm_status_off :: "rm_abi \<Rightarrow> u32 \<Rightarrow> nat option" where
  "uvm_status_off A nr =
    (if nr = UVM_INITIALIZE then Some 8
     else if nr = UVM_REGISTER_GPU_VASPACE then Some 28
     else if nr = UVM_UNREGISTER_GPU_VASPACE then Some 16
     else if nr = UVM_REGISTER_CHANNEL then Some 48
     else if nr = UVM_UNREGISTER_CHANNEL then Some (abi_uvm_unregister_channel_off_rmStatus A)
     else if nr = UVM_MAP_EXTERNAL_ALLOCATION then Some 9260
     else if nr = UVM_FREE then Some (abi_uvm_free_off_rmStatus A)
     else if nr = UVM_REGISTER_GPU then Some 36
     else if nr = UVM_PAGEABLE_MEM_ACCESS then Some 4
     else if nr = UVM_SET_PREFERRED_LOCATION then Some 36
     else if nr = UVM_UNSET_PREFERRED_LOCATION then Some 16
     else if nr = UVM_ENABLE_READ_DUPLICATION then Some 16
     else if nr = UVM_DISABLE_READ_DUPLICATION then Some 16
     else if nr = UVM_SET_ACCESSED_BY then Some 32
     else if nr = UVM_UNSET_ACCESSED_BY then Some 32
     else if nr = UVM_MIGRATE then Some 72
     else if nr = UVM_MAP_DYNAMIC_PARALLELISM_REGION then Some 32
     else if nr = UVM_ALLOC_SEMAPHORE_POOL then Some SEMAPHORE_POOL_RMSTATUS_OFF
     else if nr = UVM_PAGEABLE_MEM_ACCESS_ON_GPU then Some 20
     else if nr = UVM_VALIDATE_VA_RANGE then Some 16
     else if nr = UVM_CREATE_EXTERNAL_RANGE then Some 16
     else if nr = UVM_MM_INITIALIZE then Some 4
     else None)"

text \<open>\<^verbatim>\<open>obj_ledger\<close> takes the whole inline block; the later reads of a frontend call lie in it.\<close>

definition log_reads :: "senv \<Rightarrow> plan \<Rightarrow> bool \<Rightarrow> unit sm" where
  "log_reads env p frontend =
    (if frontend then seqm (inline_prefix p) (ret ())
     else if (case dev_of (pp_dev_tag p) of Some d \<Rightarrow> is_uvm d | None \<Rightarrow> False) then
       (case uvm_status_off (sv_abi env) (pp_ioctl_nr p) of
          None \<Rightarrow> ret ()
        | Some off \<Rightarrow> if off + 4 \<le> pp_inline_len p then seqm (scr_rd32 off) (ret ()) else ret ())
     else ret ())"

section \<open>One ioctl\<close>

definition books_after :: "senv \<Rightarrow> plan \<Rightarrow> bool \<Rightarrow> i32 \<Rightarrow> unit sm" where
  "books_after env p frontend r =
    seqm (rewrite_vidheap p frontend r)
    (seqm (settle_vram p r)
    (seqm (after_uvm_free env p r)
    (seqm (free_vidheap p frontend r)
    (seqm (note_client p frontend r)
    (seqm (after_rm_free env p frontend r)
    (seqm (label_client env p frontend r)
    (seqm (grant_dup env p frontend r)
    (log_reads env p frontend))))))))"

definition settle_plan :: "senv \<Rightarrow> plan \<Rightarrow> i32 \<Rightarrow> unit sm" where
  "settle_plan env p r =
    seqm (settle_osdesc env p r)
    (seqm (settle_event env p r)
    (seqm (settle_waiter_reg p r)
    (seqm (settle_waiter_unreg p r)
    (restore_tail p))))"

definition ioctl_reply :: "plan \<Rightarrow> i32 \<Rightarrow> i32 \<Rightarrow> bytes sm" where
  "ioctl_reply p r errno =
    bindm scr (\<lambda>b. bindm auxb (\<lambda>a.
    ret (reply ((ok_rsp (pp_seq p))\<lparr> rs_ret := (if r <s 0 then - errno else r),
           rs_inline_len := word_of_nat (pp_inline_len p), rs_aux_len := word_of_nat (pp_aux_len p) \<rparr>) b a)))"

definition execute :: "senv \<Rightarrow> plan \<Rightarrow> bytes sm" where
  "execute env p =
    (let frontend = (case dev_of (pp_dev_tag p) of Some d \<Rightarrow> \<not> is_uvm d | None \<Rightarrow> False) in
     bindm (run_action env p) (\<lambda>(r, errno).
     seqm (settle_plan env p r)
     (bindm (rewrite_control env p frontend r) (\<lambda>refusal.
     seqm (books_after env p frontend r)
     (seqm (refuse refusal EINVAL)
     (ioctl_reply p r errno))))))"

definition on_ioctl :: "senv \<Rightarrow> req \<Rightarrow> bytes \<Rightarrow> bytes sm" where
  "on_ioctl env rq payload = bindm (prepare env rq payload) (execute env)"

section \<open>One message\<close>

definition dispatch :: "senv \<Rightarrow> req \<Rightarrow> bytes \<Rightarrow> bytes sm" where
  "dispatch env rq payload =
    (case kind_from_u32 (rq_kind rq) of
       Some Hello \<Rightarrow> on_hello rq
     | Some Open \<Rightarrow> on_open env rq payload
     | Some Close \<Rightarrow> on_close env rq
     | Some Ioctl \<Rightarrow> on_ioctl env rq payload
     | Some MapPrepare \<Rightarrow> on_map_prepare rq
     | Some UvmPoolBack \<Rightarrow> on_uvm_pool_back env rq payload
     | None \<Rightarrow> fail EPROTO)"

text \<open>\<^verbatim>\<open>None\<close> as the value is the transport error of a message shorter than its header.\<close>

definition handle_msg_with :: "senv \<Rightarrow> bytes \<Rightarrow> i32 option \<Rightarrow> i32 option \<Rightarrow> bytes option sm" where
  "handle_msg_with env msg afd ffd =
    seqm (se_mod (\<lambda>s. s\<lparr> se_aux_fd_host := afd, se_fd_field_host := ffd \<rparr>))
    (case req_from_bytes msg of
       None \<Rightarrow> ret None
     | Some rq \<Rightarrow> bindm (answering (rq_seq rq) (dispatch env rq (drop REQ_LEN msg))) (\<lambda>b. ret (Some b)))"

end
