(* ===== verification/Replies.thy ===== *)
theory Replies
  imports Execute
begin

text \<open>
  Every message is answered.  The session's buffers keep the lengths the reply announces
  through the whole of \<^verbatim>\<open>execute\<close>, every index into them is in range, and so no message panics.

  \<^verbatim>\<open>okm il al m c\<close> says that \<^verbatim>\<open>c\<close>, started with buffers of lengths \<^verbatim>\<open>il\<close> and \<^verbatim>\<open>al\<close> and the mirror
  \<^verbatim>\<open>m\<close>, does not panic and leaves the lengths and the mirror as they were.
\<close>

section \<open>Computations that keep the buffers\<close>

definition shaped :: "nat \<Rightarrow> nat \<Rightarrow> mirror \<Rightarrow> st \<Rightarrow> bool" where
  "shaped il al m s \<longleftrightarrow> length (se_scratch (st_se s)) = il \<and> length (se_aux (st_se s)) = al \<and> se_mirror (st_se s) = m"

definition okm :: "nat \<Rightarrow> nat \<Rightarrow> mirror \<Rightarrow> 'a sm \<Rightarrow> bool" where
  "okm il al m c \<longleftrightarrow> (\<forall>s. shaped il al m s \<longrightarrow> wp c (\<lambda>_. shaped il al m) s)"

named_theorems ok_rules \<open>computations that keep the buffers\<close>

lemma okmD: "okm il al m c \<Longrightarrow> shaped il al m s \<Longrightarrow> wp c (\<lambda>_. shaped il al m) s"
  by (simp add: okm_def)

lemma okm_ret [ok_rules]: "okm il al m (ret a)"
  by (simp add: okm_def wp_simps)

lemma okm_fail [ok_rules]: "okm il al m (fail e)"
  by (simp add: okm_def wp_simps)

lemma okm_getm [ok_rules]: "okm il al m (getm g)"
  by (simp add: okm_def wp_simps)

lemma okm_refuse [ok_rules]: "okm il al m (refuse c e)"
  by (simp add: okm_def wp_simps)

lemma okm_assertm [ok_rules]: "c \<Longrightarrow> okm il al m (assertm c)"
  by (simp add: okm_def wp_simps)

lemma okm_modm [ok_rules]: "(\<And>s. shaped il al m s \<Longrightarrow> shaped il al m (f s)) \<Longrightarrow> okm il al m (modm f)"
  by (simp add: okm_def wp_simps)

lemma okm_stepm [ok_rules]: "(\<And>s. shaped il al m s \<Longrightarrow> shaped il al m (snd (f s))) \<Longrightarrow> okm il al m (stepm f)"
  by (simp add: okm_def wp_simps)

lemma okm_if [ok_rules]: "(c \<Longrightarrow> okm il al m a) \<Longrightarrow> (\<not> c \<Longrightarrow> okm il al m b) \<Longrightarrow> okm il al m (if c then a else b)"
  by simp

lemma okm_whenm [ok_rules]: "(c \<Longrightarrow> okm il al m a) \<Longrightarrow> okm il al m (whenm c a)"
  by (simp add: whenm_def okm_ret)

lemma okm_bindm: "okm il al m c \<Longrightarrow> (\<And>a. okm il al m (f a)) \<Longrightarrow> okm il al m (bindm c f)"
  unfolding okm_def wp_bindm
  by (intro allI impI) (erule allE, drule (1) mp, erule wp_mono, auto simp: andthen_def split: sum.splits)

lemma okm_seqm: "okm il al m c \<Longrightarrow> okm il al m d \<Longrightarrow> okm il al m (seqm c d)"
  by (simp add: seqm_def okm_bindm)

lemma okm_dropm: "okm il al m c \<Longrightarrow> (\<And>s. shaped il al m s \<Longrightarrow> shaped il al m (g s)) \<Longrightarrow> okm il al m (dropm g c)"
  unfolding okm_def wp_dropm
  by (intro allI impI) (erule allE, drule (1) mp, erule wp_mono, auto split: sum.splits)

lemma okm_option [ok_rules]:
  "(x = None \<Longrightarrow> okm il al m a) \<Longrightarrow> (\<And>y. x = Some y \<Longrightarrow> okm il al m (b y)) \<Longrightarrow>
    okm il al m (case x of None \<Rightarrow> a | Some y \<Rightarrow> b y)"
  by (cases x) auto

lemma okm_sum [ok_rules]:
  "(\<And>y. x = Inl y \<Longrightarrow> okm il al m (a y)) \<Longrightarrow> (\<And>y. x = Inr y \<Longrightarrow> okm il al m (b y)) \<Longrightarrow>
    okm il al m (case x of Inl y \<Rightarrow> a y | Inr y \<Rightarrow> b y)"
  by (cases x) auto

lemma okm_prod [ok_rules]: "(\<And>a b. x = (a, b) \<Longrightarrow> okm il al m (f a b)) \<Longrightarrow> okm il al m (case x of (a, b) \<Rightarrow> f a b)"
  by (cases x) auto

text \<open>Reading a whole buffer gives one of the announced length.\<close>

lemma okm_scr: "(\<And>b. length b = il \<Longrightarrow> okm il al m (f b)) \<Longrightarrow> okm il al m (bindm scr f)"
  by (auto simp: okm_def wp_simps shaped_def)

lemma okm_aux: "(\<And>b. length b = al \<Longrightarrow> okm il al m (f b)) \<Longrightarrow> okm il al m (bindm auxb f)"
  by (auto simp: okm_def wp_simps shaped_def)

text \<open>After a refusal its condition is false.\<close>

lemma okm_refused: "(\<not> c \<Longrightarrow> okm il al m d) \<Longrightarrow> okm il al m (seqm (refuse c e) d)"
  by (auto simp: okm_def wp_simps)

lemmas ok_binds = okm_scr okm_aux okm_seqm okm_dropm

lemma okm_rd [ok_rules]:
  "off + 4 \<le> il \<Longrightarrow> okm il al m (scr_rd32 off)" "off + 8 \<le> il \<Longrightarrow> okm il al m (scr_rd64 off)"
  "off + 4 \<le> al \<Longrightarrow> okm il al m (aux_rd32 off)" "off + 8 \<le> al \<Longrightarrow> okm il al m (aux_rd64 off)"
  by (auto simp: okm_def wp_simps shaped_def scr_rd32_def scr_rd64_def aux_rd32_def aux_rd64_def)

lemma okm_wr [ok_rules]:
  "off + 4 \<le> il \<Longrightarrow> okm il al m (scr_wr32 off v)" "off + 8 \<le> il \<Longrightarrow> okm il al m (scr_wr64 off w)"
  "off + 4 \<le> al \<Longrightarrow> okm il al m (aux_wr32 off v)" "off + 8 \<le> al \<Longrightarrow> okm il al m (aux_wr64 off w)"
  by (auto simp: okm_def wp_simps shaped_def scr_wr32_def scr_wr64_def aux_wr32_def aux_wr64_def)

text \<open>The same with a property of the returned value.\<close>

definition okr :: "nat \<Rightarrow> nat \<Rightarrow> mirror \<Rightarrow> ('a \<Rightarrow> bool) \<Rightarrow> 'a sm \<Rightarrow> bool" where
  "okr il al m P c \<longleftrightarrow>
    (\<forall>s. shaped il al m s \<longrightarrow> wp c (\<lambda>r s'. shaped il al m s' \<and> (\<forall>a. r = Inr a \<longrightarrow> P a)) s)"

lemma okr_okm: "okr il al m P c \<Longrightarrow> okm il al m c"
  unfolding okr_def okm_def by (blast intro: wp_mono)

lemma okm_okr: "okm il al m c \<Longrightarrow> (\<And>a. P a) \<Longrightarrow> okr il al m P c"
  unfolding okr_def okm_def by (blast intro: wp_mono)

lemma okr_ret: "P a \<Longrightarrow> okr il al m P (ret a)"
  by (simp add: okr_def wp_simps)

lemma okr_fail: "okr il al m P (fail e)"
  by (simp add: okr_def wp_simps)

lemma okr_bindm: "okr il al m P c \<Longrightarrow> (\<And>a. P a \<Longrightarrow> okr il al m Q (f a)) \<Longrightarrow> okr il al m Q (bindm c f)"
  unfolding okr_def wp_bindm
  by (intro allI impI) (erule allE, drule (1) mp, erule wp_mono, auto simp: andthen_def split: sum.splits)

lemma okm_bind_okr: "okr il al m P c \<Longrightarrow> (\<And>a. P a \<Longrightarrow> okm il al m (f a)) \<Longrightarrow> okm il al m (bindm c f)"
  by (rule okr_okm, erule okr_bindm) (blast intro: okm_okr)

lemma okr_bind_okm: "okm il al m c \<Longrightarrow> (\<And>a. okr il al m Q (f a)) \<Longrightarrow> okr il al m Q (bindm c f)"
  by (rule okr_bindm [where P = "\<lambda>_. True"]) (auto intro: okm_okr)

lemma okr_seqm: "okm il al m c \<Longrightarrow> okr il al m Q d \<Longrightarrow> okr il al m Q (seqm c d)"
  by (simp add: seqm_def okr_bind_okm)

text \<open>Changes elsewhere.\<close>

lemma shaped_simps [simp]:
  "shaped il al m (s\<lparr> st_x := x \<rparr>) = shaped il al m s"
  "shaped il al m (arena_dropm env a s) = shaped il al m s"
  by (simp_all add: shaped_def arena_dropm_def)

lemma okm_on [ok_rules]: "okm il al m (on_host f)" "okm il al m (on_pool g)" "okm il al m (on_books h)"
  by (auto simp: okm_def wp_simps shaped_def on_host_def on_pool_def on_books_def split: prod.splits)

lemma okm_sys [ok_rules]:
  "okm il al m (sys_close fd)" "okm il al m (sys_open env n)" "okm il al m (sys_dup env fd)"
  "okm il al m (sys_ioctl env fd rq b a)"
  by (auto simp: okm_def wp_simps shaped_def sys_close_def sys_open_def sys_dup_def sys_ioctl_def Let_def
      split: option.splits)

section \<open>Events and waiter slots\<close>

lemma okm_take_event_id [ok_rules]: "okm il al m take_event_id"
  unfolding take_event_id_def by (intro ok_binds okm_bindm ok_rules) (simp add: shaped_def)

lemma okm_alloc_os_event_on [ok_rules]: "okm il al m (alloc_os_event_on env fd c e)"
  unfolding alloc_os_event_on_def by (intro ok_binds okm_bindm ok_rules)

lemma okm_alloc_os_event_id [ok_rules]: "okm il al m (alloc_os_event_id env c)"
  unfolding alloc_os_event_id_def by (intro ok_binds okm_bindm ok_rules) (simp add: shaped_def)

lemma okm_free_os_event [ok_rules]: "okm il al m (free_os_event env c e)"
  unfolding free_os_event_def by (intro ok_binds okm_bindm ok_rules)

lemma okm_take_waiter_generation [ok_rules]: "okm il al m take_waiter_generation"
  unfolding take_waiter_generation_def by (intro ok_binds okm_bindm ok_rules) (simp add: shaped_def)

lemma okm_list [ok_rules]:
  "(x = [] \<Longrightarrow> okm il al m a) \<Longrightarrow> (\<And>y ys. x = y # ys \<Longrightarrow> okm il al m (b y ys)) \<Longrightarrow>
    okm il al m (case x of [] \<Rightarrow> a | y # ys \<Rightarrow> b y ys)"
  by (cases x) auto

lemma okm_waiter_slot_get [ok_rules]: "okm il al m (waiter_slot_get env c)"
  unfolding waiter_slot_get_def by (intro ok_binds okm_bindm ok_rules) (simp_all add: shaped_def)

section \<open>Preparation\<close>

lemma okm_watch_client [ok_rules]: "okm il al m (watch_client t fd w)"
  unfolding watch_client_def by (intro ok_rules) (simp add: shaped_def)

lemma okm_osdesc_gpu_fd [ok_rules]: "okm il al m (osdesc_gpu_fd env fd)"
  unfolding osdesc_gpu_fd_def by (intro ok_binds okm_bindm ok_rules) (simp add: shaped_def)

lemma okm_fd_field_xlate: "unat (rq_inline_len rq) = il \<Longrightarrow> okm il al m (fd_field_xlate rq)"
  unfolding fd_field_xlate_def Let_def
  by (rule okm_if, rule okm_ret, rule okm_refused) (intro okm_bindm ok_rules; simp)

lemma okm_subst_event [ok_rules]: "n \<le> il \<Longrightarrow> okm il al m (subst_event env rq d n)"
  unfolding subst_event_def
  by (intro okm_aux) (intro ok_binds okm_bindm ok_rules; simp)

lemma okm_target_from_params [ok_rules]: "8 \<le> il \<Longrightarrow> 16 \<le> al \<Longrightarrow> okm il al m target_from_params"
  unfolding target_from_params_def by (intro ok_binds okm_bindm ok_rules; simp)

lemma okm_subst_waiter [ok_rules]: "n \<le> il \<Longrightarrow> okm il al m (subst_waiter env rq d n)"
  unfolding subst_waiter_def subst_register_def subst_unregister_def
  apply (rule okm_if, rule okm_ret, rule okm_bindm, rule okm_rd, simp, rule okm_aux)
  by (intro ok_binds okm_bindm ok_rules; simp)

lemma okm_vram_reserve_for [ok_rules]: "okm il al m (vram_reserve_for n off v a)"
  unfolding vram_reserve_for_def vram_reservem_def by (intro ok_binds okm_bindm ok_rules)

lemma okm_vram_alloc [ok_rules]: "n \<le> il \<Longrightarrow> okm il al m (vram_alloc rq d n)"
  unfolding vram_alloc_def
  by (intro ok_binds okm_bindm ok_rules) (auto simp: alloc_status_off_def split: if_splits)

lemma okm_vram_vidheap [ok_rules]: "n \<le> il \<Longrightarrow> okm il al m (vram_vidheap rq d n v)"
  unfolding vram_vidheap_def
  by (rule okm_if, rule okm_ret, rule okm_scr) (intro ok_binds okm_bindm ok_rules; simp)

lemma okm_ioctl_request [ok_rules]: "okm il al m (ioctl_request d nr n)"
  unfolding ioctl_request_def by (intro ok_rules)

lemma okm_aux_fd_xlate [ok_rules]: "n \<le> il \<Longrightarrow> okm il al m (aux_fd_xlate rq d n)"
  unfolding aux_fd_xlate_def Let_def
  apply (rule okm_if, rule okm_ret, rule okm_bindm)
   apply (intro okm_bindm ok_rules; simp)
  apply (rule okm_bind_okr [where P = "\<lambda>w. w = 4 \<or> w = 8"])
   apply (simp add: okr_ret okr_fail split: option.split)
  apply (rule okm_aux, rule okm_refused)
  by (intro okm_seqm okm_bindm ok_rules; auto)

lemma okm_foldm: "(\<And>x a. x \<in> set xs \<Longrightarrow> okm il al m (f x a)) \<Longrightarrow> okm il al m (foldm f xs a)"
proof (induction xs arbitrary: a)
  case Nil
  show ?case by (simp add: okm_ret)
next
  case (Cons x xs)
  have "okm il al m (f x a)" "\<And>a. okm il al m (foldm f xs a)" using Cons by simp_all
  then show ?case by (simp add: okm_bindm)
qed

lemma okm_nested_ptr_xlate:
  assumes "unat (nd_ptr_off nd) + 8 \<le> al" "\<not> is_uvm d \<Longrightarrow> rq_ioctl_nr rq = NV_ESC_RM_CONTROL \<Longrightarrow> 12 \<le> il"
  shows "okm il al m (nested_ptr_xlate rq d addr nd acc)"
  unfolding nested_ptr_xlate_def by (intro okm_seqm okm_bindm ok_rules; use assms in simp)

lemma okm_nested_xlate:
  assumes "unat (rq_nested_count rq) \<le> length (rq_nested rq)"
    and "\<And>nd. nd \<in> set (take (unat (rq_nested_count rq)) (rq_nested rq)) \<Longrightarrow> unat (nd_ptr_off nd) + 8 \<le> al"
    and "\<not> is_uvm d \<Longrightarrow> rq_ioctl_nr rq = NV_ESC_RM_CONTROL \<Longrightarrow> 12 \<le> il"
  shows "okm il al m (nested_xlate rq d addr)"
  unfolding nested_xlate_def by (intro okm_seqm okm_assertm okm_foldm okm_nested_ptr_xlate; use assms in blast)

section \<open>What an accepted request guarantees\<close>

lemma nested_loop_covers:
  "nested_loop rq params n specs used ranges zero = Inr (used', zero') \<Longrightarrow>
    (\<forall>i. used \<le> i \<and> i < used' \<longrightarrow> unat (nd_ptr_off (rq_nested rq ! i)) + 8 \<le> length params) \<and>
    (\<forall>off \<in> set zero'. off \<in> set zero \<or> off + 8 \<le> length params)"
proof (induction rq params n specs used ranges zero arbitrary: used' zero' rule: nested_loop.induct)
  case (2 rq params n spec specs used ranges zero)
  then obtain len where p: "unat (np_ptr_off spec) + 8 \<le> length params"
    and len: "len_resolve (np_len spec) params (word_of_nat (length params)) = Some len"
    by (auto simp: rbind_Inr u64_at_def split: option.splits if_splits)
  show ?case
  proof (cases "rd64 params (unat (np_ptr_off spec)) = 0 \<or> len = 0")
    case True
    then show ?thesis using 2(1)[OF len True] 2(3) p len
      by (fastforce simp: rbind_def u64_at_def split: if_splits)
  next
    case False
    let ?d = "rq_nested rq ! used"
    have step: "nested_loop rq params n specs (Suc used)
        (ranges @ [(unat (nd_aux_off ?d), unat (nd_aux_off ?d) + unat (nd_len ?d))]) zero = Inr (used', zero')"
      and eq: "nd_ptr_off ?d = np_ptr_off spec"
      and g: "used < length (rq_nested rq) \<and> used < unat (rq_nested_count rq)"
      and g2: "\<not> (nd_ptr_off ?d \<noteq> np_ptr_off spec \<or> nd_len ?d < len)"
      and g3: "\<not> (unat (nd_aux_off ?d) < length params \<or> n < unat (nd_aux_off ?d) + unat (nd_len ?d) \<or>
        list_ex (\<lambda>(a, b). unat (nd_aux_off ?d) < b \<and> a < unat (nd_aux_off ?d) + unat (nd_len ?d)) ranges)"
      using 2(3) p len False by (auto simp: rbind_def u64_at_def Let_def split: if_splits)
    have "(\<forall>i. Suc used \<le> i \<and> i < used' \<longrightarrow> unat (nd_ptr_off (rq_nested rq ! i)) + 8 \<le> length params) \<and>
        (\<forall>off \<in> set zero'. off \<in> set zero \<or> off + 8 \<le> length params)"
      using 2(2)[OF len False _ refl refl refl g2 g3 step] g by blast
    then show ?thesis using eq p by (metis Suc_leI le_neq_implies_less)
  qed
qed simp

definition admitted :: "senv \<Rightarrow> req \<Rightarrow> dev \<Rightarrow> shape \<Rightarrow> nat \<Rightarrow> nat \<Rightarrow> bool" where
  "admitted env rq d sh il al \<longleftrightarrow>
    unat (rq_inline_len rq) = il \<and> unat (rq_aux_len rq) = al \<and>
    (case sh_zero_inline sh of None \<Rightarrow> True | Some off \<Rightarrow> off + 8 \<le> il) \<and>
    list_all (\<lambda>off. off + 8 \<le> al) (sh_zero_aux sh) \<and>
    unat (rq_nested_count rq) \<le> length (rq_nested rq) \<and>
    list_all (\<lambda>nd. unat (nd_ptr_off nd) + 8 \<le> al) (take (unat (rq_nested_count rq)) (rq_nested rq)) \<and>
    (rq_embedded_ptr_off rq \<noteq> NONE_U32 \<longrightarrow> unat (rq_embedded_ptr_off rq) + 8 \<le> il) \<and>
    (\<not> is_uvm d \<and> rq_ioctl_nr rq = NV_ESC_RM_CONTROL \<longrightarrow> il = 32) \<and>
    (is_control d (rq_ioctl_nr rq) \<or> rq_nested_count rq = 0) \<and>
    (\<not> is_uvm d \<and> rq_gpa_run_count rq \<noteq> 0 \<longrightarrow>
       rq_ioctl_nr rq = NV_ESC_RM_ALLOC \<and> il = 48 \<or> rq_ioctl_nr rq = NV_ESC_RM_ALLOC_MEMORY \<and> il = 56)"

lemma validate_zero_inline:
  "zero_inline d nr inl = Inr zi \<Longrightarrow> (case zi of None \<Rightarrow> True | Some off \<Rightarrow> off + 8 \<le> length inl)"
  by (auto simp: zero_inline_def rbind_Inr u64_at_def u32_at_def split: if_splits option.splits)

lemma validate_embedded:
  assumes "validate_params A d rq inl aux = Inr n" "rq_embedded_ptr_off rq \<noteq> NONE_U32"
    and "length inl = unat (rq_inline_len rq)"
  shows "unat (rq_embedded_ptr_off rq) + 8 \<le> length inl"
proof -
  obtain e where e: "embedded_ptr A d (rq_ioctl_nr rq) inl (rq_inline_len rq) = Inr (Some e)"
    "rq_embedded_ptr_off rq = emb_ptr_off e"
    using assms by (auto simp: validate_params_def split: sum.splits option.splits if_splits)
  have "emb_ptr_off e = 16 \<and> 32 \<le> rq_inline_len rq \<or> emb_ptr_off e = 0 \<and> 16 \<le> rq_inline_len rq"
    using e(1) by (auto simp: embedded_ptr_def Let_def split: if_splits option.splits)
  then show ?thesis using e(2) assms(3) by (auto simp: word_le_nat_alt)
qed

lemma envelope_sizes:
  assumes "validate_envelope A d rq inl aux = Inr ()" "\<not> is_uvm d"
  shows "rq_ioctl_nr rq = NV_ESC_RM_CONTROL \<Longrightarrow> length inl = 32"
    and "rq_ioctl_nr rq = NV_ESC_RM_ALLOC_MEMORY \<Longrightarrow> length inl = 56"
  using assms by (auto simp: validate_envelope_def rbind_Inr frontend_size_def esc_defs split: if_splits)

lemma validate_admitted:
  assumes v: "validate (sv_abi env) d rq inl aux = Inr sh"
  shows "admitted env rq d sh (length inl) (length aux)"
proof -
  obtain n afd specs where e: "validate_envelope (sv_abi env) d rq inl aux = Inr ()"
    and z: "zero_inline d (rq_ioctl_nr rq) inl = Inr (sh_zero_inline sh)"
    and p: "validate_params (sv_abi env) d rq inl aux = Inr n" and r: "validate_runs d rq inl aux n = Inr ()"
    and c: "unat (rq_nested_count rq) \<le> length (rq_nested rq)"
    and sp: "nested_specs d (rq_ioctl_nr rq) inl (take n aux) = Inr specs"
    and l: "nested_loop rq (take n aux) (length aux) specs 0 [] [] = Inr (unat (rq_nested_count rq), sh_zero_aux sh)"
    using v by (rule validate_cases)
  have len: "length inl = unat (rq_inline_len rq)" "length aux = unat (rq_aux_len rq)"
    using e by (auto simp: validate_envelope_def rbind_Inr)
  have n: "n \<le> length aux" using p by (rule validate_params_le)
  have cov: "unat (nd_ptr_off (rq_nested rq ! i)) + 8 \<le> length aux" if "i < unat (rq_nested_count rq)" for i
    using nested_loop_covers [OF l] that n by fastforce
  have "list_all (\<lambda>nd. unat (nd_ptr_off nd) + 8 \<le> length aux) (take (unat (rq_nested_count rq)) (rq_nested rq))"
    using cov c by (simp add: list_all_length)
  moreover have "list_all (\<lambda>off. off + 8 \<le> length aux) (sh_zero_aux sh)"
    using nested_loop_covers [OF l] n by (fastforce simp: list_all_iff)
  moreover have "\<not> is_uvm d \<and> rq_gpa_run_count rq \<noteq> 0 \<Longrightarrow>
      rq_ioctl_nr rq = NV_ESC_RM_ALLOC \<and> length inl = 48 \<or> rq_ioctl_nr rq = NV_ESC_RM_ALLOC_MEMORY \<and> length inl = 56"
    using r envelope_sizes(2) [OF e]
    by (auto simp: validate_runs_def rbind_Inr is_osdesc_def is_alloc_def NVOS64_LEN_def split: if_splits)
  moreover have "is_control d (rq_ioctl_nr rq) \<or> rq_nested_count rq = 0"
    using sp l by (auto simp: nested_specs_def unat_eq_zero split: if_splits)
  ultimately show ?thesis
    unfolding admitted_def
    using len c validate_zero_inline [OF z] validate_embedded [OF p _ len(1)] envelope_sizes(1) [OF e]
    by (intro conjI impI) simp_all
qed

section \<open>The plan fits the buffers\<close>

definition plan_fits :: "plan \<Rightarrow> bool" where
  "plan_fits p \<longleftrightarrow> pp_inline_len p < 2 ^ 32 \<and> pp_aux_len p < 2 ^ 32 \<and>
    (pp_osdesc_arena p \<noteq> None \<longrightarrow> 44 \<le> pp_inline_len p) \<and>
    (pp_vram_reserved p \<noteq> 0 \<or> pp_action p = FakeVramFull \<longrightarrow>
       12 \<le> pp_inline_len p \<and> pp_vram_status_off p + 4 \<le> pp_inline_len p)"

definition vq_fits :: "nat \<Rightarrow> vram_plan \<Rightarrow> bool" where
  "vq_fits il v \<longleftrightarrow> (vq_reserved v \<noteq> 0 \<or> vq_full v \<longrightarrow> 12 \<le> il \<and> vq_status_off v + 4 \<le> il)"

lemma okr_if: "(c \<Longrightarrow> okr il al m P a) \<Longrightarrow> (\<not> c \<Longrightarrow> okr il al m P b) \<Longrightarrow> okr il al m P (if c then a else b)"
  by simp

lemma okr_option:
  "(x = None \<Longrightarrow> okr il al m P a) \<Longrightarrow> (\<And>y. x = Some y \<Longrightarrow> okr il al m P (b y)) \<Longrightarrow>
    okr il al m P (case x of None \<Rightarrow> a | Some y \<Rightarrow> b y)"
  by (cases x) auto

lemma okr_reserve: "12 \<le> n \<Longrightarrow> off + 4 \<le> n \<Longrightarrow> okr il al m (vq_fits n) (vram_reserve_for k off v a)"
  unfolding vram_reserve_for_def vram_reservem_def
  by (rule okr_bind_okm, rule okm_on, rule okr_ret) (simp add: vq_fits_def)

lemma okr_vram_alloc: "n \<le> il \<Longrightarrow> okr il al m (vq_fits n) (vram_alloc rq d n)"
  unfolding vram_alloc_def
  by (intro okr_if okr_option okr_bind_okm okr_reserve okr_ret ok_rules)
    (auto simp: vq_fits_def vram_none_def alloc_status_off_def split: if_splits)

lemma vidheap_request_len: "vidheap_request_bytes b = Some n \<Longrightarrow> 24 \<le> length b"
  by (auto simp: vidheap_request_bytes_def vidheap_function_def V_LEN_def split: if_splits option.splits)

lemma okr_scr: "(\<And>b. length b = il \<Longrightarrow> okr il al m P (f b)) \<Longrightarrow> okr il al m P (bindm scr f)"
  by (auto simp: okr_def wp_simps shaped_def)

lemma okr_vram_vidheap: "n \<le> il \<Longrightarrow> vq_fits n v \<Longrightarrow> okr il al m (vq_fits n) (vram_vidheap rq d n v)"
  unfolding vram_vidheap_def
  by (rule okr_if, rule okr_ret, assumption, rule okr_scr, rule okr_seqm, rule okm_assertm, simp, rule okr_option)
    (use vidheap_request_len in \<open>fastforce intro: okr_ret okr_reserve simp: V_STATUS_OFF_def\<close>)+

definition od_fits :: "req \<Rightarrow> dev \<Rightarrow> osdesc \<Rightarrow> bool" where
  "od_fits rq d od \<longleftrightarrow> od_inline_len od < 2 ^ 32 \<and> od_aux_len od < 2 ^ 32 \<and>
    (od_arena od \<noteq> None \<longrightarrow> 44 \<le> od_inline_len od) \<and>
    (rq_embedded_ptr_off rq \<noteq> NONE_U32 \<and> od_nr od = None \<longrightarrow> unat (rq_embedded_ptr_off rq) + 8 \<le> od_inline_len od) \<and>
    (\<not> is_uvm d \<and> rq_ioctl_nr rq = NV_ESC_RM_CONTROL \<longrightarrow> 12 \<le> od_inline_len od) \<and>
    unat (rq_nested_count rq) \<le> length (rq_nested rq) \<and>
    list_all (\<lambda>nd. unat (nd_ptr_off nd) + 8 \<le> od_aux_len od) (take (unat (rq_nested_count rq)) (rq_nested rq))"

lemma okr_prepare_rest:
  assumes "od_fits rq d od"
  shows "okr (od_inline_len od) (od_aux_len od) m
    (\<lambda>p. plan_fits p \<and> pp_seq p = rq_seq rq \<and> pp_inline_len p = od_inline_len od \<and> pp_aux_len p = od_aux_len od)
    (prepare_rest env rq d fd od)"
  unfolding prepare_rest_def Let_def
  apply (rule okr_bind_okm, rule okm_getm, rule okr_seqm)
   apply (intro ok_rules; use assms in \<open>simp add: od_fits_def\<close>)
  apply (rule okr_seqm, rule okm_aux_fd_xlate, simp)
  apply (rule okr_bind_okm, rule okm_nested_xlate)
     apply (use assms in \<open>simp_all add: od_fits_def list_all_iff\<close>)
  apply (rule okr_bind_okm, rule okm_ioctl_request)
  apply (rule okr_bind_okm, rule okm_subst_event, simp)
  apply (rule okr_bind_okm, rule okm_subst_waiter, simp)
  apply (clarsimp split: prod.split)
  apply (rule okr_bindm, rule okr_vram_alloc, simp)
  apply (rule okr_bindm, rule okr_vram_vidheap, simp, simp)
  apply (rule okr_ret)
  using assms by (auto simp: plan_fits_def od_fits_def vq_fits_def choose_action_def)

text \<open>Steps that change the shape: what holds after an early return is only the mirror.\<close>

definition ends :: "mirror \<Rightarrow> ('a \<Rightarrow> st \<Rightarrow> bool) \<Rightarrow> int + 'a \<Rightarrow> st \<Rightarrow> bool" where
  "ends m P r s \<longleftrightarrow> se_mirror (st_se s) = m \<and> (\<forall>a. r = Inr a \<longrightarrow> P a s)"

lemma ends_simps [simp]:
  "ends m P (Inl e) s \<longleftrightarrow> se_mirror (st_se s) = m" "ends m P (Inr a) s \<longleftrightarrow> se_mirror (st_se s) = m \<and> P a s"
  by (auto simp: ends_def)

lemma wp_ends_bindm:
  assumes "shaped il al m s" "okm il al m c" "\<And>a s'. shaped il al m s' \<Longrightarrow> wp (f a) (ends m P) s'"
  shows "wp (bindm c f) (ends m P) s"
  unfolding wp_bindm using okmD [OF assms(2,1)]
  by (rule wp_mono) (use assms(3) in \<open>auto simp: andthen_def shaped_def split: sum.splits\<close>)

lemma wp_ends_seqm:
  assumes "shaped il al m s" "okm il al m c" "\<And>s'. shaped il al m s' \<Longrightarrow> wp d (ends m P) s'"
  shows "wp (seqm c d) (ends m P) s"
  unfolding seqm_def using assms by (intro wp_ends_bindm)

lemma wp_ends_option:
  "(x = None \<Longrightarrow> wp a Q s) \<Longrightarrow> (\<And>y. x = Some y \<Longrightarrow> wp (b y) Q s) \<Longrightarrow> wp (case x of None \<Rightarrow> a | Some y \<Rightarrow> b y) Q s"
  by (cases x) auto

lemma wp_ends_fail: "shaped il al m s \<Longrightarrow> wp (fail e) (ends m P) s"
  by (simp add: wp_simps shaped_def)

lemma wp_ends_refused:
  "shaped il al m s \<Longrightarrow> (\<not> c \<Longrightarrow> shaped il al m s \<Longrightarrow> wp d (ends m P) s) \<Longrightarrow> wp (seqm (refuse c e) d) (ends m P) s"
  by (simp add: wp_simps shaped_def)

lemma wp_ends_dropm:
  assumes "wp c (ends m P) s" "\<And>s. se_mirror (st_se (g s)) = se_mirror (st_se s)"
  shows "wp (dropm g c) (ends m P) s"
  unfolding wp_dropm using assms(1) by (rule wp_mono) (auto simp: assms(2) ends_def split: sum.splits)

lemma wp_ends_okr:
  assumes "okr il al m Q c" "shaped il al m s" "\<And>a s'. shaped il al m s' \<Longrightarrow> Q a \<Longrightarrow> P a s'"
  shows "wp c (ends m P) s"
proof -
  have "wp c (\<lambda>r s'. shaped il al m s' \<and> (\<forall>a. r = Inr a \<longrightarrow> Q a)) s" using assms(1,2) by (simp add: okr_def)
  then show ?thesis by (rule wp_mono) (use assms(3) in \<open>auto simp: ends_def shaped_def\<close>)
qed

lemma arena_dropm_mirror [simp]: "se_mirror (st_se (arena_dropm env a s)) = se_mirror (st_se s)"
  by (simp add: arena_dropm_def)

lemma osdesc_tail:
  assumes "shaped 56 al m s"
  shows "wp (bindm (osdesc_gpu_fd env fd) (\<lambda>gpu. seqm (scr_wr32 48 gpu) (seqm (se_mod (\<lambda>s. s\<lparr> se_aux := [] \<rparr>))
      (ret \<lparr> od_arena = Some a, od_tail = t, od_nr = Some NV_ESC_RM_ALLOC_MEMORY, od_fd = Some gpu,
             od_inline_len = 56, od_aux_len = 0 \<rparr>))))
    (ends m (\<lambda>od s'. shaped 56 0 m s' \<and> od_inline_len od = 56 \<and> od_aux_len od = 0 \<and> od_nr od \<noteq> None)) s"
  using assms apply -
  apply (erule wp_ends_bindm, rule okm_osdesc_gpu_fd)
  apply (erule wp_ends_seqm, rule okm_wr, simp)
  by (simp add: wp_simps shaped_def)

lemma osdesc_kernel_form_fits:
  assumes "shaped 48 al m s" "40 \<le> al"
  shows "wp (osdesc_kernel_form env fd limit a)
    (ends m (\<lambda>od s'. shaped 56 0 m s' \<and> od_inline_len od = 56 \<and> od_aux_len od = 0 \<and> od_nr od \<noteq> None)) s"
  using assms(1) unfolding osdesc_kernel_form_def apply -
  apply (erule wp_ends_bindm, rule okm_getm)
  apply (erule wp_ends_refused)
  apply (erule wp_ends_bindm, rule okm_rd, use assms(2) in simp)
  apply (erule wp_ends_bindm, rule okm_rd, use assms(2) in simp)
  apply (erule wp_ends_bindm, rule okm_rd, use assms(2) in simp)
  apply (erule wp_ends_seqm, rule okm_wr, simp)
  apply (erule wp_ends_seqm, rule okm_wr, simp)
  apply (erule wp_ends_seqm, rule okm_wr, simp)
  apply (erule wp_ends_seqm, rule okm_wr, simp)
  apply (simp only: wp_seqm wp_modm andthen_simps)
  by (rule osdesc_tail [where al = al]) (simp add: shaped_def)

lemma osdesc_runs_fits:
  assumes s: "shaped il al m s"
    and ad: "\<not> is_uvm d" "admitted env rq d sh il al" "rq_gpa_run_count rq \<noteq> 0"
  shows "wp (osdesc_runs env rq fd)
    (ends m (\<lambda>od s'. shaped (od_inline_len od) (od_aux_len od) m s' \<and> od_fits rq d od)) s"
proof -
  let ?kern = "rq_ioctl_nr rq = NV_ESC_RM_ALLOC"
  have il: "unat (rq_inline_len rq) = il" and k: "?kern \<and> il = 48 \<or> \<not> ?kern \<and> il = 56"
    and nest: "rq_nested_count rq = 0" and emb: "rq_embedded_ptr_off rq \<noteq> NONE_U32 \<longrightarrow> unat (rq_embedded_ptr_off rq) + 8 \<le> il"
    and nc: "rq_ioctl_nr rq \<noteq> NV_ESC_RM_CONTROL"
    using ad by (auto simp: admitted_def is_control_def esc_defs)
  have fits: "od_fits rq d od" if "od_inline_len od = 56" "od_aux_len od = 0" "od_nr od \<noteq> None \<or> il = 56" for od
    using that nest emb nc by (auto simp: od_fits_def)
  let ?post = "ends m (\<lambda>od s'. shaped (od_inline_len od) (od_aux_len od) m s' \<and> od_fits rq d od)"
  have kern: "wp (seqm (aux_wr64 16 va) (seqm (aux_wr32 32 0) (seqm (aux_wr32 0 0) (osdesc_kernel_form env fd limit a))))
      ?post s'" if "shaped 48 al m s'" "40 \<le> al" for va limit a s'
    using that(1) apply -
    apply (erule wp_ends_seqm, intro ok_rules, use that(2) in simp)
    apply (erule wp_ends_seqm, intro ok_rules, use that(2) in simp)
    apply (erule wp_ends_seqm, intro ok_rules, use that(2) in simp)
    by (rule wp_mono [OF osdesc_kernel_form_fits [OF _ that(2)]]) (auto simp: ends_def fits)
  have user: "wp (seqm (scr_wr64 24 va) (seqm (se_mod (\<lambda>s. s\<lparr> se_aux := [] \<rparr>))
        (ret \<lparr> od_arena = Some a, od_tail = None, od_nr = None, od_fd = None, od_inline_len = 56, od_aux_len = 0 \<rparr>)))
      ?post s'" if "shaped 56 al m s'" "il = 56" for va a s'
    using that(1) apply -
    apply (erule wp_ends_seqm, intro ok_rules, simp)
    using that(2) by (simp add: wp_simps shaped_def fits)
  have aux: "wp (bindm auxb f) ?post s'" if "shaped il al m s'" "\<And>b. length b = al \<Longrightarrow> wp (f b) ?post s'" for s' f
    using that by (simp add: wp_simps shaped_def)
  show ?thesis
    unfolding osdesc_runs_def Let_def il using s apply -
    apply (erule wp_ends_refused)
    apply (erule wp_ends_bindm, intro ok_rules)
    apply (erule wp_ends_refused)
    apply (rule aux, assumption)
    apply (erule wp_ends_refused)
    apply (rule wp_ends_option, erule wp_ends_fail)
    apply (erule wp_ends_bindm)
     apply (intro ok_rules; use k in auto)
    apply (rule wp_ends_option, erule wp_ends_fail)
    apply (erule wp_ends_bindm, rule okm_on)
    apply (split sum.split, intro conjI allI impI, erule wp_ends_fail)
    apply (split prod.split, intro allI impI, rule wp_ends_dropm)
     apply (use k kern user in auto)
    done
qed

lemma prepare_admit_fits:
  "wp (prepare_admit env rq payload)
    (\<lambda>r s'. s' = s \<and> (\<forall>d sh. r = Inr (d, sh) \<longrightarrow>
       admitted env rq d sh (unat (rq_inline_len rq)) (unat (rq_aux_len rq)) \<and>
       unat (rq_inline_len rq) + unat (rq_aux_len rq) \<le> length payload)) s"
proof -
  let ?il = "unat (rq_inline_len rq)" and ?al = "unat (rq_aux_len rq)"
  have adm: "admitted env rq d sh ?il ?al"
    if "validate (sv_abi env) d rq (take ?il payload) (subslice ?il ?al payload) = Inr sh" "?il + ?al \<le> length payload" for d sh
  proof -
    have "length (take ?il payload) = ?il" "length (subslice ?il ?al payload) = ?al" using that(2) by auto
    then show ?thesis using validate_admitted [OF that(1)] by simp
  qed
  show ?thesis
    unfolding prepare_admit_def Let_def
    by (auto simp: wp_simps adm split: option.split sum.split)
qed

lemma fold_wr64_length:
  "list_all (\<lambda>off. off + 8 \<le> length a) offs \<Longrightarrow> length (fold (\<lambda>off a. wr64 a off 0) offs a) = length a"
  by (induction offs arbitrary: a) auto

lemma okm_clear_unusedm:
  assumes "admitted env rq d sh il al"
  shows "okm il al m (clear_unusedm sh)"
  using assms unfolding clear_unusedm_def admitted_def
  by (auto simp: okm_def wp_simps shaped_def clear_unused_pointers_def fold_wr64_length split: option.splits)

lemma load_buffers_fits:
  assumes "admitted env rq d sh (unat (rq_inline_len rq)) (unat (rq_aux_len rq))"
    and "unat (rq_inline_len rq) + unat (rq_aux_len rq) \<le> length payload" "se_mirror (st_se s) = m"
  shows "wp (load_buffers rq payload d sh)
    (ends m (\<lambda>fd s'. shaped (unat (rq_inline_len rq)) (unat (rq_aux_len rq)) m s')) s"
proof -
  let ?il = "unat (rq_inline_len rq)" and ?al = "unat (rq_aux_len rq)"
  have clear: "wp (seqm (clear_unusedm sh) (ret fd)) (ends m (\<lambda>fd s'. shaped ?il ?al m s')) s'"
    if "shaped ?il ?al m s'" for fd s'
    using that apply -
    apply (erule wp_ends_seqm, rule okm_clear_unusedm [OF assms(1)])
    by (simp add: wp_simps shaped_def)
  show ?thesis
    unfolding load_buffers_def Let_def
    by (simp add: wp_simps assms(3) split: option.split, intro allI impI, rule clear [unfolded wp_seqm])
      (use assms(2,3) in \<open>simp add: shaped_def\<close>)
qed

lemma prepare_fits:
  assumes "se_mirror (st_se s) = m"
  shows "wp (prepare env rq payload)
    (ends m (\<lambda>p s'. shaped (pp_inline_len p) (pp_aux_len p) m s' \<and> plan_fits p \<and> pp_seq p = rq_seq rq)) s"
proof -
  let ?il = "unat (rq_inline_len rq)" and ?al = "unat (rq_aux_len rq)"
  let ?post = "ends m (\<lambda>p s'. shaped (pp_inline_len p) (pp_aux_len p) m s' \<and> plan_fits p \<and> pp_seq p = rq_seq rq)"
  have rest: "wp (dropm g (prepare_rest env rq d fd od)) ?post s'"
    if "shaped (od_inline_len od) (od_aux_len od) m s'" "od_fits rq d od"
      "\<And>s. se_mirror (st_se (g s)) = se_mirror (st_se s)" for g d fd od s'
    by (rule wp_ends_dropm [OF wp_ends_okr [OF okr_prepare_rest [OF that(2)] that(1)] that(3)]) auto
  have runs: "wp (bindm (if \<not> is_uvm d \<and> rq_gpa_run_count rq \<noteq> 0 then osdesc_runs env rq fd
            else ret \<lparr> od_arena = None, od_tail = None, od_nr = None, od_fd = None, od_inline_len = ?il, od_aux_len = ?al \<rparr>) (\<lambda>od.
     dropm (case od_arena od of None \<Rightarrow> (\<lambda>s. s) | Some a \<Rightarrow> arena_dropm env a) (prepare_rest env rq d fd od))) ?post s'"
    if ad: "admitted env rq d sh ?il ?al" and s': "shaped ?il ?al m s'" for d sh fd s'
  proof -
    let ?mk = "if \<not> is_uvm d \<and> rq_gpa_run_count rq \<noteq> 0 then osdesc_runs env rq fd
            else ret \<lparr> od_arena = None, od_tail = None, od_nr = None, od_fd = None, od_inline_len = ?il, od_aux_len = ?al \<rparr>"
    have plain: "od_fits rq d \<lparr> od_arena = None, od_tail = None, od_nr = None, od_fd = None, od_inline_len = ?il, od_aux_len = ?al \<rparr>"
      using ad unat_lt_u32 [of "rq_inline_len rq"] unat_lt_u32 [of "rq_aux_len rq"] by (auto simp: od_fits_def admitted_def)
    have "wp ?mk (ends m (\<lambda>od s'. shaped (od_inline_len od) (od_aux_len od) m s' \<and> od_fits rq d od)) s'"
      using osdesc_runs_fits [OF s' _ ad] plain s' by (auto simp: wp_simps shaped_def)
    then show ?thesis unfolding wp_bindm
      by (rule wp_mono) (auto simp: ends_def andthen_def rest split: sum.splits option.splits)
  qed
  have body: "wp (seqm (fd_field_xlate rq) (seqm (whenm (\<not> is_uvm d \<and> rq_ioctl_nr rq = NV_ESC_ALLOC_OS_EVENT)
             (watch_client (rq_target_token rq) fd None)) c)) ?post s'"
    if "shaped ?il ?al m s'" "\<And>s'. shaped ?il ?al m s' \<Longrightarrow> wp c ?post s'" for c d fd s'
    using that apply -
    apply (erule wp_ends_seqm, rule okm_fd_field_xlate, simp)
    by (erule wp_ends_seqm, intro ok_rules)
  define k where "k d fd = seqm (fd_field_xlate rq) (seqm (whenm (\<not> is_uvm d \<and> rq_ioctl_nr rq = NV_ESC_ALLOC_OS_EVENT)
             (watch_client (rq_target_token rq) fd None))
      (bindm (if \<not> is_uvm d \<and> rq_gpa_run_count rq \<noteq> 0 then osdesc_runs env rq fd
            else ret \<lparr> od_arena = None, od_tail = None, od_nr = None, od_fd = None, od_inline_len = ?il, od_aux_len = ?al \<rparr>) (\<lambda>od.
       dropm (case od_arena od of None \<Rightarrow> (\<lambda>s. s) | Some a \<Rightarrow> arena_dropm env a) (prepare_rest env rq d fd od))))" for d fd
  have k: "wp (k d fd) ?post s'" if "admitted env rq d sh ?il ?al" "shaped ?il ?al m s'" for d sh fd s'
    unfolding k_def by (rule body [OF that(2)]) (rule runs [OF that(1)])
  have load: "wp (bindm (load_buffers rq payload d sh) (k d)) ?post s"
    if ad: "admitted env rq d sh ?il ?al" and l: "?il + ?al \<le> length payload" for d sh
    unfolding wp_bindm using load_buffers_fits [OF ad l assms]
    by (rule wp_mono) (auto simp: andthen_def k [OF ad] split: sum.splits)
  show ?thesis
    unfolding prepare_def wp_bindm [of "prepare_admit _ _ _"] k_def [symmetric]
    by (rule wp_mono [OF prepare_admit_fits]) (auto simp: andthen_def assms load split: sum.splits)
qed

section \<open>Rewritten answers keep their length\<close>

lemma fold_length: "(\<And>x a. x \<in> set xs \<Longrightarrow> length a = n \<Longrightarrow> length (f x a) = n) \<Longrightarrow> length a = n \<Longrightarrow> length (fold f xs a) = n"
  by (induction xs arbitrary: a) auto

definition keeps_len :: "(bytes \<Rightarrow> (bytes \<times> 'a) option) \<Rightarrow> bool" where
  "keeps_len f \<longleftrightarrow> (\<forall>a b r. f a = Some (b, r) \<longrightarrow> length b = length a)"

lemma keeps_get_pids: "keeps_len (\<lambda>a. rewrite_get_pids a rows)"
proof -
  have f: "length (fold (\<lambda>i a. wr32 a (PIDS_TBL_OFF + 4 * i) (g i)) xs a) = length a"
    if "PIDS_LEN \<le> length a" "set xs \<subseteq> {..<PIDS_MAX}" for g xs and a :: bytes
    using that by (intro fold_length) (auto simp: pids_defs)
  have "length (wr32 (fold (\<lambda>i a. wr32 a (PIDS_TBL_OFF + 4 * i) 0) [n..<PIDS_MAX]
      (fold (\<lambda>i a. wr32 a (PIDS_TBL_OFF + 4 * i) (g i)) [0..<n] a)) PIDS_COUNT_OFF v) = length a"
    if "PIDS_LEN \<le> length a" "n \<le> PIDS_MAX" for g n v and a :: bytes
  proof -
    have "length (fold (\<lambda>i a. wr32 a (PIDS_TBL_OFF + 4 * i) (g i)) [0..<n] a) = length a"
      using that by (intro f) auto
    then have "length (fold (\<lambda>i a. wr32 a (PIDS_TBL_OFF + 4 * i) 0) [n..<PIDS_MAX]
        (fold (\<lambda>i a. wr32 a (PIDS_TBL_OFF + 4 * i) (g i)) [0..<n] a)) = length a"
      using that f [of "fold (\<lambda>i a. wr32 a (PIDS_TBL_OFF + 4 * i) (g i)) [0..<n] a" "[n..<PIDS_MAX]" "\<lambda>_. 0"]
      by (simp add: subset_iff)
    then show ?thesis using that(1) by (simp add: PIDS_COUNT_OFF_def PIDS_LEN_def)
  qed
  then show ?thesis by (auto simp: keeps_len_def rewrite_get_pids_def Let_def split: if_splits)
qed

lemma pid_info_entry_len:
  assumes "PIDINFO_LIST_OFF + PIDINFO_ENTRY * (i + 1) \<le> length a"
  shows "length (pid_info_entry rows i a) = length a"
proof -
  let ?b = "PIDINFO_LIST_OFF + PIDINFO_ENTRY * i"
  have b: "?b + 72 \<le> length a" using assms by (simp add: pidinfo_defs)
  then have l: "length (fold (\<lambda>k a. wr64 a (?b + PIDINFO_MEM_PRIVATE + 8 * k) 0) [0..<6] (wr32 a (?b + 8) 0)) = length a"
    by (intro fold_length) (auto simp: pidinfo_defs)
  show ?thesis unfolding pid_info_entry_def Let_def
    by (subst length_wr) (use l b in \<open>simp_all add: pidinfo_defs\<close>)
qed

lemma keeps_get_pid_info: "keeps_len (\<lambda>a. rewrite_get_pid_info a rows)"
proof -
  have "length (fold (pid_info_entry rows) [0..<n] a) = length a"
    if "n \<le> (length a - PIDINFO_LIST_OFF) div PIDINFO_ENTRY" "PIDINFO_LIST_OFF + PIDINFO_ENTRY \<le> length a" for n and a :: bytes
  proof (rule fold_length)
    fix i and b :: bytes assume i: "i \<in> set [0..<n]" and b: "length b = length a"
    have "PIDINFO_ENTRY * (i + 1) \<le> PIDINFO_ENTRY * ((length a - PIDINFO_LIST_OFF) div PIDINFO_ENTRY)"
      using i that(1) by (intro mult_le_mono2) auto
    also have "\<dots> \<le> length a - PIDINFO_LIST_OFF" by simp
    finally show "length (pid_info_entry rows i b) = length a"
      using pid_info_entry_len [of i b rows] b that(2) by simp
  qed simp
  then show ?thesis
    unfolding keeps_len_def rewrite_get_pid_info_def
    by (auto simp: Let_def split: if_splits) (subst length_wr, auto simp: pidinfo_defs)
qed

lemma cap_fb_entries_len: "length (fst (cap_fb_entries l asked limit used)) = length l"
proof -
  have "m \<le> length l div FBINFO_ENTRY \<Longrightarrow> length (fst (fold (\<lambda>i (l, touched).
             case fb_value limit used (rd32 l (FBINFO_ENTRY * i)) of
               None \<Rightarrow> (l, touched)
             | Some v \<Rightarrow> (wr32 l (FBINFO_ENTRY * i + 4) v, touched + 1)) [0..<m] (l, 0))) = length l" for m
  proof (induction m)
    case (Suc m)
    have "FBINFO_ENTRY * (m + 1) \<le> FBINFO_ENTRY * (length l div FBINFO_ENTRY)"
      using Suc.prems by (intro mult_le_mono2) auto
    also have "\<dots> \<le> length l" by simp
    finally have "FBINFO_ENTRY * m + 8 \<le> length l" by (simp add: fbinfo_defs)
    then show ?case using Suc by (auto split: prod.splits option.splits)
  qed simp
  note pre = this
  show ?thesis unfolding cap_fb_entries_def Let_def by (rule pre) simp
qed

lemma keeps_fb_info: "keeps_len (\<lambda>a. rewrite_fb_info a limit used)"
  unfolding keeps_len_def rewrite_fb_info_def
  using cap_fb_entries_len by (fastforce simp: Let_def split: if_splits prod.splits dest: arg_cong [where f = fst])

lemma keeps_fb_info_list:
  "keeps_len (\<lambda>a. map_option (\<lambda>(b, t). (take off a @ b, t)) (rewrite_fb_info_list (drop off a) asked limit used))"
proof -
  have "length b = length (drop off a)" if "cap_fb_entries (drop off a) asked limit used = (b, t)" for a b t
    using cap_fb_entries_len [of "drop off a" asked limit used] that by simp
  then show ?thesis by (auto simp: keeps_len_def rewrite_fb_info_list_def split: if_splits)
qed

lemma keeps_gpu_name: "keeps_len (\<lambda>a. rewrite_gpu_name f a p)"
  unfolding keeps_len_def rewrite_gpu_name_def
  by (auto simp: Let_def abi_v615_def split: if_splits)

lemma keeps_grid: "keeps_len rewrite_virtualization_mode" "keeps_len (\<lambda>a. rewrite_encoder_capacity a n)"
  by (auto simp: keeps_len_def rewrite_virtualization_mode_def rewrite_encoder_capacity_def VIRTMODE_OFF_def
      VIRTMODE_LEN_def ENCCAP_OFF_def ENCCAP_LEN_def split: if_splits)

lemma vidheap_info_len: "length (fst (rewrite_vidheap_info b limit used)) = length b"
  by (auto simp: rewrite_vidheap_info_def vidheap_function_def vidheap_defs split: if_splits)

lemma aux_rewrite_len:
  "keeps_len f \<Longrightarrow> length (se_aux (aux_rewrite f s)) = length (se_aux s)"
  by (auto simp: aux_rewrite_def keeps_len_def split: option.splits)

lemma aux_rewrite_keeps [simp]: "se_scratch (aux_rewrite f s) = se_scratch s" "se_mirror (aux_rewrite f s) = se_mirror s"
  by (simp_all add: aux_rewrite_def split: option.splits prod.splits)

section \<open>Execution\<close>

definition senv_ok :: "senv \<Rightarrow> bool" where
  "senv_ok env \<longleftrightarrow> sv_abi env \<in> set supported_abis \<and>
    (case sv_card env of
       None \<Rightarrow> True
     | Some c \<Rightarrow> length (cd_host c) = length (cd_guest c) \<and> length (fst (cd_ascii c)) = length (snd (cd_ascii c)))"

lemma shaped_se: "shaped il al m s \<Longrightarrow> length (se_scratch se) = il \<Longrightarrow> length (se_aux se) = al \<Longrightarrow> se_mirror se = m \<Longrightarrow>
    shaped il al m (s\<lparr> st_se := se \<rparr>)"
  by (simp add: shaped_def)

lemma okm_se_mod:
  "(\<And>s. length (se_scratch s) = il \<Longrightarrow> length (se_aux s) = al \<Longrightarrow>
      length (se_scratch (f s)) = il \<and> length (se_aux (f s)) = al \<and> se_mirror (f s) = se_mirror s) \<Longrightarrow> okm il al m (se_mod f)"
  by (simp add: okm_def wp_simps shaped_def)

lemma swap_lens:
  assumes "senv_ok env" "sv_card env = Some c"
  shows "length (to_host c b) = length b" "length (to_guest c b) = length b"
  using assms by (simp_all add: senv_ok_def to_host_def to_guest_def)

lemma okm_uuid_swap: "senv_ok env \<Longrightarrow> okm il al m (se_mod (uuid_swap env p h))"
  by (rule okm_se_mod) (auto simp: uuid_swap_def swap_lens Let_def split: option.split)

lemma okm_forward: "senv_ok env \<Longrightarrow> okm il al m (forward env p)"
  unfolding forward_def
  apply (rule okm_seqm, rule okm_uuid_swap, assumption, rule okm_scr, rule okm_aux)
  by (auto simp: okm_def wp_simps shaped_def sys_ioctl_def Let_def)

lemma okm_fake_managed: "okm (pp_inline_len p) al m (fake_managed p)"
  unfolding fake_managed_def Let_def
  by (intro okm_seqm okm_bindm ok_rules; simp)

lemma okm_vram_refused:
  "plan_fits p \<Longrightarrow> pp_action p = FakeVramFull \<Longrightarrow> okm (pp_inline_len p) al m (vram_refused p)"
  unfolding vram_refused_def by (intro okm_seqm ok_rules) (simp add: plan_fits_def)

lemma plan_drop_mirror: "shaped il al m s \<Longrightarrow> shaped il al m (plan_drop env p s)"
  by (simp add: plan_drop_def Let_def split: option.split)

lemma okm_run_action:
  assumes "senv_ok env" "plan_fits p"
  shows "okm (pp_inline_len p) al m (run_action env p)"
proof -
  have a: "okm (pp_inline_len p) al m (case pp_action p of
       FakeVramFull \<Rightarrow> seqm (vram_refused p) (ret (0, 0))
     | FakeSemaphorePool \<Rightarrow>
         seqm (if SEMAPHORE_POOL_RMSTATUS_OFF + 4 \<le> pp_inline_len p
               then scr_wr32 SEMAPHORE_POOL_RMSTATUS_OFF NV_OK else ret ()) (ret (0, 0))
     | FakeManaged \<Rightarrow> dropm (plan_drop env p) (seqm (fake_managed p) (ret (0, 0)))
     | Forward \<Rightarrow> forward env p)"
  proof (cases "pp_action p")
    case FakeSemaphorePool
    have "okm (pp_inline_len p) al m (if SEMAPHORE_POOL_RMSTATUS_OFF + 4 \<le> pp_inline_len p
               then scr_wr32 SEMAPHORE_POOL_RMSTATUS_OFF NV_OK else ret ())" by (intro ok_rules)
    then show ?thesis using FakeSemaphorePool by (simp add: okm_seqm okm_ret)
  qed (simp_all add: assms okm_forward okm_seqm okm_dropm okm_ret okm_fake_managed okm_vram_refused plan_drop_mirror)
  show ?thesis unfolding run_action_def
    by (rule okm_bindm, rule a, rule okm_seqm, rule okm_uuid_swap [OF assms(1)], rule okm_ret)
qed

lemma okm_control_ok [ok_rules]: "okm (pp_inline_len p) al m (control_ok p r)"
  unfolding control_ok_def by (intro okm_bindm ok_rules; simp)

lemma okm_settle_plan:
  assumes "plan_fits p"
  shows "okm (pp_inline_len p) al m (settle_plan env p r)"
proof -
  let ?ok = "\<lambda>c. okm (pp_inline_len p) al m c"
  have "?ok (settle_osdesc env p r)" unfolding settle_osdesc_def
    by (intro okm_bindm ok_rules; use assms in \<open>auto simp: plan_fits_def\<close>)
  moreover have "?ok (settle_event env p r)" unfolding settle_event_def Let_def
    by (intro okm_bindm ok_rules) (simp add: shaped_def)
  moreover have "?ok (settle_waiter_reg p r)" unfolding settle_waiter_reg_def
    by (intro okm_bindm ok_rules) (simp_all add: shaped_def pool_push_def)
  moreover have "?ok (settle_waiter_unreg p r)" unfolding settle_waiter_unreg_def
    by (intro okm_bindm ok_rules) (simp add: shaped_def split: option.split)
  moreover have "?ok (restore_tail p)" unfolding restore_tail_def
    by (rule okm_option, rule okm_ret, rule okm_scr, intro ok_rules) (simp add: shaped_def)
  ultimately show ?thesis unfolding settle_plan_def by (intro okm_seqm)
qed

lemma rewrite_sizes_shape:
  "length (se_aux (rewrite_sizes p cmd st l s)) = length (se_aux s)"
  "se_scratch (rewrite_sizes p cmd st l s) = se_scratch s" "se_mirror (rewrite_sizes p cmd st l s) = se_mirror s"
  by (auto simp: rewrite_sizes_def Let_def aux_rewrite_len keeps_fb_info keeps_fb_info_list split: option.split)

lemma rewrite_name_shape:
  "length (se_aux (rewrite_name env cmd st l s)) = length (se_aux s)"
  "se_scratch (rewrite_name env cmd st l s) = se_scratch s" "se_mirror (rewrite_name env cmd st l s) = se_mirror s"
  by (auto simp: rewrite_name_def aux_rewrite_len keeps_gpu_name)

lemma rewrite_grid_shape:
  "length (se_aux (rewrite_grid env cmd st l s)) = length (se_aux s)"
  "se_scratch (rewrite_grid env cmd st l s) = se_scratch s" "se_mirror (rewrite_grid env cmd st l s) = se_mirror s"
  by (auto simp: rewrite_grid_def aux_rewrite_len keeps_grid)

lemma rewrite_pids_shape:
  "length (se_aux (snd (rewrite_pids cmd st l s))) = length (se_aux s)"
  "se_scratch (snd (rewrite_pids cmd st l s)) = se_scratch s" "se_mirror (snd (rewrite_pids cmd st l s)) = se_mirror s"
  using keeps_get_pids [of "roster l"] keeps_get_pid_info [of "roster l"]
  by (auto simp: rewrite_pids_def keeps_len_def split: option.splits prod.splits)

lemmas rewrite_shapes = rewrite_sizes_shape rewrite_name_shape rewrite_grid_shape rewrite_pids_shape

lemma okm_rewrite_control: "okm (pp_inline_len p) al m (rewrite_control env p frontend r)"
proof -
  have pids: "okm il al m (stepm (\<lambda>s. case rewrite_pids cmd st l (st_se s) of (bad, se) \<Rightarrow> (bad, s\<lparr> st_se := se \<rparr>)))" for il cmd st l
    using rewrite_pids_shape [of cmd st l]
    by (intro okm_stepm) (simp add: shaped_def case_prod_beta)
  show ?thesis unfolding rewrite_control_def
    apply (rule okm_if, rule okm_ret)
    apply (rule okm_bindm, rule okm_rd, simp, rule okm_bindm, rule okm_rd, simp, rule okm_bindm, rule okm_getm)
    apply (rule okm_seqm, rule okm_se_mod, simp add: rewrite_shapes)
    apply (rule okm_bindm, rule pids)
    by (rule okm_seqm, rule okm_se_mod, simp add: rewrite_shapes, rule okm_ret)
qed

lemma okm_inline_prefix [ok_rules]: "okm (pp_inline_len p) al m (inline_prefix p)"
  unfolding inline_prefix_def by (rule okm_scr, intro okm_seqm ok_rules) simp

lemma okm_vidheap_status_ok [ok_rules]: "okm (pp_inline_len p) al m (vidheap_status_ok p frontend r)"
  unfolding vidheap_status_ok_def by (intro okm_bindm ok_rules; simp)

lemma okm_rewrite_vidheap: "okm (pp_inline_len p) al m (rewrite_vidheap p frontend r)"
proof -
  have "okm (pp_inline_len p) al m (bindm (inline_prefix p) (\<lambda>b.
        se_mod (\<lambda>s. s\<lparr> se_scratch := fst (rewrite_vidheap_info b (ledger_limit l) (lg_used l)) @
                        drop (pp_inline_len p) (se_scratch s) \<rparr>)))" for l
    by (simp add: okm_def inline_prefix_def wp_simps shaped_def vidheap_info_len)
  note inner = this
  show ?thesis unfolding rewrite_vidheap_def
    by (rule okm_bindm, rule okm_getm, rule okm_if, rule okm_ret, rule okm_bindm, rule okm_vidheap_status_ok,
        rule okm_if, rule okm_ret, rule inner)
qed

lemma okm_settle_vram:
  assumes "plan_fits p"
  shows "okm (pp_inline_len p) al m (settle_vram p r)"
proof -
  have "okm (pp_inline_len p) al m (settle_outcome p)" if "12 \<le> pp_inline_len p"
    unfolding settle_outcome_def by (intro okm_bindm ok_rules) (use that in simp)
  then show ?thesis
    unfolding settle_vram_def Let_def
    by (intro okm_seqm okm_bindm ok_rules) (use assms in \<open>auto simp: plan_fits_def\<close>)
qed

lemma okm_after_uvm_free:
  assumes "senv_ok env"
  shows "okm (pp_inline_len p) al m (after_uvm_free env p r)"
  unfolding after_uvm_free_def
  by (intro okm_seqm okm_bindm ok_rules)
    (use assms in \<open>auto simp: senv_ok_def abi_defs UVM_FREE_PARAMS_OFF_base_def\<close>)

lemma okm_free_vidheap: "okm (pp_inline_len p) al m (free_vidheap p frontend r)"
proof -
  have "okm (pp_inline_len p) al m (bindm (inline_prefix p) (\<lambda>b.
      if vidheap_function b = Some NVOS32_FUNCTION_FREE then
        bindm (scr_rd32 0) (\<lambda>hroot.
        on_books (\<lambda>l bk. case free_object l bk hroot (vidheap_handle b) of (l', bk') \<Rightarrow> ((), l', bk')))
      else ret ()))"
    unfolding inline_prefix_def
    by (auto simp: okm_def wp_simps shaped_def scr_rd32_def on_books_def vidheap_function_def V_LEN_def
        split: prod.split if_splits)
  note inner = this
  show ?thesis unfolding free_vidheap_def
    by (rule okm_bindm, rule okm_vidheap_status_ok, rule okm_if, rule okm_ret, rule inner)
qed

lemma okm_note_client: "okm (pp_inline_len p) al m (note_client p frontend r)"
  unfolding note_client_def by (intro okm_seqm okm_bindm ok_rules) (auto simp: shaped_def)

lemma release_client_shape:
  "release_client c s H = (s', H') \<Longrightarrow>
    se_scratch s' = se_scratch s \<and> se_aux s' = se_aux s \<and> se_mirror s' = se_mirror s"
  by (auto simp: release_client_def Let_def split: prod.splits)

lemma release_clients_shape:
  "release_clients cs s H = (s', H') \<Longrightarrow>
    se_scratch s' = se_scratch s \<and> se_aux s' = se_aux s \<and> se_mirror s' = se_mirror s"
proof (induction cs arbitrary: s H)
  case (Cons c cs)
  obtain s1 H1 where r: "release_client c s H = (s1, H1)" by (cases "release_client c s H")
  then show ?case using Cons.IH [of s1 H1] Cons.prems release_client_shape [OF r] by simp
qed simp

lemma okm_after_rm_free: "okm (pp_inline_len p) al m (after_rm_free env p frontend r)"
proof -
  have rel: "okm il al m (stepm (\<lambda>s. case release_client c (st_se s) (xh_host (st_x s)) of
      (se, H) \<Rightarrow> ((), s\<lparr> st_se := se, st_x := (st_x s)\<lparr> xh_host := H \<rparr> \<rparr>)))" for il c
    by (rule okm_stepm) (auto simp: shaped_def split: prod.split dest: release_client_shape)
  have ev: "okm il al m (se_mod (\<lambda>s. s\<lparr> se_events := AList.delete k (se_events s) \<rparr>))" for il k
    by (rule okm_se_mod) simp
  show ?thesis unfolding after_rm_free_def
    by (intro rel ev okm_if okm_seqm okm_bindm okm_on okm_rd okm_ret okm_getm okm_option okm_free_os_event) simp_all
qed

lemma okm_client_control [ok_rules]: "okm il al m (client_control env fd c cmd ps)"
  unfolding client_control_def by (intro okm_seqm okm_bindm ok_rules)

lemma okm_label_client: "okm (pp_inline_len p) al m (label_client env p frontend r)"
  unfolding label_client_def by (intro okm_bindm ok_rules) simp_all

lemma okm_grant_dup: "okm (pp_inline_len p) al m (grant_dup env p frontend r)"
  unfolding grant_dup_def by (intro okm_bindm ok_rules) simp_all

lemma okm_log_reads: "okm (pp_inline_len p) al m (log_reads env p frontend)"
  unfolding log_reads_def by (intro okm_seqm ok_rules) simp_all

lemma okm_books_after:
  assumes "senv_ok env" "plan_fits p"
  shows "okm (pp_inline_len p) al m (books_after env p frontend r)"
  unfolding books_after_def
  by (intro okm_seqm okm_rewrite_vidheap okm_settle_vram okm_after_uvm_free okm_free_vidheap okm_note_client
      okm_after_rm_free okm_label_client okm_grant_dup okm_log_reads assms)

section \<open>Framing\<close>

text \<open>A reply carries the sequence number of its request and exactly the bytes it announces.\<close>

definition framed :: "u32 \<Rightarrow> bytes \<Rightarrow> bool" where
  "framed sq b \<longleftrightarrow>
    (case rsp_from_bytes b of
       None \<Rightarrow> False
     | Some r \<Rightarrow> rs_seq r = sq \<and> length b = RSP_LEN + unat (rs_inline_len r) + unat (rs_aux_len r))"

lemma framed_reply:
  "rs_seq r = sq \<Longrightarrow> length inl = unat (rs_inline_len r) \<Longrightarrow> length aux = unat (rs_aux_len r) \<Longrightarrow> framed sq (reply r inl aux)"
  by (simp add: framed_def reply_def rsp_codec.dec_enc rsp_codec.enc_length)

lemma rsp_default_lens: "rs_inline_len (ok_rsp sq) = 0" "rs_aux_len (ok_rsp sq) = 0" "rs_seq (ok_rsp sq) = sq"
  by (simp_all add: ok_rsp_def rsp_default_def)

lemma framed_empty: "framed sq (reply ((ok_rsp sq)\<lparr> rs_token := t \<rparr>) [] [])" "framed sq (reply (ok_rsp sq) [] [])"
    "framed sq (reply_err sq e)"
  by (simp_all add: reply_err_def framed_reply rsp_default_lens)

lemma unat_u32_of_nat: "n < 2 ^ 32 \<Longrightarrow> unat (word_of_nat n :: u32) = n"
  by (simp add: unsigned_of_nat take_bit_nat_eq_self)

lemma execute_framed:
  assumes "senv_ok env" "plan_fits p" "shaped (pp_inline_len p) (pp_aux_len p) m s"
  shows "wp (execute env p) (ends m (\<lambda>b _. framed (pp_seq p) b)) s"
  using assms(3) unfolding execute_def Let_def apply -
  apply (erule wp_ends_bindm, rule okm_run_action [OF assms(1,2)])
  apply (split prod.split, intro allI impI)
  apply (erule wp_ends_seqm, rule okm_settle_plan [OF assms(2)])
  apply (erule wp_ends_bindm, rule okm_rewrite_control)
  apply (erule wp_ends_seqm, rule okm_books_after [OF assms(1,2)])
  apply (erule wp_ends_refused)
  using assms(2)
  by (auto simp: ioctl_reply_def wp_simps shaped_def plan_fits_def rsp_default_lens unat_u32_of_nat
      intro!: framed_reply)

lemma on_ioctl_framed:
  assumes "senv_ok env"
  shows "wp (on_ioctl env rq payload) (ends (se_mirror (st_se s)) (\<lambda>b _. framed (rq_seq rq) b)) s"
  unfolding on_ioctl_def wp_bindm using prepare_fits [OF refl]
  by (rule wp_mono) (use execute_framed [OF assms] in \<open>fastforce simp: andthen_def split: sum.splits\<close>)

section \<open>The other messages\<close>

text \<open>Tokens issued so far: a message issues at most one.\<close>

definition issued :: "st \<Rightarrow> nat" where "issued s = unat (mi_next (se_mirror (st_se s)))"

definition answers :: "u32 \<Rightarrow> nat \<Rightarrow> int + bytes \<Rightarrow> st \<Rightarrow> bool" where
  "answers sq n r s \<longleftrightarrow> issued s \<le> n + 1 \<and> (\<forall>b. r = Inr b \<longrightarrow> framed sq b)"

lemma answers_simps [simp]:
  "answers sq n (Inl e) s \<longleftrightarrow> issued s \<le> n + 1" "answers sq n (Inr b) s \<longleftrightarrow> issued s \<le> n + 1 \<and> framed sq b"
  by (simp_all add: answers_def)

lemma ends_answers: "ends m (\<lambda>b _. framed sq b) r s' \<Longrightarrow> unat (mi_next m) \<le> n + 1 \<Longrightarrow> answers sq n r s'"
  by (auto simp: ends_def answers_def issued_def)

lemma on_hello_answers: "wp (on_hello rq) (answers (rq_seq rq) (issued s)) s"
  by (simp add: on_hello_def wp_simps framed_empty)

lemma mirror_insertm_issues:
  assumes "issued s < 2 ^ 64 - 1"
  shows "wp (mirror_insertm fd d) (\<lambda>r s'. (\<exists>t. r = Inr t) \<and> issued s' \<le> issued s + 1) s"
proof -
  let ?n = "mi_next (se_mirror (st_se s))"
  have "checked_add ?n 1 \<noteq> None" using assms unfolding checked_add_None by (simp add: issued_def)
  then obtain c where c: "checked_add ?n 1 = Some c" by auto
  then have "unat c = unat ?n + 1" by (simp only: checked_add_Some) simp
  then show ?thesis using c
    by (simp add: wp_def mirror_insertm_def mirror_insert_def issued_def Let_def)
qed

lemma okm_adopt_identity: "okm il al m (adopt_identity rq payload)"
  unfolding adopt_identity_def by (intro okm_seqm okm_bindm ok_rules) (simp add: shaped_def)

lemma on_open_answers:
  assumes "issued s < 2 ^ 64 - 1"
  shows "wp (on_open env rq payload) (answers (rq_seq rq) (issued s)) s"
proof -
  define il al m where "il = length (se_scratch (st_se s))" and "al = length (se_aux (st_se s))" and "m = se_mirror (st_se s)"
  have sh: "shaped il al m s" by (simp add: shaped_def il_def al_def m_def)
  have iss: "issued s' = issued s" if "shaped il al m s'" for s' using that by (simp add: issued_def shaped_def m_def)
  have ins: "wp (bindm (mirror_insertm fd d) (\<lambda>t. ret (reply ((ok_rsp (rq_seq rq))\<lparr> rs_token := t \<rparr>) [] [])))
      (answers (rq_seq rq) (issued s)) s'" if "shaped il al m s'" for s' fd d
    unfolding wp_bindm
    by (rule wp_mono [OF mirror_insertm_issues]) (use assms iss [OF that] in \<open>auto simp: wp_simps framed_empty\<close>)
  have opened: "wp (bindm (sys_open env n) (\<lambda>opened. case opened of None \<Rightarrow> fail EACCES | Some fd \<Rightarrow>
        bindm (mirror_insertm fd d) (\<lambda>t. ret (reply ((ok_rsp (rq_seq rq))\<lparr> rs_token := t \<rparr>) [] []))))
      (answers (rq_seq rq) (issued s)) s'" if "shaped il al m s'" for s' n d
    unfolding wp_bindm [of "sys_open _ _"]
    by (rule wp_mono [OF okmD [OF okm_sys(2) that]])
      (use iss ins in \<open>auto simp: andthen_def wp_simps split: sum.splits option.splits\<close>)
  show ?thesis
    unfolding on_open_def wp_seqm [of "adopt_identity _ _"]
    by (rule wp_mono [OF okmD [OF okm_adopt_identity sh]])
      (use iss opened in \<open>auto simp: andthen_def wp_simps split: sum.splits option.splits\<close>)
qed

lemma on_map_prepare_answers: "wp (on_map_prepare rq) (answers (rq_seq rq) (issued s)) s"
  by (auto simp: on_map_prepare_def wp_simps framed_empty issued_def split: option.split)

lemma on_uvm_pool_back_answers: "wp (on_uvm_pool_back env rq payload) (answers (rq_seq rq) (issued s)) s"
  by (auto simp: on_uvm_pool_back_def on_pool_def wp_simps framed_empty issued_def split: option.split sum.split prod.split)

lemma on_close_answers: "wp (on_close env rq) (answers (rq_seq rq) (issued s)) s"
proof -
  have rel: "se_mirror (fst (close_clients_of_token t se H)) = se_mirror se" for t se H
    using release_clients_shape [of _ se H "fst (close_clients_of_token t se H)" "snd (close_clients_of_token t se H)"]
    by (simp add: close_clients_of_token_def)
  show ?thesis
    by (auto simp: on_close_def on_pool_def on_books_def sys_close_def wp_simps framed_empty issued_def mirror_remove_def
        case_prod_beta rel split: option.split)
qed

lemma dispatch_answers:
  assumes "senv_ok env" "issued s < 2 ^ 64 - 1"
  shows "wp (dispatch env rq payload) (answers (rq_seq rq) (issued s)) s"
proof -
  have io: "wp (on_ioctl env rq payload) (answers (rq_seq rq) (issued s)) s"
    by (rule wp_mono [OF on_ioctl_framed [OF assms(1)]]) (rule ends_answers, assumption, simp add: issued_def)
  show ?thesis unfolding dispatch_def
    by (simp add: io on_hello_answers on_open_answers [OF assms(2)] on_close_answers on_map_prepare_answers
        on_uvm_pool_back_answers wp_simps split: option.split wire_kind.split)
qed

lemma answering_framed:
  "wp m (answers sq n) s \<Longrightarrow> wp (answering sq m) (\<lambda>r s'. issued s' \<le> n + 1 \<and> (\<exists>b. r = Inr b \<and> framed sq b)) s"
  by (auto simp: wp_def answering_def framed_empty split: option.splits sum.splits)

text \<open>One message: either it is shorter than the header, or it gets a framed reply.\<close>

definition replied :: "bytes \<Rightarrow> bytes option \<Rightarrow> bool" where
  "replied msg r \<longleftrightarrow> (case req_from_bytes msg of None \<Rightarrow> r = None | Some rq \<Rightarrow> \<exists>b. r = Some b \<and> framed (rq_seq rq) b)"

lemma handle_msg_replied:
  assumes "senv_ok env" "issued s < 2 ^ 64 - 1"
  shows "\<exists>r s'. handle_msg_with env msg afd ffd s = Some (Inr r, s') \<and> replied msg r \<and> issued s' \<le> issued s + 1"
proof -
  let ?s = "s\<lparr> st_se := (st_se s)\<lparr> se_aux_fd_host := afd, se_fd_field_host := ffd \<rparr> \<rparr>"
  have i: "issued ?s = issued s" by (simp add: issued_def)
  have "wp (handle_msg_with env msg afd ffd) (\<lambda>r s'. issued s' \<le> issued s + 1 \<and> (\<exists>b. r = Inr b \<and> replied msg b)) s"
  proof (cases "req_from_bytes msg")
    case None
    then show ?thesis by (simp add: handle_msg_with_def wp_simps i replied_def)
  next
    case (Some rq)
    have "wp (answering (rq_seq rq) (dispatch env rq (drop REQ_LEN msg)))
        (\<lambda>r s'. issued s' \<le> issued s + 1 \<and> (\<exists>b. r = Inr b \<and> framed (rq_seq rq) b)) ?s"
      using answering_framed [OF dispatch_answers [OF assms(1), of ?s]] assms(2) i by simp
    then show ?thesis unfolding handle_msg_with_def
      by (simp add: Some wp_simps) (erule wp_mono, auto simp: wp_simps replied_def Some)
  qed
  then show ?thesis by (auto simp: wp_Some)
qed

section \<open>Claims\<close>

text \<open>A session from its start: messages with the descriptors the device resolved for them.\<close>

fun session_run :: "senv \<Rightarrow> (bytes \<times> i32 option \<times> i32 option) list \<Rightarrow> st \<Rightarrow> (bytes option list \<times> st) option" where
  "session_run env [] s = Some ([], s)"
| "session_run env ((msg, afd, ffd) # ms) s =
    (case handle_msg_with env msg afd ffd s of
       Some (Inr r, s') \<Rightarrow> map_option (\<lambda>(rs, s2). (r # rs, s2)) (session_run env ms s')
     | _ \<Rightarrow> None)"

lemma session_run_replied:
  "senv_ok env \<Longrightarrow> issued s + length ms < 2 ^ 64 \<Longrightarrow>
    \<exists>rs s'. session_run env ms s = Some (rs, s') \<and> list_all2 (\<lambda>(msg, _) r. replied msg r) ms rs"
proof (induction ms arbitrary: s)
  case (Cons x ms)
  obtain msg afd ffd where x: "x = (msg, afd, ffd)" by (cases x)
  obtain r s1 where h: "handle_msg_with env msg afd ffd s = Some (Inr r, s1)" "replied msg r" "issued s1 \<le> issued s + 1"
    using handle_msg_replied [OF Cons.prems(1), of s msg afd ffd] Cons.prems(2) by auto
  obtain rs s2 where "session_run env ms s1 = Some (rs, s2)" "list_all2 (\<lambda>(msg, _) r. replied msg r) ms rs"
    using Cons.IH [OF Cons.prems(1), of s1] Cons.prems(2) h(3) by auto
  then show ?case using x h(1,2) by simp
qed simp

text \<open>C15: No sequence of messages makes a session panic, whatever the guest sends and however the
  driver answers: from a fresh session every message of fewer than 2^64 - 1 gets its reply, and
  each reply carries the sequence number of its request and exactly as many bytes as its header
  announces.  Only a message shorter than the request header gets none.\<close>

theorem session_answers_every_message:
  assumes "senv_ok env" "length ms < 2 ^ 64 - 1"
  shows "\<exists>rs s'. session_run env ms \<lparr> st_se = detached_proc sub_id, st_x = x \<rparr> = Some (rs, s') \<and>
    list_all2 (\<lambda>(msg, _) r. replied msg r) ms rs"
proof (rule session_run_replied [OF assms(1)])
  have "issued \<lparr> st_se = detached_proc sub_id, st_x = x \<rparr> = 1"
    by (simp add: issued_def detached_proc_def mirror_new_def)
  then show "issued \<lparr> st_se = detached_proc sub_id, st_x = x \<rparr> + length ms < 2 ^ 64" using assms(2) by simp
qed

definition sample_senv :: senv where
  "sample_senv = \<lparr> sv_abi = abi_v615, sv_henv = sample_henv,
     sv_ioctl = (\<lambda>_ _ _ _ _. \<lparr> an_ret = 0, an_errno = 0, an_inline = (\<lambda>_. 0), an_aux = (\<lambda>_. 0) \<rparr>),
     sv_open = (\<lambda>_ _. Some 9), sv_dup = (\<lambda>_ _. Some 10), sv_addr = (\<lambda>_. 0x7f0000001000), sv_card = None,
     sv_switches = (False, True, True), sv_managed = False, sv_name_raw = False, sv_name_format = TransportFormat \<rparr>"

definition sample_msgs :: "(bytes \<times> i32 option \<times> i32 option) list" where
  "sample_msgs =
    [(req_as_bytes (req_default\<lparr> rq_seq := 6, rq_kind := 1 \<rparr>), None, None),
     (req_as_bytes (sample_req\<lparr> rq_seq := 7, rq_kind := 3, rq_target_token := 1 \<rparr>) @ sample_inline @ sample_aux, None, None),
     ([1, 2, 3], None, None)]"

definition sample_xhost :: xhost where
  "sample_xhost = \<lparr> xh_host = \<lparr> ho_budget = sample_budget, ho_hist = [] \<rparr>,
     xh_ledger = ledger_with_profile profile_OFF, xh_calls = [], xh_open = [] \<rparr>"

theorem session_answers_every_message_witness:
  "\<exists>rs s' b. session_run sample_senv sample_msgs \<lparr> st_se = detached_proc 5, st_x = sample_xhost \<rparr> = Some (rs, s') \<and>
    rs ! 1 = Some b \<and> framed 7 b \<and> rs ! 2 = None"
proof -
  have env: "senv_ok sample_senv" by (simp add: senv_ok_def sample_senv_def supported_abis_def)
  have "length sample_msgs < 2 ^ 64 - 1" by (simp add: sample_msgs_def)
  from session_answers_every_message [OF env this, of 5 sample_xhost]
  obtain rs s' where r: "session_run sample_senv sample_msgs \<lparr> st_se = detached_proc 5, st_x = sample_xhost \<rparr> = Some (rs, s')"
    "list_all2 (\<lambda>(msg, _) r. replied msg r) sample_msgs rs" by blast
  have len: "length sample_msgs = 3" by (simp add: sample_msgs_def)
  have "replied (fst (sample_msgs ! i)) (rs ! i)" if "i < 3" for i
    using list_all2_nthD [OF r(2), of i] that len by (simp add: case_prod_beta)
  from this [of 1] this [of 2] have rep: "replied (fst (sample_msgs ! 1)) (rs ! 1)" "replied (fst (sample_msgs ! 2)) (rs ! 2)" by simp_all
  have "req_ok (sample_req\<lparr> rq_seq := 7, rq_kind := 3, rq_target_token := 1 \<rparr>)" by code_simp
  from req_codec.dec_enc [OF this]
  have d: "req_from_bytes (fst (sample_msgs ! 1)) = Some (sample_req\<lparr> rq_seq := 7, rq_kind := 3, rq_target_token := 1 \<rparr>)"
    by (simp add: sample_msgs_def)
  have "req_from_bytes (fst (sample_msgs ! 2)) = None" by (simp add: sample_msgs_def req_codec.dec_short REQ_LEN_def)
  then show ?thesis using r(1) rep d by (auto simp: replied_def)
qed

end
