(* ===== verification/Refines.thy ===== *)
theory Refines
  imports Execute
begin

text \<open>
  Sessions refine the shared accounting.  One message of a session is a sequence of steps of the
  VM-wide relations \<^verbatim>\<open>vram_step\<close> (the ledger and the books of all sessions) and \<^verbatim>\<open>pool_step\<close> (the pin
  budget and the pools of all sessions); a reservation or an arena that the message takes is
  settled before its reply.  What is proved of the states those relations reach therefore holds
  after every message.
\<close>

section \<open>The shared parts\<close>

definition core :: "st \<Rightarrow> ledger \<times> books \<times> host \<times> pool_state" where
  "core s = (xh_ledger (st_x s), se_vram (st_se s), xh_host (st_x s), se_pool (st_se s))"

section \<open>The world around a session\<close>

text \<open>A session is seen with the VM's other sessions: their books, their pools, and what is pending
  elsewhere.  \<^verbatim>\<open>R\<close> and \<^verbatim>\<open>A\<close> are the reservation and the arena of the message at hand.\<close>

record world =
  wo_env :: henv
  wo_profile :: profile
  wo_budget :: pin_budget
  wo_vm :: vm
  wo_pools :: pworld
  wo_key :: u32

definition vview :: "world \<Rightarrow> u64 list \<Rightarrow> ledger \<Rightarrow> books \<Rightarrow> vm" where
  "vview w R l b = \<lparr> vm_ledger = l, vm_books = AList.update (wo_key w) b (vm_books (wo_vm w)),
     vm_pending = map (Pair (wo_key w)) R @ vm_pending (wo_vm w) \<rparr>"

definition pview :: "world \<Rightarrow> arena list \<Rightarrow> host \<Rightarrow> pool_state \<Rightarrow> pworld" where
  "pview w A H ps = \<lparr> pw_host = H, pw_sessions = AList.update (unat (wo_key w)) ps (pw_sessions (wo_pools w)),
     pw_pending = A @ pw_pending (wo_pools w) \<rparr>"

definition inworld :: "world \<Rightarrow> u64 list \<Rightarrow> arena list \<Rightarrow> st \<Rightarrow> bool" where
  "inworld w R A s \<longleftrightarrow>
     vram_reach (wo_profile w) (vview w R (xh_ledger (st_x s)) (se_vram (st_se s))) \<and>
     pool_reach (wo_env w) (wo_budget w) (pview w A (xh_host (st_x s)) (se_pool (st_se s)))"

lemma inworld_core: "core s' = core s \<Longrightarrow> inworld w R A s' = inworld w R A s"
  by (simp add: inworld_def core_def)

lemma tri_keeps: "keeps core c \<Longrightarrow> tri (inworld w R A) c (inworld w R A) (\<lambda>_. inworld w R A)"
  unfolding tri_def keeps_def using inworld_core [of _ _ w R A] by (metis (no_types, lifting) sum.case_eq_if)

lemma tri_keeps_nofail: "keeps core c \<Longrightarrow> nofail c \<Longrightarrow> tri (inworld w R A) c E (\<lambda>_. inworld w R A)"
  by (rule tri_nofail [OF tri_keeps])

text \<open>Steps of the two relations, as the session takes them.\<close>

lemma vview_map_of [simp]: "map_of (vm_books (vview w R l b)) (wo_key w) = Some b"
  by (simp add: vview_def)

lemma pview_map_of [simp]: "map_of (pw_sessions (pview w A H ps)) (unat (wo_key w)) = Some ps"
  by (simp add: pview_def)

lemma vview_upd [simp]:
  "(vview w R l' b)\<lparr> vm_books := AList.update (wo_key w) b' (vm_books (vview w R l b)) \<rparr> = vview w R l' b'"
  "(vview w R l b)\<lparr> vm_ledger := l' \<rparr> = vview w R l' b"
  by (simp_all add: vview_def)

lemma pview_upd [simp]:
  "(pview w A H' ps)\<lparr> pw_sessions := AList.update (unat (wo_key w)) ps' (pw_sessions (pview w A H ps)) \<rparr> = pview w A H' ps'"
  "(pview w A H ps)\<lparr> pw_host := H' \<rparr> = pview w A H' ps"
  by (simp_all add: pview_def)

lemma tri_books:
  assumes "\<And>l b a l' b'. vram_reach (wo_profile w) (vview w R l b) \<Longrightarrow> f l b = (a, l', b') \<Longrightarrow> vram_reach (wo_profile w) (vview w (R' a) l' b')"
  shows "tri (inworld w R A) (on_books f) E (\<lambda>a. inworld w (R' a) A)"
  unfolding on_books_def
  by (rule tri_stepm) (simp add: inworld_def split: prod.splits, blast intro: assms)

lemma tri_pool:
  assumes "\<And>ps H a ps' H'. pool_reach (wo_env w) (wo_budget w) (pview w A H ps) \<Longrightarrow>
      f ps H = (a, ps', H') \<Longrightarrow> pool_reach (wo_env w) (wo_budget w) (pview w (A' a) H' ps')"
  shows "tri (inworld w R A) (on_pool f) E (\<lambda>a. inworld w R (A' a))"
  unfolding on_pool_def
  by (rule tri_stepm) (simp add: inworld_def split: prod.splits, blast intro: assms)

lemma tri_host:
  assumes "\<And>ps H a H'. pool_reach (wo_env w) (wo_budget w) (pview w A H ps) \<Longrightarrow>
      f H = (a, H') \<Longrightarrow> pool_reach (wo_env w) (wo_budget w) (pview w (A' a) H' ps)"
  shows "tri (inworld w R A) (on_host f) E (\<lambda>a. inworld w R (A' a))"
  unfolding on_host_def
  by (rule tri_stepm) (simp add: inworld_def split: prod.splits, blast intro: assms)


lemma vview_simps [simp]: "vm_ledger (vview w R l b) = l"
    "vm_pending (vview w R l b) = map (Pair (wo_key w)) R @ vm_pending (wo_vm w)"
  by (simp_all add: vview_def)

lemma vview_steps:
  "vram_step (vview w R l b) (vview w R (announce l b pid name) b)"
  "free_object l b root h = (l', b') \<Longrightarrow> vram_step (vview w R l b) (vview w R l' b')"
  "close_token l b t = (l', b') \<Longrightarrow> vram_step (vview w R l b) (vview w R l' b')"
  "vram_step (vview w R l b) (vview w R l (fst (count_refusal b ask)))"
  "vram_step (vview w R l b) (vview w R (fst (note_placement l ask ok status out)) b)"
  using Announce [of "vview w R l b" "wo_key w" b pid name]
    FreeObject [of "vview w R l b" "wo_key w" b root h l' b']
    CloseToken [of "vview w R l b" "wo_key w" b t l' b']
    Refused [of "vview w R l b" "wo_key w" b ask]
    Placed [of "vview w R l b" ask ok status out]
  by simp_all

lemma tri_announce:
  "tri (inworld w R A) (on_books (\<lambda>l b. ((), announce l b pid name, b))) E (\<lambda>_. inworld w R A)"
  by (rule tri_books) (auto intro: Step vview_steps(1))

lemma tri_free_object:
  "tri (inworld w R A) (on_books (\<lambda>l b. case free_object l b root h of (l', b') \<Rightarrow> ((), l', b'))) E (\<lambda>_. inworld w R A)"
  by (rule tri_books) (auto split: prod.splits intro: Step vview_steps(2))

lemma tri_close_token:
  "tri (inworld w R A) (on_books (\<lambda>l b. case close_token l b t of (l', b') \<Rightarrow> ((), l', b'))) E (\<lambda>_. inworld w R A)"
  by (rule tri_books) (auto split: prod.splits intro: Step vview_steps(3))

lemma tri_count_refusal:
  "tri (inworld w R A) (on_books (\<lambda>l b. ((), l, fst (count_refusal b ask)))) E (\<lambda>_. inworld w R A)"
  by (rule tri_books) (auto intro: Step vview_steps(4))

lemma tri_note_placement:
  "tri (inworld w R A) (on_books (\<lambda>l b. ((), fst (note_placement l ask ok status out), b))) E (\<lambda>_. inworld w R A)"
  by (rule tri_books) (auto intro: Step vview_steps(5))

lemma tri_settle:
  "tri (inworld w [ch_bytes c] A) (on_books (\<lambda>l b. case settle l b ok out c of (l', b') \<Rightarrow> ((), l', b'))) E (\<lambda>_. inworld w [] A)"
proof (rule tri_books)
  fix l b a l' b'
  assume r: "vram_reach (wo_profile w) (vview w [ch_bytes c] l b)"
    and f: "(case settle l b ok out c of (l', b') \<Rightarrow> ((), l', b')) = (a, l', b')"
  have "vram_step (vview w [ch_bytes c] l b) (vview w [] l' b')"
    using Settle [of "vview w [ch_bytes c] l b" "wo_key w" b "[]" c "vm_pending (wo_vm w)" ok out l' b'] f
    by (simp add: vview_def split: prod.splits)
  then show "vram_reach (wo_profile w) (vview w [] l' b')" using Step [OF r] by blast
qed

definition taken :: "bool \<Rightarrow> u64 \<Rightarrow> u64 list" where
  "taken ok n = (if ok then [n] else [])"

lemma tri_reserve: "tri (inworld w [] A) (vram_reservem n) E (\<lambda>ok. inworld w (taken ok n) A)"
  unfolding vram_reservem_def
proof (rule tri_books)
  fix l b a l' b'
  assume r: "vram_reach (wo_profile w) (vview w [] l b)"
    and f: "(case reserve l n of None \<Rightarrow> (False, l, b) | Some l' \<Rightarrow> (True, l', b)) = (a, l', b')"
  show "vram_reach (wo_profile w) (vview w (taken a n) l' b')"
  proof (cases "reserve l n")
    case None
    then show ?thesis using r f by (simp add: taken_def)
  next
    case (Some x)
    then have "vram_step (vview w [] l b) (vview w (taken a n) l' b')"
      using ReserveOk [of "vview w [] l b" "wo_key w" b n x] f by (auto simp: vview_def taken_def)
    then show ?thesis using Step [OF r] by blast
  qed
qed


text \<open>The same for the pools.\<close>

lemma pview_simps [simp]: "pw_host (pview w A H ps) = H" "pw_pending (pview w A H ps) = A @ pw_pending (wo_pools w)"
  by (simp_all add: pview_def)

lemma pview_steps:
  "drop_osdesc_arena ps root h H = (ps', H') \<Longrightarrow> pool_step env (pview w A H ps) (pview w A H' ps')"
  "drop_osdesc_client ps root H = (ps', H') \<Longrightarrow> pool_step env (pview w A H ps) (pview w A H' ps')"
  "back_pool_for env t fd addr len runs ps H = (res, ps', H') \<Longrightarrow> pool_step env (pview w A H ps) (pview w A H' ps')"
  "release_uvm_range env t addr ps H = (res', ps', H') \<Longrightarrow> pool_step env (pview w A H ps) (pview w A H' ps')"
  "close_uvm env t ps H = (res'', ps', H') \<Longrightarrow> pool_step env (pview w A H ps) (pview w A H' ps')"
  using step_drop_osdesc [of "pview w A H ps" "unat (wo_key w)" ps root h ps' H' env]
    step_drop_client [of "pview w A H ps" "unat (wo_key w)" ps root ps' H' env]
    step_back_pool [of "pview w A H ps" "unat (wo_key w)" ps env t fd addr len runs res ps' H']
    step_release [of "pview w A H ps" "unat (wo_key w)" ps env t addr res' ps' H']
    step_close [of "pview w A H ps" "unat (wo_key w)" ps env t res'' ps' H']
  by simp_all

lemma tri_drop_osdesc:
  "tri (inworld w R A) (on_pool (\<lambda>ps H. case drop_osdesc_arena ps root h H of (ps', H') \<Rightarrow> ((), ps', H'))) E (\<lambda>_. inworld w R A)"
  by (rule tri_pool) (auto split: prod.splits intro: reach_step pview_steps(1))

lemma tri_back_pool: "tri (inworld w R A) (on_pool (back_pool_for (wo_env w) t fd addr len runs)) E (\<lambda>_. inworld w R A)"
  by (rule tri_pool) (auto intro: reach_step pview_steps(3))

lemma tri_release_range: "tri (inworld w R A) (on_pool (release_uvm_range (wo_env w) t addr)) E (\<lambda>_. inworld w R A)"
  by (rule tri_pool) (auto intro: reach_step pview_steps(4))

lemma tri_close_uvm: "tri (inworld w R A) (on_pool (close_uvm (wo_env w) t)) E (\<lambda>_. inworld w R A)"
  by (rule tri_pool) (auto intro: reach_step pview_steps(5))

lemma tri_arena: "tri (inworld w R []) (on_host (arena_for_osdesc (wo_env w) runs tot)) E
    (\<lambda>r. inworld w R (case r of Inl _ \<Rightarrow> [] | Inr (a, _) \<Rightarrow> [a]))"
proof (rule tri_host)
  fix ps H r H'
  assume p: "pool_reach (wo_env w) (wo_budget w) (pview w [] H ps)"
    and f: "arena_for_osdesc (wo_env w) runs tot H = (r, H')"
  have "pool_step (wo_env w) (pview w [] H ps) (pview w (case r of Inl _ \<Rightarrow> [] | Inr (a, _) \<Rightarrow> [a]) H' ps)"
    using f step_arena_ok [of "wo_env w" runs tot "pview w [] H ps"] step_arena_err [of "wo_env w" runs tot "pview w [] H ps"]
    by (auto simp: pview_def split: sum.split)
  then show "pool_reach (wo_env w) (wo_budget w) (pview w (case r of Inl _ \<Rightarrow> [] | Inr (a, _) \<Rightarrow> [a]) H' ps)"
    by (rule reach_step [OF p])
qed

lemma inworld_arena_drop:
  assumes "inworld w R [a] s" "sv_henv env = wo_env w"
  shows "inworld w R [] (arena_dropm env a s)"
proof -
  let ?w = "pview w [a] (xh_host (st_x s)) (se_pool (st_se s))"
  have "pool_step (wo_env w) ?w (pview w [] (arena_drop (wo_env w) a (xh_host (st_x s))) (se_pool (st_se s)))"
    using step_plan_drop [of a ?w "wo_env w"] by (simp add: pview_def)
  then show ?thesis using assms reach_step by (fastforce simp: inworld_def arena_dropm_def)
qed

lemma tri_keep:
  "tri (inworld w R [a]) (on_pool (\<lambda>ps H. case keep_osdesc_arena ps root h a H of (ps', H') \<Rightarrow> ((), ps', H'))) E (\<lambda>_. inworld w R [])"
proof (rule tri_pool)
  fix ps H u ps' H'
  assume p: "pool_reach (wo_env w) (wo_budget w) (pview w [a] H ps)"
    and f: "(case keep_osdesc_arena ps root h a H of (ps', H') \<Rightarrow> ((), ps', H')) = (u, ps', H')"
  have "pool_step (wo_env w) (pview w [a] H ps) (pview w [] H' ps')"
    using step_keep [of a "pview w [a] H ps" "unat (wo_key w)" ps root h ps' H' "wo_env w"] f
    by (simp add: pview_def split: prod.splits)
  then show "pool_reach (wo_env w) (wo_budget w) (pview w [] H' ps')" by (rule reach_step [OF p])
qed

lemma inworld_release_client:
  assumes "inworld w R A s" "release_client c (st_se s) (xh_host (st_x s)) = (se, H)"
  shows "inworld w R A (s\<lparr> st_se := se, st_x := (st_x s)\<lparr> xh_host := H \<rparr> \<rparr>)"
proof -
  obtain ps where d: "drop_osdesc_client (se_pool (st_se s)) c (xh_host (st_x s)) = (ps, H)"
    "se_pool se = ps" "se_vram se = se_vram (st_se s)"
    using assms(2) by (auto simp: release_client_def Let_def split: prod.splits)
  show ?thesis using assms(1) reach_step [OF _ pview_steps(2) [OF d(1)]] d(2,3) by (auto simp: inworld_def)
qed

lemma inworld_release_clients:
  "inworld w R A s \<Longrightarrow> release_clients cs (st_se s) (xh_host (st_x s)) = (se, H) \<Longrightarrow>
   inworld w R A (s\<lparr> st_se := se, st_x := (st_x s)\<lparr> xh_host := H \<rparr> \<rparr>)"
proof (induction cs arbitrary: s)
  case Nil
  then show ?case by (auto simp: inworld_def)
next
  case (Cons c cs)
  obtain se' H' where r: "release_client c (st_se s) (xh_host (st_x s)) = (se', H')" by fastforce
  show ?case using Cons.IH [OF inworld_release_client [OF Cons.prems(1) r]] Cons.prems(2) r by simp
qed

section \<open>Steps of a message that leave the shared parts alone\<close>

lemma keeps_sys [keeps_rules]:
  "keeps core (sys_open env n)" "keeps core (sys_dup env fd)" "keeps core (sys_close fd)" "keeps core (sys_ioctl env fd rq b a)"
  unfolding sys_open_def sys_dup_def sys_close_def sys_ioctl_def
  by (intro keeps_rules; simp add: core_def Let_def x_log_def x_close_def split: option.split)+

lemma nofail_sys [nofail_rules]:
  "nofail (sys_open env n)" "nofail (sys_dup env fd)" "nofail (sys_close fd)" "nofail (sys_ioctl env fd rq b a)"
  unfolding sys_open_def sys_dup_def sys_close_def sys_ioctl_def by (intro nofail_rules)+

lemma keeps_buffers [keeps_rules]:
  "keeps core (scr_rd32 off)" "keeps core (scr_rd64 off)" "keeps core (aux_rd32 off)" "keeps core (aux_rd64 off)"
  "keeps core (scr_wr32 off v)" "keeps core (scr_wr64 off q)" "keeps core (aux_wr32 off v)" "keeps core (aux_wr64 off q)"
  unfolding scr_rd32_def scr_rd64_def aux_rd32_def aux_rd64_def scr_wr32_def scr_wr64_def aux_wr32_def aux_wr64_def
  by (intro keeps_rules; simp add: core_def)+

lemma nofail_buffers [nofail_rules]:
  "nofail (scr_rd32 off)" "nofail (scr_rd64 off)" "nofail (aux_rd32 off)" "nofail (aux_rd64 off)"
  "nofail (scr_wr32 off v)" "nofail (scr_wr64 off q)" "nofail (aux_wr32 off v)" "nofail (aux_wr64 off q)"
  unfolding scr_rd32_def scr_rd64_def aux_rd32_def aux_rd64_def scr_wr32_def scr_wr64_def aux_wr32_def aux_wr64_def
  by (intro nofail_rules)+

lemma keeps_events [keeps_rules]:
  "keeps core take_event_id" "keeps core (alloc_os_event_on env fd c e)" "keeps core (free_os_event env c e)" "keeps core take_waiter_generation"
  unfolding take_event_id_def alloc_os_event_on_def free_os_event_def take_waiter_generation_def
  by (intro keeps_rules; simp add: core_def)+

lemma nofail_free_os_event [nofail_rules]: "nofail (free_os_event env c e)"
  unfolding free_os_event_def by (intro nofail_rules)

lemma keeps_event_ids [keeps_rules]: "keeps core (alloc_os_event_id env c)" "keeps core (waiter_slot_get env c)"
  unfolding alloc_os_event_id_def waiter_slot_get_def
  by (intro keeps_rules keeps_dropm; simp add: core_def x_close_def x_log_def)+

lemma keeps_mirror_insertm [keeps_rules]: "keeps core (mirror_insertm fd d)"
  by (auto simp: keeps_def mirror_insertm_def core_def split: option.splits prod.splits)

lemma keeps_prepare_parts [keeps_rules]:
  "keeps core (prepare_admit env rq payload)" "keeps core (clear_unusedm sh)" "keeps core (fd_field_xlate rq)"
  "keeps core (watch_client t fd owner)" "keeps core (osdesc_gpu_fd env fd)" "keeps core (ioctl_request d nr il)"
  unfolding prepare_admit_def clear_unusedm_def fd_field_xlate_def watch_client_def osdesc_gpu_fd_def ioctl_request_def Let_def
  by (intro keeps_rules; simp add: core_def)+

lemma keeps_load_buffers [keeps_rules]: "keeps core (load_buffers rq payload d sh)"
  unfolding load_buffers_def Let_def by (intro keeps_rules; simp add: core_def)

lemma keeps_pointers [keeps_rules]:
  "keeps core (osdesc_kernel_form env fd limit a)" "keeps core (aux_fd_xlate rq d il)" "keeps core (nested_ptr_xlate rq d addr nd acc)"
  unfolding osdesc_kernel_form_def aux_fd_xlate_def nested_ptr_xlate_def Let_def
  by (intro keeps_rules; simp add: core_def)+

lemma keeps_nested_xlate [keeps_rules]: "keeps core (nested_xlate rq d addr)"
  unfolding nested_xlate_def by (intro keeps_rules keeps_foldm)

lemma keeps_subst [keeps_rules]: "keeps core target_from_params" "keeps core (subst_event env rq d il)"
  unfolding target_from_params_def subst_event_def by (intro keeps_rules)+

lemma keeps_subst_waiter [keeps_rules]: "keeps core (subst_waiter env rq d il)"
  unfolding subst_waiter_def subst_register_def subst_unregister_def by (intro keeps_rules)

lemma core_uuid_swap [simp]: "se_vram (uuid_swap env p h s) = se_vram s" "se_pool (uuid_swap env p h s) = se_pool s"
  by (simp_all add: uuid_swap_def Let_def split: option.split)

lemma core_pool_push [simp]: "se_vram (pool_push c sl s) = se_vram s" "se_pool (pool_push c sl s) = se_pool s"
  by (simp_all add: pool_push_def)

lemma keeps_forward [keeps_rules]: "keeps core (forward env p)"
  unfolding forward_def by (intro keeps_rules; simp add: core_def)

lemma nofail_forward [nofail_rules]: "nofail (forward env p)"
  unfolding forward_def by (intro nofail_rules)

lemma keeps_fake_managed [keeps_rules]: "keeps core (fake_managed p)"
  unfolding fake_managed_def Let_def by (intro keeps_rules; simp add: core_def x_log_def)

lemma keeps_settle [keeps_rules]:
  "keeps core (control_ok p r)" "keeps core (settle_event env p r)" "keeps core (restore_tail p)" "keeps core (inline_prefix p)"
  "keeps core (vidheap_status_ok p frontend r)"
  unfolding control_ok_def settle_event_def restore_tail_def inline_prefix_def vidheap_status_ok_def Let_def
  by (intro keeps_rules; simp add: core_def)+

lemma nofail_settle [nofail_rules]:
  "nofail (control_ok p r)" "nofail (settle_event env p r)" "nofail (restore_tail p)" "nofail (inline_prefix p)"
  "nofail (vidheap_status_ok p frontend r)"
  unfolding control_ok_def settle_event_def restore_tail_def inline_prefix_def vidheap_status_ok_def Let_def
  by (intro nofail_rules)+

lemma keeps_settle_waiter [keeps_rules]: "keeps core (settle_waiter_reg p r)" "keeps core (settle_waiter_unreg p r)"
  unfolding settle_waiter_reg_def settle_waiter_unreg_def
  by (intro keeps_rules; simp add: core_def split: option.split)+

lemma nofail_settle_waiter [nofail_rules]: "nofail (settle_waiter_reg p r)" "nofail (settle_waiter_unreg p r)"
  unfolding settle_waiter_reg_def settle_waiter_unreg_def by (intro nofail_rules)+

lemma core_rewrites [simp]:
  "se_vram (rewrite_sizes p cmd status l s) = se_vram s" "se_pool (rewrite_sizes p cmd status l s) = se_pool s"
  "se_vram (rewrite_name env cmd status l s) = se_vram s" "se_pool (rewrite_name env cmd status l s) = se_pool s"
  "se_vram (rewrite_grid env cmd status l s) = se_vram s" "se_pool (rewrite_grid env cmd status l s) = se_pool s"
  "se_vram (snd (rewrite_pids cmd status l s)) = se_vram s" "se_pool (snd (rewrite_pids cmd status l s)) = se_pool s"
  by (simp_all add: rewrite_sizes_def rewrite_name_def rewrite_grid_def rewrite_pids_def aux_rewrite_def Let_def
      split: option.split prod.split)

lemma keeps_rewrite_control [keeps_rules]: "keeps core (rewrite_control env p frontend r)"
  unfolding rewrite_control_def by (intro keeps_rules; simp add: core_def split: prod.split; metis core_rewrites(7,8) snd_conv)

lemma nofail_rewrite [nofail_rules]: "nofail (rewrite_control env p frontend r)" "nofail (rewrite_vidheap p frontend r)"
  unfolding rewrite_control_def rewrite_vidheap_def by (intro nofail_rules)+

lemma keeps_rewrite_vidheap [keeps_rules]: "keeps core (rewrite_vidheap p frontend r)"
  unfolding rewrite_vidheap_def by (intro keeps_rules; simp add: core_def)

lemma keeps_after [keeps_rules]:
  "keeps core (note_client p frontend r)" "keeps core (label_client env p frontend r)" "keeps core (grant_dup env p frontend r)"
  "keeps core (log_reads env p frontend)" "keeps core (settle_outcome p)" "keeps core (ioctl_reply p r e)"
  unfolding note_client_def label_client_def grant_dup_def log_reads_def settle_outcome_def ioctl_reply_def client_control_def
  by (intro keeps_rules; simp add: core_def)+

section \<open>A message takes and settles\<close>

lemma tri_pure: "(P \<Longrightarrow> tri I c E J) \<Longrightarrow> tri (\<lambda>s. I s \<and> P) c E J"
  unfolding tri_def by blast

lemma tri_kbind: "keeps core c \<Longrightarrow> (\<And>a. tri (inworld w R A) (f a) (inworld w R A) J) \<Longrightarrow> tri (inworld w R A) (bindm c f) (inworld w R A) J"
  by (rule tri_bindm [OF tri_keeps])

lemma tri_kseq: "keeps core c \<Longrightarrow> tri (inworld w R A) d (inworld w R A) J \<Longrightarrow> tri (inworld w R A) (seqm c d) (inworld w R A) J"
  by (rule tri_seqm [OF tri_keeps])

lemma tri_nbind: "keeps core c \<Longrightarrow> nofail c \<Longrightarrow> (\<And>a. tri (inworld w R A) (f a) E J) \<Longrightarrow> tri (inworld w R A) (bindm c f) E J"
  by (rule tri_bindm [OF tri_keeps_nofail])

lemma tri_nseq: "keeps core c \<Longrightarrow> nofail c \<Longrightarrow> tri (inworld w R A) d E J \<Longrightarrow> tri (inworld w R A) (seqm c d) E J"
  by (rule tri_seqm [OF tri_keeps_nofail])

definition yields :: "'a sm \<Rightarrow> ('a \<Rightarrow> bool) \<Rightarrow> bool" where
  "yields c P \<longleftrightarrow> (\<forall>s a s'. c s = Some (Inr a, s') \<longrightarrow> P a)"

lemma yields_rules:
  "P a \<Longrightarrow> yields (ret a) P"
  "(\<And>x. yields (f x) P) \<Longrightarrow> yields (bindm c f) P"
  "yields d P \<Longrightarrow> yields (seqm c d) P"
  by (auto simp: yields_def ret_def bindm_def seqm_def split: option.splits sum.splits)

lemma tri_yields: "tri I c E J \<Longrightarrow> yields c P \<Longrightarrow> tri I c E (\<lambda>a s. J a s \<and> P a)"
  unfolding tri_def yields_def by (metis (no_types, lifting) sum.case_eq_if sum.collapse(2))

definition opt_list :: "'a option \<Rightarrow> 'a list" where
  "opt_list x = (case x of None \<Rightarrow> [] | Some a \<Rightarrow> [a])"

lemma opt_list_simps [simp]: "opt_list None = []" "opt_list (Some a) = [a]"
  by (simp_all add: opt_list_def)

lemma yields_kernel_form: "yields (osdesc_kernel_form env fd limit a) (\<lambda>od. od_arena od = Some a)"
  unfolding osdesc_kernel_form_def by (intro yields_rules) simp

lemma tri_kernel_form:
  "tri (inworld w R [a]) (osdesc_kernel_form env fd limit a) (inworld w R [a]) (\<lambda>od. inworld w R (opt_list (od_arena od)))"
  by (rule tri_weaken [OF tri_yields [OF tri_keeps yields_kernel_form]]) (auto intro: keeps_rules)

lemma tri_osdesc_runs:
  assumes "sv_henv env = wo_env w"
  shows "tri (inworld w [] []) (osdesc_runs env rq fd) (inworld w [] []) (\<lambda>od. inworld w [] (opt_list (od_arena od)))"
  unfolding osdesc_runs_def Let_def assms
  apply (rule tri_kseq, rule keeps_rules)
  apply (rule tri_kbind, rule keeps_rules, rule tri_kseq, rule keeps_rules)
  apply (rule tri_kbind, rule keeps_rules, rule tri_kseq, rule keeps_rules)
  apply (rule tri_cases(2), rule tri_fail, assumption)
  apply (rule tri_kbind, intro keeps_rules)
  apply (rule tri_cases(2), rule tri_fail, assumption)
  apply (rule tri_bindm [OF tri_arena])
  apply (rule tri_cases(4), rule tri_fail, simp)
  apply (rule tri_cases(3), rule tri_dropm [where E' = "inworld w [] [_]"])
   prefer 2 apply (rule inworld_arena_drop, assumption, rule assms)
  apply (simp only: sum.case prod.case)
  apply (rule tri_cases(1))
   apply (rule tri_kseq, rule keeps_rules, rule tri_kseq, rule keeps_rules, rule tri_kseq, rule keeps_rules)
   apply (rule tri_kernel_form)
  apply (rule tri_kseq, rule keeps_rules, rule tri_kseq, intro keeps_rules, simp add: core_def)
  apply (rule tri_ret, simp)
  done

abbreviation held :: "u64 \<Rightarrow> u64 list" where
  "held n \<equiv> (if n = 0 then [] else [n])"

lemma request_bytes_pos: "request_bytes c aux = Some n \<Longrightarrow> n \<noteq> 0" "vidheap_request_bytes b = Some n \<Longrightarrow> n \<noteq> 0"
  by (auto simp: request_bytes_def vidheap_request_bytes_def Let_def split: if_splits option.splits)

lemma tri_vram_reserve_for:
  "n \<noteq> 0 \<Longrightarrow> tri (inworld w [] A) (vram_reserve_for n off vh ask) E (\<lambda>v. inworld w (held (vq_reserved v)) A)"
  unfolding vram_reserve_for_def
  by (rule tri_bindm [OF tri_reserve], rule tri_ret) (simp add: taken_def split: if_splits)

lemma tri_vram_alloc:
  "tri (inworld w [] A) (vram_alloc rq d il) (inworld w [] A)
     (\<lambda>v s. inworld w (held (vq_reserved v)) A s \<and> (vq_reserved v \<noteq> 0 \<longrightarrow> \<not> is_uvm d \<and> rq_ioctl_nr rq = NV_ESC_RM_ALLOC))"
proof (cases "is_uvm d \<or> rq_ioctl_nr rq \<noteq> NV_ESC_RM_ALLOC")
  case False
  have none: "tri (inworld w [] A) (ret vram_none) E (\<lambda>v. inworld w (held (vq_reserved v)) A)" for E
    by (rule tri_ret) (simp add: vram_none_def)
  have "tri (inworld w [] A) (vram_alloc rq d il) (inworld w [] A) (\<lambda>v. inworld w (held (vq_reserved v)) A)"
    unfolding vram_alloc_def if_not_P [OF False]
    by (intro tri_cases(2) none tri_kbind keeps_rules tri_vram_reserve_for request_bytes_pos(1))
  then show ?thesis using False by (auto elim!: tri_weaken)
qed (auto simp: vram_alloc_def vram_none_def intro: tri_ret)

lemma tri_vram_vidheap:
  "tri (\<lambda>s. inworld w (held (vq_reserved v)) A s \<and> (vq_reserved v \<noteq> 0 \<longrightarrow> \<not> is_uvm d \<and> rq_ioctl_nr rq = NV_ESC_RM_ALLOC))
     (vram_vidheap rq d il v) (inworld w [] A)
     (\<lambda>v s. inworld w (held (vq_reserved v)) A s \<and> (vq_reserved v \<noteq> 0 \<longrightarrow> \<not> is_uvm d))"
proof (rule tri_pure, cases "is_uvm d \<or> rq_ioctl_nr rq \<noteq> NV_ESC_RM_VID_HEAP_CONTROL")
  case False
  assume *: "vq_reserved v \<noteq> 0 \<longrightarrow> \<not> is_uvm d \<and> rq_ioctl_nr rq = NV_ESC_RM_ALLOC"
  then have z: "vq_reserved v = 0" using False by (auto simp: NV_ESC_RM_ALLOC_def NV_ESC_RM_VID_HEAP_CONTROL_def)
  then have same: "tri (inworld w [] A) (ret v) E (\<lambda>v. inworld w (held (vq_reserved v)) A)" for E
    by (intro tri_ret) simp
  have "tri (inworld w [] A) (vram_vidheap rq d il v) (inworld w [] A) (\<lambda>v. inworld w (held (vq_reserved v)) A)"
    unfolding vram_vidheap_def if_not_P [OF False]
    by (intro tri_kbind tri_kseq keeps_rules tri_cases(2) same tri_vram_reserve_for request_bytes_pos(2))
  then show "tri (inworld w (held (vq_reserved v)) A) (vram_vidheap rq d il v) (inworld w [] A)
     (\<lambda>v s. inworld w (held (vq_reserved v)) A s \<and> (vq_reserved v \<noteq> 0 \<longrightarrow> \<not> is_uvm d))"
    using False z by (auto elim!: tri_weaken)
qed (auto simp: vram_vidheap_def intro: tri_ret)

text \<open>What a plan still has to settle.\<close>

definition owes :: "world \<Rightarrow> plan \<Rightarrow> st \<Rightarrow> bool" where
  "owes w p s \<longleftrightarrow> inworld w (held (pp_vram_reserved p)) (opt_list (pp_osdesc_arena p)) s \<and>
     (pp_action p = FakeManaged \<longrightarrow> pp_vram_reserved p = 0)"

lemma tri_prepare_rest:
  "tri (inworld w [] (opt_list (od_arena od))) (prepare_rest env rq d fd od) (inworld w [] (opt_list (od_arena od))) (owes w)"
  unfolding prepare_rest_def Let_def
  apply (rule tri_kbind, rule keeps_rules, rule tri_kseq, intro keeps_rules, rule tri_kseq, rule keeps_rules)
  apply (rule tri_kbind, rule keeps_rules, rule tri_kbind, rule keeps_rules, rule tri_kbind, rule keeps_rules)
  apply (rule tri_kbind, rule keeps_rules, rule tri_cases(3))
  apply (rule tri_bindm [OF tri_vram_alloc], rule tri_bindm [OF tri_vram_vidheap])
  apply (rule tri_ret)
  apply (auto simp: owes_def choose_action_def split: if_splits)
  done

lemma tri_prepare:
  assumes "sv_henv env = wo_env w"
  shows "tri (inworld w [] []) (prepare env rq payload) (inworld w [] []) (owes w)"
  unfolding prepare_def
  apply (rule tri_kbind, rule keeps_rules, rule tri_cases(3))
  apply (rule tri_kbind, rule keeps_rules, rule tri_kseq, rule keeps_rules, rule tri_kseq, intro keeps_rules)
  apply (rule tri_bindm [where M = "\<lambda>od. inworld w [] (opt_list (od_arena od))"])
   apply (rule tri_cases(1), rule tri_osdesc_runs [OF assms], rule tri_ret, simp)
  apply (rule tri_dropm [OF tri_prepare_rest])
  apply (auto split: option.split intro: inworld_arena_drop [OF _ assms])
  done

lemma inworld_close: "inworld w R A (s\<lparr> st_x := x_close fd (st_x s) \<rparr>) = inworld w R A s"
  by (simp add: inworld_def x_close_def x_log_def)

lemma inworld_plan_drop:
  assumes "inworld w R (opt_list (pp_osdesc_arena p)) s" "sv_henv env = wo_env w"
  shows "inworld w R [] (plan_drop env p s)"
proof -
  have "inworld w R [] (case pp_osdesc_arena p of None \<Rightarrow> s | Some a \<Rightarrow> arena_dropm env a s)"
    using assms by (auto split: option.split intro: inworld_arena_drop)
  then show ?thesis by (simp add: plan_drop_def Let_def inworld_close split: option.split)
qed

lemma tri_vram_refused: "tri (inworld w R A) (vram_refused p) E (\<lambda>_. inworld w R A)"
  unfolding vram_refused_def
  by (intro tri_nseq keeps_rules nofail_rules tri_cases(2) tri_ret tri_count_refusal)

lemma tri_run_action:
  assumes "sv_henv env = wo_env w"
  shows "tri (owes w p) (run_action env p) (inworld w [] [])
    (\<lambda>_. inworld w (held (pp_vram_reserved p)) (opt_list (pp_osdesc_arena p)))"
proof -
  let ?I = "inworld w (held (pp_vram_reserved p)) (opt_list (pp_osdesc_arena p))"
  have swap: "tri ?I (seqm (se_mod (uuid_swap env p False)) (ret res)) (inworld w [] []) (\<lambda>_. ?I)" for res :: "i32 \<times> i32"
    by (rule tri_nseq, intro keeps_rules, simp add: core_def, intro nofail_rules, rule tri_ret)
  have managed: "tri ?I (dropm (plan_drop env p) (seqm (fake_managed p) (ret (0, 0)))) (inworld w [] []) (\<lambda>_. ?I)"
    if "pp_vram_reserved p = 0"
    by (rule tri_dropm [where E' = ?I], intro tri_kseq keeps_rules tri_ret, assumption)
      (use that inworld_plan_drop [OF _ assms] in auto)
  show ?thesis unfolding owes_def
  proof (rule tri_pure)
    assume *: "pp_action p = FakeManaged \<longrightarrow> pp_vram_reserved p = 0"
    show "tri ?I (run_action env p) (inworld w [] []) (\<lambda>_. ?I)"
      unfolding run_action_def
    proof (rule tri_bindm [OF _ swap])
      show "tri ?I (case pp_action p of
          FakeVramFull \<Rightarrow> seqm (vram_refused p) (ret (0, 0))
        | FakeSemaphorePool \<Rightarrow>
            seqm (if SEMAPHORE_POOL_RMSTATUS_OFF + 4 \<le> pp_inline_len p
               then scr_wr32 SEMAPHORE_POOL_RMSTATUS_OFF NV_OK else ret ()) (ret (0, 0))
        | FakeManaged \<Rightarrow> dropm (plan_drop env p) (seqm (fake_managed p) (ret (0, 0)))
        | Forward \<Rightarrow> forward env p) (inworld w [] []) (\<lambda>_. ?I)"
        using * managed
        by (cases "pp_action p")
          (auto intro!: tri_keeps_nofail keeps_rules nofail_rules tri_seqm [OF tri_vram_refused] tri_ret)
    qed
  qed
qed

lemma tri_settle_osdesc:
  assumes "sv_henv env = wo_env w"
  shows "tri (inworld w R (opt_list (pp_osdesc_arena p))) (settle_osdesc env p r) E (\<lambda>_. inworld w R [])"
proof (cases "pp_osdesc_arena p")
  case None
  then show ?thesis by (auto simp: settle_osdesc_def intro: tri_ret)
next
  case (Some a)
  then show ?thesis unfolding settle_osdesc_def
    by simp (intro tri_nbind tri_cases(1) keeps_rules nofail_rules tri_keep tri_modm inworld_arena_drop assms)
qed

lemma tri_settle_plan:
  assumes "sv_henv env = wo_env w"
  shows "tri (inworld w R (opt_list (pp_osdesc_arena p))) (settle_plan env p r) E (\<lambda>_. inworld w R [])"
  unfolding settle_plan_def
  by (rule tri_seqm [OF tri_settle_osdesc [OF assms]], rule tri_keeps_nofail) (intro keeps_rules nofail_rules)+

lemma tri_settle_vram: "tri (inworld w (held (pp_vram_reserved p)) A) (settle_vram p r) E (\<lambda>_. inworld w [] A)"
proof (cases "pp_vram_reserved p = 0")
  case True
  then show ?thesis by (auto simp: settle_vram_def intro: tri_ret)
next
  case False
  have settle: "tri (inworld w [pp_vram_reserved p] A)
     (on_books (\<lambda>l b. case settle l b ok out \<lparr> ch_token = t, ch_root = root, ch_parent = parent,
        ch_handle = h, ch_bytes = pp_vram_reserved p \<rparr> of (l', b') \<Rightarrow> ((), l', b'))) E (\<lambda>_. inworld w [] A)"
    for ok out t root parent h
    using tri_settle [where c = "\<lparr> ch_token = t, ch_root = root, ch_parent = parent, ch_handle = h, ch_bytes = pp_vram_reserved p \<rparr>"]
    by simp
  have nf: "nofail (settle_outcome p)" unfolding settle_outcome_def by (intro nofail_rules)
  show ?thesis unfolding settle_vram_def Let_def if_not_P [OF False]
    apply (rule tri_nbind, rule keeps_rules, rule nofail_rules, rule tri_nbind, rule keeps_rules, rule nf)
    apply (rule tri_cases(3), rule tri_nbind, rule keeps_rules, rule nofail_rules)
    apply (rule tri_nbind, rule keeps_rules, rule nofail_rules)
    apply (rule tri_seqm [OF _ settle], intro tri_cases(2) tri_ret tri_note_placement, assumption)
    done
qed

lemma tri_release_client:
  "tri (inworld w R A) (stepm (\<lambda>s. case release_client c (st_se s) (xh_host (st_x s)) of
     (se, H) \<Rightarrow> ((), s\<lparr> st_se := se, st_x := (st_x s)\<lparr> xh_host := H \<rparr> \<rparr>))) E (\<lambda>_. inworld w R A)"
  by (rule tri_stepm) (auto split: prod.split intro: inworld_release_client)

lemma tri_close_clients:
  "tri (inworld w R A) (stepm (\<lambda>s. case close_clients_of_token t (st_se s) (xh_host (st_x s)) of
     (se, H) \<Rightarrow> ((), s\<lparr> st_se := se, st_x := (st_x s)\<lparr> xh_host := H \<rparr> \<rparr>))) E (\<lambda>_. inworld w R A)"
  by (rule tri_stepm) (auto simp: close_clients_of_token_def split: prod.split intro: inworld_release_clients)

lemma tri_after_uvm_free:
  assumes "sv_henv env = wo_env w"
  shows "tri (inworld w R A) (after_uvm_free env p r) (inworld w R A) (\<lambda>_. inworld w R A)"
  unfolding after_uvm_free_def assms
  by (intro tri_cases(1) tri_kbind keeps_rules tri_ret tri_seqm [OF tri_release_range])

lemma tri_free_vidheap: "tri (inworld w R A) (free_vidheap p frontend r) (inworld w R A) (\<lambda>_. inworld w R A)"
  unfolding free_vidheap_def by (intro tri_cases(1) tri_kbind keeps_rules tri_ret tri_free_object)

lemma tri_after_rm_free: "tri (inworld w R A) (after_rm_free env p frontend r) (inworld w R A) (\<lambda>_. inworld w R A)"
  unfolding after_rm_free_def
  apply (rule tri_cases(1)[rotated], rule tri_ret, assumption)
  apply (rule tri_kbind, rule keeps_rules, rule tri_cases(1), rule tri_ret, assumption)
  apply (rule tri_kbind, rule keeps_rules, rule tri_kbind, rule keeps_rules)
  apply (rule tri_seqm [OF tri_drop_osdesc], rule tri_seqm [OF tri_free_object])
  apply (rule tri_cases(1), rule tri_release_client, rule tri_keeps, intro keeps_rules, simp add: core_def)
  done

lemma tri_books_after:
  assumes "sv_henv env = wo_env w"
  shows "tri (inworld w (held (pp_vram_reserved p)) []) (books_after env p frontend r) (inworld w [] []) (\<lambda>_. inworld w [] [])"
  unfolding books_after_def
  apply (rule tri_nseq, rule keeps_rules, rule nofail_rules)
  apply (rule tri_seqm [OF tri_settle_vram], rule tri_seqm [OF tri_after_uvm_free [OF assms]])
  apply (rule tri_seqm [OF tri_free_vidheap], rule tri_kseq, rule keeps_rules)
  apply (rule tri_seqm [OF tri_after_rm_free], rule tri_keeps, intro keeps_rules)
  done

lemma tri_execute:
  assumes "sv_henv env = wo_env w"
  shows "tri (owes w p) (execute env p) (inworld w [] []) (\<lambda>_. inworld w [] [])"
  unfolding execute_def Let_def
  apply (rule tri_bindm [OF tri_run_action [OF assms]], rule tri_cases(3))
  apply (rule tri_seqm [OF tri_settle_plan [OF assms]])
  apply (rule tri_nbind, rule keeps_rules, rule nofail_rules)
  apply (rule tri_seqm [OF tri_books_after [OF assms]], rule tri_keeps, intro keeps_rules)
  done

lemma tri_on_open: "tri (inworld w [] []) (on_open env rq payload) (inworld w [] []) (\<lambda>_. inworld w [] [])"
proof -
  have "tri (inworld w [] []) (adopt_identity rq payload) (inworld w [] []) (\<lambda>_. inworld w [] [])"
    unfolding adopt_identity_def
    by (intro tri_kbind tri_kseq tri_cases(1,2) keeps_rules tri_ret tri_announce; simp add: core_def)
  then show ?thesis unfolding on_open_def
    by (rule tri_seqm) (rule tri_keeps, intro keeps_rules)
qed

lemma tri_on_close:
  assumes "sv_henv env = wo_env w"
  shows "tri (inworld w [] []) (on_close env rq) (inworld w [] []) (\<lambda>_. inworld w [] [])"
  unfolding on_close_def assms
  apply (rule tri_seqm [OF tri_close_uvm], rule tri_kbind, rule keeps_rules)
  apply (rule tri_kseq, intro keeps_rules, simp add: core_def, rule tri_kseq, intro keeps_rules)
  apply (rule tri_seqm [OF tri_close_token], rule tri_seqm [OF tri_close_clients], rule tri_ret, assumption)
  done

lemma tri_on_uvm_pool_back:
  assumes "sv_henv env = wo_env w"
  shows "tri (inworld w [] []) (on_uvm_pool_back env rq payload) (inworld w [] []) (\<lambda>_. inworld w [] [])"
  unfolding on_uvm_pool_back_def assms
  apply (rule tri_kbind, rule keeps_rules, rule tri_kseq, rule keeps_rules, rule tri_kbind, rule keeps_rules)
  apply (rule tri_kseq, rule keeps_rules, rule tri_kbind, rule keeps_rules)
  apply (rule tri_cases(2), rule tri_fail, assumption, rule tri_cases(2), rule tri_fail, assumption)
  apply (rule tri_bindm [OF tri_back_pool], rule tri_keeps, intro keeps_rules)
  done

lemma tri_dispatch:
  assumes "sv_henv env = wo_env w"
  shows "tri (inworld w [] []) (dispatch env rq payload) (inworld w [] []) (\<lambda>_. inworld w [] [])"
proof -
  have "keeps core (on_hello rq)" "keeps core (on_map_prepare rq)"
    unfolding on_hello_def on_map_prepare_def by (intro keeps_rules; simp add: core_def)+
  then show ?thesis unfolding dispatch_def on_ioctl_def
    by (auto split: option.split wire_kind.split intro: tri_keeps tri_fail tri_on_open tri_on_close assms
        tri_on_uvm_pool_back tri_bindm [OF tri_prepare tri_execute])
qed

lemma handle_msg_inworld:
  assumes "inworld w [] [] s" "sv_henv env = wo_env w" "handle_msg_with env msg afd ffd s = Some (r, s')"
  shows "inworld w [] [] s'"
proof -
  have "tri (inworld w [] []) (answering sq (dispatch env rq payload)) (inworld w [] []) (\<lambda>_. inworld w [] [])" for sq rq payload
    using tri_dispatch [OF assms(2), of rq payload]
    unfolding tri_def answering_def by (fastforce split: option.splits sum.splits prod.splits)
  then have "tri (inworld w [] []) (handle_msg_with env msg afd ffd) (inworld w [] []) (\<lambda>_. inworld w [] [])"
    unfolding handle_msg_with_def
    by (auto intro!: tri_kseq keeps_rules tri_cases(2) tri_ret tri_bindm simp: core_def)
  then show ?thesis using assms(1,3) unfolding tri_def by (fastforce split: sum.splits)
qed

end
