(* ===== verification/Device.thy ===== *)
theory Device
  imports Refines Replies
begin

text \<open>
  \<^verbatim>\<open>crates/vhost-user-nvrm/src/nvrm.rs\<close>: the virtio device of one VM.  It owns the sessions of the
  guest's processes, the window of mappings the VMM has blended in, the poll set for host
  events and the waiter poller; requests arrive on queue 0, events leave on queue 1.

  The surroundings are the parameter \<^verbatim>\<open>denv\<close>: the VMM behind the backend channel, epoll, the queues
  and the waiter thread, which polls whenever it likes between two commands.  What the device asks
  of them is kept in \<^verbatim>\<open>dv_log\<close>.  A \<^verbatim>\<open>BTreeMap\<close> whose order matters is an association list sorted by
  its keys; the log lines, the counters only they read and the descriptor census are left out.
\<close>

section \<open>State\<close>

abbreviation (input) SHM_ID_HOST_VISIBLE :: u8 where "SHM_ID_HOST_VISIBLE \<equiv> 1"
definition HOST_VISIBLE_SIZE :: u64 where "HOST_VISIBLE_SIZE = 0x200000000"
abbreviation (input) MAP_CACHE_CACHED :: u32 where "MAP_CACHE_CACHED \<equiv> 1"
abbreviation (input) MAP_CACHE_UNCACHED :: u32 where "MAP_CACHE_UNCACHED \<equiv> 2"
abbreviation (input) EVENT_LISTENER :: u16 where "EVENT_LISTENER \<equiv> 3"

definition shmem_config :: "u32 \<times> u64 list" where
  "shmem_config = (1, (replicate (unat SHM_ID_HOST_VISIBLE + 1) 0)[unat SHM_ID_HOST_VISIBLE := HOST_VISIBLE_SIZE])"

record shmem_req =
  sm_shmid :: u8
  sm_fd_offset :: u64
  sm_shm_offset :: u64
  sm_len :: u64
  sm_writable :: bool

definition window_request :: "u64 \<Rightarrow> u64 \<Rightarrow> bool \<Rightarrow> shmem_req" where
  "window_request shm_offset len writable =
    \<lparr> sm_shmid = SHM_ID_HOST_VISIBLE, sm_fd_offset = 0, sm_shm_offset = shm_offset, sm_len = len,
      sm_writable = writable \<rparr>"

definition cache_for :: "dev \<Rightarrow> u32" where
  "cache_for d = (case d of Gpu \<Rightarrow> MAP_CACHE_UNCACHED | _ \<Rightarrow> MAP_CACHE_CACHED)"

record window_map =
  wm_len :: u64
  wm_guest_proc :: u32
  wm_fd :: i32

datatype poll_src =
    PsEventCtl u32 u32 i32
  | PsClient u32 u64 i32
  | PsWaiterNotify

type_synonym poll_key = "u32 \<times> u64 \<times> u32"

datatype dev_call =
    DcMap shmem_req i32 bool
  | DcUnmap shmem_req bool
  | DcProbe i32 u64
  | DcAdd i32 u64 bool
  | DcDel i32 u64
  | DcWait
  | DcEvent req
  | DcReset

record device =
  dv_mem :: bool
  dv_sessions :: "(u32 \<times> sess) list"
  dv_tables :: bytes
  dv_backend :: bool
  dv_window :: "(u64 \<times> window_map) list"
  dv_poll_srcs :: "(u64 \<times> poll_src) list"
  dv_poll_ids :: "(poll_key \<times> u64) list"
  dv_next_poll_id :: u64
  dv_ev_seq :: u32
  dv_ev_delivered :: u64
  dv_ev_wakes :: u64
  dv_ev_dropped_noslot :: u64
  dv_ev_dropped_noqueue :: u64
  dv_waiters :: wstate
  dv_event_error :: bool
  dv_oob_fired :: bool
  dv_x :: xhost
  dv_log :: "dev_call list"

text \<open>The buffer the guest posted on the event queue, as \<^verbatim>\<open>push_event\<close> finds it.\<close>

datatype event_slot =
    NotEnabled
  | NoChain
  | BadChain
  | InBuf nat bool bool

datatype poll_wait = PwInterrupted | PwFailed | PwReady "(u64 \<times> bool) list"

record denv =
  dn_epoll_add :: "device \<Rightarrow> i32 \<Rightarrow> u64 \<Rightarrow> bool"
  dn_wait :: "device \<Rightarrow> poll_wait"
  dn_shmem_map :: "device \<Rightarrow> shmem_req \<Rightarrow> i32 \<Rightarrow> bool"
  dn_shmem_unmap :: "device \<Rightarrow> shmem_req \<Rightarrow> bool"
  dn_probe :: "device \<Rightarrow> i32 \<Rightarrow> u64 \<Rightarrow> int option"
  dn_polls :: "device \<Rightarrow> wevent list"
  dn_pace :: "nat option"
  dn_slot :: "device \<Rightarrow> event_slot"
  dn_signal :: "device \<Rightarrow> bool"
  dn_test_oob :: bool

type_synonym 'a dm = "(device, int, 'a) em"

abbreviation dv_mod :: "(device \<Rightarrow> device) \<Rightarrow> unit dm" where "dv_mod f \<equiv> modm f"

definition dv_call :: "dev_call \<Rightarrow> device \<Rightarrow> device" where
  "dv_call c d = d\<lparr> dv_log := c # dv_log d \<rparr>"

definition device_new :: "profile \<Rightarrow> pin_budget \<Rightarrow> bytes \<Rightarrow> device" where
  "device_new p B tables = \<lparr>
     dv_mem = False, dv_sessions = [], dv_tables = tables, dv_backend = False, dv_window = [],
     dv_poll_srcs = [], dv_poll_ids = [], dv_next_poll_id = 1, dv_ev_seq = 0, dv_ev_delivered = 0,
     dv_ev_wakes = 0, dv_ev_dropped_noslot = 0, dv_ev_dropped_noqueue = 0, dv_waiters = waiters_start,
     dv_event_error = False, dv_oob_fired = False,
     dv_x = \<lparr> xh_host = \<lparr> ho_budget = B, ho_hist = [] \<rparr>, xh_ledger = ledger_with_profile p,
               xh_calls = [], xh_open = [] \<rparr>,
     dv_log = [] \<rparr>"

section \<open>The window\<close>

fun bt_insert :: "u64 \<Rightarrow> 'v \<Rightarrow> (u64 \<times> 'v) list \<Rightarrow> (u64 \<times> 'v) list" where
  "bt_insert k v [] = [(k, v)]"
| "bt_insert k v ((k', v') # m) =
    (if k < k' then (k, v) # (k', v') # m else if k = k' then (k, v) # m else (k', v') # bt_insert k v m)"

definition window_of_proc :: "(u64 \<times> window_map) list \<Rightarrow> u32 \<Rightarrow> u64 list" where
  "window_of_proc w guest_proc = map fst (filter (\<lambda>(_, m). wm_guest_proc m = guest_proc) w)"

text \<open>\<^verbatim>\<open>range(..off + len).next_back()\<close> is the last entry before the end of the query.\<close>

definition window_overlaps :: "(u64 \<times> window_map) list \<Rightarrow> u64 \<Rightarrow> u64 \<Rightarrow> bool" where
  "window_overlaps w off len =
    (case filter (\<lambda>(o1, _). o1 < off + len) w of
       [] \<Rightarrow> False
     | e # es \<Rightarrow> (case last (e # es) of (o1, m) \<Rightarrow> off < o1 + wm_len m))"

definition x_mod :: "(xhost \<Rightarrow> xhost) \<Rightarrow> device \<Rightarrow> device" where
  "x_mod f d = d\<lparr> dv_x := f (dv_x d) \<rparr>"

definition release_window :: "denv \<Rightarrow> u64 \<Rightarrow> bool dm" where
  "release_window dn off = stepm (\<lambda>d.
     if \<not> dv_backend d then (False, d)
     else case map_of (dv_window d) off of
       None \<Rightarrow> (True, d)
     | Some e \<Rightarrow>
         let rq = window_request off (wm_len e) False; ok = dn_shmem_unmap dn d rq; d' = dv_call (DcUnmap rq ok) d in
         if ok then (True, x_mod (x_close (wm_fd e)) (d'\<lparr> dv_window := AList.delete off (dv_window d') \<rparr>))
         else (False, d'))"

text \<open>Every mapping is tried; \<^verbatim>\<open>False\<close> when one of them failed.\<close>

definition release_window_of :: "denv \<Rightarrow> u32 \<Rightarrow> bool dm" where
  "release_window_of dn guest_proc =
    bindm (getm (\<lambda>d. window_of_proc (dv_window d) guest_proc)) (\<lambda>offs.
    foldm (\<lambda>off ok. bindm (release_window dn off) (\<lambda>r. ret (ok \<and> r))) offs True)"

section \<open>The waiter poller\<close>

fun is_wpoll :: "wevent \<Rightarrow> bool" where
  "is_wpoll (WPoll a b c) = True"
| "is_wpoll (WPollErr i) = True"
| "is_wpoll (WCommand c) = False"
| "is_wpoll WTake = False"

definition waiters_settle :: "denv \<Rightarrow> device \<Rightarrow> wstate" where
  "waiters_settle dn d = snd (snd (wrun (dn_pace dn) (filter is_wpoll (dn_polls dn d)) (dv_waiters d)))"

definition waiter_request :: "denv \<Rightarrow> operation \<Rightarrow> bool dm" where
  "waiter_request dn op = stepm (\<lambda>d.
     let w = waiters_settle dn d in
     if \<not> ws_running w then (False, d\<lparr> dv_waiters := w \<rparr>)
     else case waiter_command op w of (r, w') \<Rightarrow> (r = Inr (), d\<lparr> dv_waiters := w' \<rparr>))"

definition waiters_cancel :: "denv \<Rightarrow> u32 \<Rightarrow> u32 list \<Rightarrow> bool dm" where
  "waiters_cancel dn guest_proc ids =
    (if ids = [] then ret True else waiter_request dn (OpCancelSlots guest_proc ids))"

definition waiters_take :: "denv \<Rightarrow> fired list dm" where
  "waiters_take dn =
    bindm (stepm (\<lambda>d. case take_fired (waiters_settle dn d) of (r, w) \<Rightarrow> (r, d\<lparr> dv_waiters := w \<rparr>))) (\<lambda>r.
    case r of Inl _ \<Rightarrow> fail EIO | Inr fs \<Rightarrow> ret fs)"

section \<open>The poll set\<close>

definition take_poll_id :: "u64 dm" where
  "take_poll_id = stepm (\<lambda>d. (dv_next_poll_id d, d\<lparr> dv_next_poll_id := dv_next_poll_id d + 1 \<rparr>))"

definition epoll_add :: "denv \<Rightarrow> i32 \<Rightarrow> u64 \<Rightarrow> bool dm" where
  "epoll_add dn fd pid = stepm (\<lambda>d. let ok = dn_epoll_add dn d fd pid in (ok, dv_call (DcAdd fd pid ok) d))"

definition register_waiter_notify :: "denv \<Rightarrow> i32 \<Rightarrow> unit dm" where
  "register_waiter_notify dn fd =
    bindm take_poll_id (\<lambda>pid.
    bindm (epoll_add dn fd pid) (\<lambda>ok.
    if ok then dv_mod (\<lambda>d. d\<lparr> dv_poll_srcs := AList.update pid PsWaiterNotify (dv_poll_srcs d) \<rparr>)
    else fail EIO))"

definition poll_key :: "u32 \<Rightarrow> pollable \<Rightarrow> poll_key option" where
  "poll_key guest_proc p =
    (case p of
       PollEventCtl h_client _ \<Rightarrow> Some (guest_proc, NONE_U64, h_client)
     | PollClient token _ owner \<Rightarrow> Some ((case owner of Some g \<Rightarrow> g | None \<Rightarrow> guest_proc), token, 0)
     | PollWaiter _ _ \<Rightarrow> None)"

definition poll_entry :: "u32 \<Rightarrow> pollable \<Rightarrow> (i32 \<times> poll_src) option" where
  "poll_entry guest_proc p =
    (case p of
       PollEventCtl h_client fd \<Rightarrow> Some (fd, PsEventCtl guest_proc h_client fd)
     | PollClient token fd owner \<Rightarrow> Some (fd, PsClient (case owner of Some g \<Rightarrow> g | None \<Rightarrow> guest_proc) token fd)
     | PollWaiter _ _ \<Rightarrow> None)"

definition register_pollable :: "denv \<Rightarrow> u32 \<Rightarrow> pollable \<Rightarrow> unit dm" where
  "register_pollable dn guest_proc p =
    (case (poll_key guest_proc p, poll_entry guest_proc p) of
       (Some key, Some (fd, src)) \<Rightarrow>
         bindm (getm (\<lambda>d. map_of (dv_poll_ids d) key)) (\<lambda>have.
         if have \<noteq> None then ret ()
         else
           bindm take_poll_id (\<lambda>pid.
           bindm (epoll_add dn fd pid) (\<lambda>ok.
           if ok then dv_mod (\<lambda>d. d\<lparr> dv_poll_srcs := AList.update pid src (dv_poll_srcs d),
                                    dv_poll_ids := AList.update key pid (dv_poll_ids d) \<rparr>)
           else ret ())))
     | _ \<Rightarrow> panic)"

fun register_pollables :: "denv \<Rightarrow> u32 \<Rightarrow> pollable list \<Rightarrow> bool dm" where
  "register_pollables dn guest_proc [] = ret True"
| "register_pollables dn guest_proc (p # ps) =
    (case p of
       PollWaiter r fd \<Rightarrow>
         bindm (waiter_request dn (OpWatch \<lparr> wa_fired = \<lparr> fi_guest_proc = guest_proc, fi_registration = r \<rparr>, wa_fd = fd \<rparr>)) (\<lambda>ok.
         if ok then register_pollables dn guest_proc ps else ret False)
     | _ \<Rightarrow> seqm (register_pollable dn guest_proc p) (register_pollables dn guest_proc ps))"

definition src_key :: "poll_src \<Rightarrow> (poll_key \<times> i32) option" where
  "src_key src =
    (case src of
       PsEventCtl g h_client fd \<Rightarrow> Some ((g, NONE_U64, h_client), fd)
     | PsClient g token fd \<Rightarrow> Some ((g, token, 0), fd)
     | PsWaiterNotify \<Rightarrow> None)"

definition unregister_id :: "u64 \<Rightarrow> i32 option \<Rightarrow> device \<Rightarrow> device" where
  "unregister_id pid fd_hint d =
    (case map_of (dv_poll_srcs d) pid of
       None \<Rightarrow> d
     | Some src \<Rightarrow>
         (let d1 = d\<lparr> dv_poll_srcs := AList.delete pid (dv_poll_srcs d) \<rparr> in
          case src_key src of
            None \<Rightarrow> d1
          | Some (key, fd) \<Rightarrow>
              dv_call (DcDel (case fd_hint of Some f \<Rightarrow> f | None \<Rightarrow> fd) pid)
                (d1\<lparr> dv_poll_ids := AList.delete key (dv_poll_ids d1) \<rparr>)))"

definition resolve_fd :: "device \<Rightarrow> u32 \<Rightarrow> u64 \<Rightarrow> i32 option" where
  "resolve_fd d guest_proc token =
    (case map_of (dv_sessions d) guest_proc of None \<Rightarrow> None | Some s \<Rightarrow> mirror_raw (se_mirror s) token)"

definition unregister_token :: "u32 \<Rightarrow> u64 \<Rightarrow> device \<Rightarrow> device" where
  "unregister_token guest_proc token d =
    (case map_of (dv_poll_ids d) (guest_proc, token, 0) of
       None \<Rightarrow> d
     | Some pid \<Rightarrow> unregister_id pid (resolve_fd d guest_proc token) d)"

definition unregister_event_ctl :: "u32 \<Rightarrow> u32 \<Rightarrow> device \<Rightarrow> device" where
  "unregister_event_ctl guest_proc h_client d =
    (case map_of (dv_poll_ids d) (guest_proc, NONE_U64, h_client) of
       None \<Rightarrow> d
     | Some pid \<Rightarrow> unregister_id pid None d)"

definition src_proc :: "poll_src \<Rightarrow> u32 option" where
  "src_proc src = (case src of PsEventCtl g _ _ \<Rightarrow> Some g | PsClient g _ _ \<Rightarrow> Some g | PsWaiterNotify \<Rightarrow> None)"

definition proc_src_fd :: "device \<Rightarrow> u32 \<Rightarrow> u64 \<Rightarrow> i32 option" where
  "proc_src_fd d guest_proc pid =
    (case map_of (dv_poll_srcs d) pid of
       Some (PsClient _ token _) \<Rightarrow> resolve_fd d guest_proc token
     | _ \<Rightarrow> None)"

definition unregister_proc :: "denv \<Rightarrow> u32 \<Rightarrow> bool dm" where
  "unregister_proc dn guest_proc =
    bindm (waiter_request dn (OpCancelProcess guest_proc)) (\<lambda>ok.
    if \<not> ok then ret False
    else seqm (dv_mod (\<lambda>d.
           fold (\<lambda>pid d. unregister_id pid (proc_src_fd d guest_proc pid) d)
             (map fst (filter (\<lambda>(_, src). src_proc src = Some guest_proc) (dv_poll_srcs d))) d))
         (ret True))"

section \<open>Sessions\<close>

definition MAX_SESSIONS :: nat where "MAX_SESSIONS = 1024"

text \<open>\<^verbatim>\<open>None\<close> inside is the panic of \<^verbatim>\<open>unwrap\<close> on a session that is not there.\<close>

definition in_session :: "u32 \<Rightarrow> 'a sm \<Rightarrow> 'a dm" where
  "in_session k c d =
    (case map_of (dv_sessions d) k of
       None \<Rightarrow> None
     | Some se \<Rightarrow>
         (case c \<lparr> st_se = se, st_x = dv_x d \<rparr> of
            None \<Rightarrow> None
          | Some (r, s) \<Rightarrow> Some (r, d\<lparr> dv_sessions := AList.update k (st_se s) (dv_sessions d), dv_x := st_x s \<rparr>)))"

definition session_for :: "u32 \<Rightarrow> bool dm" where
  "session_for sub_id = stepm (\<lambda>d.
     if map_of (dv_sessions d) sub_id \<noteq> None then (True, d)
     else if MAX_SESSIONS \<le> length (dv_sessions d) then (False, d)
     else (True, d\<lparr> dv_sessions := AList.update sub_id (detached_proc sub_id) (dv_sessions d) \<rparr>))"

definition set_guest_mem :: "u32 \<Rightarrow> unit dm" where
  "set_guest_mem k = bindm (getm dv_mem) (\<lambda>mem. in_session k (se_mod (\<lambda>s. s\<lparr> se_mem := mem \<rparr>)))"

text \<open>The destructor: the fields in the order of the declaration.\<close>

definition session_drop :: "henv \<Rightarrow> sess \<Rightarrow> xhost \<Rightarrow> xhost" where
  "session_drop env s x =
    (let x1 = fold x_close (map (me_fd \<circ> snd) (mi_map (se_mirror s))) x;
         x2 = x1\<lparr> xh_host := pool_state_drop env (se_pool s) (xh_host x1) \<rparr>;
         x3 = x2\<lparr> xh_ledger := books_drop (xh_ledger x2) (se_vram s) \<rparr> in
     fold x_close (map snd (se_event_ctls s) @ map sl_ctl (pooled_slots s) @ map (sl_ctl \<circ> aw_slot \<circ> snd) (se_waiters s) @
       map (sl_ctl \<circ> wr_slot) (se_pending_unwatch s) @ map snd (se_pending_ctl_unwatch s) @
       (case se_osdesc_gpu s of None \<Rightarrow> [] | Some fd \<Rightarrow> [fd])) x3)"

definition err_rsp :: "u32 \<Rightarrow> int \<Rightarrow> bytes" where
  "err_rsp sq e = rsp_as_bytes (rsp_default\<lparr> rs_seq := sq, rs_ret := - of_int e \<rparr>)"

definition done_rsp :: "u32 \<Rightarrow> u64 \<Rightarrow> bytes" where
  "done_rsp sq token = rsp_as_bytes (rsp_default\<lparr> rs_seq := sq, rs_token := token \<rparr>)"

definition event_failed :: "unit dm" where
  "event_failed = dv_mod (\<lambda>d. d\<lparr> dv_event_error := True \<rparr>)"

definition on_proc_gone :: "senv \<Rightarrow> denv \<Rightarrow> req \<Rightarrow> bytes dm" where
  "on_proc_gone env dn rq =
    seqm (refuse (rq_guest_proc rq = 0) EINVAL)
    (bindm (unregister_proc dn (rq_guest_proc rq)) (\<lambda>ok.
     if \<not> ok then seqm event_failed (fail EIO)
     else
       bindm (release_window_of dn (rq_guest_proc rq)) (\<lambda>released.
       seqm (refuse (\<not> released) EIO)
       (seqm (dv_mod (\<lambda>d. case map_of (dv_sessions d) (rq_guest_proc rq) of
            None \<Rightarrow> d
          | Some s \<Rightarrow> x_mod (session_drop (sv_henv env) s)
              (d\<lparr> dv_sessions := AList.delete (rq_guest_proc rq) (dv_sessions d) \<rparr>)))
       (seqm (dv_mod (x_mod (\<lambda>x. x\<lparr> xh_host := budget_retry_cleanup (sv_henv env) (xh_host x) \<rparr>)))
       (ret (done_rsp (rq_seq rq) 0)))))))"

section \<open>Requests\<close>

definition on_get_tables :: "req \<Rightarrow> bytes dm" where
  "on_get_tables rq =
    bindm (getm dv_tables) (\<lambda>tables.
    let total = (word_of_nat (length tables) :: u64); off = rq_addr rq in
    seqm (refuse (total < off) EINVAL)
    (let want = max (min (rq_map_len rq) (word_of_nat MAX_PAYLOAD)) 1; e = min (off + want) total in
     seqm (assertm (off \<le> e \<and> unat e \<le> length tables))
     (let chunk = subslice (unat off) (unat e - unat off) tables in
      ret (rsp_as_bytes (rsp_default\<lparr> rs_seq := rq_seq rq, rs_token := total,
             rs_inline_len := word_of_nat (length chunk) \<rparr>) @ chunk))))"

text \<open>The mapping is validated here; on every refusal the duplicated descriptor is closed.\<close>

definition place_mapping :: "denv \<Rightarrow> u32 \<Rightarrow> u64 \<Rightarrow> i32 \<Rightarrow> u64 \<Rightarrow> unit dm" where
  "place_mapping dn guest_proc off fd len =
    bindm (getm dv_backend) (\<lambda>backend.
    seqm (refuse (\<not> backend) EIO)
    (seqm (refuse (off mod 4096 \<noteq> 0 \<or> len mod 4096 \<noteq> 0 \<or>
                   (case checked_add off len of None \<Rightarrow> True | Some e \<Rightarrow> HOST_VISIBLE_SIZE < e)) EINVAL)
    (bindm (getm (\<lambda>d. window_overlaps (dv_window d) off len)) (\<lambda>overlaps.
     seqm (refuse overlaps EBUSY)
     (bindm (stepm (\<lambda>d. (dn_probe dn d fd len, dv_call (DcProbe fd len) d))) (\<lambda>probe.
      case probe of
        Some e \<Rightarrow> fail e
      | None \<Rightarrow>
          bindm (getm (\<lambda>d. dn_test_oob dn \<and> \<not> dv_oob_fired d)) (\<lambda>oob.
          seqm (dv_mod (\<lambda>d. d\<lparr> dv_oob_fired := dv_oob_fired d \<or> dn_test_oob dn \<rparr>))
          (bindm (stepm (\<lambda>d. let rq = window_request (if oob then HOST_VISIBLE_SIZE else off) len True;
                                 ok = dn_shmem_map dn d rq fd in (ok, dv_call (DcMap rq fd ok) d))) (\<lambda>mapped.
           seqm (refuse (\<not> mapped) EIO)
           (dv_mod (\<lambda>d. d\<lparr> dv_window :=
              bt_insert off \<lparr> wm_len = len, wm_guest_proc = guest_proc, wm_fd = fd \<rparr> (dv_window d) \<rparr>)))))))))))"

definition device_map_prepare :: "senv \<Rightarrow> denv \<Rightarrow> req \<Rightarrow> bytes \<Rightarrow> bytes dm" where
  "device_map_prepare env dn rq msg =
    bindm (session_for (rq_guest_proc rq)) (\<lambda>found.
    seqm (refuse (\<not> found) ENOMEM)
    (seqm (set_guest_mem (rq_guest_proc rq))
    (bindm (in_session (rq_guest_proc rq) (handle_msg_with env msg None None)) (\<lambda>out.
     case out of
       None \<Rightarrow> fail EPROTO
     | Some b \<Rightarrow>
         (case rsp_from_bytes b of
            None \<Rightarrow> fail EIO
          | Some r \<Rightarrow>
              if rs_ret r \<noteq> 0 then ret b
              else
                bindm (in_session (rq_guest_proc rq) (take_pending_map env (rs_token r))) (\<lambda>taken.
                case taken of
                  None \<Rightarrow> fail EIO
                | Some (fd, len, d) \<Rightarrow>
                    seqm (dropm (x_mod (x_close fd)) (place_mapping dn (rq_guest_proc rq) (rq_addr rq) fd len))
                    (ret (done_rsp (rq_seq rq) (ucast (cache_for d))))))))))"

definition on_map_release :: "denv \<Rightarrow> req \<Rightarrow> bytes dm" where
  "on_map_release dn rq =
    bindm (release_window dn (rq_addr rq)) (\<lambda>ok.
    seqm (refuse (\<not> ok) EIO) (ret (done_rsp (rq_seq rq) 0)))"

definition drop_unwatch :: "waiter_retirement list \<Rightarrow> xhost \<Rightarrow> xhost" where
  "drop_unwatch rs = fold (\<lambda>r. x_close (sl_ctl (wr_slot r))) rs"

definition drop_ctls :: "(u32 \<times> i32) list \<Rightarrow> xhost \<Rightarrow> xhost" where
  "drop_ctls cs = fold (\<lambda>c. x_close (snd c)) cs"

text \<open>What the message left behind: cancelled slots, new descriptors to poll, closed event controls.
  An early return drops the lists that are still held.\<close>

definition after_session :: "denv \<Rightarrow> u32 \<Rightarrow> bytes \<Rightarrow> bytes dm" where
  "after_session dn guest_proc out =
    bindm (in_session guest_proc (stepm (\<lambda>s. case take_pollables (st_se s) of (a, se) \<Rightarrow> (a, s\<lparr> st_se := se \<rparr>)))) (\<lambda>new.
    bindm (in_session guest_proc (stepm (\<lambda>s. case take_unwatch (st_se s) of (a, se) \<Rightarrow> (a, s\<lparr> st_se := se \<rparr>)))) (\<lambda>unwatch.
    bindm (in_session guest_proc (stepm (\<lambda>s. case take_ctl_unwatch (st_se s) of (a, se) \<Rightarrow> (a, s\<lparr> st_se := se \<rparr>)))) (\<lambda>ctl_unwatch.
    bindm (waiters_cancel dn guest_proc (map (sl_id \<circ> wr_slot) unwatch)) (\<lambda>cancelled.
    if \<not> cancelled then
      seqm event_failed (seqm (dv_mod (x_mod (drop_unwatch unwatch \<circ> drop_ctls ctl_unwatch))) (fail EIO))
    else
      seqm (in_session guest_proc (modm (\<lambda>s. case finish_unwatch unwatch (st_se s) (st_x s) of
              (se, x) \<Rightarrow> s\<lparr> st_se := se, st_x := x \<rparr>)))
      (bindm (register_pollables dn guest_proc new) (\<lambda>registered.
       if \<not> registered then
         seqm event_failed (seqm (dv_mod (x_mod (drop_ctls ctl_unwatch))) (fail EIO))
       else
         seqm (dv_mod (fold (\<lambda>(h_client, fd) d. x_mod (x_close fd) (unregister_event_ctl guest_proc h_client d)) ctl_unwatch))
         (ret out)))))))"

definition explicit_fd :: "device \<Rightarrow> u32 \<Rightarrow> u64 \<Rightarrow> i32 option" where
  "explicit_fd d p token = (if token \<noteq> NONE_U64 \<and> p \<noteq> NONE_U32 then resolve_fd d p token else None)"

definition to_session :: "senv \<Rightarrow> denv \<Rightarrow> req \<Rightarrow> bytes \<Rightarrow> bytes dm" where
  "to_session env dn rq msg =
    seqm (whenm (rq_kind rq = kind_to_u32 Close) (dv_mod (unregister_token (rq_guest_proc rq) (rq_target_token rq))))
    (bindm (getm (\<lambda>d. explicit_fd d (rq_fd_field_proc rq) (rq_fd_field_token rq))) (\<lambda>ffd.
     bindm (getm (\<lambda>d. explicit_fd d (rq_aux_fd_field_proc rq) (rq_aux_fd_field_token rq))) (\<lambda>afd.
     bindm (session_for (rq_guest_proc rq)) (\<lambda>found.
     seqm (refuse (\<not> found) ENOMEM)
     (seqm (set_guest_mem (rq_guest_proc rq))
     (bindm (in_session (rq_guest_proc rq) (handle_msg_with env msg afd ffd)) (\<lambda>out.
      after_session dn (rq_guest_proc rq) (case out of Some b \<Rightarrow> b | None \<Rightarrow> err_rsp (rq_seq rq) EPROTO))))))))"

text \<open>Early returns of the handlers answer with \<^verbatim>\<open>err_rsp\<close>.\<close>

definition err_answer :: "u32 \<Rightarrow> bytes dm \<Rightarrow> bytes dm" where
  "err_answer sq m d =
    (case m d of
       None \<Rightarrow> None
     | Some (Inl e, d') \<Rightarrow> Some (Inr (err_rsp sq e), d')
     | Some (Inr b, d') \<Rightarrow> Some (Inr b, d'))"

definition handle :: "senv \<Rightarrow> denv \<Rightarrow> bytes \<Rightarrow> bytes dm" where
  "handle env dn msg =
    (case req_from_bytes msg of
       None \<Rightarrow> ret (err_rsp 0 EPROTO)
     | Some rq \<Rightarrow>
         err_answer (rq_seq rq)
          (bindm (getm dv_event_error) (\<lambda>failed.
           seqm (refuse failed EIO)
           (if rq_kind rq = KIND_GET_TABLES then on_get_tables rq
            else if rq_kind rq = KIND_MAP_RELEASE then on_map_release dn rq
            else if rq_kind rq = KIND_PROC_GONE then on_proc_gone env dn rq
            else if rq_kind rq = kind_to_u32 MapPrepare then device_map_prepare env dn rq msg
            else to_session env dn rq msg))))"

section \<open>Events\<close>

definition next_seq :: "u32 dm" where
  "next_seq = stepm (\<lambda>d. (dv_ev_seq d + 1, d\<lparr> dv_ev_seq := dv_ev_seq d + 1 \<rparr>))"

definition no_slot :: "device \<Rightarrow> bool \<times> device" where
  "no_slot d = (False, d\<lparr> dv_ev_dropped_noslot := dv_ev_dropped_noslot d + 1 \<rparr>)"

definition no_queue :: "device \<Rightarrow> bool \<times> device" where
  "no_queue d = (False, d\<lparr> dv_ev_dropped_noqueue := dv_ev_dropped_noqueue d + 1 \<rparr>)"

definition push_event :: "denv \<Rightarrow> req \<Rightarrow> bool dm" where
  "push_event dn rq = stepm (\<lambda>d.
     case dn_slot dn d of
       NotEnabled \<Rightarrow> no_queue d
     | slot \<Rightarrow>
         if \<not> dv_mem d then no_queue d
         else (case slot of
             InBuf room written used_ok \<Rightarrow>
               if room < REQ_LEN \<or> \<not> written \<or> \<not> used_ok then no_slot d
               else (True, dv_call (DcEvent rq) (d\<lparr> dv_ev_delivered := dv_ev_delivered d + 1 \<rparr>))
           | _ \<Rightarrow> no_slot d))"

definition deliver :: "denv \<Rightarrow> bool \<Rightarrow> (u32 \<Rightarrow> req) \<Rightarrow> bool dm" where
  "deliver dn wrote mk = bindm next_seq (\<lambda>sq. bindm (push_event dn (mk sq)) (\<lambda>ok. ret (wrote \<or> ok)))"

definition count_wake :: "unit dm" where
  "count_wake = dv_mod (\<lambda>d. d\<lparr> dv_ev_wakes := dv_ev_wakes d + 1 \<rparr>)"

definition client_event :: "u32 \<Rightarrow> u64 \<Rightarrow> u32 \<Rightarrow> req" where
  "client_event guest_proc token sq =
    req_default\<lparr> rq_seq := sq, rq_kind := KIND_EVENT_FIRED, rq_ioctl_nr := NV01_EVENT_OS_EVENT,
      rq_target_token := token, rq_guest_proc := guest_proc \<rparr>"

definition os_event :: "u32 \<Rightarrow> os_fired \<Rightarrow> u32 \<Rightarrow> req" where
  "os_event guest_proc f sq =
    (let r = of_reg f in
     req_default\<lparr> rq_seq := sq, rq_kind := KIND_EVENT_FIRED, rq_ioctl_nr := er_class r,
      rq_target_token := er_token r, rq_inline_len := of_info32 f, rq_aux_len := NV_OK,
      rq_fd_field_off := er_h_client r, rq_fd_field_token := ucast (er_id r),
      rq_embedded_ptr_off := er_h_event r, rq_nested_count := er_notify_index r,
      rq_addr := er_guest_data r, rq_guest_proc := guest_proc \<rparr>)"

definition waiter_event :: "fired \<Rightarrow> u32 \<times> u64 \<times> u64 \<Rightarrow> u32 \<Rightarrow> req" where
  "waiter_event w b sq =
    (case b of (h_client, kc, token) \<Rightarrow>
     req_default\<lparr> rq_seq := sq, rq_kind := KIND_EVENT_FIRED, rq_ioctl_nr := NV01_EVENT_KERNEL_CALLBACK_EX,
      rq_target_token := token, rq_aux_len := NV_OK, rq_fd_field_off := h_client,
      rq_fd_field_token := ucast (fi_event_id w), rq_embedded_ptr_off := 0, rq_addr := kc,
      rq_guest_proc := fi_guest_proc w \<rparr>)"

definition poll_client :: "denv \<Rightarrow> u32 \<Rightarrow> u64 \<Rightarrow> bool \<Rightarrow> bool dm" where
  "poll_client dn guest_proc token wrote =
    bindm (deliver dn wrote (client_event guest_proc token)) (\<lambda>w. seqm count_wake (ret w))"

definition poll_event_ctl :: "senv \<Rightarrow> denv \<Rightarrow> u64 \<Rightarrow> u32 \<Rightarrow> u32 \<Rightarrow> bool \<Rightarrow> bool dm" where
  "poll_event_ctl env dn pid guest_proc h_client wrote =
    bindm (getm (\<lambda>d. map_of (dv_sessions d) guest_proc)) (\<lambda>found.
    if found = None then seqm (dv_mod (unregister_id pid None)) (ret wrote)
    else
      bindm (in_session guest_proc (drain_os_events env h_client)) (\<lambda>fs.
      bindm (in_session guest_proc (se_get (\<lambda>s. has_event_ctl s h_client))) (\<lambda>alive.
      seqm (whenm (\<not> alive) (dv_mod (unregister_id pid None)))
      (foldm (\<lambda>f w. deliver dn w (os_event guest_proc f)) fs wrote))))"

definition wake_session :: "fired \<Rightarrow> (u32 \<times> u64 \<times> u64) option dm" where
  "wake_session w =
    bindm (getm (\<lambda>d. map_of (dv_sessions d) (fi_guest_proc w))) (\<lambda>found.
    if found = None then ret None
    else in_session (fi_guest_proc w)
      (stepm (\<lambda>s. case semsurf_wake (fi_registration w) (st_se s) of (a, se) \<Rightarrow> (a, s\<lparr> st_se := se \<rparr>))))"

definition poll_waiter :: "denv \<Rightarrow> fired \<Rightarrow> bool \<Rightarrow> bool dm" where
  "poll_waiter dn w wrote =
    bindm (wake_session w) (\<lambda>woken.
    case woken of
      None \<Rightarrow> ret wrote
    | Some b \<Rightarrow> bindm (deliver dn wrote (waiter_event w b)) (\<lambda>wr. seqm count_wake (ret wr)))"

definition on_poll_event :: "senv \<Rightarrow> denv \<Rightarrow> u64 \<times> bool \<Rightarrow> bool \<Rightarrow> bool dm" where
  "on_poll_event env dn ev wrote =
    (case ev of (pid, hung) \<Rightarrow>
     bindm (getm (\<lambda>d. map_of (dv_poll_srcs d) pid)) (\<lambda>src.
     if hung then
       (if src = Some PsWaiterNotify then fail EIO
        else seqm (dv_mod (unregister_id pid None)) (ret wrote))
     else case src of
         Some (PsClient guest_proc token _) \<Rightarrow> poll_client dn guest_proc token wrote
       | Some (PsEventCtl guest_proc h_client _) \<Rightarrow> poll_event_ctl env dn pid guest_proc h_client wrote
       | Some PsWaiterNotify \<Rightarrow> bindm (waiters_take dn) (\<lambda>fs. foldm (poll_waiter dn) fs wrote)
       | None \<Rightarrow> ret wrote))"

fun poll_rounds :: "senv \<Rightarrow> denv \<Rightarrow> nat \<Rightarrow> bool \<Rightarrow> bool dm" where
  "poll_rounds env dn 0 wrote = ret wrote"
| "poll_rounds env dn (Suc n) wrote =
    bindm (stepm (\<lambda>d. (dn_wait dn d, dv_call DcWait d))) (\<lambda>r.
    case r of
      PwInterrupted \<Rightarrow> poll_rounds env dn n wrote
    | PwFailed \<Rightarrow> fail EIO
    | PwReady [] \<Rightarrow> ret wrote
    | PwReady (e # es) \<Rightarrow> bindm (foldm (on_poll_event env dn) (take 64 (e # es)) wrote) (poll_rounds env dn n))"

definition signal :: "denv \<Rightarrow> bool \<Rightarrow> unit dm" where
  "signal dn wanted = bindm (getm (dn_signal dn)) (\<lambda>ok. refuse (wanted \<and> \<not> ok) EIO)"

definition on_poll :: "senv \<Rightarrow> denv \<Rightarrow> unit dm" where
  "on_poll env dn = bindm (poll_rounds env dn 8 False) (signal dn)"

section \<open>The request queue\<close>

text \<open>A descriptor chain: the readable bytes, the room for the answer, and which of the queue's own
  operations succeed.\<close>

record vchain =
  vc_usable :: bool
  vc_msg :: bytes
  vc_readable :: bool
  vc_room :: nat
  vc_used :: bool

definition fit_response :: "nat \<Rightarrow> bytes \<Rightarrow> bytes" where
  "fit_response room resp =
    (if room < length resp
     then err_rsp (case rsp_from_bytes resp of Some r \<Rightarrow> rs_seq r | None \<Rightarrow> 0) EMSGSIZE else resp)"

fun process_chains :: "senv \<Rightarrow> denv \<Rightarrow> vchain list \<Rightarrow> bytes list dm" where
  "process_chains env dn [] = ret []"
| "process_chains env dn (c # cs) =
    seqm (refuse (\<not> vc_usable c) EIO)
    (bindm (if length (vc_msg c) < REQ_LEN \<or> MAX_MSG < length (vc_msg c) then ret (err_rsp 0 EMSGSIZE)
            else if vc_readable c then handle env dn (vc_msg c) else ret (err_rsp 0 EIO)) (\<lambda>resp.
     bindm (getm dv_event_error) (\<lambda>failed.
     seqm (refuse failed EIO)
     (let r = fit_response (vc_room c) resp; n = min (length r) (vc_room c) in
      seqm (refuse (\<not> vc_used c) EIO)
      (bindm (process_chains env dn cs) (\<lambda>rs. ret (take n r # rs)))))))"

definition process_queue :: "senv \<Rightarrow> denv \<Rightarrow> vchain list \<Rightarrow> bytes list dm" where
  "process_queue env dn cs =
    bindm (getm dv_mem) (\<lambda>mem.
    seqm (refuse (\<not> mem) EIO)
    (bindm (process_chains env dn cs) (\<lambda>rs.
     seqm (signal dn (rs \<noteq> [])) (ret rs))))"

section \<open>The backend interface\<close>

definition num_queues :: nat where "num_queues = 2"
definition max_queue_size :: nat where "max_queue_size = 256"

definition features :: u64 where
  "features = push_bit 32 1 OR push_bit 30 1 OR push_bit 28 1"

definition set_backend_req_fd :: "device \<Rightarrow> device" where
  "set_backend_req_fd d =
    dv_call DcReset
      (x_mod (fold (\<lambda>e. x_close (wm_fd (snd e))) (dv_window d)) (d\<lparr> dv_window := [], dv_backend := True \<rparr>))"

definition update_memory :: "device \<Rightarrow> device" where
  "update_memory d = d\<lparr> dv_mem := True \<rparr>"

text \<open>\<^verbatim>\<open>vrings\<close>: the chains waiting on queue 0 and whether queue 1 exists.\<close>

definition handle_event :: "senv \<Rightarrow> denv \<Rightarrow> u16 \<Rightarrow> bool \<Rightarrow> vchain list \<Rightarrow> bool \<Rightarrow> bytes list dm" where
  "handle_event env dn device_event evset_in cs has_evq =
    (if \<not> evset_in then ret []
     else if device_event = 0 then process_queue env dn cs
     else if device_event = EVENT_LISTENER \<and> has_evq then seqm (on_poll env dn) (ret [])
     else ret [])"

section \<open>Runs\<close>

datatype dev_event =
    DevEvent denv u16 bool "vchain list" bool
  | DevBackend
  | DevMemory

definition dev_apply :: "senv \<Rightarrow> dev_event \<Rightarrow> bytes list dm" where
  "dev_apply env e =
    (case e of
       DevEvent dn device_event evset_in cs has_evq \<Rightarrow> handle_event env dn device_event evset_in cs has_evq
     | DevBackend \<Rightarrow> seqm (dv_mod set_backend_req_fd) (ret [])
     | DevMemory \<Rightarrow> seqm (dv_mod update_memory) (ret []))"

text \<open>An error of one event ends that event, not the device.\<close>

fun dev_run :: "senv \<Rightarrow> dev_event list \<Rightarrow> device \<Rightarrow> device option" where
  "dev_run env [] d = Some d"
| "dev_run env (e # es) d = (case dev_apply env e d of None \<Rightarrow> None | Some (_, d') \<Rightarrow> dev_run env es d')"

text \<open>A served VM: the device as \<^verbatim>\<open>serve_with\<close> starts it, after any sequence of events.\<close>

definition served :: "senv \<Rightarrow> profile \<Rightarrow> pin_budget \<Rightarrow> bytes \<Rightarrow> denv \<Rightarrow> i32 \<Rightarrow> dev_event list \<Rightarrow> device option" where
  "served env p B tables dn notify es =
    (case register_waiter_notify dn notify (device_new p B tables) of
       Some (Inr _, d) \<Rightarrow> dev_run env es d
     | _ \<Rightarrow> None)"

end
