(* ===== verification/Served.thy ===== *)
theory Served
  imports Device
begin

text \<open>
  What holds of a VM the device serves, after any sequence of events: requests on queue 0, host
  events, new backend channels and memory tables, with the driver, the VMM and the waiter thread
  answering as they like.

  The locale \<^verbatim>\<open>dev_inv\<close> lists what an invariant of the device has to survive, each law about one small
  change of the state, and shows once that every handler and every run keeps it.
\<close>

section \<open>The accounting of the whole device\<close>

definition dev_vm :: "device \<Rightarrow> vm" where
  "dev_vm d = \<lparr> vm_ledger = xh_ledger (dv_x d), vm_books = map (\<lambda>(k, s). (k, se_vram s)) (dv_sessions d), vm_pending = [] \<rparr>"

definition dev_pools :: "device \<Rightarrow> pworld" where
  "dev_pools d = \<lparr> pw_host = xh_host (dv_x d), pw_sessions = map (\<lambda>(k, s). (unat k, se_pool s)) (dv_sessions d), pw_pending = [] \<rparr>"

definition accounted :: "henv \<Rightarrow> profile \<Rightarrow> pin_budget \<Rightarrow> device \<Rightarrow> bool" where
  "accounted env p B d \<longleftrightarrow> vram_reach p (dev_vm d) \<and> pool_reach env B (dev_pools d)"

definition dcore :: "device \<Rightarrow> host \<times> ledger \<times> (u32 \<times> books \<times> pool_state) list" where
  "dcore d = (xh_host (dv_x d), xh_ledger (dv_x d), map (\<lambda>(k, s). (k, se_vram s, se_pool s)) (dv_sessions d))"

lemma accounted_core:
  assumes "dcore d' = dcore d"
  shows "accounted env p B d' = accounted env p B d"
proof -
  have l: "map (\<lambda>(k, s). (k, se_vram s, se_pool s)) (dv_sessions d') = map (\<lambda>(k, s). (k, se_vram s, se_pool s)) (dv_sessions d)"
    using assms by (simp add: dcore_def)
  from arg_cong [OF l, of "map (\<lambda>(k, b, ps). (k, b))"] arg_cong [OF l, of "map (\<lambda>(k, b, ps). (unat k, ps))"]
  show ?thesis using assms by (simp add: accounted_def dev_vm_def dev_pools_def dcore_def comp_def case_prod_unfold)
qed

text \<open>Association lists under a renaming of their keys.\<close>

lemma update_map: "inj g \<Longrightarrow> map (\<lambda>(k, v). (g k, f v)) (AList.update k v m) = AList.update (g k) (f v) (map (\<lambda>(k, v). (g k, f v)) m)"
  by (induction m) (auto dest: injD)

lemma delete_map: "inj g \<Longrightarrow> map (\<lambda>(k, v). (g k, f v)) (AList.delete k m) = AList.delete (g k) (map (\<lambda>(k, v). (g k, f v)) m)"
  by (induction m) (auto simp: AList.delete_eq dest: injD)

lemma map_of_map_inj: "inj g \<Longrightarrow> map_of (map (\<lambda>(k, v). (g k, f v)) m) (g k) = map_option f (map_of m k)"
  by (induction m) (auto dest: injD)

lemma update_new: "map_of m k = None \<Longrightarrow> AList.update k v m = m @ [(k, v)]"
  by (induction m) (auto split: if_splits)

lemma inj_unat: "inj (unat :: u32 \<Rightarrow> nat)"
  by (rule injI) (simp add: word_unat_eq_iff)

lemmas books_maps = update_map [of id, simplified] delete_map [of id, simplified] map_of_map_inj [of id, simplified]
lemmas pools_maps = update_map [OF inj_unat] delete_map [OF inj_unat] map_of_map_inj [OF inj_unat]

section \<open>Inside a session\<close>

definition world_of :: "henv \<Rightarrow> profile \<Rightarrow> pin_budget \<Rightarrow> device \<Rightarrow> u32 \<Rightarrow> world" where
  "world_of env p B d k = \<lparr> wo_env = env, wo_profile = p, wo_budget = B, wo_vm = dev_vm d, wo_pools = dev_pools d, wo_key = k \<rparr>"

text \<open>A computation of a session that settles what it takes, in any world.\<close>

definition settles :: "henv \<Rightarrow> 'a sm \<Rightarrow> bool" where
  "settles env c \<longleftrightarrow> (\<forall>w. wo_env w = env \<longrightarrow> tri (inworld w [] []) c (inworld w [] []) (\<lambda>_. inworld w [] []))"

lemma settles_keeps: "keeps core c \<Longrightarrow> settles env c"
  by (simp add: settles_def tri_keeps)

lemma settles_handle_msg: "settles (sv_henv env) (handle_msg_with env msg afd ffd)"
  unfolding settles_def tri_def using handle_msg_inworld [of _ _ env msg afd ffd] by (auto split: sum.splits)

lemma inworld_device:
  assumes "map_of (dv_sessions d) k = Some se"
  shows "inworld (world_of env p B d k) [] [] \<lparr> st_se = se, st_x = dv_x d \<rparr> = accounted env p B d"
proof -
  have "vview (world_of env p B d k) [] (xh_ledger (dv_x d)) (se_vram se) = dev_vm d"
    by (simp add: vview_def world_of_def dev_vm_def update_same books_maps assms)
  moreover have "pview (world_of env p B d k) [] (xh_host (dv_x d)) (se_pool se) = dev_pools d"
    by (simp add: pview_def world_of_def dev_pools_def update_same pools_maps assms)
  ultimately show ?thesis by (simp add: inworld_def accounted_def world_of_def)
qed

lemma inworld_back:
  assumes "inworld (world_of env p B d k) [] [] s"
  shows "accounted env p B (d\<lparr> dv_sessions := AList.update k (st_se s) (dv_sessions d), dv_x := st_x s \<rparr>)"
  using assms
  by (simp add: inworld_def accounted_def vview_def pview_def world_of_def dev_vm_def dev_pools_def books_maps pools_maps)

lemma in_session_accounted:
  assumes "settles env c"
  shows "tri (accounted env p B) (in_session k c) (accounted env p B) (\<lambda>_. accounted env p B)"
  unfolding tri_def
proof (intro allI impI)
  fix d r d'
  assume i: "in_session k c d = Some (r, d')" and a: "accounted env p B d"
  then obtain se s where s: "map_of (dv_sessions d) k = Some se" "c \<lparr> st_se = se, st_x = dv_x d \<rparr> = Some (r, s)"
    and d': "d' = d\<lparr> dv_sessions := AList.update k (st_se s) (dv_sessions d), dv_x := st_x s \<rparr>"
    by (auto simp: in_session_def split: option.splits)
  have "inworld (world_of env p B d k) [] [] \<lparr> st_se = se, st_x = dv_x d \<rparr>" using inworld_device [OF s(1)] a by simp
  then have "inworld (world_of env p B d k) [] [] s"
    using assms s(2) unfolding settles_def tri_def by (cases r) (force simp: world_of_def)+
  then have "accounted env p B d'" unfolding d' by (rule inworld_back)
  then show "case r of Inl e \<Rightarrow> accounted env p B d' | Inr a \<Rightarrow> accounted env p B d'" by (simp split: sum.split)
qed

section \<open>What an invariant of the device has to survive\<close>

text \<open>The parts of a session's state the shared relations speak of, before and after.\<close>

definition sess_step :: "henv \<Rightarrow> st \<Rightarrow> st \<Rightarrow> bool" where
  "sess_step env s s' \<longleftrightarrow> (\<forall>w. wo_env w = env \<longrightarrow> inworld w [] [] s \<longrightarrow> inworld w [] [] s')"

lemma settles_step: "settles env c \<longleftrightarrow> (\<forall>s r s'. c s = Some (r, s') \<longrightarrow> sess_step env s s')"
  unfolding settles_def safe_tri safe_def sess_step_def by blast

fun loud :: "dev_call \<Rightarrow> bool" where
  "loud (DcMap rq fd ok) = True"
| "loud (DcUnmap rq ok) = True"
| "loud (DcAdd fd pid ok) = True"
| "loud (DcDel fd pid) = True"
| "loud DcReset = True"
| "loud (DcProbe fd len) = False"
| "loud DcWait = False"
| "loud (DcEvent rq) = False"

text \<open>Steps that only count, deliver, or change the waiter poller.\<close>

definition quiet :: "device \<Rightarrow> device \<Rightarrow> bool" where
  "quiet d d' \<longleftrightarrow> dv_sessions d' = dv_sessions d \<and> dv_x d' = dv_x d \<and> dv_tables d' = dv_tables d \<and> dv_backend d' = dv_backend d \<and>
     dv_window d' = dv_window d \<and> dv_poll_srcs d' = dv_poll_srcs d \<and> dv_poll_ids d' = dv_poll_ids d \<and>
     dv_next_poll_id d' = dv_next_poll_id d \<and> filter loud (dv_log d') = filter loud (dv_log d)"

definition quietly :: "'a dm \<Rightarrow> bool" where
  "quietly c \<longleftrightarrow> (\<forall>d r d'. c d = Some (r, d') \<longrightarrow> quiet d d')"

lemma quietly_stepm: "(\<And>d. quiet d (snd (f d))) \<Longrightarrow> quietly (stepm f)"
  by (auto simp: quietly_def stepm_def split: prod.splits) (metis snd_conv)

lemma quietly_modm: "(\<And>d. quiet d (f d)) \<Longrightarrow> quietly (modm f)"
  by (simp add: quietly_def modm_def)

lemma quiet_push: "quietly (push_event dn rq)"
  unfolding push_event_def
  by (rule quietly_stepm) (simp add: quiet_def no_queue_def no_slot_def dv_call_def split: event_slot.split)

lemma quiet_small:
  "quietly next_seq" "quietly count_wake" "quietly event_failed" "quietly (waiter_request dn op)"
  "quietly (stepm (\<lambda>d. (dn_wait dn d, dv_call DcWait d)))"
  "quietly (stepm (\<lambda>d. case take_fired (waiters_settle dn d) of (r, w) \<Rightarrow> (r, d\<lparr> dv_waiters := w \<rparr>)))"
  "quietly (stepm (\<lambda>d. (dn_probe dn d fd len, dv_call (DcProbe fd len) d)))"
  "quietly (modm (\<lambda>d. d\<lparr> dv_oob_fired := b d \<rparr>))" "quietly (modm update_memory)"
  unfolding next_seq_def count_wake_def event_failed_def waiter_request_def
  by (rule quietly_stepm quietly_modm, simp add: quiet_def dv_call_def Let_def update_memory_def split: prod.split)+

lemma x_close_shared [simp]: "xh_host (x_close fd x) = xh_host x" "xh_ledger (x_close fd x) = xh_ledger x"
  by (simp_all add: x_close_def x_log_def)

lemma fold_close_shared [simp]: "xh_host (fold (\<lambda>y. x_close (f y)) ys x) = xh_host x" "xh_ledger (fold (\<lambda>y. x_close (f y)) ys x) = xh_ledger x"
  by (induction ys arbitrary: x) simp_all

lemma finish_unwatch_shared:
  "finish_unwatch rs s x = (s', x') \<Longrightarrow> xh_host x' = xh_host x \<and> xh_ledger x' = xh_ledger x \<and> se_vram s' = se_vram s \<and> se_pool s' = se_pool s"
  by (induction rs s x rule: finish_unwatch.induct) (auto split: option.splits)

lemma keeps_drain_loop: "keeps core (drain_loop env n c fd out)"
proof (induction n arbitrary: out)
  case (Suc n)
  show ?case unfolding drain_loop.simps by (intro keeps_rules Suc; simp add: core_def drop_ctl_def)
qed (simp add: keeps_basic)

lemma keeps_session_ops [keeps_rules]:
  "keeps core (drain_os_events env c)" "keeps core (take_pending_map env bid)"
  "keeps core (stepm (\<lambda>s. case take_pollables (st_se s) of (a, se) \<Rightarrow> (a, s\<lparr> st_se := se \<rparr>)))"
  "keeps core (stepm (\<lambda>s. case take_unwatch (st_se s) of (a, se) \<Rightarrow> (a, s\<lparr> st_se := se \<rparr>)))"
  "keeps core (stepm (\<lambda>s. case take_ctl_unwatch (st_se s) of (a, se) \<Rightarrow> (a, s\<lparr> st_se := se \<rparr>)))"
  "keeps core (stepm (\<lambda>s. case semsurf_wake r (st_se s) of (a, se) \<Rightarrow> (a, s\<lparr> st_se := se \<rparr>)))"
  unfolding drain_os_events_def take_pending_map_def
  by (intro keeps_rules keeps_drain_loop; simp add: core_def take_pollables_def take_unwatch_def take_ctl_unwatch_def
      semsurf_wake_def split: option.split)+

lemma keeps_finish_unwatch [keeps_rules]:
  "keeps core (modm (\<lambda>s. case finish_unwatch rs (st_se s) (st_x s) of (se, x) \<Rightarrow> s\<lparr> st_se := se, st_x := x \<rparr>))"
  by (rule keeps_modm) (auto simp: core_def split: prod.split dest: finish_unwatch_shared)

text \<open>A session that has just registered a mapping for \<^verbatim>\<open>token\<close>, of a length that is not zero.\<close>

definition maps_some :: "u64 \<Rightarrow> sess \<Rightarrow> bool" where
  "maps_some token s \<longleftrightarrow> (\<exists>pd. map_of (se_pending_maps s) token = Some pd \<and> pd_len pd \<noteq> 0)"

lemma reply_err_ret:
  assumes "e \<in> {EBADF, EINVAL}" "rsp_from_bytes (reply_err sq e) = Some r"
  shows "rs_ret r \<noteq> 0"
proof -
  have "r = (ok_rsp sq)\<lparr> rs_ret := - of_int e \<rparr>"
    using assms(2) rsp_codec.dec_enc [of "(ok_rsp sq)\<lparr> rs_ret := - of_int e \<rparr>" "[]"] by (simp add: reply_err_def reply_def)
  then show ?thesis using assms(1) by (auto simp: EBADF_def EINVAL_def)
qed

lemma on_map_prepare_maps:
  assumes "answering (rq_seq rq) (on_map_prepare rq) s = Some (Inr b, s')" "rsp_from_bytes b = Some r" "rs_ret r = 0"
  shows "maps_some (rs_token r) (st_se s')"
proof (cases "on_map_prepare rq s")
  case None
  then show ?thesis using assms(1) by (simp add: answering_def)
next
  case (Some out)
  obtain q s1 where o1: "on_map_prepare rq s = Some (q, s1)" using Some by (cases out) auto
  show ?thesis
  proof (cases q)
    case (Inl e)
    then have "e \<in> {EBADF, EINVAL}"
      using o1 by (auto simp: on_map_prepare_def bindm_def seqm_def getm_def refuse_def fail_def ret_def modm_def split: if_splits option.splits)
    moreover have "b = reply_err (rq_seq rq) e" using assms(1) o1 Inl by (simp add: answering_def)
    ultimately show ?thesis using reply_err_ret [of e] assms(2,3) by auto
  next
    case (Inr c)
    then have b: "b = c" "s' = s1" using assms(1) o1 by (auto simp: answering_def)
    obtain t m where "c = reply ((ok_rsp (rq_seq rq))\<lparr> rs_token := t \<rparr>) [] []" "maps_some t (st_se s1)"
      using o1 Inr by (auto simp: on_map_prepare_def bindm_def seqm_def getm_def refuse_def fail_def ret_def modm_def maps_some_def
          split: if_splits option.splits)
    then show ?thesis using assms(2) b rsp_codec.dec_enc [of "(ok_rsp (rq_seq rq))\<lparr> rs_token := t \<rparr>" "[]"]
      by (auto simp: reply_def)
  qed
qed

lemma handle_map_prepare_maps:
  assumes "handle_msg_with env msg None None s = Some (Inr (Some b), s')" "req_from_bytes msg = Some rq"
    "rq_kind rq = kind_to_u32 MapPrepare" "rsp_from_bytes b = Some r" "rs_ret r = 0"
  shows "maps_some (rs_token r) (st_se s')"
proof -
  have "dispatch env rq (drop REQ_LEN msg) = on_map_prepare rq" using assms(3) by (simp add: dispatch_def kind_from_u32_def)
  then obtain s0 where "answering (rq_seq rq) (on_map_prepare rq) s0 = Some (Inr b, s')"
    using assms(1,2) by (auto simp: handle_msg_with_def bindm_def seqm_def modm_def ret_def split: option.splits sum.splits)
  from on_map_prepare_maps [OF this assms(4,5)] show ?thesis .
qed

lemma take_pending_map_len:
  "take_pending_map env t s = Some (Inr (Some (fd, len, d)), s') \<Longrightarrow> maps_some t (st_se s) \<Longrightarrow> len \<noteq> 0"
  by (auto simp: take_pending_map_def maps_some_def bindm_def seqm_def getm_def modm_def ret_def sys_dup_def stepm_def
      Let_def split: option.splits)

text \<open>The contract of a device invariant: what the invariant has to survive, so that every event the
  device handles keeps it.\<close>

locale dev_inv =
  fixes I :: "device \<Rightarrow> bool" and env :: senv and dn :: denv
  assumes quiet_step: "I d \<Longrightarrow> quiet d d' \<Longrightarrow> I d'"
    and session_step: "I d \<Longrightarrow> map_of (dv_sessions d) k = Some se \<Longrightarrow>
      sess_step (sv_henv env) \<lparr> st_se = se, st_x = dv_x d \<rparr> s' \<Longrightarrow>
      I (d\<lparr> dv_sessions := AList.update k (st_se s') (dv_sessions d), dv_x := st_x s' \<rparr>)"
    and session_new: "I d \<Longrightarrow> map_of (dv_sessions d) k = None \<Longrightarrow> length (dv_sessions d) < MAX_SESSIONS \<Longrightarrow>
      I (d\<lparr> dv_sessions := AList.update k (detached_proc k) (dv_sessions d) \<rparr>)"
    and session_gone: "I d \<Longrightarrow> map_of (dv_sessions d) k = Some se \<Longrightarrow>
      I (x_mod (session_drop (sv_henv env) se) (d\<lparr> dv_sessions := AList.delete k (dv_sessions d) \<rparr>))"
    and retry: "I d \<Longrightarrow> I (x_mod (\<lambda>x. x\<lparr> xh_host := budget_retry_cleanup (sv_henv env) (xh_host x) \<rparr>) d)"
    and closing: "I d \<Longrightarrow> I (x_mod (x_close fd) d)"
    and unmap: "safe I (release_window dn off)"
    and place: "len \<noteq> 0 \<Longrightarrow> safe I (place_mapping dn g off fd len)"
    and register: "safe I (register_pollable dn g p)"
    and unregister: "I d \<Longrightarrow> I (unregister_id pid h d)"
    and reset: "I d \<Longrightarrow> I (set_backend_req_fd d)"
begin

lemma quietly_safe: "quietly c \<Longrightarrow> safe I c"
  unfolding quietly_def safe_def using quiet_step by blast

lemma closings: "I d \<Longrightarrow> I (x_mod (fold (\<lambda>y. x_close (f y)) ys) d)"
proof (induction ys arbitrary: d)
  case (Cons y ys)
  show ?case using Cons.IH [OF closing [OF Cons.prems, of "f y"]] by (simp add: x_mod_def)
qed (simp add: x_mod_def)

lemma in_session_safe: "settles (sv_henv env) c \<Longrightarrow> safe I (in_session k c)"
  unfolding safe_def in_session_def settles_step
  by (auto split: option.splits prod.splits intro: session_step)

lemma session_for_safe: "safe I (session_for k)"
  unfolding session_for_def by (rule safe_stepm) (auto intro: session_new)

lemma set_guest_mem_safe: "safe I (set_guest_mem k)"
  unfolding set_guest_mem_def
  by (intro safe_rules in_session_safe settles_keeps keeps_rules) (simp add: core_def)

lemma small_safe:
  "safe I next_seq" "safe I count_wake" "safe I event_failed" "safe I (waiter_request dn op)" "safe I (push_event dn rq)"
  "safe I (stepm (\<lambda>d. (dn_wait dn d, dv_call DcWait d)) :: poll_wait dm)"
  "safe I (stepm (\<lambda>d. case take_fired (waiters_settle dn d) of (r, w) \<Rightarrow> (r, d\<lparr> dv_waiters := w \<rparr>)) :: (unit + fired list) dm)"
  "safe I (modm update_memory :: unit dm)"
  by (simp_all add: quietly_safe quiet_small quiet_push)

lemma release_window_of_safe: "safe I (release_window_of dn g)"
  unfolding release_window_of_def by (intro safe_rules safe_foldm unmap)

lemma register_pollables_safe: "safe I (register_pollables dn g ps)"
proof (induction ps)
  case (Cons p ps)
  then show ?case by (cases p) (auto intro!: safe_rules small_safe register)
qed (simp add: safe_basic)

lemma unregister_safe: "I d \<Longrightarrow> I (unregister_token g t d)" "I d \<Longrightarrow> I (unregister_event_ctl g c d)"
  by (auto simp: unregister_token_def unregister_event_ctl_def split: option.split intro: unregister)

lemma unregister_all: "I d \<Longrightarrow> I (fold (\<lambda>pid d. unregister_id pid (proc_src_fd d g pid) d) pids d)"
  by (induction pids arbitrary: d) (auto intro: unregister)

lemma unregister_proc_safe: "safe I (unregister_proc dn g)"
  unfolding unregister_proc_def by (intro safe_rules small_safe unregister_all)

lemma on_proc_gone_safe: "safe I (on_proc_gone env dn rq)"
  unfolding on_proc_gone_def
  by (intro safe_rules small_safe unregister_proc_safe release_window_of_safe retry)
    (auto split: option.split intro: session_gone)

lemma on_get_tables_safe: "safe I (on_get_tables rq)"
  unfolding on_get_tables_def Let_def by (intro safe_rules)

lemma on_map_release_safe: "safe I (on_map_release dn rq)"
  unfolding on_map_release_def by (intro safe_rules unmap)

lemma after_session_safe: "safe I (after_session dn g out)"
proof -
  have ctls: "I d \<Longrightarrow> I (fold (\<lambda>(c, fd) d. x_mod (x_close fd) (unregister_event_ctl g c d)) cs d)" for d cs
    by (induction cs arbitrary: d) (auto intro: closing unregister_safe)
  have drops: "I d \<Longrightarrow> I (x_mod (drop_ctls cs) d)" "I d \<Longrightarrow> I (x_mod (drop_unwatch rs \<circ> drop_ctls cs) d)" for d rs cs
    using closings [of d snd cs] closings [of "x_mod (drop_ctls cs) d" "\<lambda>r. sl_ctl (wr_slot r)" rs]
    by (simp_all add: x_mod_def drop_ctls_def drop_unwatch_def)
  show ?thesis unfolding after_session_def waiters_cancel_def
    by (intro safe_rules small_safe in_session_safe settles_keeps keeps_rules register_pollables_safe ctls drops)
qed

lemma to_session_safe: "safe I (to_session env dn rq msg)"
  unfolding to_session_def
  by (intro safe_rules unregister_safe session_for_safe set_guest_mem_safe in_session_safe settles_handle_msg after_session_safe)

end

context dev_inv
begin

lemma handled_maps:
  assumes "req_from_bytes msg = Some rq" "rq_kind rq = kind_to_u32 MapPrepare"
  shows "tri I (in_session k (handle_msg_with env msg None None)) I
    (\<lambda>out d. I d \<and> (\<forall>b r. out = Some b \<longrightarrow> rsp_from_bytes b = Some r \<longrightarrow> rs_ret r = 0 \<longrightarrow>
       (\<exists>se. map_of (dv_sessions d) k = Some se \<and> maps_some (rs_token r) se)))"
  unfolding tri_def
proof (intro allI impI)
  fix d q d'
  assume h: "in_session k (handle_msg_with env msg None None) d = Some (q, d')" and i: "I d"
  have "I d'" using safeD [OF in_session_safe [OF settles_handle_msg] h i] .
  moreover have "\<exists>se. map_of (dv_sessions d') k = Some se \<and> maps_some (rs_token r) se"
    if "q = Inr (Some b)" "rsp_from_bytes b = Some r" "rs_ret r = 0" for b r
    using h that(1) handle_map_prepare_maps [OF _ assms that(2,3)]
    by (fastforce simp: in_session_def split: option.splits prod.splits)
  ultimately show "case q of Inl e \<Rightarrow> I d' | Inr out \<Rightarrow> I d' \<and> (\<forall>b r. out = Some b \<longrightarrow> rsp_from_bytes b = Some r \<longrightarrow>
      rs_ret r = 0 \<longrightarrow> (\<exists>se. map_of (dv_sessions d') k = Some se \<and> maps_some (rs_token r) se))"
    by (auto split: sum.split)
qed

lemma taken_maps:
  "tri (\<lambda>d. I d \<and> (\<exists>se. map_of (dv_sessions d) k = Some se \<and> maps_some t se)) (in_session k (take_pending_map env t)) I
     (\<lambda>x d. I d \<and> (\<forall>fd len dv. x = Some (fd, len, dv) \<longrightarrow> len \<noteq> 0))"
  unfolding tri_def
proof (intro allI impI, elim conjE exE)
  fix d q d' se
  assume h: "in_session k (take_pending_map env t) d = Some (q, d')" and i: "I d"
    and se: "map_of (dv_sessions d) k = Some se" "maps_some t se"
  have "I d'" using safeD [OF in_session_safe [OF settles_keeps [OF keeps_session_ops(2)]] h i] .
  moreover have "len \<noteq> 0" if "q = Inr (Some (fd, len, dv))" for fd len dv
    using h that se take_pending_map_len [of env t "\<lparr> st_se = se, st_x = dv_x d \<rparr>"]
    by (auto simp: in_session_def split: option.splits prod.splits)
  ultimately show "case q of Inl e \<Rightarrow> I d' | Inr x \<Rightarrow> I d' \<and> (\<forall>fd len dv. x = Some (fd, len, dv) \<longrightarrow> len \<noteq> 0)"
    by (auto split: sum.split)
qed

lemma device_map_prepare_safe:
  assumes "req_from_bytes msg = Some rq" "rq_kind rq = kind_to_u32 MapPrepare"
  shows "safe I (device_map_prepare env dn rq msg)"
proof -
  have placed: "tri (\<lambda>d. I d \<and> (\<forall>fd len dv. x = Some (fd, len, dv) \<longrightarrow> len \<noteq> 0))
      (case x of None \<Rightarrow> fail EIO | Some (fd, len, dv) \<Rightarrow>
         seqm (dropm (x_mod (x_close fd)) (place_mapping dn (rq_guest_proc rq) (rq_addr rq) fd len))
           (ret (done_rsp (rq_seq rq) (ucast (cache_for dv))))) I (\<lambda>_. I)" for x
    by (rule tri_pure, cases x) (auto simp: safe_tri intro!: safe_rules safe_dropm place closing)
  have step: "tri (\<lambda>d. I d \<and> (\<forall>b r. out = Some b \<longrightarrow> rsp_from_bytes b = Some r \<longrightarrow> rs_ret r = 0 \<longrightarrow>
       (\<exists>se. map_of (dv_sessions d) (rq_guest_proc rq) = Some se \<and> maps_some (rs_token r) se)))
      (case out of None \<Rightarrow> fail EPROTO | Some b \<Rightarrow> (case rsp_from_bytes b of None \<Rightarrow> fail EIO | Some r \<Rightarrow>
         if rs_ret r \<noteq> 0 then ret b
         else bindm (in_session (rq_guest_proc rq) (take_pending_map env (rs_token r))) (\<lambda>taken.
           case taken of None \<Rightarrow> fail EIO | Some (fd, len, d) \<Rightarrow>
             seqm (dropm (x_mod (x_close fd)) (place_mapping dn (rq_guest_proc rq) (rq_addr rq) fd len))
               (ret (done_rsp (rq_seq rq) (ucast (cache_for d))))))) I (\<lambda>_. I)" for out
    by (intro tri_cases(1,2) tri_fail tri_ret tri_weaken [OF tri_bindm [OF taken_maps placed]]) auto
  show ?thesis unfolding device_map_prepare_def
    by (rule safe_bindm, rule session_for_safe, rule safe_seqm, rule safe_basic, rule safe_seqm, rule set_guest_mem_safe)
      (rule tri_bindm [OF handled_maps [OF assms] step, unfolded safe_tri])
qed

lemma handle_safe: "safe I (handle env dn msg)"
proof -
  have e: "safe I m \<Longrightarrow> safe I (err_answer sq m)" for m sq
    unfolding safe_def err_answer_def by (fastforce split: option.splits sum.splits prod.splits)
  show ?thesis unfolding handle_def
    by (intro safe_rules e on_get_tables_safe on_map_release_safe on_proc_gone_safe device_map_prepare_safe to_session_safe)
qed

lemma deliver_safe: "safe I (deliver dn w mk)"
  unfolding deliver_def by (intro safe_rules small_safe)

lemma on_poll_event_safe: "safe I (on_poll_event env dn e w)"
proof -
  have c: "safe I (poll_client dn g t w)" for g t w
    unfolding poll_client_def by (intro safe_rules small_safe deliver_safe)
  have v: "safe I (poll_event_ctl env dn pid g h w)" for pid g h w
    unfolding poll_event_ctl_def
    by (intro safe_rules safe_foldm unregister deliver_safe in_session_safe settles_keeps keeps_rules)
  have wt: "safe I (poll_waiter dn f w)" for f w
    unfolding poll_waiter_def wake_session_def
    by (intro safe_rules small_safe deliver_safe in_session_safe settles_keeps keeps_rules)
  have t: "safe I (waiters_take dn)" unfolding waiters_take_def by (intro safe_rules small_safe)
  show ?thesis unfolding on_poll_event_def
    by (auto split: prod.split option.split poll_src.split intro!: safe_rules safe_foldm c v wt t unregister)
qed

lemma poll_rounds_safe: "safe I (poll_rounds env dn n w)"
proof (induction n arbitrary: w)
  case (Suc n)
  then show ?case unfolding poll_rounds.simps
    by (intro safe_bindm small_safe) (auto split: poll_wait.split list.split intro!: safe_rules safe_foldm on_poll_event_safe)
qed (simp add: safe_basic)

lemma process_chains_safe: "safe I (process_chains env dn cs)"
proof (induction cs)
  case (Cons c cs)
  then show ?case unfolding process_chains.simps Let_def by (intro safe_rules handle_safe)
qed (simp add: safe_basic)

lemma handle_event_safe: "safe I (handle_event env dn ev inn cs q)"
  unfolding handle_event_def process_queue_def on_poll_def signal_def
  by (intro safe_rules process_chains_safe poll_rounds_safe)

end

text \<open>Over a whole run, whose surroundings may differ from event to event.\<close>

fun event_env :: "(denv \<Rightarrow> bool) \<Rightarrow> dev_event \<Rightarrow> bool" where
  "event_env P (DevEvent dn ev inn cs q) = P dn"
| "event_env P DevBackend = True"
| "event_env P DevMemory = True"

lemma dev_run_inv:
  assumes "\<And>dn. P dn \<Longrightarrow> dev_inv I env dn" "P dn0"
  shows "list_all (event_env P) es \<Longrightarrow> dev_run env es d = Some d' \<Longrightarrow> I d \<Longrightarrow> I d'"
proof (induction es arbitrary: d)
  case (Cons e es)
  obtain r d1 where a: "dev_apply env e d = Some (r, d1)" "dev_run env es d1 = Some d'"
    using Cons.prems(2) by (auto split: option.splits)
  have "safe I (dev_apply env e)"
    using Cons.prems(1) assms dev_inv.handle_event_safe dev_inv.small_safe(8) [OF assms(1) [OF assms(2)]]
      dev_inv.reset [OF assms(1) [OF assms(2)]]
    by (cases e) (auto simp: dev_apply_def intro!: safe_rules)
  then have "I d1" using a(1) Cons.prems(3) unfolding safe_def by blast
  then show ?case using Cons.IH [OF _ a(2)] Cons.prems(1) by simp
qed simp

lemma register_waiter_notify_started:
  "register_waiter_notify dn fd d = Some (Inr u, d') \<longleftrightarrow> dn_epoll_add dn (d\<lparr> dv_next_poll_id := dv_next_poll_id d + 1 \<rparr>) fd (dv_next_poll_id d) \<and>
     d' = d\<lparr> dv_next_poll_id := dv_next_poll_id d + 1, dv_log := DcAdd fd (dv_next_poll_id d) True # dv_log d,
            dv_poll_srcs := AList.update (dv_next_poll_id d) PsWaiterNotify (dv_poll_srcs d) \<rparr>"
  by (auto simp: register_waiter_notify_def take_poll_id_def epoll_add_def bindm_def stepm_def modm_def fail_def dv_call_def Let_def)

lemma served_cases:
  assumes "served env p B tables dn notify es = Some d"
  obtains d0 where "dev_run env es d0 = Some d" "register_waiter_notify dn notify (device_new p B tables) = Some (Inr (), d0)"
  using assms by (auto simp: served_def split: option.splits sum.splits)

lemma list_all_any: "list_all (event_env (\<lambda>_. True)) es"
proof -
  have "event_env (\<lambda>_. True) e" for e by (cases e) simp_all
  then show ?thesis by (simp add: list_all_iff)
qed

end
