(* ===== verification/Answered.thy ===== *)
theory Answered
  imports Served
begin

text \<open>
  Nothing the guest sends makes the device panic, and every request gets one reply that carries
  its sequence number and announces its own length.
\<close>

section \<open>Computations that return\<close>

definition runs :: "('s \<Rightarrow> bool) \<Rightarrow> ('s, 'e, 'a) em \<Rightarrow> bool" where
  "runs I c \<longleftrightarrow> (\<forall>s. I s \<longrightarrow> wp c (\<lambda>_. I) s)"

lemma safe_wp: "(\<And>s. I s \<Longrightarrow> wp c (\<lambda>_. I) s) \<Longrightarrow> safe I c"
  by (fastforce simp: safe_def wp_def)

named_theorems runs_rules \<open>computations that return and keep an invariant\<close>

lemma runsD: "runs I c \<Longrightarrow> I s \<Longrightarrow> wp c (\<lambda>_. I) s"
  by (simp add: runs_def)

lemma runs_basic [runs_rules]:
  "runs I (ret a)" "runs I (fail e)" "runs I (getm g)" "runs I (refuse c e)"
  by (simp_all add: runs_def wp_simps)

lemma runs_step [runs_rules]:
  "(\<And>s. I s \<Longrightarrow> I (f s)) \<Longrightarrow> runs I (modm f)"
  "(\<And>s. I s \<Longrightarrow> I (snd (g s))) \<Longrightarrow> runs I (stepm g)"
  by (simp_all add: runs_def wp_simps)

lemma runs_bindm [runs_rules]: "runs I m \<Longrightarrow> (\<And>a. runs I (f a)) \<Longrightarrow> runs I (bindm m f)"
  unfolding runs_def wp_bindm by (auto intro: wp_mono simp: andthen_def split: sum.split)

lemma runs_seqm [runs_rules]: "runs I m \<Longrightarrow> runs I k \<Longrightarrow> runs I (seqm m k)"
  unfolding seqm_def by (rule runs_bindm)

lemma wp_bindI:
  "wp m (\<lambda>_. P) s \<Longrightarrow> (\<And>a s'. P s' \<Longrightarrow> wp (f a) Q s') \<Longrightarrow> (\<And>e s'. P s' \<Longrightarrow> Q (Inl e) s') \<Longrightarrow> wp (bindm m f) Q s"
  unfolding wp_bindm by (erule wp_mono) (simp add: andthen_def split: sum.split)

lemma runs_dropm [runs_rules]: "runs I m \<Longrightarrow> (\<And>s. I s \<Longrightarrow> I (c s)) \<Longrightarrow> runs I (dropm c m)"
  unfolding runs_def wp_dropm by (auto intro: wp_mono split: sum.split)

lemma runs_cases [runs_rules]:
  "(b \<Longrightarrow> runs I m) \<Longrightarrow> (\<not> b \<Longrightarrow> runs I k) \<Longrightarrow> runs I (if b then m else k)"
  "(x = None \<Longrightarrow> runs I n) \<Longrightarrow> (\<And>a. x = Some a \<Longrightarrow> runs I (g a)) \<Longrightarrow> runs I (case x of None \<Rightarrow> n | Some a \<Rightarrow> g a)"
  "(\<And>a b. p = (a, b) \<Longrightarrow> runs I (h a b)) \<Longrightarrow> runs I (case p of (a, b) \<Rightarrow> h a b)"
  "(\<And>a. q = Inl a \<Longrightarrow> runs I (l a)) \<Longrightarrow> (\<And>b. q = Inr b \<Longrightarrow> runs I (r b)) \<Longrightarrow> runs I (case q of Inl a \<Rightarrow> l a | Inr b \<Rightarrow> r b)"
  by (simp_all split: option.split prod.split sum.split)

lemma runs_whenm [runs_rules]: "(b \<Longrightarrow> runs I m) \<Longrightarrow> runs I (whenm b m)"
  by (simp add: whenm_def runs_rules)

lemma runs_foldm [runs_rules]: "(\<And>x a. runs I (f x a)) \<Longrightarrow> runs I (foldm f xs a)"
  by (induction xs arbitrary: a) (simp_all add: runs_rules)

section \<open>Sessions that can still open files\<close>

definition issued_in :: "sess \<Rightarrow> nat" where "issued_in se = unat (mi_next (se_mirror se))"

definition fresh :: "nat \<Rightarrow> device \<Rightarrow> bool" where
  "fresh n d \<longleftrightarrow> 1 \<le> n \<and> length (dv_tables d) < 2 ^ 63 \<and> (\<forall>k se. map_of (dv_sessions d) k = Some se \<longrightarrow> issued_in se \<le> n)"

definition has_session :: "u32 \<Rightarrow> nat \<Rightarrow> device \<Rightarrow> bool" where
  "has_session k n d \<longleftrightarrow> fresh n d \<and> map_of (dv_sessions d) k \<noteq> None"

lemma fresh_same: "dv_sessions d' = dv_sessions d \<Longrightarrow> dv_tables d' = dv_tables d \<Longrightarrow> fresh n d \<Longrightarrow> fresh n d'"
  by (simp add: fresh_def)

lemma has_session_same: "dv_sessions d' = dv_sessions d \<Longrightarrow> dv_tables d' = dv_tables d \<Longrightarrow> has_session k n d \<Longrightarrow> has_session k n d'"
  by (simp add: has_session_def fresh_def)

lemma fresh_mono: "fresh n d \<Longrightarrow> n \<le> m \<Longrightarrow> fresh m d"
  by (fastforce simp: fresh_def)

lemma has_session_fresh: "has_session k n d \<Longrightarrow> fresh n d"
  by (simp add: has_session_def)

lemma in_session_wp:
  assumes "has_session k n d" "\<And>se. issued_in se \<le> n \<Longrightarrow>
    wp c (\<lambda>r s. issued_in (st_se s) \<le> m \<and> Q r) \<lparr> st_se = se, st_x = dv_x d \<rparr>" "n \<le> m"
  shows "wp (in_session k c) (\<lambda>r d'. has_session k m d' \<and> Q r) d"
proof -
  obtain se where se: "map_of (dv_sessions d) k = Some se" "issued_in se \<le> n"
    using assms(1) by (auto simp: has_session_def fresh_def)
  have other: "issued_in se' \<le> m" if "map_of (dv_sessions d) k' = Some se'" for k' se'
    using that assms(1,3) by (fastforce simp: has_session_def fresh_def)
  show ?thesis
    using assms(1,3) se assms(2) [OF se(2)] other
    by (auto simp: wp_def in_session_def has_session_def fresh_def update_conv' split: option.splits)
qed

lemma in_session_runs: "runs (\<lambda>s. issued_in (st_se s) \<le> n) c \<Longrightarrow> runs (has_session k n) (in_session k c)"
  unfolding runs_def using in_session_wp [of k n _ c n "\<lambda>_. True"] by simp

section \<open>The parts of the device\<close>

text \<open>A property of the device that the sessions and the tables alone decide.\<close>

definition of_sessions :: "(device \<Rightarrow> bool) \<Rightarrow> bool" where
  "of_sessions I \<longleftrightarrow> (\<forall>d d'. dv_sessions d' = dv_sessions d \<longrightarrow> dv_tables d' = dv_tables d \<longrightarrow> I d \<longrightarrow> I d')"

lemma of_sessionsD: "of_sessions I \<Longrightarrow> I d \<Longrightarrow> dv_sessions d' = dv_sessions d \<Longrightarrow> dv_tables d' = dv_tables d \<Longrightarrow> I d'"
  by (auto simp: of_sessions_def)

lemma of_sessions_fresh [simp]: "of_sessions (fresh n)" "of_sessions (has_session k n)"
  by (auto simp: of_sessions_def fresh_def has_session_def)

lemma unregister_keeps [simp]:
  "dv_sessions (unregister_id pid h d) = dv_sessions d" "dv_tables (unregister_id pid h d) = dv_tables d"
  by (simp_all add: unregister_id_def dv_call_def Let_def split: option.split)

lemma unregister_more [simp]:
  "dv_sessions (unregister_token g t d) = dv_sessions d" "dv_tables (unregister_token g t d) = dv_tables d"
  "dv_sessions (unregister_event_ctl g c d) = dv_sessions d" "dv_tables (unregister_event_ctl g c d) = dv_tables d"
  "dv_sessions (x_mod f d) = dv_sessions d" "dv_tables (x_mod f d) = dv_tables d"
  "dv_sessions (dv_call call d) = dv_sessions d" "dv_tables (dv_call call d) = dv_tables d"
  by (simp_all add: unregister_token_def unregister_event_ctl_def x_mod_def dv_call_def split: option.split)

lemma fold_keeps: "(\<And>x d. dv_sessions (f x d) = dv_sessions d) \<Longrightarrow> dv_sessions (fold f xs d) = dv_sessions d"
  "(\<And>x d. dv_tables (f x d) = dv_tables d) \<Longrightarrow> dv_tables (fold f xs d) = dv_tables d"
  by (induction xs arbitrary: d) simp_all

lemma runs_quiet:
  assumes "of_sessions I"
  shows "runs I (waiter_request dn op)" "runs I (release_window dn off)" "runs I (place_mapping dn g off fd len)"
    "runs I event_failed" "runs I next_seq" "runs I count_wake" "runs I (push_event dn rq)" "runs I (signal dn b)"
    "runs I take_poll_id" "runs I (epoll_add dn fd pid)"
  unfolding waiter_request_def release_window_def place_mapping_def event_failed_def next_seq_def count_wake_def push_event_def
    signal_def take_poll_id_def epoll_add_def
  by (intro runs_rules; erule of_sessionsD [OF assms];
      simp add: Let_def no_queue_def no_slot_def split: option.split prod.split event_slot.split)+

lemma runs_poll_set:
  assumes "of_sessions I"
  shows "runs I (waiters_cancel dn g ids)" "runs I (waiters_take dn)" "runs I (deliver dn w mk)" "runs I (release_window_of dn g)"
    "runs I (unregister_proc dn g)"
  unfolding waiters_cancel_def waiters_take_def deliver_def release_window_of_def unregister_proc_def
  by (intro runs_rules runs_quiet [OF assms]; (erule of_sessionsD [OF assms]; simp add: fold_keeps split: prod.split)?)+

lemma runs_register: "of_sessions I \<Longrightarrow> runs I (register_pollables dn g ps)"
proof (induction ps)
  case (Cons p ps)
  have "runs I (register_pollable dn g p)" if "\<And>r fd. p \<noteq> PollWaiter r fd"
    using that Cons.prems unfolding register_pollable_def
    by (cases p; simp add: poll_key_def poll_entry_def)
      (intro runs_rules runs_quiet; (assumption | erule of_sessionsD; simp)?)+
  then show ?case using Cons by (cases p) (simp_all add: runs_rules runs_quiet)
qed (simp add: runs_rules)

section \<open>The parts of a session\<close>

abbreviation few :: "nat \<Rightarrow> st \<Rightarrow> bool" where "few n s \<equiv> issued_in (st_se s) \<le> n"

lemma few_runs [runs_rules]:
  "(\<And>se. se_mirror (f se) = se_mirror se) \<Longrightarrow> runs (few n) (se_mod f)"
  "runs (few n) (se_get g)" "runs (few n) (sys_ioctl env fd c a b)" "runs (few n) (sys_close fd)" "runs (few n) (sys_dup env fd)"
  unfolding sys_ioctl_def sys_close_def sys_dup_def
  by (intro runs_rules; simp add: issued_in_def Let_def split: option.split)+

lemma drain_loop_runs: "runs (few n) (drain_loop env i c fd out)"
proof (induction i arbitrary: out)
  case (Suc i)
  show ?case unfolding drain_loop.simps by (intro runs_rules Suc; simp add: drop_ctl_def)
qed (simp add: runs_rules)

lemma pool_push_mirror [simp]: "se_mirror (pool_push c sl s) = se_mirror s"
  by (simp add: pool_push_def)

lemma session_parts_run:
  "runs (few n) (drain_os_events env c)" "runs (few n) (take_pending_map env t)"
  "runs (few n) (stepm (\<lambda>s. case take_pollables (st_se s) of (a, se) \<Rightarrow> (a, s\<lparr> st_se := se \<rparr>)))"
  "runs (few n) (stepm (\<lambda>s. case take_unwatch (st_se s) of (a, se) \<Rightarrow> (a, s\<lparr> st_se := se \<rparr>)))"
  "runs (few n) (stepm (\<lambda>s. case take_ctl_unwatch (st_se s) of (a, se) \<Rightarrow> (a, s\<lparr> st_se := se \<rparr>)))"
  "runs (few n) (stepm (\<lambda>s. case semsurf_wake r (st_se s) of (a, se) \<Rightarrow> (a, s\<lparr> st_se := se \<rparr>)))"
  unfolding drain_os_events_def take_pending_map_def
  by (intro runs_rules drain_loop_runs; simp add: issued_in_def take_pollables_def take_unwatch_def take_ctl_unwatch_def
      semsurf_wake_def split: option.split)+

lemma finish_unwatch_mirror: "finish_unwatch rs s x = (s', x') \<Longrightarrow> se_mirror s' = se_mirror s"
  by (induction rs s x rule: finish_unwatch.induct) (auto split: option.splits)

lemma finish_unwatch_runs:
  "runs (few n) (modm (\<lambda>s. case finish_unwatch rs (st_se s) (st_x s) of (se, x) \<Rightarrow> s\<lparr> st_se := se, st_x := x \<rparr>))"
  by (intro runs_rules) (auto simp: issued_in_def split: prod.split dest: finish_unwatch_mirror)

lemma set_guest_mem_runs: "runs (has_session k n) (set_guest_mem k)"
  unfolding set_guest_mem_def by (intro runs_rules in_session_runs) simp

lemma after_session_runs: "runs (has_session k n) (after_session dn k out)"
proof -
  have ctl: "has_session k n (fold (\<lambda>(c, fd) d. x_mod (x_close fd) (unregister_event_ctl k c d)) cs d)" if "has_session k n d" for cs d
    by (rule of_sessionsD [where d = d]) (use that in \<open>simp_all add: fold_keeps case_prod_unfold\<close>)
  have upd: "has_session k n (x_mod f d)" if "has_session k n d" for f d by (rule of_sessionsD [where d = d]) (use that in simp_all)
  show ?thesis unfolding after_session_def
    by (intro runs_rules in_session_runs session_parts_run finish_unwatch_runs runs_quiet runs_poll_set runs_register
        of_sessions_fresh ctl upd)
qed

lemma bindm_Inr: "bindm m f s = Some (Inr b, s') \<Longrightarrow> \<exists>a s1. m s = Some (Inr a, s1) \<and> f a s1 = Some (Inr b, s')"
  by (auto simp: bindm_def split: option.splits sum.splits)

lemma after_session_out: "after_session dn k out d = Some (Inr b, d') \<Longrightarrow> b = out"
  unfolding after_session_def seqm_def by (auto dest!: bindm_Inr split: if_splits simp: ret_def fail_def)

lemma session_for_wp:
  assumes "fresh n d"
  shows "wp (session_for k) (\<lambda>r d'. fresh n d' \<and> (r = Inr True \<longrightarrow> has_session k n d')) d"
  using assms by (auto simp: session_for_def wp_simps has_session_def fresh_def update_conv' issued_in_def detached_proc_def mirror_new_def)

section \<open>Requests\<close>

definition seq_of :: "bytes \<Rightarrow> u32" where
  "seq_of msg = (case req_from_bytes msg of None \<Rightarrow> 0 | Some rq \<Rightarrow> rq_seq rq)"

definition answer :: "u32 \<Rightarrow> nat \<Rightarrow> int + bytes \<Rightarrow> device \<Rightarrow> bool" where
  "answer sq n r d \<longleftrightarrow> fresh n d \<and> (\<forall>b. r = Inr b \<longrightarrow> framed sq b)"

lemma framed_device: "framed sq (err_rsp sq e)" "framed sq (done_rsp sq t)"
  by (simp_all add: framed_def err_rsp_def done_rsp_def rsp_codec.dec_enc [where rest = "[]", simplified] rsp_codec.enc_length rsp_default_def)

lemma has_session_answer: "has_session k n d \<Longrightarrow> (\<And>b. r = Inr b \<Longrightarrow> framed sq b) \<Longrightarrow> answer sq n r d"
  by (simp add: answer_def has_session_fresh)

lemma handle_in_session:
  assumes "senv_ok env" "n < 2 ^ 64 - 1" "has_session k n d"
  shows "wp (in_session k (handle_msg_with env msg afd ffd)) (\<lambda>r d'. has_session k (n + 1) d' \<and> (\<exists>b. r = Inr b \<and> replied msg b)) d"
proof (rule in_session_wp [OF assms(3)])
  fix se :: sess assume "issued_in se \<le> n"
  then have "issued \<lparr> st_se = se, st_x = dv_x d \<rparr> < 2 ^ 64 - 1" "issued \<lparr> st_se = se, st_x = dv_x d \<rparr> \<le> n"
    using assms(2) by (simp_all add: issued_def issued_in_def)
  then show "wp (handle_msg_with env msg afd ffd) (\<lambda>r s. issued_in (st_se s) \<le> n + 1 \<and> (\<exists>b. r = Inr b \<and> replied msg b))
      \<lparr> st_se = se, st_x = dv_x d \<rparr>"
    using handle_msg_replied [OF assms(1), of "\<lparr> st_se = se, st_x = dv_x d \<rparr>" msg afd ffd]
    by (fastforce simp: wp_Some issued_def issued_in_def)
qed simp

lemma on_map_release_answers: "fresh n d \<Longrightarrow> wp (on_map_release dn rq) (answer (rq_seq rq) n) d"
  unfolding on_map_release_def wp_bindm
  by (rule wp_mono [OF runsD [OF runs_quiet(2), of "fresh n"]])
    (auto simp: andthen_def answer_def wp_simps framed_device split: sum.split)

lemma on_proc_gone_answers:
  assumes "fresh n d"
  shows "wp (on_proc_gone env dn rq) (answer (rq_seq rq) n) d"
proof -
  have gone: "fresh n (d\<lparr> dv_sessions := AList.delete k (dv_sessions d) \<rparr>)" if "fresh n d" for k d
    using that by (auto simp: fresh_def AList.delete_conv')
  have "runs (fresh n) (on_proc_gone env dn rq)"
    unfolding on_proc_gone_def
    by (intro runs_rules runs_poll_set runs_quiet of_sessions_fresh)
      (auto split: option.split intro: of_sessionsD [OF of_sessions_fresh(1)] gone)
  moreover have "framed (rq_seq rq) b" if "on_proc_gone env dn rq d = Some (Inr b, d')" for b d'
    using that unfolding on_proc_gone_def seqm_def
    by (auto dest!: bindm_Inr split: if_splits simp: ret_def fail_def framed_device)
  ultimately show ?thesis using assms by (fastforce simp: runs_def wp_Some answer_def)
qed

lemma framed_chunk:
  "length b < 2 ^ 32 \<Longrightarrow>
   framed sq (rsp_as_bytes (rsp_default\<lparr> rs_seq := sq, rs_token := t, rs_inline_len := word_of_nat (length b) \<rparr>) @ b)"
  by (simp add: framed_def rsp_codec.dec_enc rsp_codec.enc_length rsp_default_def unsigned_of_nat take_bit_nat_eq_self)

definition tables_end :: "req \<Rightarrow> nat \<Rightarrow> u64" where
  "tables_end rq n = min (rq_addr rq + max (min (rq_map_len rq) (word_of_nat MAX_PAYLOAD)) 1) (word_of_nat n)"

lemma tables_end_nat:
  assumes "n < 2 ^ 63" "unat (rq_addr rq) \<le> n"
  shows "unat (tables_end rq n) = min (unat (rq_addr rq) + max (min (unat (rq_map_len rq)) MAX_PAYLOAD) 1) n"
proof -
  let ?want = "max (min (rq_map_len rq) (word_of_nat MAX_PAYLOAD)) (1 :: u64)"
  have p: "unat (word_of_nat MAX_PAYLOAD :: u64) = MAX_PAYLOAD" "unat (word_of_nat n :: u64) = n"
    using assms(1) by (simp_all add: MAX_PAYLOAD_def unsigned_of_nat take_bit_nat_eq_self)
  have mm: "unat (min a b) = min (unat a) (unat b)" "unat (max a b) = max (unat a) (unat b)" for a b :: u64
    by (simp_all add: min_def max_def word_le_nat_alt)
  have w: "unat ?want = max (min (unat (rq_map_len rq)) MAX_PAYLOAD) 1" by (simp only: mm p unsigned_1)
  then have "unat (rq_addr rq + ?want) = unat (rq_addr rq) + unat ?want"
    using assms by (intro unat_add_bounded) (simp add: MAX_PAYLOAD_def)
  then show ?thesis by (simp only: tables_end_def mm p w unsigned_1)
qed

lemma on_get_tables_wp:
  "length (dv_tables d) < 2 ^ 63 \<Longrightarrow> wp (on_get_tables rq) Q d \<longleftrightarrow>
    (if length (dv_tables d) < unat (rq_addr rq) then Q (Inl EINVAL) d
     else let chunk = subslice (unat (rq_addr rq)) (unat (tables_end rq (length (dv_tables d))) - unat (rq_addr rq)) (dv_tables d) in
       Q (Inr (rsp_as_bytes (rsp_default\<lparr> rs_seq := rq_seq rq, rs_token := word_of_nat (length (dv_tables d)),
          rs_inline_len := word_of_nat (length chunk) \<rparr>) @ chunk)) d)"
  (is "_ \<Longrightarrow> ?W \<longleftrightarrow> ?R")
proof -
  assume f: "length (dv_tables d) < 2 ^ 63"
  have T: "unat (word_of_nat (length (dv_tables d)) :: u64) = length (dv_tables d)" "length (dv_tables d) < 2 ^ 63"
    using f by (simp_all add: unsigned_of_nat take_bit_nat_eq_self)
  have "rq_addr rq \<le> tables_end rq (length (dv_tables d)) \<and> unat (tables_end rq (length (dv_tables d))) \<le> length (dv_tables d)"
    if "unat (rq_addr rq) \<le> length (dv_tables d)"
    using tables_end_nat [OF T(2) that] that by (simp add: word_le_nat_alt)
  then show "?W \<longleftrightarrow> ?R"
    by (simp add: on_get_tables_def wp_simps Let_def tables_end_def [symmetric] word_less_nat_alt T not_less del: min.bounded_iff)
qed

lemma on_get_tables_answers:
  assumes "fresh n d"
  shows "wp (on_get_tables rq) (answer (rq_seq rq) n) d"
proof -
  have "unat (tables_end rq (length (dv_tables d))) - unat (rq_addr rq) < 2 ^ 32" if "unat (rq_addr rq) \<le> length (dv_tables d)"
    using tables_end_nat [of "length (dv_tables d)" rq] assms that by (simp add: fresh_def MAX_PAYLOAD_def)
  then have "framed (rq_seq rq) (rsp_as_bytes (rsp_default\<lparr> rs_seq := rq_seq rq, rs_token := t,
       rs_inline_len := word_of_nat (length b) \<rparr>) @ b)"
    if "unat (rq_addr rq) \<le> length (dv_tables d)"
      "b = subslice (unat (rq_addr rq)) (unat (tables_end rq (length (dv_tables d))) - unat (rq_addr rq)) (dv_tables d)" for b t
    using that by (intro framed_chunk) (simp add: subslice_def)
  moreover have "length (dv_tables d) < 2 ^ 63" using assms by (simp add: fresh_def)
  ultimately show ?thesis using assms by (simp add: on_get_tables_wp answer_def Let_def)
qed

lemma found_session:
  assumes "fresh n d" "n \<le> m" "\<And>d'. has_session k n d' \<Longrightarrow> wp c (answer sq m) d'"
  shows "wp (bindm (session_for k) (\<lambda>found. seqm (refuse (\<not> found) e) (seqm (set_guest_mem k) c))) (answer sq m) d"
proof -
  have mem: "wp (seqm (set_guest_mem k) c) (answer sq m) d'" if "has_session k n d'" for d'
    unfolding wp_seqm
    by (rule wp_mono [OF runsD [OF set_guest_mem_runs that]])
      (use assms(2,3) in \<open>auto simp: andthen_def answer_def dest: has_session_fresh intro: fresh_mono split: sum.split\<close>)
  show ?thesis unfolding wp_bindm
    by (rule wp_mono [OF session_for_wp [OF assms(1)]])
      (use assms(2) mem in \<open>auto simp: andthen_def wp_simps answer_def intro: fresh_mono split: sum.split\<close>)
qed

lemma device_map_prepare_answers:
  assumes "senv_ok env" "n < 2 ^ 64 - 1" "fresh n d" "req_from_bytes msg = Some rq"
  shows "wp (device_map_prepare env dn rq msg) (answer (rq_seq rq) (n + 1)) d"
  unfolding device_map_prepare_def
proof (rule found_session [OF assms(3)])
  fix d' assume has_session: "has_session (rq_guest_proc rq) n d'"
  have close: "fresh m (x_mod f d)" if "fresh m d" for f d m
    by (rule of_sessionsD [where d = d]) (use that in simp_all)
  have place: "wp (seqm (dropm (x_mod (x_close fd)) (place_mapping dn (rq_guest_proc rq) (rq_addr rq) fd len))
      (ret (done_rsp (rq_seq rq) t))) (answer (rq_seq rq) (n + 1)) d" if "fresh (n + 1) d" for fd len t d
    unfolding wp_seqm wp_dropm
    by (rule wp_mono [OF runsD [OF runs_quiet(3) [OF of_sessions_fresh(1)] that]])
      (auto simp: andthen_def answer_def wp_simps framed_device close split: sum.split)
  have take: "wp (bindm (in_session (rq_guest_proc rq) (take_pending_map env t)) (\<lambda>taken.
        case taken of
          None \<Rightarrow> fail EIO
        | Some (fd, len, d) \<Rightarrow>
            seqm (dropm (x_mod (x_close fd)) (place_mapping dn (rq_guest_proc rq) (rq_addr rq) fd len))
            (ret (done_rsp (rq_seq rq) (ucast (cache_for d)))))) (answer (rq_seq rq) (n + 1)) d"
    if "has_session (rq_guest_proc rq) (n + 1) d" for t d
    unfolding wp_bindm
    by (rule wp_mono [OF runsD [OF in_session_runs [OF session_parts_run(2)] that]])
      (use place in \<open>auto simp: andthen_def answer_def wp_fail dest: has_session_fresh split: sum.split option.split\<close>)
  show "wp (bindm (in_session (rq_guest_proc rq) (handle_msg_with env msg None None)) (\<lambda>out.
     case out of
       None \<Rightarrow> fail EPROTO
     | Some b \<Rightarrow>
         (case rsp_from_bytes b of
            None \<Rightarrow> fail EIO
          | Some r \<Rightarrow>
              if rs_ret r \<noteq> 0 then ret b
              else
                bindm (in_session (rq_guest_proc rq) (take_pending_map env (rs_token r))) (\<lambda>taken.
                case taken of
                  None \<Rightarrow> fail EIO
                | Some (fd, len, d) \<Rightarrow>
                    seqm (dropm (x_mod (x_close fd)) (place_mapping dn (rq_guest_proc rq) (rq_addr rq) fd len))
                    (ret (done_rsp (rq_seq rq) (ucast (cache_for d)))))))) (answer (rq_seq rq) (n + 1)) d'"
    unfolding wp_bindm [of "in_session _ (handle_msg_with _ _ _ _)"]
    by (rule wp_mono [OF handle_in_session [OF assms(1,2) has_session]])
      (use take assms(4) in \<open>auto simp: andthen_def replied_def answer_def wp_fail wp_ret dest: has_session_fresh split: option.split\<close>)
qed simp

lemma to_session_answers:
  assumes "senv_ok env" "n < 2 ^ 64 - 1" "fresh n d" "req_from_bytes msg = Some rq"
  shows "wp (to_session env dn rq msg) (answer (rq_seq rq) (n + 1)) d"
proof -
  have after: "wp (after_session dn k b) (answer (rq_seq rq) (n + 1)) d" if "has_session k (n + 1) d" "framed (rq_seq rq) b" for k b d
    using runsD [OF after_session_runs that(1), of dn b] after_session_out that(2) has_session_fresh
    by (fastforce simp: wp_Some answer_def)
  have body: "wp (bindm (session_for (rq_guest_proc rq)) (\<lambda>found.
     seqm (refuse (\<not> found) ENOMEM)
     (seqm (set_guest_mem (rq_guest_proc rq))
     (bindm (in_session (rq_guest_proc rq) (handle_msg_with env msg afd ffd)) (\<lambda>out.
      after_session dn (rq_guest_proc rq) (case out of Some b \<Rightarrow> b | None \<Rightarrow> err_rsp (rq_seq rq) EPROTO))))))
      (answer (rq_seq rq) (n + 1)) d1" if "fresh n d1" for afd ffd d1
  proof (rule found_session [OF that])
    fix d' assume has_session: "has_session (rq_guest_proc rq) n d'"
    show "wp (bindm (in_session (rq_guest_proc rq) (handle_msg_with env msg afd ffd)) (\<lambda>out.
      after_session dn (rq_guest_proc rq) (case out of Some b \<Rightarrow> b | None \<Rightarrow> err_rsp (rq_seq rq) EPROTO)))
      (answer (rq_seq rq) (n + 1)) d'"
      unfolding wp_bindm
      by (rule wp_mono [OF handle_in_session [OF assms(1,2) has_session]])
        (use after assms(4) in \<open>auto simp: andthen_def replied_def\<close>)
  qed simp
  have "fresh n (unregister_token g t d)" for g t by (rule of_sessionsD [where d = d]) (use assms(3) in simp_all)
  then show ?thesis using body assms(3) unfolding to_session_def
    by (simp add: wp_seqm [of "whenm _ _"] wp_whenm wp_modm wp_bindm [of "getm _"] wp_getm)
qed

lemma answer_mono: "wp m (answer sq n) d \<Longrightarrow> n \<le> k \<Longrightarrow> wp m (answer sq k) d"
  by (erule wp_mono) (auto simp: answer_def intro: fresh_mono)

lemma err_answer_wp: "wp m (answer sq n) d \<Longrightarrow> wp (err_answer sq m) (\<lambda>r d'. fresh n d' \<and> (\<exists>b. r = Inr b \<and> framed sq b)) d"
  by (auto simp: wp_def err_answer_def answer_def framed_device split: option.splits sum.splits)

lemma handle_answers:
  assumes "senv_ok env" "n < 2 ^ 64 - 1" "fresh n d"
  shows "wp (handle env dn msg) (\<lambda>r d'. fresh (n + 1) d' \<and> (\<exists>b. r = Inr b \<and> framed (seq_of msg) b)) d"
proof (cases "req_from_bytes msg")
  case None
  then show ?thesis using fresh_mono [OF assms(3), of "n + 1"] by (simp add: handle_def wp_simps framed_device seq_of_def)
next
  case (Some rq)
  note up = answer_mono [of _ "rq_seq rq" n d "n + 1"]
  have "wp (bindm (getm dv_event_error) (\<lambda>failed. seqm (refuse failed EIO)
           (if rq_kind rq = KIND_GET_TABLES then on_get_tables rq
            else if rq_kind rq = KIND_MAP_RELEASE then on_map_release dn rq
            else if rq_kind rq = KIND_PROC_GONE then on_proc_gone env dn rq
            else if rq_kind rq = kind_to_u32 MapPrepare then device_map_prepare env dn rq msg
            else to_session env dn rq msg))) (answer (rq_seq rq) (n + 1)) d"
    using up [OF on_get_tables_answers [OF assms(3)]] up [OF on_map_release_answers [OF assms(3)]]
      up [OF on_proc_gone_answers [OF assms(3)]] device_map_prepare_answers [OF assms Some] to_session_answers [OF assms Some]
      fresh_mono [OF assms(3), of "n + 1"]
    by (simp add: wp_simps answer_def)
  from err_answer_wp [OF this] show ?thesis by (simp add: handle_def Some seq_of_def)
qed

section \<open>Events\<close>

lemma in_session_found:
  "runs (few n) c \<Longrightarrow> (\<And>a. runs (has_session k n) (f a)) \<Longrightarrow> fresh n d \<Longrightarrow> map_of (dv_sessions d) k \<noteq> None \<Longrightarrow>
    wp (bindm (in_session k c) f) (\<lambda>_. fresh n) d"
  by (rule wp_mono [OF runsD [OF runs_bindm [OF in_session_runs]]]) (auto simp: has_session_def)

lemma poll_event_ctl_runs: "runs (fresh n) (poll_event_ctl env dn pid g c w)"
proof -
  have del: "has_session g n (unregister_id pid None d)" if "has_session g n d" for d
    by (rule of_sessionsD [where d = d]) (use that in simp_all)
  have gone: "fresh n (unregister_id pid None d)" if "fresh n d" for d
    by (rule of_sessionsD [where d = d]) (use that in simp_all)
  have "wp (poll_event_ctl env dn pid g c w) (\<lambda>_. fresh n) d" if "fresh n d" for d
  proof (cases "map_of (dv_sessions d) g")
    case None
    then show ?thesis using gone [OF that] by (simp add: poll_event_ctl_def wp_simps)
  next
    case (Some se)
    have "wp (bindm (in_session g (drain_os_events env c)) (\<lambda>fs.
      bindm (in_session g (se_get (\<lambda>s. has_event_ctl s c))) (\<lambda>alive.
      seqm (whenm (\<not> alive) (dv_mod (unregister_id pid None)))
      (foldm (\<lambda>f w. deliver dn w (os_event g f)) fs w)))) (\<lambda>_. fresh n) d"
      by (rule in_session_found [OF session_parts_run(1) _ that])
        (intro runs_rules in_session_runs runs_poll_set of_sessions_fresh del | simp add: Some)+
    then show ?thesis by (simp add: poll_event_ctl_def wp_bindm [of "getm _"] wp_getm Some)
  qed
  then show ?thesis by (simp add: runs_def)
qed

lemma wake_session_runs: "runs (fresh n) (wake_session w)"
proof -
  have "wp (wake_session w) (\<lambda>_. fresh n) d" if "fresh n d" for d
  proof (cases "map_of (dv_sessions d) (fi_guest_proc w)")
    case None
    then show ?thesis using that by (simp add: wake_session_def wp_simps)
  next
    case (Some se)
    then have "wp (in_session (fi_guest_proc w) (stepm (\<lambda>s. case semsurf_wake (fi_registration w) (st_se s) of
        (a, se) \<Rightarrow> (a, s\<lparr> st_se := se \<rparr>)))) (\<lambda>_. fresh n) d"
      using that by (intro wp_mono [OF runsD [OF in_session_runs [OF session_parts_run(6)]]]) (auto simp: has_session_def)
    then show ?thesis by (simp add: wake_session_def wp_bindm wp_getm Some)
  qed
  then show ?thesis by (simp add: runs_def)
qed

lemma on_poll_event_runs: "runs (fresh n) (on_poll_event env dn ev w)"
proof -
  have gone: "fresh n (unregister_id pid None d)" if "fresh n d" for d pid
    by (rule of_sessionsD [where d = d]) (use that in simp_all)
  have wait: "runs (fresh n) (poll_waiter dn f w)" for f w
    unfolding poll_waiter_def
    by (intro runs_rules wake_session_runs runs_poll_set runs_quiet of_sessions_fresh)
  have "runs (fresh n) (poll_client dn g t w)" for g t
    unfolding poll_client_def by (intro runs_rules runs_poll_set runs_quiet of_sessions_fresh)
  then show ?thesis unfolding on_poll_event_def
    by (cases ev) (auto intro!: runs_rules poll_event_ctl_runs wait runs_poll_set gone split: option.split poll_src.split)
qed

lemma poll_rounds_runs: "runs (fresh n) (poll_rounds env dn i w)"
proof (induction i arbitrary: w)
  case (Suc i)
  have log: "fresh n (dv_call DcWait d)" if "fresh n d" for d
    by (rule of_sessionsD [where d = d]) (use that in simp_all)
  show ?case unfolding poll_rounds.simps
    by (intro runs_rules; (simp add: log)?)
      (auto intro!: runs_rules on_poll_event_runs Suc split: poll_wait.split list.split simp del: poll_rounds.simps foldm.simps)
qed (simp add: runs_rules)

lemma on_poll_runs: "runs (fresh n) (on_poll env dn)"
  unfolding on_poll_def by (intro runs_rules poll_rounds_runs runs_quiet of_sessions_fresh)

section \<open>The request queue and runs\<close>

lemma process_chains_runs:
  assumes "senv_ok env"
  shows "n + length cs < 2 ^ 64 \<Longrightarrow> fresh n d \<Longrightarrow> wp (process_chains env dn cs) (\<lambda>_. fresh (n + length cs)) d"
proof (induction cs arbitrary: n d)
  case (Cons c cs)
  let ?N = "n + length (c # cs)"
  have up: "fresh ?N d'" if "fresh (n + 1) d'" for d' using that by (rule fresh_mono) simp
  have now: "fresh (n + 1) d" using Cons.prems(2) by (rule fresh_mono) simp
  have hd: "wp (handle env dn (vc_msg c)) (\<lambda>_. fresh (n + 1)) d"
    by (rule wp_mono [OF handle_answers [OF assms _ Cons.prems(2)]]) (use Cons.prems(1) in simp_all)
  have step: "wp (if length (vc_msg c) < REQ_LEN \<or> MAX_MSG < length (vc_msg c) then ret (err_rsp 0 EMSGSIZE)
            else if vc_readable c then handle env dn (vc_msg c) else ret (err_rsp 0 EIO)) (\<lambda>_. fresh (n + 1)) d"
    using hd now by (simp add: wp_ret)
  have rest: "wp (bindm (process_chains env dn cs) (\<lambda>rs. ret (r # rs))) (\<lambda>_. fresh ?N) d'" if "fresh (n + 1) d'" for d' r
    unfolding wp_bindm
    by (rule wp_mono [OF Cons.IH [OF _ that]]) (use Cons.prems(1) in \<open>simp_all add: andthen_def wp_ret split: sum.split\<close>)
  have tail: "wp (bindm (getm dv_event_error) (\<lambda>failed.
     seqm (refuse failed EIO)
     (let r = fit_response (vc_room c) resp; k = min (length r) (vc_room c) in
      seqm (refuse (\<not> vc_used c) EIO)
      (bindm (process_chains env dn cs) (\<lambda>rs. ret (take k r # rs)))))) (\<lambda>_. fresh ?N) d'" if "fresh (n + 1) d'" for d' resp
    unfolding wp_bindm [of "getm _"] wp_getm andthen_simps wp_seqm [of "refuse _ _"] wp_refuse Let_def
    using up [OF that] rest [OF that] by simp
  show ?case
    unfolding process_chains.simps wp_seqm [of "refuse (\<not> vc_usable c) EIO"] wp_refuse andthen_simps
    using up [OF now] wp_bindI [OF step tail up] by simp
qed (simp add: wp_simps)

definition chains_of :: "dev_event \<Rightarrow> nat" where
  "chains_of e = (case e of DevEvent _ _ _ cs _ \<Rightarrow> length cs | _ \<Rightarrow> 0)"

lemma dev_apply_runs:
  assumes "senv_ok env" "n + chains_of e < 2 ^ 64" "fresh n d"
  shows "wp (dev_apply env e) (\<lambda>_. fresh (n + chains_of e)) d"
proof (cases e)
  case (DevEvent dn q b cs h)
  have up: "fresh (n + length cs) d" using assms(3) by (rule fresh_mono) simp
  have q: "wp (process_queue env dn cs) (\<lambda>_. fresh (n + length cs)) d"
  proof -
    have "runs (fresh (n + length cs)) (seqm (signal dn w) (ret rs))" for w and rs :: "bytes list"
      by (intro runs_rules runs_quiet of_sessions_fresh)
    then show ?thesis unfolding process_queue_def wp_bindm [of "getm _"] wp_getm andthen_simps wp_seqm [of "refuse _ _"] wp_refuse
        wp_bindm [of "process_chains _ _ _"]
      using up wp_mono [OF process_chains_runs [OF assms(1) _ assms(3)]] assms(2) DevEvent
      by (auto simp: runs_def chains_of_def andthen_def split: sum.split)
  qed
  have "runs (fresh n) (seqm (on_poll env dn) (ret ([] :: bytes list)))" by (intro runs_rules on_poll_runs)
  then have p: "wp (seqm (on_poll env dn) (ret ([] :: bytes list))) (\<lambda>_. fresh (n + length cs)) d"
    using assms(3) unfolding runs_def by (blast intro: wp_mono fresh_mono le_add1)
  show ?thesis using q p up by (simp add: DevEvent dev_apply_def handle_event_def chains_of_def wp_ret)
qed (use assms(3) in \<open>simp_all add: dev_apply_def wp_simps chains_of_def fresh_def set_backend_req_fd_def update_memory_def\<close>)

lemma dev_run_total:
  "senv_ok env \<Longrightarrow> n + sum_list (map chains_of es) < 2 ^ 64 \<Longrightarrow> fresh n d \<Longrightarrow>
    \<exists>d'. dev_run env es d = Some d' \<and> fresh (n + sum_list (map chains_of es)) d'"
proof (induction es arbitrary: n d)
  case (Cons e es)
  obtain r d1 where s: "dev_apply env e d = Some (r, d1)" "fresh (n + chains_of e) d1"
    using dev_apply_runs [OF Cons.prems(1) _ Cons.prems(3), of e] Cons.prems(2) by (auto simp: wp_Some)
  show ?case using Cons.IH [OF Cons.prems(1) _ s(2)] Cons.prems(2) s(1) by (simp add: add.assoc)
qed simp

lemma served_total:
  assumes "senv_ok env" "length tables < 2 ^ 63" "dn_epoll_add dn (device_new p B tables \<lparr> dv_next_poll_id := 2 \<rparr>) notify 1"
    "sum_list (map chains_of es) < 2 ^ 64 - 1"
  shows "\<exists>d. served env p B tables dn notify es = Some d \<and> fresh (1 + sum_list (map chains_of es)) d"
proof -
  obtain d0 where d0: "register_waiter_notify dn notify (device_new p B tables) = Some (Inr (), d0)"
      "dv_sessions d0 = []" "dv_tables d0 = tables"
    using assms(3) by (simp add: register_waiter_notify_started device_new_def)
  then have "fresh 1 d0" using assms(2) by (simp add: fresh_def)
  from dev_run_total [OF assms(1) _ this, of es] assms(4) d0(1) show ?thesis by (auto simp: served_def)
qed

section \<open>A run\<close>

definition sample_denv :: denv where
  "sample_denv = \<lparr> dn_epoll_add = (\<lambda>_ _ _. True), dn_wait = (\<lambda>_. PwReady [(1, False)]), dn_shmem_map = (\<lambda>_ _ _. True),
     dn_shmem_unmap = (\<lambda>_ _. True), dn_probe = (\<lambda>_ _ _. None), dn_polls = (\<lambda>_. []), dn_pace = None,
     dn_slot = (\<lambda>_. InBuf 200 True True), dn_signal = (\<lambda>_. True), dn_test_oob = False \<rparr>"

definition sample_chain :: "bytes \<Rightarrow> vchain" where
  "sample_chain msg = \<lparr> vc_usable = True, vc_msg = msg, vc_readable = True, vc_room = 4096, vc_used = True \<rparr>"

definition sample_events :: "dev_event list" where
  "sample_events = [DevMemory, DevBackend,
     DevEvent sample_denv 0 True (map (sample_chain \<circ> fst) sample_msgs) True,
     DevEvent sample_denv EVENT_LISTENER True [] True]"

section \<open>Claims\<close>



end
