(* ===== verification/Sampled.thy ===== *)
theory Sampled
  imports Answered
begin

text \<open>
  One run of the device, evaluated: process 5 opens the first GPU and maps two pages of it into the
  window.
\<close>

lemma wp_in_session:
  "wp (in_session k c) Q d \<longleftrightarrow>
    (case map_of (dv_sessions d) k of
       None \<Rightarrow> False
     | Some se \<Rightarrow> wp c (\<lambda>r s. Q r (d\<lparr> dv_sessions := AList.update k (st_se s) (dv_sessions d), dv_x := st_x s \<rparr>))
         \<lparr> st_se = se, st_x = dv_x d \<rparr>)"
  by (simp add: wp_def in_session_def split: option.split prod.split)

lemma wp_answering:
  "wp (answering sq m) Q s \<longleftrightarrow> wp m (\<lambda>r s'. Q (Inr (case r of Inl e \<Rightarrow> reply_err sq e | Inr b \<Rightarrow> b)) s') s"
  "wp (err_answer sq m') Q' d \<longleftrightarrow> wp m' (\<lambda>r d'. Q' (Inr (case r of Inl e \<Rightarrow> err_rsp sq e | Inr b \<Rightarrow> b)) d') d"
  by (auto simp: wp_def answering_def err_answer_def split: option.split prod.split sum.split)

lemma wp_insert:
  "wp (mirror_insertm fd k) Q s \<longleftrightarrow>
    (case mirror_insert (se_mirror (st_se s)) \<lparr> me_fd = fd, me_kind = k \<rparr> of
       None \<Rightarrow> False
     | Some (m, t) \<Rightarrow> Q (Inr t) (s\<lparr> st_se := (st_se s)\<lparr> se_mirror := m \<rparr> \<rparr>))"
  by (simp add: wp_def mirror_insertm_def split: option.split prod.split)

lemma wp_cases:
  "wp (case x of None \<Rightarrow> n | Some a \<Rightarrow> f a) Q s \<longleftrightarrow> (case x of None \<Rightarrow> wp n Q s | Some a \<Rightarrow> wp (f a) Q s)"
  "wp (case p of (a, b) \<Rightarrow> g a b) Q s \<longleftrightarrow> (case p of (a, b) \<Rightarrow> wp (g a b) Q s)"
  by (simp_all split: option.split prod.split)

lemmas wp_parts = wp_simps wp_in_session wp_answering wp_insert wp_cases

definition open_rq :: req where
  "open_rq = req_default\<lparr> rq_seq := 1, rq_kind := kind_to_u32 Open, rq_dev_tag := dev_tag_to_u32 TagGpu, rq_guest_proc := 5 \<rparr>"

definition map_rq :: req where
  "map_rq = req_default\<lparr> rq_seq := 2, rq_kind := kind_to_u32 MapPrepare, rq_dev_tag := dev_tag_to_u32 TagGpu,
     rq_target_token := 1, rq_addr := 0x1000, rq_map_len := 0x2000, rq_guest_proc := 5 \<rparr>"

definition map_events :: "dev_event list" where
  "map_events = [DevMemory, DevBackend,
     DevEvent sample_denv 0 True [sample_chain (req_as_bytes open_rq), sample_chain (req_as_bytes map_rq)] True]"

lemma rq_oks: "req_ok open_rq" "req_ok map_rq"
  by code_simp+

lemma rq_dec:
  "req_from_bytes (req_as_bytes open_rq) = Some open_rq" "req_from_bytes (req_as_bytes map_rq) = Some map_rq"
  using rq_oks req_codec.dec_enc [of _ "[]"] by simp_all

lemma rq_fields:
  "rq_seq open_rq = 1" "rq_kind open_rq = 1" "rq_guest_proc open_rq = 5" "rq_fd_field_token open_rq = NONE_U64"
  "rq_aux_fd_field_token open_rq = NONE_U64" "rq_dev_tag open_rq = 1" "rq_inline_len open_rq = 0" "rq_ioctl_nr open_rq = 0"
  "rq_seq map_rq = 2" "rq_kind map_rq = 4" "rq_guest_proc map_rq = 5" "rq_dev_tag map_rq = 1" "rq_target_token map_rq = 1"
  "rq_addr map_rq = 0x1000" "rq_map_len map_rq = 0x2000"
  by (simp_all add: open_rq_def map_rq_def req_default_def)

lemma env_fields:
  "sv_open sample_senv = (\<lambda>_ _. Some 9)" "sv_dup sample_senv = (\<lambda>_ _. Some 10)"
  "dn_polls sample_denv d = []" "dn_epoll_add sample_denv d fd pid" "dn_probe sample_denv d fd len = None"
  "dn_shmem_map sample_denv d q fd" "dn_shmem_unmap sample_denv d q" "\<not> dn_test_oob sample_denv" "dn_signal sample_denv d"
  by (simp_all add: sample_senv_def sample_denv_def)

lemmas run_defs = rq_dec rq_fields env_fields Let_def
  handle_def KIND_GET_TABLES_def KIND_MAP_RELEASE_def KIND_PROC_GONE_def session_for_def set_guest_mem_def MAX_SESSIONS_def
  handle_msg_with_def dispatch_def kind_from_u32_def dev_of_def dev_tag_from_u32_def

definition started :: "device \<Rightarrow> bool" where
  "started d \<longleftrightarrow> \<not> dv_event_error d \<and> dv_backend d \<and> dv_mem d \<and> dv_window d = [] \<and> dv_sessions d = [] \<and>
     dv_poll_srcs d = [(1, PsWaiterNotify)] \<and> length (dv_log d) = 2 \<and> dv_waiters d = waiters_start"

definition opened :: "device \<Rightarrow> bool" where
  "opened d \<longleftrightarrow> \<not> dv_event_error d \<and> dv_backend d \<and> dv_mem d \<and> dv_window d = [] \<and>
     dv_poll_srcs d = [(1, PsWaiterNotify)] \<and> length (dv_log d) = 2 \<and> dv_waiters d = waiters_start \<and>
     (\<exists>se. dv_sessions d = [(5, se)] \<and> se_mirror se = \<lparr> mi_next = 2, mi_map = [(1, \<lparr> me_fd = 9, me_kind = Gpu \<rparr>)] \<rparr> \<and>
       se_pending_maps se = [] \<and> se_next_blob_id se = 21474836481)"

definition shows_pages :: "device \<Rightarrow> bool" where
  "shows_pages d \<longleftrightarrow> \<not> dv_event_error d \<and> dv_window d = [(0x1000, \<lparr> wm_len = 0x2000, wm_guest_proc = 5, wm_fd = 10 \<rparr>)] \<and>
     dv_poll_srcs d = [(1, PsWaiterNotify)] \<and> length (dv_log d) = 4 \<and> dv_waiters d = waiters_start \<and> dv_backend d"

lemma run_open:
  assumes "started d"
  shows "wp (handle sample_senv sample_denv (req_as_bytes open_rq)) (\<lambda>_. opened) d"
  using assms unfolding started_def
  apply (simp add: run_defs wp_parts to_session_def explicit_fd_def on_open_def adopt_identity_def PROC_INFO_LEN_def
      open_node_def sys_open_def)
  apply (simp add: detached_proc_def mirror_new_def mirror_insert_def checked_add_def after_session_def wp_parts take_pollables_def take_unwatch_def
      take_ctl_unwatch_def waiters_cancel_def opened_def)
  done

lemma reply_dec: "rsp_from_bytes (reply r [] []) = Some r"
  using rsp_codec.dec_enc [of r "[]"] by (simp add: reply_def)

lemma run_map:
  assumes "opened d"
  shows "wp (handle sample_senv sample_denv (req_as_bytes map_rq)) (\<lambda>_. shows_pages) d"
  using assms unfolding opened_def
  apply (clarsimp simp add: run_defs wp_parts device_map_prepare_def on_map_prepare_def mirror_raw_def mirror_kind_def MAX_MAP_LEN_def reply_dec)
  apply (simp add: ok_rsp_def rsp_default_def take_pending_map_def wp_parts mirror_raw_def sys_dup_def run_defs)
  apply (simp add: place_mapping_def wp_simps run_defs checked_add_def HOST_VISIBLE_SIZE_def window_overlaps_def dv_call_def shows_pages_def)
  done

lemma handle_replies: "handle env dn msg d = Some (r, d') \<Longrightarrow> \<exists>b. r = Inr b"
  by (auto simp: handle_def ret_def err_answer_def split: option.splits sum.splits)

lemma bindm_run:
  "m s = Some (Inr a, s') \<Longrightarrow> bindm m f s = f a s'" "bindm (ret a) f = f a" "bindm (getm g) h s = h (g s) s"
  by (auto simp: bindm_def ret_def getm_def)

lemma run_chain:
  assumes "wp (handle sample_senv sample_denv msg) (\<lambda>_. P) d" "length msg = REQ_LEN"
    "\<And>d'. P d' \<Longrightarrow> \<not> dv_event_error d' \<and> wp (process_chains sample_senv sample_denv cs) (\<lambda>_. Q) d'"
  shows "wp (process_chains sample_senv sample_denv (sample_chain msg # cs)) (\<lambda>_. Q) d"
proof -
  obtain b d' where h: "handle sample_senv sample_denv msg d = Some (Inr b, d')" "P d'"
    using assms(1) handle_replies by (fastforce simp: wp_Some)
  have rest: "wp (bindm (process_chains sample_senv sample_denv cs) (\<lambda>rs. ret (r # rs))) (\<lambda>_. Q) d'" for r
    unfolding wp_bindm using assms(3) [OF h(2)] by (auto elim!: wp_mono simp: andthen_def wp_ret split: sum.split)
  have "process_chains sample_senv sample_denv (sample_chain msg # cs) d =
      bindm (process_chains sample_senv sample_denv cs)
        (\<lambda>rs. ret (take (min (length (fit_response 4096 b)) 4096) (fit_response 4096 b) # rs)) d'"
    using assms(2) assms(3) [OF h(2)]
    by (simp add: sample_chain_def seqm_def refuse_def bindm_run(2,3) bindm_run(1) [of "handle _ _ _", OF h(1)]
        MAX_MSG_def REQ_LEN_def Let_def)
  then show ?thesis using rest by (simp only: wp_def)
qed

lemma run_queue:
  assumes "wp (process_chains sample_senv sample_denv cs) (\<lambda>_. Q) d" "dv_mem d"
  shows "wp (process_queue sample_senv sample_denv cs) (\<lambda>_. Q) d"
  unfolding process_queue_def wp_bindm [of "getm _"] wp_getm andthen_simps wp_seqm [of "refuse _ _"] wp_refuse
    wp_bindm [of "process_chains _ _ _"]
  using assms(2) by (simp, intro wp_mono [OF assms(1)]) (simp add: andthen_def signal_def wp_simps env_fields split: sum.split)

lemma map_run:
  "\<exists>d. served sample_senv profile_OFF sample_budget [1, 2, 3] sample_denv 4 map_events = Some d \<and> shows_pages d"
proof -
  let ?cs = "[sample_chain (req_as_bytes open_rq), sample_chain (req_as_bytes map_rq)]"
  have len: "length (req_as_bytes open_rq) = REQ_LEN" "length (req_as_bytes map_rq) = REQ_LEN"
    using rq_oks by (simp_all add: req_codec.enc_length)
  have "wp (process_chains sample_senv sample_denv ?cs) (\<lambda>_. shows_pages) d" if "started d" for d
  proof (rule run_chain [OF run_open [OF that] len(1)])
    fix d' assume o: "opened d'"
    have "wp (process_chains sample_senv sample_denv [sample_chain (req_as_bytes map_rq)]) (\<lambda>_. shows_pages) d'"
      by (rule run_chain [OF run_map [OF o] len(2)]) (simp add: shows_pages_def wp_ret)
    then show "\<not> dv_event_error d' \<and> wp (process_chains sample_senv sample_denv [sample_chain (req_as_bytes map_rq)]) (\<lambda>_. shows_pages) d'"
      using o by (simp add: opened_def)
  qed
  then have queue: "\<exists>r d'. process_queue sample_senv sample_denv ?cs d = Some (r, d') \<and> shows_pages d'" if "started d" for d
    using run_queue [of ?cs shows_pages d] that by (simp add: wp_Some started_def)
  let ?d = "set_backend_req_fd (update_memory (device_new profile_OFF sample_budget [1, 2, 3]
      \<lparr> dv_next_poll_id := 2, dv_log := [DcAdd 4 1 True], dv_poll_srcs := [(1, PsWaiterNotify)] \<rparr>))"
  have reg: "register_waiter_notify sample_denv 4 (device_new profile_OFF sample_budget [1, 2, 3]) =
      Some (Inr (), device_new profile_OFF sample_budget [1, 2, 3]
        \<lparr> dv_next_poll_id := 2, dv_log := [DcAdd 4 1 True], dv_poll_srcs := [(1, PsWaiterNotify)] \<rparr>)"
    by (simp add: register_waiter_notify_started device_new_def env_fields)
  have "started ?d" by (simp add: started_def set_backend_req_fd_def update_memory_def device_new_def dv_call_def x_mod_def)
  from queue [OF this] obtain r d' where "process_queue sample_senv sample_denv ?cs ?d = Some (r, d')" "shows_pages d'" by blast
  then show ?thesis
    by (simp add: served_def reg map_events_def dev_apply_def handle_event_def seqm_def bindm_def modm_def ret_def)
qed

end
