(* ===== verification/Accounted.thy ===== *)
theory Accounted
  imports Sampled
begin

text \<open>
  The device keeps the VM-wide accounts: whatever sequence of events it handles, its ledger and
  its sessions' books are a state of \<^verbatim>\<open>vram_reach\<close>, and its pin budget and its sessions' pools one of
  \<^verbatim>\<open>pool_reach\<close>, with nothing pending between two events.
\<close>

lemma session_drop_shared:
  "xh_host (session_drop env s x) = pool_state_drop env (se_pool s) (xh_host x)"
  "xh_ledger (session_drop env s x) = books_drop (xh_ledger x) (se_vram s)"
proof -
  have f: "xh_host (fold x_close fds y) = xh_host y" "xh_ledger (fold x_close fds y) = xh_ledger y" for fds y
    using fold_close_shared [of "\<lambda>z. z" fds y] by simp_all
  show "xh_host (session_drop env s x) = pool_state_drop env (se_pool s) (xh_host x)"
    "xh_ledger (session_drop env s x) = books_drop (xh_ledger x) (se_vram s)"
    by (simp_all add: session_drop_def Let_def f)
qed

lemma safe_dcore: "keeps dcore c \<Longrightarrow> safe (accounted env p B) c"
  by (erule safe_keeps) (frule accounted_core [of _ _ env p B], blast)

lemma accounted_new:
  assumes "accounted env p B d" "map_of (dv_sessions d) k = None"
  shows "accounted env p B (d\<lparr> dv_sessions := AList.update k (detached_proc k) (dv_sessions d) \<rparr>)"
proof -
  let ?d = "d\<lparr> dv_sessions := AList.update k (detached_proc k) (dv_sessions d) \<rparr>"
  have "vram_step (dev_vm d) (dev_vm ?d)"
    using NewSession [of "dev_vm d" k] assms(2) by (simp add: dev_vm_def books_maps detached_proc_def)
  moreover have "map_of (pw_sessions (dev_pools d)) (unat k) = None"
    using assms(2) pools_maps(3) [of se_pool "dv_sessions d" k] by (simp add: dev_pools_def)
  then have "unat k \<notin> fst ` set (pw_sessions (dev_pools d))" by (simp only: map_of_eq_None_iff not_False_eq_True)
  then have "pool_step env (dev_pools d) (dev_pools ?d)"
    using step_open [of "unat k" "dev_pools d" env] assms(2) by (simp add: dev_pools_def update_new detached_proc_def)
  ultimately show ?thesis using assms(1) by (auto simp: accounted_def elim: Step reach_step)
qed

lemma accounted_gone:
  assumes "accounted env p B d" "map_of (dv_sessions d) k = Some se"
  shows "accounted env p B (x_mod (session_drop env se) (d\<lparr> dv_sessions := AList.delete k (dv_sessions d) \<rparr>))"
    (is "accounted env p B ?d")
proof -
  have "vram_step (dev_vm d) (dev_vm ?d)"
    using DropSession [of "dev_vm d" k "se_vram se"] assms(2)
    by (simp add: dev_vm_def books_maps x_mod_def session_drop_shared)
  moreover have "pool_step env (dev_pools d) (dev_pools ?d)"
    using step_session_drop [of "dev_pools d" "unat k" "se_pool se" env] assms(2)
    by (simp add: dev_pools_def pools_maps x_mod_def session_drop_shared)
  ultimately show ?thesis using assms(1) by (auto simp: accounted_def elim: Step reach_step)
qed

lemma accounted_session:
  assumes "accounted env p B d" "map_of (dv_sessions d) k = Some se" "sess_step env \<lparr> st_se = se, st_x = dv_x d \<rparr> s'"
  shows "accounted env p B (d\<lparr> dv_sessions := AList.update k (st_se s') (dv_sessions d), dv_x := st_x s' \<rparr>)"
proof (rule inworld_back)
  have "inworld (world_of env p B d k) [] [] \<lparr> st_se = se, st_x = dv_x d \<rparr>" using inworld_device [OF assms(2)] assms(1) by simp
  then show "inworld (world_of env p B d k) [] [] s'" using assms(3) unfolding sess_step_def by (simp add: world_of_def)
qed

lemma keeps_dcore_ops:
  "keeps dcore (release_window dn off)" "keeps dcore (place_mapping dn g off fd len)" "keeps dcore (register_pollable dn g p)"
  unfolding release_window_def place_mapping_def register_pollable_def take_poll_id_def epoll_add_def
  by ((intro keeps_rules; simp add: dcore_def dv_call_def x_mod_def Let_def split: option.split),
      (intro keeps_rules; simp add: dcore_def dv_call_def Let_def),
      (auto split: option.split intro!: keeps_rules simp: dcore_def dv_call_def Let_def keeps_def [of _ panic] panic_def))

interpretation acct: dev_inv "accounted (sv_henv env) p B" env dn for env p B dn
proof
  fix d d' :: device and k g :: u32 and se s' fd off len pl pid h
  assume a: "accounted (sv_henv env) p B d"
  have core: "accounted (sv_henv env) p B x" if "dcore x = dcore d" for x using accounted_core [OF that] a by simp
  show "quiet d d' \<Longrightarrow> accounted (sv_henv env) p B d'" by (rule core) (simp add: quiet_def dcore_def)
  show "map_of (dv_sessions d) k = Some se \<Longrightarrow> sess_step (sv_henv env) \<lparr> st_se = se, st_x = dv_x d \<rparr> s' \<Longrightarrow>
      accounted (sv_henv env) p B (d\<lparr> dv_sessions := AList.update k (st_se s') (dv_sessions d), dv_x := st_x s' \<rparr>)"
    by (rule accounted_session [OF a])
  show "map_of (dv_sessions d) k = None \<Longrightarrow> length (dv_sessions d) < MAX_SESSIONS \<Longrightarrow>
      accounted (sv_henv env) p B (d\<lparr> dv_sessions := AList.update k (detached_proc k) (dv_sessions d) \<rparr>)"
    by (rule accounted_new [OF a])
  show "map_of (dv_sessions d) k = Some se \<Longrightarrow> accounted (sv_henv env) p B
      (x_mod (session_drop (sv_henv env) se) (d\<lparr> dv_sessions := AList.delete k (dv_sessions d) \<rparr>))"
    by (rule accounted_gone [OF a])
  show "accounted (sv_henv env) p B (x_mod (\<lambda>x. x\<lparr> xh_host := budget_retry_cleanup (sv_henv env) (xh_host x) \<rparr>) d)"
    using a reach_step [OF _ step_retry, of "sv_henv env" B "dev_pools d"]
    by (simp add: accounted_def dev_vm_def dev_pools_def x_mod_def)
  show "accounted (sv_henv env) p B (x_mod (x_close fd) d)" by (rule core) (simp add: dcore_def x_mod_def)
  show "accounted (sv_henv env) p B (unregister_id pid h d)"
    by (rule core) (simp add: dcore_def unregister_id_def dv_call_def Let_def split: option.split)
  show "accounted (sv_henv env) p B (set_backend_req_fd d)"
    by (rule core) (simp add: dcore_def set_backend_req_fd_def dv_call_def x_mod_def)
qed (rule safe_dcore, rule keeps_dcore_ops)+

section \<open>Claims\<close>

text \<open>C3: The device refines the VM-wide accounting.  After any sequence of requests, host events, new
  backend channels and memory tables, with the driver, the VMM and the waiter thread answering as
  they like, the ledger with the books of the live sessions is a state the video-memory relation
  reaches with no reservation left in flight, the pin budget with the pools of the live sessions is
  a state the pool relation reaches with no arena left pending, and the shared counter is exactly
  the sum of what the live sessions owe.\<close>

theorem device_refines_accounts:
  assumes "served env p B tables dn notify es = Some d"
  shows "vram_reach p (dev_vm d) \<and> pool_reach (sv_henv env) B (dev_pools d) \<and>
    unat (lg_used (xh_ledger (dv_x d))) = kv_sum (\<lambda>s. unat (bk_owed (se_vram s))) (dv_sessions d)"
proof -
  obtain d0 where r: "dev_run env es d0 = Some d" "register_waiter_notify dn notify (device_new p B tables) = Some (Inr (), d0)"
    using assms by (rule served_cases)
  have "dev_vm d0 = vm_start p" "dev_pools d0 = pool_start B"
    using r(2) by (simp_all add: register_waiter_notify_started dev_vm_def dev_pools_def vm_start_def pool_start_def device_new_def)
  then have "accounted (sv_henv env) p B d0" using Start reach_start by (simp add: accounted_def)
  then have acc: "accounted (sv_henv env) p B d"
    using dev_run_inv [OF acct.dev_inv_axioms _ list_all_any r(1)] by blast
  then have "unat (lg_used (xh_ledger (dv_x d))) = vm_owed (dev_vm d)"
    using vram_reach_inv [of p "dev_vm d"] by (simp add: accounted_def vm_inv_def dev_vm_def)
  then show ?thesis using acc by (simp add: accounted_def vm_owed_def dev_vm_def kv_sum_def comp_def case_prod_unfold)
qed

theorem device_refines_accounts_witness:
  "\<exists>d. served sample_senv profile_OFF sample_budget [1, 2, 3] sample_denv 4 map_events = Some d \<and>
    vram_reach profile_OFF (dev_vm d) \<and> pool_reach sample_henv sample_budget (dev_pools d) \<and>
    unat (lg_used (xh_ledger (dv_x d))) = kv_sum (\<lambda>s. unat (bk_owed (se_vram s))) (dv_sessions d)"
proof -
  have "sv_henv sample_senv = sample_henv" by (simp add: sample_senv_def)
  moreover obtain d where d: "served sample_senv profile_OFF sample_budget [1, 2, 3] sample_denv 4 map_events = Some d"
    using map_run by blast
  ultimately show ?thesis using device_refines_accounts [OF d] by auto
qed

end
