(* ===== verification/Window.thy ===== *)
theory Window
  imports Sampled
begin

text \<open>
  The window of mappings the VMM blends into the guest.  The guest picks the offsets; the device
  lets none of them overlap or cross the boundary.  What the VMM has mapped is read off the calls
  the device made: \<^verbatim>\<open>live_maps\<close>.
\<close>

section \<open>Spans\<close>

type_synonym span = "u64 \<times> u64"

fun apart :: "span \<Rightarrow> span \<Rightarrow> bool" where
  "apart (a, la) (b, lb) \<longleftrightarrow> unat a + unat la \<le> unat b \<or> unat b + unat lb \<le> unat a"

fun before :: "span \<Rightarrow> span \<Rightarrow> bool" where
  "before (a, la) (b, lb) \<longleftrightarrow> unat a + unat la \<le> unat b"

fun in_window :: "span \<Rightarrow> bool" where
  "in_window (a, la) \<longleftrightarrow> la \<noteq> 0 \<and> a mod 4096 = 0 \<and> la mod 4096 = 0 \<and> unat a + unat la \<le> unat HOST_VISIBLE_SIZE"

definition tiled :: "span list \<Rightarrow> bool" where
  "tiled m \<longleftrightarrow> sorted_wrt before m \<and> list_all in_window m"

definition spans :: "(u64 \<times> window_map) list \<Rightarrow> span list" where
  "spans w = map (\<lambda>(a, m). (a, wm_len m)) w"

lemma in_window_pos: "in_window (a, la) \<Longrightarrow> 0 < unat la"
  by (simp add: unat_gt_0)

lemma tiled_Cons: "tiled (x # m) \<longleftrightarrow> in_window x \<and> list_all (before x) m \<and> tiled m"
  by (auto simp: tiled_def list_all_iff)

lemma bt_insert_tiled:
  "tiled m \<Longrightarrow> in_window (k, n) \<Longrightarrow> list_all (apart (k, n)) m \<Longrightarrow>
   tiled (bt_insert k n m) \<and> set (bt_insert k n m) = insert (k, n) (set m)"
proof (induction m)
  case (Cons x m)
  obtain a la where x: "x = (a, la)" by (cases x)
  have pos: "0 < unat n" "0 < unat la" using Cons.prems x by (auto simp: tiled_Cons unat_gt_0)
  have ne: "k \<noteq> a" using Cons.prems(3) x pos by auto
  show ?case
  proof (cases "k < a")
    case True
    then have b: "before (k, n) x" using Cons.prems(3) x pos by (auto simp: word_less_nat_alt)
    have "list_all (before (k, n)) m"
    proof (unfold list_all_iff, rule ballI)
      fix y assume "y \<in> set m"
      then have "before x y" using Cons.prems(1) by (simp add: tiled_Cons list_all_iff)
      then show "before (k, n) y" using b x by (cases y) auto
    qed
    then show ?thesis using Cons.prems b x True by (simp add: tiled_Cons)
  next
    case False
    then have b: "before x (k, n)" using Cons.prems(3) x pos ne by (auto simp: word_less_nat_alt)
    have IH: "tiled (bt_insert k n m)" "set (bt_insert k n m) = insert (k, n) (set m)"
      using Cons by (auto simp: tiled_Cons)
    then show ?thesis using Cons.prems(1) b x False ne by (auto simp: tiled_Cons list_all_iff)
  qed
qed (simp add: tiled_def)

lemma tiled_delete: "tiled m \<Longrightarrow> tiled (AList.delete k m)"
  by (auto simp: tiled_def AList.delete_eq sorted_wrt_filter list_all_iff)

lemma spans_insert: "spans (bt_insert k v w) = bt_insert k (wm_len v) (spans w)"
  by (induction k v w rule: bt_insert.induct) (auto simp: spans_def)

lemma spans_delete: "spans (AList.delete k w) = AList.delete k (spans w)"
  by (simp add: spans_def books_maps)

lemma spans_lookup: "map_of w k = Some e \<Longrightarrow> (k, wm_len e) \<in> set (spans w)"
  by (force simp: spans_def dest: map_of_SomeD)

section \<open>The overlap test\<close>

text \<open>The source looks only at the last mapping that starts before the end of the query.\<close>

lemma last_before:
  assumes "sorted_wrt before xs" "x \<in> set xs"
  shows "x = last xs \<or> before x (last xs)"
proof -
  have "xs \<noteq> []" using assms(2) by auto
  then have "sorted_wrt before (butlast xs @ [last xs])" "x \<in> set (butlast xs @ [last xs])"
    using assms by simp_all
  then show ?thesis by (auto simp: sorted_wrt_append)
qed

lemma in_window_end: "in_window (off, len) \<Longrightarrow> unat (off + len) = unat off + unat len"
  by (rule unat_add_bounded) (simp add: HOST_VISIBLE_SIZE_def)

lemma window_overlaps_spans:
  assumes w: "tiled (spans w)" and q: "in_window (off, len)"
  shows "window_overlaps w off len \<longleftrightarrow> \<not> list_all (apart (off, len)) (spans w)"
proof -
  define F where "F = filter (\<lambda>(b, lb). b < off + len) (spans w)"
  have Fmap: "F = map (\<lambda>(a, m). (a, wm_len m)) (filter (\<lambda>(b, _). b < off + len) w)"
    by (simp add: F_def spans_def filter_map comp_def case_prod_unfold)
  have wins: "in_window x" if "x \<in> set (spans w)" for x using w that by (simp add: tiled_def list_all_iff)
  have ov: "window_overlaps w off len \<longleftrightarrow> F \<noteq> [] \<and> (case last F of (b, lb) \<Rightarrow> off < b + lb)"
    unfolding Fmap window_overlaps_def by (auto split: list.split prod.split simp: last_map case_prod_unfold)
  have hit: "off < b + lb \<longleftrightarrow> unat off < unat b + unat lb" if "(b, lb) \<in> set (spans w)" for b lb
    using in_window_end [OF wins [OF that]] by (simp add: word_less_nat_alt)
  have inF: "(b, lb) \<in> set F \<longleftrightarrow> (b, lb) \<in> set (spans w) \<and> unat b < unat off + unat len" for b lb
    using in_window_end [OF q] by (auto simp: F_def word_less_nat_alt)
  have srt: "sorted_wrt before F" using w by (simp add: F_def tiled_def sorted_wrt_filter)
  show ?thesis
  proof
    assume "window_overlaps w off len"
    then obtain b lb where "F \<noteq> []" "last F = (b, lb)" "off < b + lb" unfolding ov by (cases "last F") auto
    then have "(b, lb) \<in> set F" by (metis last_in_set)
    then have "(b, lb) \<in> set (spans w)" "\<not> apart (off, len) (b, lb)"
      using \<open>off < b + lb\<close> by (auto simp: inF hit)
    then show "\<not> list_all (apart (off, len)) (spans w)" unfolding list_all_iff by blast
  next
    assume "\<not> list_all (apart (off, len)) (spans w)"
    then obtain b lb where b: "(b, lb) \<in> set (spans w)" "unat off < unat b + unat lb" "unat b < unat off + unat len"
      by (auto simp: list_all_iff not_le)
    then have m: "(b, lb) \<in> set F" by (simp add: inF)
    obtain c lc where c: "last F = (c, lc)" by (cases "last F")
    have cs: "(c, lc) \<in> set (spans w)" using c m inF by (metis empty_iff empty_set last_in_set)
    have "unat off < unat c + unat lc" using last_before [OF srt m] c b in_window_pos [OF wins [OF cs]] by auto
    then show "window_overlaps w off len" using m c cs by (auto simp: ov hit)
  qed
qed

section \<open>What the VMM has mapped\<close>

text \<open>The calls are newest first.  Unmapping by offset is how the VMM names a mapping.\<close>

fun live_maps :: "dev_call list \<Rightarrow> span list" where
  "live_maps [] = []"
| "live_maps (DcMap rq fd ok # l) = (if ok then bt_insert (sm_shm_offset rq) (sm_len rq) (live_maps l) else live_maps l)"
| "live_maps (DcUnmap rq ok # l) = (if ok then AList.delete (sm_shm_offset rq) (live_maps l) else live_maps l)"
| "live_maps (DcReset # l) = []"
| "live_maps (c # l) = live_maps l"

fun vmm_ok :: "dev_call list \<Rightarrow> bool" where
  "vmm_ok [] = True"
| "vmm_ok (DcMap rq fd ok # l) \<longleftrightarrow> in_window (sm_shm_offset rq, sm_len rq) \<and>
     list_all (apart (sm_shm_offset rq, sm_len rq)) (live_maps l) \<and> vmm_ok l"
| "vmm_ok (DcUnmap rq ok # l) \<longleftrightarrow> (sm_shm_offset rq, sm_len rq) \<in> set (live_maps l) \<and> vmm_ok l"
| "vmm_ok (c # l) = vmm_ok l"

lemma live_maps_loud: "live_maps (filter loud l) = live_maps l"
  by (induction l rule: live_maps.induct) auto

lemma vmm_ok_loud: "vmm_ok (filter loud l) = vmm_ok l"
  by (induction l rule: vmm_ok.induct) (auto simp: live_maps_loud)

definition window_inv :: "device \<Rightarrow> bool" where
  "window_inv d \<longleftrightarrow> tiled (spans (dv_window d)) \<and> live_maps (dv_log d) = spans (dv_window d) \<and> vmm_ok (dv_log d)"

lemma window_inv_same:
  "dv_window d' = dv_window d \<Longrightarrow> filter loud (dv_log d') = filter loud (dv_log d) \<Longrightarrow> window_inv d \<Longrightarrow> window_inv d'"
  unfolding window_inv_def by (metis live_maps_loud vmm_ok_loud)

lemma release_window_ok: "safe window_inv (release_window dn off)"
  unfolding release_window_def
proof (rule safe_stepm)
  fix d assume w: "window_inv d"
  show "window_inv (snd (if \<not> dv_backend d then (False, d)
     else case map_of (dv_window d) off of
       None \<Rightarrow> (True, d)
     | Some e \<Rightarrow>
         let rq = window_request off (wm_len e) False; ok = dn_shmem_unmap dn d rq; d' = dv_call (DcUnmap rq ok) d in
         if ok then (True, x_mod (x_close (wm_fd e)) (d'\<lparr> dv_window := AList.delete off (dv_window d') \<rparr>))
         else (False, d')))"
    using w spans_lookup [of "dv_window d" off]
    by (auto simp: window_inv_def Let_def dv_call_def x_mod_def spans_delete tiled_delete window_request_def split: option.split)
qed

lemma place_mapping_ok:
  assumes "\<not> dn_test_oob dn" "len \<noteq> 0"
  shows "safe window_inv (place_mapping dn g off fd len)"
proof -
  have inw: "in_window (off, len)"
    if "off mod 4096 = 0" "len mod 4096 = 0" "checked_add off len = Some e" "\<not> HOST_VISIBLE_SIZE < e" for e
    using that assms(2) by (auto simp: checked_add_Some word_less_nat_alt)
  have placed: "window_inv (dv_call (DcMap (window_request off len True) fd False) d')"
    "window_inv ((dv_call (DcMap (window_request off len True) fd True) d')\<lparr> dv_window :=
       bt_insert off \<lparr> wm_len = len, wm_guest_proc = g, wm_fd = fd \<rparr> (dv_window d) \<rparr>)"
    if "window_inv d" "in_window (off, len)" "\<not> window_overlaps (dv_window d) off len"
      "dv_window d' = dv_window d" "dv_log d' = DcProbe fd len # dv_log d" for d d'
    using that window_overlaps_spans [of "dv_window d" off len] bt_insert_tiled [of "spans (dv_window d)" off len]
    by (simp_all del: in_window.simps add: window_inv_def dv_call_def window_request_def spans_insert)
  have quietly: "window_inv d \<Longrightarrow> window_inv (dv_call (DcProbe fd len) d)" for d
    by (erule window_inv_same [rotated 2]) (simp_all add: dv_call_def)
  show ?thesis
  proof (rule safe_wp)
    fix d assume w: "window_inv d"
    show "wp (place_mapping dn g off fd len) (\<lambda>_. window_inv) d"
    proof (cases "off mod 4096 \<noteq> 0 \<or> len mod 4096 \<noteq> 0 \<or> (case checked_add off len of None \<Rightarrow> True | Some e \<Rightarrow> HOST_VISIBLE_SIZE < e) \<or> window_overlaps (dv_window d) off len")
      case True
      then show ?thesis using w unfolding place_mapping_def by (auto simp: wp_simps)
    next
      case False
      then have q: "in_window (off, len)" "\<not> window_overlaps (dv_window d) off len"
        using inw by (auto split: option.splits simp del: in_window.simps)
      show ?thesis
        using w q assms(1) quietly [OF w] placed [OF w q, of "dv_call (DcProbe fd len) d"]
        unfolding place_mapping_def
        by (auto simp: wp_simps Let_def dv_call_def simp del: in_window.simps split: option.split)
    qed
  qed
qed

lemma register_pollable_window: "safe window_inv (register_pollable dn g p)"
proof (rule safe_keeps)
  show "keeps (\<lambda>d. (dv_window d, live_maps (dv_log d), vmm_ok (dv_log d))) (register_pollable dn g p)"
    unfolding register_pollable_def take_poll_id_def epoll_add_def
    by (auto split: option.split intro!: keeps_rules simp: dv_call_def Let_def keeps_def [of _ panic] panic_def)
qed (simp add: window_inv_def)

lemma window_holds: 
  assumes "\<not> dn_test_oob dn" 
  shows "dev_inv window_inv env dn"
proof
  fix d d' :: device and k g :: u32 and se s' fd off len pl pid h
  assume w: "window_inv d"
  note same = window_inv_same [OF _ _ w]
  show "quiet d d' \<Longrightarrow> window_inv d'" by (rule same) (simp_all add: quiet_def)
  show "window_inv (d\<lparr> dv_sessions := AList.update k (st_se s') (dv_sessions d), dv_x := st_x s' \<rparr>)"
    "window_inv (d\<lparr> dv_sessions := AList.update k (detached_proc k) (dv_sessions d) \<rparr>)"
    "window_inv (x_mod (session_drop (sv_henv env) se) (d\<lparr> dv_sessions := AList.delete k (dv_sessions d) \<rparr>))"
    "window_inv (x_mod (\<lambda>x. x\<lparr> xh_host := budget_retry_cleanup (sv_henv env) (xh_host x) \<rparr>) d)"
    "window_inv (x_mod (x_close fd) d)"
    by (rule same; simp add: x_mod_def)+
  show "window_inv (unregister_id pid h d)"
    using w by (simp add: unregister_id_def dv_call_def Let_def window_inv_def split: option.split)
  show "window_inv (set_backend_req_fd d)"
    using w by (simp add: set_backend_req_fd_def dv_call_def x_mod_def window_inv_def spans_def tiled_def)
qed (rule release_window_ok place_mapping_ok [OF assms] register_pollable_window, assumption?)+

section \<open>Claims\<close>



text \<open>C22: The device's overlap test, which looks at one entry of the ordered table, answers as the test
  against every entry: the query overlaps exactly when it shares a byte with some live mapping.\<close>

theorem window_overlaps_exact:
  assumes "sorted_wrt before (spans w)" "list_all in_window (spans w)" "in_window (off, len)"
  shows "window_overlaps w off len \<longleftrightarrow>
    {unat off..<unat off + unat len} \<inter> (\<Union>(a, m)\<in>set w. {unat a..<unat a + unat (wm_len m)}) \<noteq> {}"
proof -
  have meet: "\<not> apart (off, len) (a, wm_len m) \<longleftrightarrow>
      {unat off..<unat off + unat len} \<inter> {unat a..<unat a + unat (wm_len m)} \<noteq> {}"
    if "(a, m) \<in> set w" for a m
  proof -
    have "in_window (a, wm_len m)" using assms(2) that by (auto simp: spans_def list_all_iff)
    then have "0 < unat (wm_len m)" "0 < unat len" using assms(3) in_window_pos by blast+
    then show ?thesis by (auto simp: Int_atLeastLessThan)
  qed
  have "window_overlaps w off len \<longleftrightarrow> (\<exists>(a, m)\<in>set w. \<not> apart (off, len) (a, wm_len m))"
    using window_overlaps_spans [OF _ assms(3), of w] assms(1,2)
    by (simp add: tiled_def spans_def list_all_iff case_prod_unfold del: apart.simps)
  also have "\<dots> \<longleftrightarrow> (\<exists>(a, m)\<in>set w. {unat off..<unat off + unat len} \<inter> {unat a..<unat a + unat (wm_len m)} \<noteq> {})"
    using meet by blast
  finally show ?thesis by blast
qed

definition sample_window :: "(u64 \<times> window_map) list" where
  "sample_window = [(0x1000, \<lparr> wm_len = 0x1000, wm_guest_proc = 5, wm_fd = 9 \<rparr>),
     (0x4000, \<lparr> wm_len = 0x2000, wm_guest_proc = 6, wm_fd = 10 \<rparr>)]"

theorem window_overlaps_exact_witness:
  "window_overlaps sample_window 0x3000 0x2000 \<and> \<not> window_overlaps sample_window 0x2000 0x2000 \<and>
   {0x3000..<0x5000} \<inter> (\<Union>(a, m)\<in>set sample_window. {unat a..<unat a + unat (wm_len m)}) \<noteq> {}"
proof -
  have "sorted_wrt before (spans sample_window)" "list_all in_window (spans sample_window)"
    "in_window (0x3000, 0x2000)" "in_window (0x2000, 0x2000)"
    by (simp_all add: sample_window_def spans_def HOST_VISIBLE_SIZE_def)
  note h = this
  have "window_overlaps sample_window 0x3000 0x2000" "\<not> window_overlaps sample_window 0x2000 0x2000"
    by (simp_all add: window_overlaps_def sample_window_def)
  then show ?thesis using window_overlaps_exact [OF h(1-3)] by simp
qed

end
