(* ===== verification/PollSet.thy ===== *)
theory PollSet
  imports Sampled
begin

text \<open>
  The device's tables: the sessions, and the poll set with its two indices.  An identifier of the
  poll set is handed out once, so an event that was queued before a source was removed never
  reaches another source.
\<close>

section \<open>Identifiers\<close>

fun add_ids :: "dev_call list \<Rightarrow> u64 list" where
  "add_ids [] = []"
| "add_ids (DcAdd fd pid ok # l) = pid # add_ids l"
| "add_ids (c # l) = add_ids l"

lemma add_ids_loud: "add_ids (filter loud l) = add_ids l"
  by (induction l rule: add_ids.induct) auto

text \<open>Newest first: the identifiers count down to 1.\<close>

definition counted :: "u64 \<Rightarrow> u64 list \<Rightarrow> bool" where
  "counted nxt xs \<longleftrightarrow> unat nxt = length xs + 1 \<and> map unat xs = rev [1..<length xs + 1]"

lemma counted_distinct: "counted nxt xs \<Longrightarrow> distinct xs"
proof -
  assume "counted nxt xs"
  then have "distinct (map unat xs)" by (simp add: counted_def)
  then show ?thesis by (simp add: distinct_map)
qed

lemma counted_set: "counted nxt xs \<Longrightarrow> pid \<in> set xs \<longleftrightarrow> 1 \<le> unat pid \<and> unat pid < unat nxt"
proof -
  assume c: "counted nxt xs"
  then have "set (map unat xs) = {1..<unat nxt}" by (simp add: counted_def del: upt_Suc)
  moreover have "unat pid \<in> set (map unat xs) \<longleftrightarrow> pid \<in> set xs" by (auto simp: word_unat_eq_iff [symmetric])
  ultimately show ?thesis by simp
qed

lemma counted_next: "counted nxt xs \<Longrightarrow> length xs + 1 < 2 ^ 64 - 1 \<Longrightarrow> counted (nxt + 1) (nxt # xs)"
proof -
  assume c: "counted nxt xs" and b: "length xs + 1 < 2 ^ 64 - 1"
  have "unat (nxt + 1) = unat nxt + unat (1 :: u64)" using c b by (intro unat_add_bounded) (simp add: counted_def)
  then show ?thesis using c by (simp add: counted_def)
qed

section \<open>The two indices\<close>

definition keyed :: "(u64 \<times> poll_src) list \<Rightarrow> u64 \<Rightarrow> poll_key option" where
  "keyed srcs pid = (case map_of srcs pid of None \<Rightarrow> None | Some src \<Rightarrow> map_option fst (src_key src))"

definition indexed :: "device \<Rightarrow> bool" where
  "indexed d \<longleftrightarrow> (\<forall>key pid. map_of (dv_poll_ids d) key = Some pid \<longleftrightarrow> keyed (dv_poll_srcs d) pid = Some key) \<and>
    (\<forall>pid. map_of (dv_poll_srcs d) pid \<noteq> None \<longrightarrow> pid \<in> set (add_ids (dv_log d)))"

definition poll_inv :: "device \<Rightarrow> bool" where
  "poll_inv d \<longleftrightarrow> (length (add_ids (dv_log d)) < 2 ^ 64 - 1 \<longrightarrow>
     counted (dv_next_poll_id d) (add_ids (dv_log d)) \<and> indexed d)"

lemma poll_inv_same:
  "poll_inv d \<Longrightarrow> dv_poll_srcs d' = dv_poll_srcs d \<Longrightarrow> dv_poll_ids d' = dv_poll_ids d \<Longrightarrow> dv_next_poll_id d' = dv_next_poll_id d \<Longrightarrow>
   add_ids (dv_log d') = add_ids (dv_log d) \<Longrightarrow> poll_inv d'"
  by (simp add: poll_inv_def indexed_def)

lemma keyed_delete: "keyed (AList.delete pid srcs) q = (if q = pid then None else keyed srcs q)"
  by (simp add: keyed_def AList.delete_conv')

lemma keyed_update: "keyed (AList.update pid src srcs) q = (if q = pid then map_option fst (src_key src) else keyed srcs q)"
  by (simp add: keyed_def update_conv')

lemma unregister_indexed:
  assumes "indexed d"
  shows "indexed (unregister_id pid h d)"
proof (cases "map_of (dv_poll_srcs d) pid")
  case (Some src)
  have ix: "map_of (dv_poll_ids d) key = Some q \<longleftrightarrow> keyed (dv_poll_srcs d) q = Some key" for key q
    using assms unfolding indexed_def by blast
  have added: "q \<in> set (add_ids (dv_log d))" if "map_of (AList.delete pid (dv_poll_srcs d)) q \<noteq> None" for q
    using that assms by (auto simp: indexed_def AList.delete_conv' split: if_splits)
  have k: "keyed (dv_poll_srcs d) pid = map_option fst (src_key src)" using Some by (simp add: keyed_def)
  show ?thesis
  proof (cases "src_key src")
    case None
    then show ?thesis using Some added ix k by (auto simp: unregister_id_def indexed_def keyed_delete)
  next
    case (Some e)
    obtain key fd where e: "e = (key, fd)" by (cases e)
    have "map_of (AList.delete key (dv_poll_ids d)) k' = Some q \<longleftrightarrow> keyed (AList.delete pid (dv_poll_srcs d)) q = Some k'" for k' q
      using ix [of key pid] ix [of k' q] k Some e by (auto simp: keyed_delete AList.delete_conv')
    then show ?thesis using \<open>map_of (dv_poll_srcs d) pid = Some src\<close> added Some e
      by (simp add: unregister_id_def indexed_def dv_call_def Let_def)
  qed
qed (use assms in \<open>simp add: unregister_id_def\<close>)

lemma unregister_poll: "poll_inv d \<Longrightarrow> poll_inv (unregister_id pid h d)"
proof -
  assume i: "poll_inv d"
  have "add_ids (dv_log (unregister_id pid h d)) = add_ids (dv_log d)" "dv_next_poll_id (unregister_id pid h d) = dv_next_poll_id d"
    by (simp_all add: unregister_id_def dv_call_def Let_def split: option.split)
  then show ?thesis using i unregister_indexed by (simp add: poll_inv_def)
qed

definition added :: "device \<Rightarrow> i32 \<Rightarrow> bool \<Rightarrow> device" where
  "added d fd ok = dv_call (DcAdd fd (dv_next_poll_id d) ok) (d\<lparr> dv_next_poll_id := dv_next_poll_id d + 1 \<rparr>)"

lemma added_poll:
  assumes "poll_inv d"
  shows "poll_inv (added d fd ok)"
    and "map_of (dv_poll_ids d) key = None \<Longrightarrow> src_key src = Some (key, f) \<Longrightarrow>
      poll_inv ((added d fd ok)\<lparr> dv_poll_srcs := AList.update (dv_next_poll_id d) src (dv_poll_srcs d),
        dv_poll_ids := AList.update key (dv_next_poll_id d) (dv_poll_ids d) \<rparr>)" (is "_ \<Longrightarrow> _ \<Longrightarrow> poll_inv ?d")
proof -
  let ?n = "dv_next_poll_id d" and ?l = "add_ids (dv_log d)"
  have c: "counted (?n + 1) (?n # ?l)" "indexed d" "?n \<notin> set ?l" if "length ?l + 1 < 2 ^ 64 - 1"
    using that assms counted_next [of ?n ?l] counted_set [of ?n ?l ?n] by (simp_all add: poll_inv_def)
  show "poll_inv (added d fd ok)"
    using c by (auto simp: poll_inv_def added_def dv_call_def indexed_def)
  assume k: "map_of (dv_poll_ids d) key = None" "src_key src = Some (key, f)"
  have "indexed ?d" if b: "length ?l + 1 < 2 ^ 64 - 1"
  proof -
    have ix: "map_of (dv_poll_ids d) k' = Some q \<longleftrightarrow> keyed (dv_poll_srcs d) q = Some k'" for k' q
      using c(2) [OF b] unfolding indexed_def by blast
    have none: "map_of (dv_poll_srcs d) ?n = None" using c(2,3) [OF b] by (auto simp: indexed_def)
    have "map_of (AList.update key ?n (dv_poll_ids d)) k' = Some q \<longleftrightarrow> keyed (AList.update ?n src (dv_poll_srcs d)) q = Some k'" for k' q
      using ix [of k' q] ix [of k' ?n] k none by (auto simp: keyed_update update_conv' keyed_def [of _ ?n])
    then show ?thesis using c(2) [OF b] by (auto simp: indexed_def added_def dv_call_def update_conv')
  qed
  then show "poll_inv ?d" using c by (simp add: poll_inv_def added_def dv_call_def)
qed

lemma register_poll: "safe poll_inv (register_pollable dn g p)"
proof (cases "\<exists>r fd. p = PollWaiter r fd")
  case False
  then obtain key fd src f where p: "poll_key g p = Some key" "poll_entry g p = Some (fd, src)" "src_key src = Some (key, f)"
    by (cases p) (auto simp: poll_key_def poll_entry_def src_key_def)
  show ?thesis
  proof (rule safe_wp)
    fix d assume "poll_inv d"
    note a = added_poll(1) [OF this] added_poll(2) [OF this _ p(3)] this
    show "wp (register_pollable dn g p) (\<lambda>_. poll_inv) d"
      using a unfolding register_pollable_def
      by (simp add: p(1,2) wp_simps take_poll_id_def epoll_add_def Let_def added_def dv_call_def)
  qed
qed (auto simp: safe_def register_pollable_def poll_key_def poll_entry_def panic_def)

section \<open>The session table\<close>

lemma length_update_key: "length (AList.update k v m) = (if map_of m k = None then Suc (length m) else length m)"
  by (induction m) auto

definition sessions_ok :: "device \<Rightarrow> bool" where
  "sessions_ok d \<longleftrightarrow> dkeys (dv_sessions d) \<and> length (dv_sessions d) \<le> MAX_SESSIONS"

abbreviation asc :: "(u64 \<times> 'v) list \<Rightarrow> bool" where
  "asc m \<equiv> sorted_wrt (<) (map fst m)"

lemma bt_insert_asc: "asc m \<Longrightarrow> asc (bt_insert k v m) \<and> fst ` set (bt_insert k v m) = insert k (fst ` set m)"
  by (induction k v m rule: bt_insert.induct) (auto simp: less_le_not_le)

lemma asc_delete: "asc m \<Longrightarrow> asc (AList.delete k m)"
  by (induction m) (auto simp: AList.delete_eq)

definition tables_inv :: "bytes \<Rightarrow> device \<Rightarrow> bool" where
  "tables_inv T d \<longleftrightarrow> sessions_ok d \<and> poll_inv d \<and> dkeys (dv_poll_srcs d) \<and> asc (dv_window d) \<and> dv_tables d = T"

lemma safe_conj: "safe I c \<Longrightarrow> safe J c \<Longrightarrow> safe (\<lambda>s. I s \<and> J s) c"
  by (auto simp: safe_def)

definition tcore :: "device \<Rightarrow> (u32 \<times> sess) list \<times> bytes \<times> (u64 \<times> poll_src) list \<times> (poll_key \<times> u64) list \<times> u64 \<times> u64 list" where
  "tcore d = (dv_sessions d, dv_tables d, dv_poll_srcs d, dv_poll_ids d, dv_next_poll_id d, add_ids (dv_log d))"

lemma keeps_tcore: "keeps tcore (release_window dn off)" "keeps tcore (place_mapping dn g off fd len)"
  unfolding release_window_def place_mapping_def
  by (intro keeps_rules; simp add: tcore_def dv_call_def x_mod_def Let_def split: option.split)+

lemma window_asc:
  "safe (\<lambda>d. asc (dv_window d)) (release_window dn off)" "safe (\<lambda>d. asc (dv_window d)) (place_mapping dn g off fd len)"
  unfolding release_window_def place_mapping_def
  by (intro safe_rules; simp add: asc_delete bt_insert_asc dv_call_def x_mod_def Let_def split: option.split)+

lemma window_tables: "safe (tables_inv T) (release_window dn off)" "safe (tables_inv T) (place_mapping dn g off fd len)"
proof -
  have keep: "safe (\<lambda>d. sessions_ok d \<and> poll_inv d \<and> dkeys (dv_poll_srcs d) \<and> dv_tables d = T) c" if "keeps tcore c" for c :: "'a dm"
    using that by (rule safe_keeps) (simp add: tcore_def sessions_ok_def poll_inv_def indexed_def)
  show "safe (tables_inv T) (release_window dn off)" "safe (tables_inv T) (place_mapping dn g off fd len)"
    using safe_conj [OF keep [OF keeps_tcore(1)] window_asc(1)] safe_conj [OF keep [OF keeps_tcore(2)] window_asc(2)]
    by (simp_all add: safe_def tables_inv_def)
qed

lemma register_tables: "safe (tables_inv T) (register_pollable dn g p)"
proof -
  have "keeps (\<lambda>d. (dv_sessions d, dv_tables d, dv_window d)) (register_pollable dn g p)"
    unfolding register_pollable_def take_poll_id_def epoll_add_def
    by (auto split: option.split intro!: keeps_rules simp: dv_call_def Let_def keeps_def [of _ panic] panic_def)
  then have "safe (\<lambda>d. sessions_ok d \<and> asc (dv_window d) \<and> dv_tables d = T) (register_pollable dn g p)"
    by (rule safe_keeps) (simp add: sessions_ok_def)
  moreover have "safe (\<lambda>d. dkeys (dv_poll_srcs d)) (register_pollable dn g p)"
    unfolding register_pollable_def take_poll_id_def epoll_add_def
    by (auto split: option.split intro!: safe_rules simp: dv_call_def Let_def safe_def [of _ panic] panic_def)
  ultimately have "safe (\<lambda>d. (sessions_ok d \<and> asc (dv_window d) \<and> dv_tables d = T) \<and> dkeys (dv_poll_srcs d)) (register_pollable dn g p)"
    by (rule safe_conj)
  from safe_conj [OF this register_poll] show ?thesis by (simp add: safe_def tables_inv_def)
qed

lemma unregister_window: "dv_window (unregister_id pid h d) = dv_window d"
  by (simp add: unregister_id_def dv_call_def Let_def split: option.split)

lemma unregister_dkeys: "dkeys (dv_poll_srcs d) \<Longrightarrow> dkeys (dv_poll_srcs (unregister_id pid h d))"
  by (auto simp: unregister_id_def dv_call_def Let_def split: option.split)

interpretation tabs: dev_inv "tables_inv T" env dn for T env dn
proof
  fix d d' :: device and k g :: u32 and se s' fd off len pl pid h
  assume i: "tables_inv T d"
  have same: "tables_inv T x"
    if "dv_poll_srcs x = dv_poll_srcs d" "dv_poll_ids x = dv_poll_ids d" "dv_next_poll_id x = dv_next_poll_id d"
      "add_ids (dv_log x) = add_ids (dv_log d)" "dv_tables x = dv_tables d" "asc (dv_window x)" "sessions_ok x" for x
    using i that poll_inv_same [of d x] by (simp add: tables_inv_def)
  have s: "sessions_ok d" "asc (dv_window d)" using i by (simp_all add: tables_inv_def)
  then have "sessions_ok x" if "dv_sessions x = dv_sessions d" for x using that by (simp add: sessions_ok_def)
  note same' = same [OF _ _ _ _ _ _ this]
  show "quiet d d' \<Longrightarrow> tables_inv T d'"
    by (rule same') (simp_all add: quiet_def s(2), metis add_ids_loud)
  show "map_of (dv_sessions d) k = Some se \<Longrightarrow> tables_inv T (d\<lparr> dv_sessions := AList.update k (st_se s') (dv_sessions d), dv_x := st_x s' \<rparr>)"
    by (rule same) (use s in \<open>auto simp: sessions_ok_def length_update_key\<close>)
  show "map_of (dv_sessions d) k = None \<Longrightarrow> length (dv_sessions d) < MAX_SESSIONS \<Longrightarrow>
      tables_inv T (d\<lparr> dv_sessions := AList.update k (detached_proc k) (dv_sessions d) \<rparr>)"
    by (rule same) (use s in \<open>simp_all add: sessions_ok_def length_update_key\<close>)
  show "map_of (dv_sessions d) k = Some se \<Longrightarrow> tables_inv T
      (x_mod (session_drop (sv_henv env) se) (d\<lparr> dv_sessions := AList.delete k (dv_sessions d) \<rparr>))"
    by (rule same) (use s in \<open>simp_all add: sessions_ok_def x_mod_def le_trans [OF length_delete_le]\<close>)
  show "tables_inv T (x_mod (\<lambda>x. x\<lparr> xh_host := budget_retry_cleanup (sv_henv env) (xh_host x) \<rparr>) d)"
    "tables_inv T (x_mod (x_close fd) d)" "tables_inv T (set_backend_req_fd d)"
    by (rule same'; simp add: set_backend_req_fd_def x_mod_def dv_call_def s(2))+
  show "tables_inv T (unregister_id pid h d)"
    using i unregister_poll by (simp add: tables_inv_def sessions_ok_def unregister_window unregister_dkeys)
qed (rule window_tables register_tables)+


lemma served_tables:
  assumes "served env p B tables dn notify es = Some d"
  shows "tables_inv tables d"
proof -
  obtain d0 where r: "dev_run env es d0 = Some d" "register_waiter_notify dn notify (device_new p B tables) = Some (Inr (), d0)"
    using assms by (rule served_cases)
  have "tables_inv tables d0"
    using r(2) by (auto simp: register_waiter_notify_started device_new_def tables_inv_def sessions_ok_def poll_inv_def counted_def
        indexed_def keyed_def src_key_def)
  then show ?thesis using dev_run_inv [OF tabs.dev_inv_axioms _ list_all_any r(1)] by blast
qed

lemma add_ids_length: "length (add_ids l) \<le> length l"
  by (induction l rule: add_ids.induct) auto

section \<open>Claims\<close>

text \<open>C21: The device's tables stay well formed.  After any sequence of events there is at most one session
  per guest process and never more than \<^verbatim>\<open>MAX_SESSIONS\<close>; the command tables are the ones the device
  started with; the window is ordered by offset, each offset once; no poll identifier was ever handed to the host twice, as long as fewer than 2^64 - 1
  were; and the index by key names exactly the sources of the poll set, each by its own identifier,
  which the host was given.\<close>

theorem device_tables_well_formed:
  assumes "served env p B tables dn notify es = Some d" "length (add_ids (dv_log d)) < 2 ^ 64 - 1"
  shows "dkeys (dv_sessions d) \<and> length (dv_sessions d) \<le> MAX_SESSIONS \<and> dv_tables d = tables \<and>
    sorted_wrt (<) (map fst (dv_window d)) \<and> distinct (add_ids (dv_log d)) \<and> dom (map_of (dv_poll_srcs d)) \<subseteq> set (add_ids (dv_log d)) \<and>
    (\<forall>key pid. map_of (dv_poll_ids d) key = Some pid \<longleftrightarrow>
       (\<exists>src fd. map_of (dv_poll_srcs d) pid = Some src \<and> src_key src = Some (key, fd)))"
proof -
  have t: "sessions_ok d" "dv_tables d = tables \<and> asc (dv_window d)" "counted (dv_next_poll_id d) (add_ids (dv_log d))" "indexed d"
    using served_tables [OF assms(1)] assms(2) by (simp_all add: tables_inv_def poll_inv_def)
  have "keyed (dv_poll_srcs d) pid = Some key \<longleftrightarrow>
      (\<exists>src fd. map_of (dv_poll_srcs d) pid = Some src \<and> src_key src = Some (key, fd))" for key pid
    by (cases key) (auto simp: keyed_def split: option.split)
  then show ?thesis using t(1,2,4) counted_distinct [OF t(3)] unfolding indexed_def sessions_ok_def by blast
qed

theorem device_tables_well_formed_witness:
  "\<exists>d. served sample_senv profile_OFF sample_budget [1, 2, 3] sample_denv 4 map_events = Some d \<and>
    dkeys (dv_sessions d) \<and> dv_tables d = [1, 2, 3] \<and> distinct (add_ids (dv_log d)) \<and>
    dom (map_of (dv_poll_srcs d)) = {1} \<and> 1 \<in> set (add_ids (dv_log d))"
proof -
  obtain d where d: "served sample_senv profile_OFF sample_budget [1, 2, 3] sample_denv 4 map_events = Some d" "shows_pages d"
    using map_run by blast
  then have "length (add_ids (dv_log d)) < 2 ^ 64 - 1" "dom (map_of (dv_poll_srcs d)) = {1}"
    using add_ids_length [of "dv_log d"] by (simp_all add: shows_pages_def)
  then show ?thesis using d(1) device_tables_well_formed [OF d(1)] by auto
qed

end
