(* ===== verification/Gone.thy ===== *)
theory Gone
  imports PollSet
begin

text \<open>
  The end of a guest process: once its PROC_GONE is answered, nothing of it is left in the device,
  and nothing of any other process has changed.
\<close>

section \<open>The window\<close>

lemma key_of:
  assumes "dkeys m" "e \<in> set m"
  shows "fst e \<in> set (map fst (filter (\<lambda>(_, x). P x) m)) \<longleftrightarrow> P (snd e)"
proof
  assume "fst e \<in> set (map fst (filter (\<lambda>(_, x). P x) m))"
  then obtain x where x: "x \<in> set m" "P (snd x)" "fst x = fst e" by auto
  then have "x = e" using assms by (metis distinct_map inj_onD)
  then show "P (snd e)" using x(2) by simp
next
  assume "P (snd e)"
  then have "e \<in> set (filter (\<lambda>(_, x). P x) m)" using assms(2) by (simp add: case_prod_unfold)
  then show "fst e \<in> set (map fst (filter (\<lambda>(_, x). P x) m))" by simp
qed

lemma release_window_ok_iff:
  "release_window dn off d = Some (Inr True, d') \<Longrightarrow>
    dv_backend d \<and> dv_window d' = AList.delete off (dv_window d) \<and> dv_backend d' = dv_backend d"
proof -
  have gone: "AList.delete off m = m" if "map_of m off = None" for m :: "(u64 \<times> window_map) list"
    using that by (force simp: map_of_eq_None_iff AList.delete_eq filter_id_conv)
  assume "release_window dn off d = Some (Inr True, d')"
  then show ?thesis using gone
    by (auto simp: release_window_def stepm_def Let_def dv_call_def x_mod_def split: if_splits option.splits)
qed

lemma ret_run: "ret a s = Some (Inr b, s') \<longleftrightarrow> b = a \<and> s' = s"
  by (auto simp: ret_def)

lemma release_all:
  "foldm (\<lambda>off ok. bindm (release_window dn off) (\<lambda>r. ret (ok \<and> r))) offs b d = Some (Inr True, d') \<Longrightarrow>
    b \<and> dv_window d' = fold AList.delete offs (dv_window d)"
proof (induction offs arbitrary: b d)
  case (Cons off offs)
  obtain r d1 where r: "release_window dn off d = Some (Inr r, d1)"
      "foldm (\<lambda>off ok. bindm (release_window dn off) (\<lambda>r. ret (ok \<and> r))) offs (b \<and> r) d1 = Some (Inr True, d')"
    using Cons.prems by (auto dest!: bindm_Inr simp: ret_run)
  show ?case using Cons.IH [OF r(2)] release_window_ok_iff [of dn off d d1] r(1) by auto
qed (simp add: ret_def)

lemma delete_all: "fold AList.delete ks m = filter (\<lambda>e. fst e \<notin> set ks) m"
  by (induction ks arbitrary: m) (auto simp: AList.delete_eq conj_commute intro!: filter_cong)

lemma release_window_of_ok:
  assumes "release_window_of dn g d = Some (Inr True, d')" "asc (dv_window d)"
  shows "dv_window d' = filter (\<lambda>e. wm_guest_proc (snd e) \<noteq> g) (dv_window d)"
proof -
  have "distinct (map fst (dv_window d))" using assms(2) by (simp add: strict_sorted_iff)
  from key_of [OF this]
  have "fst e \<in> set (window_of_proc (dv_window d) g) \<longleftrightarrow> wm_guest_proc (snd e) = g" if "e \<in> set (dv_window d)" for e
    using that by (simp only: window_of_proc_def)
  then have "filter (\<lambda>e. fst e \<notin> set (window_of_proc (dv_window d) g)) (dv_window d) =
      filter (\<lambda>e. wm_guest_proc (snd e) \<noteq> g) (dv_window d)"
    by (auto intro: filter_cong)
  then show ?thesis using release_all [of dn "window_of_proc (dv_window d) g" True d d'] assms(1)
    by (simp add: release_window_of_def bindm_run(3) delete_all)
qed

section \<open>The poll set\<close>

lemma unregister_srcs: "dv_poll_srcs (unregister_id pid h d) = AList.delete pid (dv_poll_srcs d)"
proof -
  have "AList.delete pid m = m" if "map_of m pid = None" for m :: "(u64 \<times> poll_src) list"
    using that by (force simp: map_of_eq_None_iff AList.delete_eq filter_id_conv)
  then show ?thesis by (auto simp: unregister_id_def dv_call_def Let_def split: option.split)
qed

lemma unregister_rest:
  "dv_sessions (unregister_id pid h d) = dv_sessions d" "dv_window (unregister_id pid h d) = dv_window d"
  "dv_waiters (unregister_id pid h d) = dv_waiters d" "dv_backend (unregister_id pid h d) = dv_backend d"
  by (simp_all add: unregister_id_def dv_call_def Let_def split: option.split)

definition unreg_all :: "u32 \<Rightarrow> u64 list \<Rightarrow> device \<Rightarrow> device" where
  "unreg_all g pids = fold (\<lambda>pid d. unregister_id pid (proc_src_fd d g pid) d) pids"

lemma unreg_all_run:
  "dv_poll_srcs (unreg_all g pids d) = filter (\<lambda>e. fst e \<notin> set pids) (dv_poll_srcs d)"
  "dv_sessions (unreg_all g pids d) = dv_sessions d" "dv_window (unreg_all g pids d) = dv_window d"
  "dv_waiters (unreg_all g pids d) = dv_waiters d"
  by (induction pids arbitrary: d)
    (auto simp: unreg_all_def unregister_srcs unregister_rest AList.delete_eq conj_commute intro!: filter_cong)

lemma unreg_all_indexed: "indexed d \<Longrightarrow> indexed (unreg_all g pids d)"
  by (induction pids arbitrary: d) (simp_all add: unreg_all_def unregister_indexed)

definition proc_free :: "u32 \<Rightarrow> wstate \<Rightarrow> bool" where
  "proc_free g w \<longleftrightarrow> list_all (\<lambda>x. fi_guest_proc (wa_fired x) \<noteq> g) (ws_watches w) \<and>
     list_all (\<lambda>f. fi_guest_proc f \<noteq> g) (ws_fired w)"

lemma unregister_proc_ok:
  assumes "unregister_proc dn g d = Some (Inr True, d')" "dkeys (dv_poll_srcs d)" "indexed d"
  shows "dv_poll_srcs d' = filter (\<lambda>e. src_proc (snd e) \<noteq> Some g) (dv_poll_srcs d) \<and> dv_sessions d' = dv_sessions d \<and>
    dv_window d' = dv_window d \<and> proc_free g (dv_waiters d') \<and> indexed d'"
proof -
  let ?w = "waiters_settle dn d"
  define d1 where "d1 = d\<lparr> dv_waiters := snd (waiter_command (OpCancelProcess g) ?w) \<rparr>"
  define pids where "pids = map fst (filter (\<lambda>(_, src). src_proc src = Some g) (dv_poll_srcs d))"
  have d': "d' = unreg_all g pids d1"
    using assms(1) unfolding unregister_proc_def waiter_request_def
    by (auto simp: bindm_def stepm_def seqm_def modm_def ret_def Let_def unreg_all_def d1_def pids_def split: if_splits)
  have free: "proc_free g (dv_waiters d1)" by (simp add: d1_def proc_free_def list_all_iff)
  have ix: "indexed d1" using assms(3) by (simp add: d1_def indexed_def)
  have "fst e \<in> set pids \<longleftrightarrow> src_proc (snd e) = Some g" if "e \<in> set (dv_poll_srcs d)" for e
    using key_of [OF assms(2) that] by (simp only: pids_def)
  then have "filter (\<lambda>e. fst e \<notin> set pids) (dv_poll_srcs d) = filter (\<lambda>e. src_proc (snd e) \<noteq> Some g) (dv_poll_srcs d)"
    by (auto intro: filter_cong)
  then show ?thesis using free unreg_all_indexed [OF ix]
    by (simp add: d' unreg_all_run) (simp add: d1_def)
qed

section \<open>The session\<close>

lemma release_window_of_keeps:
  "keeps (\<lambda>d. (dv_sessions d, dv_poll_srcs d, dv_poll_ids d, dv_waiters d, add_ids (dv_log d))) (release_window_of dn g)"
proof -
  have "keeps (\<lambda>d. (dv_sessions d, dv_poll_srcs d, dv_poll_ids d, dv_waiters d, add_ids (dv_log d))) (release_window dn off)" for off
    unfolding release_window_def
    by (intro keeps_rules; simp add: dv_call_def x_mod_def Let_def split: option.split)
  then have "keeps (\<lambda>d. (dv_sessions d, dv_poll_srcs d, dv_poll_ids d, dv_waiters d, add_ids (dv_log d)))
      (foldm (\<lambda>off ok. bindm (release_window dn off) (\<lambda>r. ret (ok \<and> r))) offs b)" for offs b
    by (intro keeps_foldm keeps_rules)
  then show ?thesis unfolding release_window_of_def by (intro keeps_rules)
qed

lemma delete_missing: "map_of m k = None \<Longrightarrow> AList.delete k m = m"
  by (force simp: map_of_eq_None_iff AList.delete_eq filter_id_conv)

lemma proc_gone_steps:
  assumes "on_proc_gone env dn rq d = Some (Inr b, d')"
  obtains d1 d2 where "unregister_proc dn (rq_guest_proc rq) d = Some (Inr True, d1)"
    "release_window_of dn (rq_guest_proc rq) d1 = Some (Inr True, d2)"
    "dv_sessions d' = AList.delete (rq_guest_proc rq) (dv_sessions d2)" "dv_window d' = dv_window d2"
    "dv_poll_srcs d' = dv_poll_srcs d2" "dv_poll_ids d' = dv_poll_ids d2" "dv_waiters d' = dv_waiters d2"
  using assms unfolding on_proc_gone_def seqm_def
  by (auto dest!: bindm_Inr split: if_splits option.splits simp: refuse_def ret_run fail_def modm_def x_mod_def delete_missing)


section \<open>Claims\<close>

text \<open>C10: A guest process that is gone leaves nothing behind.  When the device answers its PROC_GONE
  without an error, from any state a run reaches, the process has no session, no mapping in the
  window, no source in the poll set, no key in its index, and no watch or queued completion in the
  waiter poller; the sessions, the mappings and the sources of every other process are exactly the
  ones before.\<close>

theorem proc_gone_leaves_nothing:
  assumes "served env p B tables dn0 notify es = Some d" "length (add_ids (dv_log d)) < 2 ^ 64 - 1"
    "on_proc_gone env dn rq d = Some (Inr b, d')"
  shows "dv_sessions d' = AList.delete (rq_guest_proc rq) (dv_sessions d) \<and>
    dv_window d' = filter (\<lambda>e. wm_guest_proc (snd e) \<noteq> rq_guest_proc rq) (dv_window d) \<and>
    dv_poll_srcs d' = filter (\<lambda>e. src_proc (snd e) \<noteq> Some (rq_guest_proc rq)) (dv_poll_srcs d) \<and>
    map_of (dv_poll_ids d') (rq_guest_proc rq, t, c) = None \<and>
    proc_free (rq_guest_proc rq) (dv_waiters d')"
proof -
  let ?g = "rq_guest_proc rq"
  have t: "dkeys (dv_poll_srcs d)" "asc (dv_window d)" "indexed d"
    using served_tables [OF assms(1)] assms(2) by (simp_all add: tables_inv_def poll_inv_def)
  obtain d1 d2 where s: "unregister_proc dn ?g d = Some (Inr True, d1)" "release_window_of dn ?g d1 = Some (Inr True, d2)"
      "dv_sessions d' = AList.delete ?g (dv_sessions d2)" "dv_window d' = dv_window d2" "dv_poll_srcs d' = dv_poll_srcs d2"
      "dv_poll_ids d' = dv_poll_ids d2" "dv_waiters d' = dv_waiters d2"
    using proc_gone_steps [OF assms(3)] .
  note u = unregister_proc_ok [OF s(1) t(1,3)]
  have w: "dv_window d2 = filter (\<lambda>e. wm_guest_proc (snd e) \<noteq> ?g) (dv_window d)"
    using release_window_of_ok [OF s(2)] u t(2) by simp
  have k: "dv_sessions d2 = dv_sessions d1" "dv_poll_srcs d2 = dv_poll_srcs d1" "dv_poll_ids d2 = dv_poll_ids d1"
      "dv_waiters d2 = dv_waiters d1"
    using release_window_of_keeps [of dn ?g] s(2) by (auto simp: keeps_def)
  have "map_of (dv_poll_ids d1) (?g, t, c) = None"
  proof (rule ccontr)
    assume "map_of (dv_poll_ids d1) (?g, t, c) \<noteq> None"
    then obtain pid where "keyed (dv_poll_srcs d1) pid = Some (?g, t, c)" using u unfolding indexed_def by blast
    then obtain src where "(pid, src) \<in> set (dv_poll_srcs d1)" "src_proc src = Some ?g"
      by (auto simp: keyed_def src_key_def src_proc_def dest!: map_of_SomeD split: option.splits poll_src.splits)
    then show False using u by auto
  qed
  then show ?thesis using s(3-7) u w k by simp
qed

definition gone_rq :: req where
  "gone_rq = req_default\<lparr> rq_seq := 3, rq_kind := KIND_PROC_GONE, rq_guest_proc := 5 \<rparr>"

lemma run_gone:
  assumes "shows_pages d"
  shows "\<exists>b d'. on_proc_gone sample_senv sample_denv gone_rq d = Some (Inr b, d')"
proof -
  have "wp (on_proc_gone sample_senv sample_denv gone_rq) (\<lambda>r d'. \<exists>b. r = Inr b) d"
    using assms
    by (simp add: shows_pages_def on_proc_gone_def gone_rq_def unregister_proc_def waiter_request_def waiters_settle_def
        release_window_of_def release_window_def window_of_proc_def wp_simps env_fields waiters_start_def Let_def src_proc_def
        dv_call_def x_mod_def)
  then show ?thesis by (auto simp: wp_Some)
qed

theorem proc_gone_leaves_nothing_witness:
  "\<exists>d b d'. served sample_senv profile_OFF sample_budget [1, 2, 3] sample_denv 4 map_events = Some d \<and>
    length (dv_window d) = 1 \<and> on_proc_gone sample_senv sample_denv gone_rq d = Some (Inr b, d') \<and>
    dv_window d' = [] \<and> map_of (dv_sessions d') 5 = None"
proof -
  obtain d where d: "served sample_senv profile_OFF sample_budget [1, 2, 3] sample_denv 4 map_events = Some d" "shows_pages d"
    using map_run by blast
  obtain b d' where g: "on_proc_gone sample_senv sample_denv gone_rq d = Some (Inr b, d')" using run_gone [OF d(2)] by blast
  have "length (add_ids (dv_log d)) < 2 ^ 64 - 1" using d(2) add_ids_length [of "dv_log d"] by (simp add: shows_pages_def)
  from proc_gone_leaves_nothing [OF d(1) this g] d g show ?thesis
    by (auto simp: shows_pages_def gone_rq_def delete_conv')
qed

end
