(* ===== verification/Bounded.thy ===== *)
theory Bounded
  imports Answered
begin

text \<open>
  The work one event of the host may cause.  The loops of \<^verbatim>\<open>on_poll\<close> are bounded in the source by
  rounds, by the size of the event buffer and by the length of a drain; here the bounds are added up
  over what the loops do to the host.
\<close>

section \<open>Counting\<close>

definition grows :: "('s \<Rightarrow> nat) \<Rightarrow> nat \<Rightarrow> ('s, 'e, 'a) em \<Rightarrow> bool" where
  "grows f k c \<longleftrightarrow> (\<forall>s r s'. c s = Some (r, s') \<longrightarrow> f s' \<le> f s + k)"

named_theorems grows_rules \<open>how much a computation adds to a count\<close>

lemma growsD: "grows f k c \<Longrightarrow> c s = Some (r, s') \<Longrightarrow> f s' \<le> f s + k"
  by (auto simp: grows_def)

lemma grows_mono: "grows f k c \<Longrightarrow> k \<le> m \<Longrightarrow> grows f m c"
  by (fastforce simp: grows_def)

lemma grows_basic [grows_rules]:
  "grows f 0 (ret a)" "grows f 0 (fail e)" "grows f 0 (getm g)" "grows f 0 (refuse c e)"
  by (auto simp: grows_def ret_def fail_def getm_def refuse_def)

lemma grows_step:
  "(\<And>s. f (h s) \<le> f s + k) \<Longrightarrow> grows f k (modm h)" "(\<And>s. f (snd (g s)) \<le> f s + k) \<Longrightarrow> grows f k (stepm g)"
  by (auto simp: grows_def modm_def stepm_def split: prod.splits) (metis snd_conv)

lemma grows_bindm [grows_rules]:
  assumes "grows f a m" "\<And>x. grows f b (k x)"
  shows "grows f (a + b) (bindm m k)"
proof (unfold grows_def, intro allI impI)
  fix s r s' assume "bindm m k s = Some (r, s')"
  then consider e where "m s = Some (Inl e, s')" | x s1 where "m s = Some (Inr x, s1)" "k x s1 = Some (r, s')"
    by (auto simp: bindm_def split: option.splits sum.splits)
  then show "f s' \<le> f s + (a + b)"
  proof cases
    case 1
    then show ?thesis using growsD [OF assms(1)] by fastforce
  next
    case 2
    then show ?thesis using growsD [OF assms(1) 2(1)] growsD [OF assms(2) 2(2)] by simp
  qed
qed

lemma grows_seqm [grows_rules]: "grows f a m \<Longrightarrow> grows f b k \<Longrightarrow> grows f (a + b) (seqm m k)"
  unfolding seqm_def by (rule grows_bindm)

lemma grows_if: "(c \<Longrightarrow> grows f k m) \<Longrightarrow> (\<not> c \<Longrightarrow> grows f k n) \<Longrightarrow> grows f k (if c then m else n)"
  by simp

lemma grows_foldm: "(\<And>x a. grows f k (g x a)) \<Longrightarrow> grows f (length xs * k) (foldm g xs a)"
  by (induction xs arbitrary: a) (simp_all add: grows_rules)

lemma grows_keeps: "keeps f c \<Longrightarrow> grows f 0 c"
  by (simp add: grows_def keeps_def)

section \<open>Calls to the driver\<close>

definition st_calls :: "st \<Rightarrow> nat" where "st_calls s = length (xh_calls (st_x s))"
definition dev_calls :: "device \<Rightarrow> nat" where "dev_calls d = length (xh_calls (dv_x d))"

lemma grows_sys:
  "grows st_calls 1 (sys_ioctl env fd rq a b)" "grows st_calls 1 (sys_close fd)" "grows st_calls 0 (se_mod f)" "grows st_calls 0 (se_get g)"
  unfolding sys_ioctl_def sys_close_def
  by (auto intro!: grows_step grows_basic simp: st_calls_def x_log_def x_close_def Let_def)

lemma drain_loop_calls: "grows st_calls (n + 1) (drain_loop env n c fd out)"
proof (induction n arbitrary: out)
  case 0
  show ?case by (simp add: grows_mono [OF grows_basic(1)])
next
  case (Suc n)
  have closed: "grows st_calls 1 (seqm (se_mod g) (seqm (sys_close fd) (ret out)))" for g and out :: "os_fired list"
    using grows_seqm [OF grows_sys(3) grows_seqm [OF grows_sys(2) grows_basic(1)]] by simp
  have quiet: "grows st_calls 0 (seqm (se_mod g) (ret out))" for g and out :: "os_fired list"
    using grows_seqm [OF grows_sys(3) grows_basic(1)] by simp
  have rest: "grows st_calls (n + 1) (bindm (case found of
                Some reg \<Rightarrow> ret (out @ [\<lparr> of_reg = reg, of_info32 = i \<rparr>])
              | None \<Rightarrow> seqm (se_mod g) (ret out)) (\<lambda>out'. if z then ret out' else drain_loop env n c fd out'))" for found i g z
    using grows_bindm [of st_calls 0 _ "n + 1"] quiet Suc
    by (auto split: option.split intro!: grows_bindm [of st_calls 0 _ "n + 1", simplified] grows_mono [OF grows_basic(1)] grows_basic)
  have body: "grows st_calls (n + 1)
    (if r \<noteq> 0 then seqm (se_mod (drop_ctl c)) (seqm (sys_close fd) (ret out))
     else if rd32 p 12 \<noteq> NV_OK then
      (if rd32 p 12 = NV_ERR_OPERATING_SYSTEM
       then seqm (se_mod (\<lambda>s. s\<lparr> se_ev_dataless := se_ev_dataless s + 1 \<rparr>)) (ret out)
       else seqm (se_mod (drop_ctl c)) (seqm (sys_close fd) (ret out)))
     else
      seqm (se_mod (\<lambda>s. s\<lparr> se_ev_fired := se_ev_fired s + 1 \<rparr>))
      (bindm (se_get (\<lambda>s. map_of (se_events s) (c, rd32 ev 0))) (\<lambda>found.
       bindm (case found of
                Some reg \<Rightarrow> ret (out @ [\<lparr> of_reg = reg, of_info32 = rd32 ev 8 \<rparr>])
              | None \<Rightarrow> seqm (se_mod (\<lambda>s. s\<lparr> se_ev_unmatched := se_ev_unmatched s + 1 \<rparr>)) (ret out)) (\<lambda>out'.
       if rd32 p 8 = 0 then ret out' else drain_loop env n c fd out'))))" for r :: i32 and p ev
    using grows_seqm [OF grows_sys(3) grows_bindm [OF grows_sys(4) rest]]
    by (auto intro!: grows_if grows_mono [OF closed] grows_mono [OF quiet])
  have step: "grows st_calls (n + 1 + 1) (bindm (getm g)
      (\<lambda>addr. bindm (sys_ioctl env fd rq (inl addr) aux) (\<lambda>(r, _, p, ev). k r p ev)))"
    if "\<And>r p ev. grows st_calls (n + 1) (k r p ev)" for g inl aux rq and k :: "i32 \<Rightarrow> bytes \<Rightarrow> bytes \<Rightarrow> os_fired list sm"
  proof -
    have "grows st_calls (n + 1) (case x of (r, _, p, ev) \<Rightarrow> k r p ev)" for x :: "i32 \<times> i32 \<times> bytes \<times> bytes"
      using that by (simp split: prod.split)
    from grows_bindm [OF grows_basic(3) grows_bindm [OF grows_sys(1) this]] show ?thesis by (simp add: add.commute)
  qed
  show ?case unfolding drain_loop.simps using step [OF body] by simp
qed

lemma grows_in_session: "grows st_calls k c \<Longrightarrow> grows dev_calls k (in_session g c)"
  unfolding grows_def in_session_def dev_calls_def st_calls_def by (fastforce split: option.splits prod.splits)

lemma keeps_calls:
  "keeps dev_calls (push_event dn rq)" "keeps dev_calls next_seq" "keeps dev_calls count_wake" "keeps dev_calls (waiters_take dn)"
  unfolding push_event_def next_seq_def count_wake_def waiters_take_def
  by (intro keeps_rules; simp add: dev_calls_def no_queue_def no_slot_def dv_call_def split: event_slot.split prod.split)+

lemma deliver_calls: "keeps dev_calls (deliver dn w mk)"
  unfolding deliver_def by (intro keeps_rules keeps_calls)

lemma unregister_calls: "dev_calls (unregister_id pid h d) = dev_calls d"
  by (simp add: dev_calls_def unregister_id_def dv_call_def Let_def split: option.split)

lemma poll_event_ctl_calls: "grows dev_calls 257 (poll_event_ctl env dn pid g c w)"
proof -
  have drain: "grows st_calls 257 (drain_os_events env c)"
    unfolding drain_os_events_def
    using grows_bindm [OF grows_sys(4), of 257] drain_loop_calls [of 256 env c]
    by (auto intro!: grows_bindm [OF grows_sys(4), of 257, simplified] split: option.split intro: grows_mono [OF grows_basic(1)])
  have del: "keeps dev_calls (dv_mod (unregister_id pid None))" by (intro keeps_rules) (simp add: unregister_calls)
  have fold: "keeps dev_calls (foldm (\<lambda>f w. deliver dn w (os_event g f)) fs w)" for fs w
    by (intro keeps_foldm deliver_calls)
  have tail: "grows dev_calls 0 (bindm (in_session g (se_get (\<lambda>s. has_event_ctl s c))) (\<lambda>alive.
      seqm (whenm (\<not> alive) (dv_mod (unregister_id pid None)))
      (foldm (\<lambda>f w. deliver dn w (os_event g f)) fs w)))" for fs
  proof -
    have "grows dev_calls 0 (seqm (whenm (\<not> alive) (dv_mod (unregister_id pid None))) (foldm (\<lambda>f w. deliver dn w (os_event g f)) fs w))" for alive
      by (intro grows_keeps keeps_rules del fold)
    from grows_bindm [OF grows_in_session [OF grows_sys(4)] this] show ?thesis by simp
  qed
  have none: "grows dev_calls 257 (seqm (dv_mod (unregister_id pid None)) (ret w))"
    by (rule grows_mono [of _ 0]) (intro grows_keeps keeps_rules del, simp)
  show ?thesis unfolding poll_event_ctl_def
    using grows_bindm [OF grows_basic(3), of dev_calls 257] none grows_bindm [OF grows_in_session [OF drain] tail]
    by (auto intro!: grows_bindm [OF grows_basic(3), of dev_calls 257, simplified])
qed

lemma poll_waiter_calls: "grows dev_calls 0 (poll_waiter dn f w)"
proof -
  have "grows st_calls 0 (stepm (\<lambda>s. case semsurf_wake r (st_se s) of (a, se) \<Rightarrow> (a, s\<lparr> st_se := se \<rparr>)))" for r
    by (rule grows_step) (simp add: st_calls_def split: prod.split)
  from grows_in_session [OF this] have wake: "grows dev_calls 0 (wake_session f)"
    unfolding wake_session_def by (auto intro!: grows_bindm [OF grows_basic(3), of dev_calls 0, simplified] grows_basic)
  have "grows dev_calls 0 (case woken of
      None \<Rightarrow> ret w
    | Some b \<Rightarrow> bindm (deliver dn w (waiter_event f b)) (\<lambda>wr. seqm count_wake (ret wr)))" for woken
    by (intro grows_keeps keeps_rules deliver_calls keeps_calls)
  from grows_bindm [OF wake this] show ?thesis unfolding poll_waiter_def by simp
qed

lemma on_poll_event_calls: "grows dev_calls 257 (on_poll_event env dn ev w)"
proof -
  obtain pid hung where ev: "ev = (pid, hung)" by (cases ev)
  have gone: "grows dev_calls 0 (seqm (dv_mod (unregister_id pid None)) (ret w))"
    by (intro grows_keeps keeps_rules) (simp add: unregister_calls)
  have client: "grows dev_calls 0 (poll_client dn g t w)" for g t
    unfolding poll_client_def by (intro grows_keeps keeps_rules deliver_calls keeps_calls)
  have "grows dev_calls 0 (foldm (poll_waiter dn) fs w)" for fs
    by (rule grows_mono [OF grows_foldm [OF poll_waiter_calls]]) simp
  from grows_bindm [OF grows_keeps [OF keeps_calls(4)] this]
  have fired: "grows dev_calls 0 (bindm (waiters_take dn) (\<lambda>fs. foldm (poll_waiter dn) fs w))" by simp
  have "grows dev_calls 257
     (if hung then (if src = Some PsWaiterNotify then fail EIO else seqm (dv_mod (unregister_id pid None)) (ret w))
      else case src of
         Some (PsClient guest_proc token _) \<Rightarrow> poll_client dn guest_proc token w
       | Some (PsEventCtl guest_proc h_client _) \<Rightarrow> poll_event_ctl env dn pid guest_proc h_client w
       | Some PsWaiterNotify \<Rightarrow> bindm (waiters_take dn) (\<lambda>fs. foldm (poll_waiter dn) fs w)
       | None \<Rightarrow> ret w)" for src
    by (auto split: option.split poll_src.split intro: grows_mono [OF gone] grows_mono [OF client] grows_mono [OF fired]
        grows_mono [OF grows_basic(1)] grows_mono [OF grows_basic(2)] poll_event_ctl_calls)
  from grows_bindm [OF grows_basic(3) this] show ?thesis unfolding on_poll_event_def ev by simp
qed

section \<open>Rounds\<close>

definition waits :: "device \<Rightarrow> nat" where
  "waits d = length (filter (\<lambda>c. c = DcWait) (dv_log d))"

lemma keeps_waits_session: "keeps waits (in_session g c)"
  by (auto simp: keeps_def in_session_def waits_def split: option.splits prod.splits)

lemma keeps_waits [keeps_rules]:
  "keeps waits (push_event dn rq)" "keeps waits next_seq" "keeps waits count_wake" "keeps waits (waiters_take dn)"
  "keeps waits (dv_mod (unregister_id pid h))"
  unfolding push_event_def next_seq_def count_wake_def waiters_take_def
  by (intro keeps_rules; simp add: waits_def no_queue_def no_slot_def dv_call_def unregister_id_def Let_def
      split: event_slot.split prod.split option.split)+

lemma on_poll_event_waits: "keeps waits (on_poll_event env dn ev w)"
proof -
  have d: "keeps waits (deliver dn w mk)" for w mk unfolding deliver_def by (intro keeps_rules)
  have "keeps waits (poll_waiter dn f w)" for f w
    unfolding poll_waiter_def wake_session_def by (intro keeps_rules d keeps_waits_session)
  then have fold: "keeps waits (foldm (poll_waiter dn) fs w)" for fs w by (intro keeps_foldm)
  have "keeps waits (foldm (\<lambda>f w. deliver dn w (os_event g f)) fs w)" for g fs w by (intro keeps_foldm d)
  then have ctl: "keeps waits (poll_event_ctl env dn pid g c w)" for pid g c w
    unfolding poll_event_ctl_def by (intro keeps_rules keeps_waits_session)
  show ?thesis unfolding on_poll_event_def
    by (cases ev) (auto intro!: keeps_rules fold ctl d split: option.split poll_src.split simp: poll_client_def)
qed

lemma poll_rounds_bounds:
  "grows dev_calls (n * (64 * 257)) (poll_rounds env dn n w) \<and> grows waits n (poll_rounds env dn n w)"
proof (induction n arbitrary: w)
  case 0
  show ?case by (simp add: grows_basic)
next
  case (Suc n)
  have wait: "grows dev_calls 0 (stepm (\<lambda>d. (dn_wait dn d, dv_call DcWait d)) :: poll_wait dm)"
    "grows waits 1 (stepm (\<lambda>d. (dn_wait dn d, dv_call DcWait d)) :: poll_wait dm)"
    by (rule grows_step, simp add: dev_calls_def waits_def dv_call_def)+
  have evs: "grows dev_calls (64 * 257) (foldm (on_poll_event env dn) (take 64 es) w)"
    "grows waits 0 (foldm (on_poll_event env dn) (take 64 es) w)" for es
    by (rule grows_mono [OF grows_foldm [OF on_poll_event_calls]], simp)
      (rule grows_keeps, intro keeps_foldm on_poll_event_waits)
  define k where "k r = (case r of
      PwInterrupted \<Rightarrow> poll_rounds env dn n w
    | PwFailed \<Rightarrow> fail EIO
    | PwReady [] \<Rightarrow> ret w
    | PwReady (e # es) \<Rightarrow> bindm (foldm (on_poll_event env dn) (take 64 (e # es)) w) (poll_rounds env dn n))" for r
  note rest = conjunct1 [OF Suc.IH] conjunct2 [OF Suc.IH]
  have body: "grows dev_calls (64 * 257 + n * (64 * 257)) (k r) \<and> grows waits (0 + n) (k r)" for r
  proof (cases r)
    case PwInterrupted
    then show ?thesis using grows_mono [OF rest(1), of "64 * 257 + n * (64 * 257)" w] rest(2) by (simp add: k_def)
  next
    case (PwReady l)
    show ?thesis
    proof (cases l)
      case (Cons e es)
      show ?thesis unfolding k_def PwReady Cons poll_wait.case list.case
        by (intro conjI grows_bindm evs rest)
    qed (use PwReady in \<open>auto simp: k_def intro: grows_mono [OF grows_basic(1)]\<close>)
  qed (auto simp: k_def intro: grows_mono [OF grows_basic(2)])
  have "poll_rounds env dn (Suc n) w = bindm (stepm (\<lambda>d. (dn_wait dn d, dv_call DcWait d))) k"
    unfolding poll_rounds.simps k_def by (rule refl)
  then show ?case
    using grows_bindm [OF wait(1) conjunct1 [OF body]] grows_bindm [OF wait(2) conjunct2 [OF body]] by (simp add: algebra_simps)
qed

section \<open>Claims\<close>

text \<open>C29: One event of the host ends, and its work is bounded: however many sources are ready, however often
  the wait is interrupted and however many events the driver reports as pending, handling the
  poll event makes at most 8 waits and at most 8 * 64 * 257 calls to the driver (8 rounds of 64
  events, each draining at most 256 records and closing one descriptor), and then returns.\<close>

theorem poll_event_bounded:
  assumes "senv_ok env" "length tables < 2 ^ 63" "sum_list (map chains_of es) < 2 ^ 64 - 1"
    "dn_epoll_add dn0 (device_new p B tables \<lparr> dv_next_poll_id := 2 \<rparr>) notify 1"
  shows "\<exists>d r d'. served env p B tables dn0 notify es = Some d \<and> on_poll env dn d = Some (r, d') \<and>
    waits d' \<le> waits d + 8 \<and> length (xh_calls (dv_x d')) \<le> length (xh_calls (dv_x d)) + 8 * 64 * 257"
proof -
  obtain d where d: "served env p B tables dn0 notify es = Some d" "fresh (1 + sum_list (map chains_of es)) d"
    using served_total [OF assms(1,2,4,3)] by blast
  obtain r d' where r: "on_poll env dn d = Some (r, d')"
    using runsD [OF on_poll_runs d(2)] unfolding wp_Some by blast
  have sig: "keeps f (signal dn b)" for b and f :: "device \<Rightarrow> nat"
    unfolding signal_def by (intro keeps_rules)
  have "grows dev_calls (8 * (64 * 257) + 0) (on_poll env dn)" "grows waits (8 + 0) (on_poll env dn)"
    unfolding on_poll_def
    by (intro grows_bindm conjunct1 [OF poll_rounds_bounds] conjunct2 [OF poll_rounds_bounds] grows_keeps sig)+
  then have "dev_calls d' \<le> dev_calls d + 8 * (64 * 257)" "waits d' \<le> waits d + 8" using r growsD by fastforce+
  then show ?thesis using d(1) r by (auto simp: dev_calls_def)
qed

theorem poll_event_bounded_witness:
  "\<exists>d r d'. served sample_senv profile_OFF sample_budget [1, 2, 3] sample_denv 4 sample_events = Some d \<and>
    on_poll sample_senv sample_denv d = Some (r, d') \<and> waits d' \<le> waits d + 8"
proof -
  have env: "senv_ok sample_senv" by (simp add: senv_ok_def sample_senv_def supported_abis_def)
  have es: "sum_list (map chains_of sample_events) < 2 ^ 64 - 1" by (simp add: sample_events_def chains_of_def sample_msgs_def)
  have add: "dn_epoll_add sample_denv x fd pid" for x fd pid by (simp add: sample_denv_def)
  show ?thesis using poll_event_bounded [OF env _ es add, of "[1, 2, 3]" profile_OFF sample_budget 4 sample_denv] by fastforce
qed

end
