(* ===== verification/Tables.thy ===== *)
theory Tables
  imports Wire Xlate Identity
begin

text \<open>
  The command tables the host builds for the guest module: \<^verbatim>\<open>crates/nvrm-wire/src/tables.rs\<close> (the
  descriptors and the checksum) and \<^verbatim>\<open>crates/nvrm-abi/src/table.rs\<close> (the scan over the translation
  rules and the stream).  The guest gathers requests by these rows; the host validates every request
  by \<^verbatim>\<open>xlate\<close> itself.  The lemmas show that both follow the same rules.
\<close>

section \<open>Descriptors\<close>

definition TABLE_MAGIC :: u32 where "TABLE_MAGIC = u32_of_le [0x4E, 0x56, 0x52, 0x54]"
abbreviation (input) TABLE_VERSION :: u32 where "TABLE_VERSION \<equiv> 1"
abbreviation (input) SIZE_FROM_IOC :: u32 where "SIZE_FROM_IOC \<equiv> 0xFFFFFFFF"
abbreviation (input) EMB_NONE :: u32 where "EMB_NONE \<equiv> 0"
abbreviation (input) EMB_LEN_FIELD :: u32 where "EMB_LEN_FIELD \<equiv> 1"
abbreviation (input) EMB_LEN_CLASS :: u32 where "EMB_LEN_CLASS \<equiv> 2"
abbreviation (input) EMB_LEN_FIXED :: u32 where "EMB_LEN_FIXED \<equiv> 3"
abbreviation (input) F_XFER :: u32 where "F_XFER \<equiv> 1"
abbreviation (input) F_OSDESC :: u32 where "F_OSDESC \<equiv> 2"
abbreviation (input) F_FREE :: u32 where "F_FREE \<equiv> 4"
definition HDR_LEN :: nat where "HDR_LEN = 96"
abbreviation (input) CF_BLOCK :: u32 where "CF_BLOCK \<equiv> 1"
abbreviation (input) CF_FD :: u32 where "CF_FD \<equiv> 2"
abbreviation (input) KF_UNVERIFIED :: u32 where "KF_UNVERIFIED \<equiv> 1"
abbreviation (input) NLEN_FIXED :: u32 where "NLEN_FIXED \<equiv> 0"
abbreviation (input) NLEN_FIELD :: u32 where "NLEN_FIELD \<equiv> 1"

record ioctl_desc =
  io_dev :: u32
  io_nr :: u32
  io_size :: u32
  io_fd_off :: u32
  io_emb_ptr_off :: u32
  io_emb_len_kind :: u32
  io_emb_len_off :: u32
  io_cmd_off :: u32
  io_rights_off :: u32
  io_rights_if_size :: u32
  io_handle_off :: u32
  io_flags :: u32

record class_desc =
  kl_hclass :: u32
  kl_param_size :: u32
  kl_fd_off :: u32
  kl_flags :: u32
  kl_fd_if_off :: u32
  kl_fd_if_val :: u32

record ctrl_desc =
  ct_cmd :: u32
  ct_first :: u32
  ct_count :: u32
  ct_flags :: u32
  ct_fd_off :: u32

record nested_desc_row =
  nr_ptr_off :: u32
  nr_len_kind :: u32
  nr_len_off :: u32
  nr_elem :: u32

definition fnv1a32 :: "bytes \<Rightarrow> u32" where
  "fnv1a32 bs = fold (\<lambda>b h. (h XOR ucast b) * 0x01000193) bs 0x811c9dc5"

section \<open>The rules of the frontend escapes\<close>

abbreviation (input) NVOS54_CMD_OFF :: u32 where "NVOS54_CMD_OFF \<equiv> 8"
abbreviation (input) NVOS54_PARAMS_OFF :: u32 where "NVOS54_PARAMS_OFF \<equiv> 16"
abbreviation (input) NVOS54_PARAMSSIZE_OFF :: u32 where "NVOS54_PARAMSSIZE_OFF \<equiv> 24"
abbreviation (input) NVOS64_HCLASS_OFF :: u32 where "NVOS64_HCLASS_OFF \<equiv> 12"
abbreviation (input) NVOS64_PARAMS_OFF :: u32 where "NVOS64_PARAMS_OFF \<equiv> 16"
abbreviation (input) NVOS64_RIGHTS_OFF :: u32 where "NVOS64_RIGHTS_OFF \<equiv> 24"
abbreviation (input) NVOS64_LEN :: u32 where "NVOS64_LEN \<equiv> 48"
abbreviation (input) NVOS00_HOBJECTOLD_OFF :: u32 where "NVOS00_HOBJECTOLD_OFF \<equiv> 8"
abbreviation (input) NVOS02_HOBJECTNEW_OFF :: u32 where "NVOS02_HOBJECTNEW_OFF \<equiv> 8"
abbreviation (input) NVOS02_HCLASS_OFF :: u32 where "NVOS02_HCLASS_OFF \<equiv> 12"
abbreviation (input) NVOS02_PMEMORY_OFF :: u32 where "NVOS02_PMEMORY_OFF \<equiv> 24"
abbreviation (input) NVOS02_LIMIT_OFF :: u32 where "NVOS02_LIMIT_OFF \<equiv> 32"
abbreviation (input) NVOS02_STATUS_OFF :: u32 where "NVOS02_STATUS_OFF \<equiv> 40"
abbreviation (input) OSDESC_CLASS :: u32 where "OSDESC_CLASS \<equiv> 0x71"

record special =
  sp_emb_ptr_off :: u32
  sp_emb_len_kind :: u32
  sp_emb_len_off :: u32
  sp_cmd_off :: u32
  sp_rights_off :: u32
  sp_rights_if_size :: u32
  sp_handle_off :: u32
  sp_flags :: u32

text \<open>\<^verbatim>\<open>NVOS41.pEvent\<close> is at 0 and \<^verbatim>\<open>NvUnixEvent\<close> has 16 bytes, as in \<^verbatim>\<open>embedded_ptr\<close>.\<close>

definition frontend_special :: "u32 \<Rightarrow> special option" where
  "frontend_special nr =
    (let base = \<lparr> sp_emb_ptr_off = NONE_U32, sp_emb_len_kind = EMB_NONE, sp_emb_len_off = NONE_U32, sp_cmd_off = NONE_U32,
                  sp_rights_off = NONE_U32, sp_rights_if_size = NONE_U32, sp_handle_off = NONE_U32, sp_flags = 0 \<rparr> in
     if nr = NV_ESC_RM_CONTROL then
       Some (base\<lparr> sp_emb_ptr_off := NVOS54_PARAMS_OFF, sp_emb_len_kind := EMB_LEN_FIELD,
                   sp_emb_len_off := NVOS54_PARAMSSIZE_OFF, sp_cmd_off := NVOS54_CMD_OFF \<rparr>)
     else if nr = NV_ESC_RM_ALLOC then
       Some (base\<lparr> sp_emb_ptr_off := NVOS64_PARAMS_OFF, sp_emb_len_kind := EMB_LEN_CLASS,
                   sp_emb_len_off := NVOS64_HCLASS_OFF, sp_rights_off := NVOS64_RIGHTS_OFF, sp_rights_if_size := NVOS64_LEN \<rparr>)
     else if nr = NV_ESC_RM_FREE then
       Some (base\<lparr> sp_handle_off := NVOS00_HOBJECTOLD_OFF, sp_flags := F_FREE \<rparr>)
     else if nr = NV_ESC_RM_ALLOC_MEMORY then
       Some (base\<lparr> sp_emb_len_off := NVOS02_HCLASS_OFF, sp_handle_off := NVOS02_HOBJECTNEW_OFF, sp_flags := F_OSDESC \<rparr>)
     else if nr = NV_ESC_IOCTL_XFER_CMD then
       Some (base\<lparr> sp_flags := F_XFER \<rparr>)
     else if nr = NV_ESC_RM_GET_EVENT_DATA then
       Some (base\<lparr> sp_emb_ptr_off := 0, sp_emb_len_kind := EMB_LEN_FIXED, sp_emb_len_off := 16 \<rparr>)
     else None)"

text \<open>The sample payloads; \<^verbatim>\<open>False\<close> is a failed assertion.\<close>

definition verify_against_xlate :: "rm_abi \<Rightarrow> bool" where
  "verify_against_xlate A \<longleftrightarrow>
    (let ctl = wr32 (wr64 (replicate 32 0) 16 0xdeadbeef) 24 1234;
         alloc = wr64 (wr32 (replicate 48 0) 12 0x2080) 16 0xdeadbeef;
         rights = wr64 alloc 24 1;
         event = wr64 (replicate 16 0) 0 0xdeadbeef in
     (case embedded_ptr A Ctl NV_ESC_RM_CONTROL ctl 32 of
        Inr (Some e) \<Rightarrow> emb_ptr_off e = NVOS54_PARAMS_OFF \<and> emb_len e = 1234
      | _ \<Rightarrow> False) \<and>
     (case alloc_param_size A 0x2080 of
        None \<Rightarrow> False
      | Some want \<Rightarrow>
          (case embedded_ptr A Ctl NV_ESC_RM_ALLOC alloc 48 of
             Inr (Some e) \<Rightarrow> emb_ptr_off e = NVOS64_PARAMS_OFF \<and> emb_len e = want
           | _ \<Rightarrow> False)) \<and>
     (case embedded_ptr A Ctl NV_ESC_RM_ALLOC rights 48 of Inl _ \<Rightarrow> True | Inr _ \<Rightarrow> False) \<and>
     (case embedded_ptr A Ctl NV_ESC_RM_GET_EVENT_DATA event 16 of
        Inr (Some e) \<Rightarrow> emb_ptr_off e = 0 \<and> emb_len e = 16
      | _ \<Rightarrow> False) \<and>
     NV_ESC_RM_ALLOC_MEMORY = UVM_PAGEABLE_MEM_ACCESS)"

section \<open>The scan\<close>

record parts =
  pt_ioctls :: "ioctl_desc list"
  pt_classes :: "class_desc list"
  pt_ctrls :: "ctrl_desc list"
  pt_nested :: "nested_desc_row list"

definition desc :: "dev_tag \<Rightarrow> u32 \<Rightarrow> ioctl_desc" where
  "desc dev nr = \<lparr> io_dev = dev_tag_to_u32 dev, io_nr = nr, io_size = SIZE_FROM_IOC, io_fd_off = NONE_U32,
     io_emb_ptr_off = NONE_U32, io_emb_len_kind = EMB_NONE, io_emb_len_off = NONE_U32, io_cmd_off = NONE_U32,
     io_rights_off = NONE_U32, io_rights_if_size = NONE_U32, io_handle_off = NONE_U32, io_flags = 0 \<rparr>"

abbreviation upto_word :: "nat \<Rightarrow> u32 list" where "upto_word n \<equiv> map word_of_nat [0..<Suc n]"

abbreviation or_none :: "u32 option \<Rightarrow> u32" where "or_none x \<equiv> case x of Some v \<Rightarrow> v | None \<Rightarrow> NONE_U32"

definition UVM_SCAN_MAX :: nat where "UVM_SCAN_MAX = 2047"
definition CLASS_SCAN_MAX :: nat where "CLASS_SCAN_MAX = 0xffff"
definition FRONTEND_SCAN_MAX :: nat where "FRONTEND_SCAN_MAX = 0xff"

definition uvm_row :: "rm_abi \<Rightarrow> dev_tag \<Rightarrow> dev \<Rightarrow> u32 \<Rightarrow> ioctl_desc option" where
  "uvm_row A tag d nr =
    (case uvm_param_size_for A nr of
       None \<Rightarrow> None
     | Some sz \<Rightarrow> Some ((desc tag nr)\<lparr> io_size := sz, io_fd_off := or_none (fd_field_offset d nr sz) \<rparr>))"

definition collect_uvm :: "rm_abi \<Rightarrow> ioctl_desc list" where
  "collect_uvm A =
    concat (map (\<lambda>(tag, d). List.map_filter (uvm_row A tag d) (upto_word UVM_SCAN_MAX @ [UVM_INITIALIZE, UVM_DEINITIALIZE]))
      [(TagUvm, Uvm), (TagUvmTools, UvmTools)])"

definition frontend_row :: "dev_tag \<Rightarrow> dev \<Rightarrow> u32 \<Rightarrow> ioctl_desc option" where
  "frontend_row tag d nr =
    (if frontend_size nr = None \<and> frontend_special nr = None then None
     else
       let row = (desc tag nr)\<lparr> io_fd_off := or_none (fd_field_offset d nr 0) \<rparr> in
       Some (case frontend_special nr of
               None \<Rightarrow> row
             | Some s \<Rightarrow> row\<lparr> io_emb_ptr_off := sp_emb_ptr_off s, io_emb_len_kind := sp_emb_len_kind s,
                 io_emb_len_off := sp_emb_len_off s, io_cmd_off := sp_cmd_off s, io_rights_off := sp_rights_off s,
                 io_rights_if_size := sp_rights_if_size s, io_handle_off := sp_handle_off s, io_flags := sp_flags s \<rparr>))"

definition collect_frontend :: "ioctl_desc list" where
  "collect_frontend =
    concat (map (\<lambda>(tag, d). List.map_filter (frontend_row tag d) (upto_word FRONTEND_SCAN_MAX)) [(TagCtl, Ctl), (TagGpu, Gpu)])"

definition class_row :: "rm_abi \<Rightarrow> u32 \<Rightarrow> class_desc option" where
  "class_row A hclass =
    (case alloc_param_size A hclass of
       None \<Rightarrow> None
     | Some param_size \<Rightarrow> Some \<lparr> kl_hclass = hclass, kl_param_size = param_size, kl_fd_off = or_none (alloc_fd_field hclass),
         kl_flags = (if alloc_class_verified hclass then 0 else KF_UNVERIFIED),
         kl_fd_if_off = or_none (map_option fst (alloc_fd_guard hclass)),
         kl_fd_if_val = (case alloc_fd_guard hclass of None \<Rightarrow> 0 | Some g \<Rightarrow> snd g) \<rparr>)"

definition collect_classes :: "rm_abi \<Rightarrow> class_desc list" where
  "collect_classes A = List.map_filter (class_row A) (upto_word CLASS_SCAN_MAX)"

definition nested_row :: "nested_ptr \<Rightarrow> nested_desc_row" where
  "nested_row sp =
    (case np_len sp of
       LenFixed n \<Rightarrow> \<lparr> nr_ptr_off = np_ptr_off sp, nr_len_kind = NLEN_FIXED, nr_len_off = n, nr_elem = 1 \<rparr>
     | LenField off elem \<Rightarrow> \<lparr> nr_ptr_off = np_ptr_off sp, nr_len_kind = NLEN_FIELD, nr_len_off = off, nr_elem = elem \<rparr>)"

text \<open>\<^verbatim>\<open>None\<close> is the assertion that every listed command has pointers.\<close>

fun collect_nested :: "u32 list \<Rightarrow> ctrl_desc list \<Rightarrow> nested_desc_row list \<Rightarrow> (ctrl_desc list \<times> nested_desc_row list) option" where
  "collect_nested [] ctrls nested = Some (ctrls, nested)"
| "collect_nested (cmd # cmds) ctrls nested =
    (let specs = nested_ptrs cmd; fd = ctrl_fd_offset cmd in
     if specs = [] then None
     else collect_nested cmds
       (ctrls @ [\<lparr> ct_cmd = cmd, ct_first = word_of_nat (length nested), ct_count = word_of_nat (length specs),
          ct_flags = (if ctrl_blocked cmd then CF_BLOCK else 0) OR (if fd \<noteq> None then CF_FD else 0),
          ct_fd_off = or_none fd \<rparr>])
       (nested @ map nested_row specs))"

fun collect_blocked :: "u32 list \<Rightarrow> ctrl_desc list \<Rightarrow> ctrl_desc list" where
  "collect_blocked [] ctrls = ctrls"
| "collect_blocked (cmd # cmds) ctrls =
    collect_blocked cmds
      (if list_ex (\<lambda>c. ct_cmd c = cmd) ctrls then ctrls
       else ctrls @ [\<lparr> ct_cmd = cmd, ct_first = 0, ct_count = 0, ct_flags = CF_BLOCK, ct_fd_off = NONE_U32 \<rparr>])"

fun set_fd :: "u32 \<Rightarrow> u32 \<Rightarrow> ctrl_desc list \<Rightarrow> ctrl_desc list" where
  "set_fd cmd off [] = [\<lparr> ct_cmd = cmd, ct_first = 0, ct_count = 0, ct_flags = CF_FD, ct_fd_off = off \<rparr>]"
| "set_fd cmd off (c # cs) =
    (if ct_cmd c = cmd then c\<lparr> ct_flags := ct_flags c OR CF_FD, ct_fd_off := off \<rparr> # cs else c # set_fd cmd off cs)"

text \<open>\<^verbatim>\<open>None\<close> is the panic on a command without an offset.\<close>

fun collect_fds :: "u32 list \<Rightarrow> ctrl_desc list \<Rightarrow> ctrl_desc list option" where
  "collect_fds [] ctrls = Some ctrls"
| "collect_fds (cmd # cmds) ctrls =
    (case ctrl_fd_offset cmd of None \<Rightarrow> None | Some off \<Rightarrow> collect_fds cmds (set_fd cmd off ctrls))"

definition collect :: "rm_abi \<Rightarrow> parts option" where
  "collect A =
    (if \<not> verify_against_xlate A then None
     else case collect_nested nested_cmds [] [] of
       None \<Rightarrow> None
     | Some (ctrls, nested) \<Rightarrow>
         (case collect_fds ctrl_fd_cmds (collect_blocked blocked_ctrls ctrls) of
            None \<Rightarrow> None
          | Some ctrls' \<Rightarrow> Some \<lparr> pt_ioctls = collect_uvm A @ collect_frontend, pt_classes = collect_classes A,
              pt_ctrls = ctrls', pt_nested = nested \<rparr>))"

section \<open>The stream\<close>

definition words_bytes :: "u32 list \<Rightarrow> bytes" where
  "words_bytes ws = concat (map u32_to_le ws)"

definition push_ioctl :: "ioctl_desc \<Rightarrow> u32 list" where
  "push_ioctl d = [io_dev d, io_nr d, io_size d, io_fd_off d, io_emb_ptr_off d, io_emb_len_kind d, io_emb_len_off d,
     io_cmd_off d, io_rights_off d, io_rights_if_size d, io_handle_off d, io_flags d]"

abbreviation class_words :: "class_desc \<Rightarrow> u32 list" where
  "class_words c \<equiv> [kl_hclass c, kl_param_size c, kl_fd_off c, kl_flags c, kl_fd_if_off c, kl_fd_if_val c]"

abbreviation ctrl_words :: "ctrl_desc \<Rightarrow> u32 list" where
  "ctrl_words c \<equiv> [ct_cmd c, ct_first c, ct_count c, ct_flags c, ct_fd_off c]"

abbreviation nested_words :: "nested_desc_row \<Rightarrow> u32 list" where
  "nested_words n \<equiv> [nr_ptr_off n, nr_len_kind n, nr_len_off n, nr_elem n]"

text \<open>\<^verbatim>\<open>nv_ioctl_xfer_t\<close>: 16 bytes, cmd at 0, size at 4, ptr at 8.\<close>

definition header_words :: "parts \<Rightarrow> u32 \<Rightarrow> u32 \<Rightarrow> u32 list" where
  "header_words p total_len checksum =
    [TABLE_MAGIC, TABLE_VERSION, total_len, checksum,
     word_of_nat (length (pt_ioctls p)), word_of_nat (length (pt_classes p)), word_of_nat (length (pt_ctrls p)),
     word_of_nat (length (pt_nested p)),
     NV_ESC_IOCTL_XFER_CMD, 16, 0, 4, 8, word_of_nat ABSOLUTE_MAX_IOCTL_SIZE,
     OSDESC_CLASS, NVOS02_PMEMORY_OFF, NVOS02_LIMIT_OFF, NVOS02_STATUS_OFF, NVOS02_HOBJECTNEW_OFF,
     word_of_nat MAX_PAYLOAD, word_of_nat MAX_AUX, word_of_nat MAX_NESTED, 0, 0]"

definition body_words :: "parts \<Rightarrow> u32 list" where
  "body_words p = concat (map push_ioctl (pt_ioctls p)) @ concat (map class_words (pt_classes p)) @
     concat (map ctrl_words (pt_ctrls p)) @ concat (map nested_words (pt_nested p))"

text \<open>\<^verbatim>\<open>None\<close> is the assertion on the length of the header.\<close>

definition serialize :: "parts \<Rightarrow> (bytes \<times> u32) option" where
  "serialize p =
    (let body = words_bytes (body_words p); checksum = fnv1a32 body;
         total_len = word_of_nat (HDR_LEN + length body);
         hdr = words_bytes (header_words p total_len checksum) in
     if length hdr = HDR_LEN then Some (hdr @ body, checksum) else None)"

record tables =
  tb_bytes :: bytes
  tb_checksum :: u32
  tb_version :: u32
  tb_n_ioctl :: u32
  tb_n_class :: u32
  tb_n_ctrl :: u32
  tb_n_nested :: u32

definition build :: "rm_abi \<Rightarrow> tables option" where
  "build A =
    (case collect A of
       None \<Rightarrow> None
     | Some p \<Rightarrow>
         (case serialize p of
            None \<Rightarrow> None
          | Some (bs, checksum) \<Rightarrow> Some \<lparr> tb_bytes = bs, tb_checksum = checksum, tb_version = TABLE_VERSION,
              tb_n_ioctl = word_of_nat (length (pt_ioctls p)), tb_n_class = word_of_nat (length (pt_classes p)),
              tb_n_ctrl = word_of_nat (length (pt_ctrls p)), tb_n_nested = word_of_nat (length (pt_nested p)) \<rparr>))"

section \<open>Lookups\<close>

text \<open>The guest takes the first row of a key.\<close>

abbreviation ioctl_find :: "ioctl_desc list \<Rightarrow> u32 \<Rightarrow> u32 \<Rightarrow> ioctl_desc option" where
  "ioctl_find rows dev nr \<equiv> find (\<lambda>d. io_dev d = dev \<and> io_nr d = nr) rows"

abbreviation class_find :: "class_desc list \<Rightarrow> u32 \<Rightarrow> class_desc option" where
  "class_find rows hclass \<equiv> find (\<lambda>c. kl_hclass c = hclass) rows"

abbreviation ctrl_find :: "ctrl_desc list \<Rightarrow> u32 \<Rightarrow> ctrl_desc option" where
  "ctrl_find rows cmd \<equiv> find (\<lambda>c. ct_cmd c = cmd) rows"

lemma find_map_filter:
  assumes "\<And>x r. f x = Some r \<Longrightarrow> key r = x"
  shows "find (\<lambda>r. key r = k) (List.map_filter f xs) = (if k \<in> set xs then f k else None)"
  using assms by (induction xs) (auto simp: List.map_filter_def split: option.splits)

lemma find_append: "find P (xs @ ys) = (case find P xs of None \<Rightarrow> find P ys | Some x \<Rightarrow> Some x)"
  by (induction xs) auto

lemma set_upto_word: "n < 2 ^ 32 - 1 \<Longrightarrow> (k \<in> set (upto_word n)) = (unat k \<le> n)"
proof -
  assume n: "n < 2 ^ 32 - 1"
  have "unat k \<le> n \<Longrightarrow> k \<in> set (upto_word n)"
    unfolding set_map set_upt by (rule image_eqI [of _ _ "unat k"]) simp_all
  moreover have "k \<in> set (upto_word n) \<Longrightarrow> unat k \<le> n"
    using n by (auto simp: unsigned_of_nat take_bit_nat_eq_self)
  ultimately show ?thesis by blast
qed

lemma row_bound:
  "(if h = k then a else r) = Some n \<Longrightarrow> k \<le> m \<Longrightarrow> (r = Some n \<Longrightarrow> h \<le> m) \<Longrightarrow> h \<le> m"
  "(if h \<in> set ks then a else r) = Some n \<Longrightarrow> list_all (\<lambda>k. k \<le> m) ks \<Longrightarrow> (r = Some n \<Longrightarrow> h \<le> m) \<Longrightarrow> h \<le> m"
  by (auto split: if_splits simp: list_all_iff)

lemma class_scan_covers:
  assumes "alloc_param_size A hclass = Some n"
  shows "unat hclass \<le> CLASS_SCAN_MAX"
proof -
  have "hclass \<le> 0xffff"
    using assms unfolding alloc_param_size_def alloc_param_size_rest_def
    apply -
    by ((erule row_bound, (simp; fail))+, simp)
  then show ?thesis by (simp add: word_le_nat_alt CLASS_SCAN_MAX_def)
qed

lemma uvm_scan_covers:
  "uvm_param_size_for A nr = Some n \<Longrightarrow> unat nr \<le> UVM_SCAN_MAX \<or> nr = UVM_INITIALIZE \<or> nr = UVM_DEINITIALIZE"
  unfolding uvm_param_size_for_def uvm_param_size_compiled_def UVM_SCAN_MAX_def
  by (auto simp: esc_defs split: if_splits)

lemma frontend_scan_covers:
  "frontend_size nr \<noteq> None \<or> frontend_special nr \<noteq> None \<Longrightarrow> unat nr \<le> FRONTEND_SCAN_MAX"
  unfolding frontend_size_def frontend_special_def FRONTEND_SCAN_MAX_def
  by (auto simp: esc_defs Let_def split: if_splits)

lemma class_find_row: "class_find (collect_classes A) hclass = class_row A hclass"
proof -
  have "class_find (collect_classes A) hclass = (if hclass \<in> set (upto_word CLASS_SCAN_MAX) then class_row A hclass else None)"
    unfolding collect_classes_def by (rule find_map_filter) (auto simp: class_row_def split: option.splits)
  moreover have "hclass \<in> set (upto_word CLASS_SCAN_MAX) \<longleftrightarrow> unat hclass \<le> CLASS_SCAN_MAX"
    by (rule set_upto_word) (simp add: CLASS_SCAN_MAX_def)
  ultimately show ?thesis using class_scan_covers [of A hclass]
    by (auto simp: class_row_def split: option.split)
qed

lemma find_keyed:
  assumes "\<And>x r. f x = Some r \<Longrightarrow> io_dev r = t \<and> io_nr r = x"
  shows "ioctl_find (List.map_filter f xs) dev nr = (if dev = t \<and> nr \<in> set xs then f nr else None)"
  using assms by (induction xs) (auto simp: List.map_filter_def split: option.splits)

lemma row_keys:
  "uvm_row A tag d nr = Some r \<Longrightarrow> io_dev r = dev_tag_to_u32 tag \<and> io_nr r = nr"
  "frontend_row tag d nr = Some r' \<Longrightarrow> io_dev r' = dev_tag_to_u32 tag \<and> io_nr r' = nr"
  by (auto simp: uvm_row_def frontend_row_def desc_def Let_def split: option.splits if_splits)

text \<open>The scans leave no row out.\<close>

lemma scan_complete:
  "(if nr \<in> set (upto_word UVM_SCAN_MAX @ [UVM_INITIALIZE, UVM_DEINITIALIZE]) then uvm_row A tag d nr else None) = uvm_row A tag d nr"
  "(if nr \<in> set (upto_word FRONTEND_SCAN_MAX) then frontend_row tag d nr else None) = frontend_row tag d nr"
proof -
  have "uvm_row A tag d nr = None" if "nr \<notin> set (upto_word UVM_SCAN_MAX @ [UVM_INITIALIZE, UVM_DEINITIALIZE])"
  proof -
    have "\<not> unat nr \<le> UVM_SCAN_MAX" "nr \<noteq> UVM_INITIALIZE" "nr \<noteq> UVM_DEINITIALIZE"
      using that set_upto_word [of UVM_SCAN_MAX nr] by (simp_all add: UVM_SCAN_MAX_def del: upt_Suc)
    then show ?thesis using uvm_scan_covers [of A nr] by (cases "uvm_param_size_for A nr") (auto simp: uvm_row_def)
  qed
  moreover have "frontend_row tag d nr = None" if "nr \<notin> set (upto_word FRONTEND_SCAN_MAX)"
    using that set_upto_word [of FRONTEND_SCAN_MAX nr] frontend_scan_covers [of nr]
    by (auto simp: FRONTEND_SCAN_MAX_def frontend_row_def simp del: upt_Suc)
  ultimately show
    "(if nr \<in> set (upto_word UVM_SCAN_MAX @ [UVM_INITIALIZE, UVM_DEINITIALIZE]) then uvm_row A tag d nr else None) = uvm_row A tag d nr"
    "(if nr \<in> set (upto_word FRONTEND_SCAN_MAX) then frontend_row tag d nr else None) = frontend_row tag d nr"
    by simp_all
qed

definition ioctl_rule :: "rm_abi \<Rightarrow> dev_tag \<Rightarrow> u32 \<Rightarrow> ioctl_desc option" where
  "ioctl_rule A tag nr =
    (case tag of
       TagUvm \<Rightarrow> uvm_row A TagUvm Uvm nr
     | TagUvmTools \<Rightarrow> uvm_row A TagUvmTools UvmTools nr
     | TagCtl \<Rightarrow> frontend_row TagCtl Ctl nr
     | TagGpu \<Rightarrow> frontend_row TagGpu Gpu nr)"

lemma find_scan:
  assumes "\<And>x r. f x = Some r \<Longrightarrow> io_dev r = t \<and> io_nr r = x" "(if nr \<in> set xs then f nr else None) = f nr"
  shows "ioctl_find (List.map_filter f xs) dev nr = (if dev = t then f nr else None)"
proof -
  have "ioctl_find (List.map_filter f xs) dev nr = (if dev = t \<and> nr \<in> set xs then f nr else None)"
    by (rule find_keyed) (rule assms(1))
  then show ?thesis using assms(2) by (cases "dev = t") simp_all
qed

lemma ioctl_find_row: "ioctl_find (collect_uvm A @ collect_frontend) (dev_tag_to_u32 tag) nr = ioctl_rule A tag nr"
proof -
  note u = find_scan [OF row_keys(1) scan_complete(1)] and f = find_scan [OF row_keys(2) scan_complete(2)]
  show ?thesis
    unfolding collect_uvm_def collect_frontend_def
    by (cases tag) (simp_all add: find_append u f ioctl_rule_def split: option.split del: upt_Suc set_append)
qed

text \<open>What a control row tells the guest: refused or not, the descriptor field, the second-level pointers.\<close>

definition guest_ctrl :: "ctrl_desc list \<Rightarrow> nested_desc_row list \<Rightarrow> u32 \<Rightarrow> bool \<times> u32 option \<times> nested_desc_row list" where
  "guest_ctrl ctrls nested cmd =
    (case ctrl_find ctrls cmd of
       None \<Rightarrow> (False, None, [])
     | Some c \<Rightarrow> (ct_flags c AND CF_BLOCK \<noteq> 0, if ct_flags c AND CF_FD \<noteq> 0 then Some (ct_fd_off c) else None,
         take (unat (ct_count c)) (drop (unat (ct_first c)) nested)))"

definition host_ctrl :: "u32 \<Rightarrow> bool \<times> u32 option \<times> nested_desc_row list" where
  "host_ctrl cmd = (ctrl_blocked cmd, ctrl_fd_offset cmd, map nested_row (nested_ptrs cmd))"

definition ctrl_tables :: "(ctrl_desc list \<times> nested_desc_row list) option" where
  "ctrl_tables =
    (case collect_nested nested_cmds [] [] of
       None \<Rightarrow> None
     | Some (ctrls, nested) \<Rightarrow>
         map_option (\<lambda>cs. (cs, nested)) (collect_fds ctrl_fd_cmds (collect_blocked blocked_ctrls ctrls)))"

definition listed_ctrls :: "u32 list" where
  "listed_ctrls = nested_cmds @ blocked_ctrls @ ctrl_fd_cmds"

lemma ctrl_tables_listed:
  "case ctrl_tables of None \<Rightarrow> False | Some (cs, ns) \<Rightarrow>
     list_all (\<lambda>cmd. guest_ctrl cs ns cmd = host_ctrl cmd) listed_ctrls \<and> list_all (\<lambda>c. ct_cmd c \<in> set listed_ctrls) cs \<and>
     length cs \<le> 64 \<and> length ns \<le> 64 \<and>
     list_all (\<lambda>c. unat (ct_count c) \<le> 4 \<and> unat (ct_first c) + unat (ct_count c) \<le> length ns) cs"
  by code_simp

lemma host_ctrl_unlisted: "cmd \<notin> set listed_ctrls \<Longrightarrow> host_ctrl cmd = (False, None, [])"
  by (simp add: listed_ctrls_def host_ctrl_def ctrl_blocked_def ctrl_fd_cmds_def ctrl_fd_offset_def nested_cmds_def nested_ptrs_def)

lemma guest_ctrl_exact:
  assumes "ctrl_tables = Some (cs, ns)"
  shows "guest_ctrl cs ns cmd = host_ctrl cmd"
proof -
  have listed: "\<forall>cmd\<in>set listed_ctrls. guest_ctrl cs ns cmd = host_ctrl cmd" "\<forall>c\<in>set cs. ct_cmd c \<in> set listed_ctrls"
    using ctrl_tables_listed unfolding assms option.case prod.case list_all_iff by blast+
  show ?thesis
  proof (cases "cmd \<in> set listed_ctrls")
    case False
    then have "ctrl_find cs cmd = None" using listed(2) by (auto simp: find_None_iff)
    then show ?thesis unfolding host_ctrl_unlisted [OF False] by (simp add: guest_ctrl_def)
  qed (use listed(1) in blast)
qed

lemma verified: "verify_against_xlate A"
  by code_simp

lemma collect_Some:
  obtains cs ns where "ctrl_tables = Some (cs, ns)"
    "collect A = Some \<lparr> pt_ioctls = collect_uvm A @ collect_frontend, pt_classes = collect_classes A, pt_ctrls = cs, pt_nested = ns \<rparr>"
proof -
  obtain cs ns where t: "ctrl_tables = Some (cs, ns)" using ctrl_tables_listed by (auto split: option.splits)
  then have "collect A = Some \<lparr> pt_ioctls = collect_uvm A @ collect_frontend, pt_classes = collect_classes A, pt_ctrls = cs, pt_nested = ns \<rparr>"
    by (auto simp: collect_def ctrl_tables_def verified split: option.splits)
  with t show ?thesis by (rule that)
qed

section \<open>The stream\<close>

lemma length_words_bytes: "length (words_bytes ws) = 4 * length ws"
  by (induction ws) (simp_all add: words_bytes_def)

lemma length_concat_rows: "list_all (\<lambda>r. length r = len) rs \<Longrightarrow> length (concat rs) = length rs * len"
  by (induction rs) simp_all

end
