(* ===== verification/TableStream.thy ===== *)
theory TableStream
  imports Tables PollSet
begin

text \<open>
  The command tables from the rules to the stream: its length, and that the rows the host builds state
  the host's own rules.
\<close>

section \<open>The stream\<close>

lemma row_lengths:
  "list_all (\<lambda>r. length r = 12) (map push_ioctl is)" "list_all (\<lambda>r. length r = 6) (map class_words cs)"
  "list_all (\<lambda>r. length r = 5) (map ctrl_words ts)" "list_all (\<lambda>r. length r = 4) (map nested_words ns)"
  by (simp_all add: list_all_iff push_ioctl_def)

definition sizes_ok :: "parts \<Rightarrow> bool" where
  "sizes_ok p \<longleftrightarrow> HDR_LEN + 4 * length (body_words p) < 2 ^ 32"

lemma body_length:
  "length (body_words p) = 12 * length (pt_ioctls p) + 6 * length (pt_classes p) + 5 * length (pt_ctrls p) + 4 * length (pt_nested p)"
  using length_concat_rows [OF row_lengths(1)] length_concat_rows [OF row_lengths(2)] length_concat_rows [OF row_lengths(3)]
    length_concat_rows [OF row_lengths(4)]
  by (simp add: body_words_def)

lemma header_fields:
  "length (header_words p t c) = 24" "header_words p t c ! 0 = TABLE_MAGIC" "header_words p t c ! 1 = TABLE_VERSION"
  "header_words p t c ! 2 = t" "header_words p t c ! 3 = c" "header_words p t c ! 4 = word_of_nat (length (pt_ioctls p))"
  "header_words p t c ! 5 = word_of_nat (length (pt_classes p))" "header_words p t c ! 6 = word_of_nat (length (pt_ctrls p))"
  "header_words p t c ! 7 = word_of_nat (length (pt_nested p))"
  by (simp_all add: header_words_def)

lemma serialize_Some: "\<exists>bs c. serialize p = Some (bs, c) \<and> length bs = HDR_LEN + 4 * length (body_words p)"
  by (simp add: serialize_def Let_def length_words_bytes header_fields HDR_LEN_def)

lemma length_map_filter: "length (List.map_filter f xs) \<le> length xs"
  by (induction xs) (simp_all add: List.map_filter_def le_SucI split: option.split)

lemma collect_sizes:
  assumes "collect A = Some p"
  shows "sizes_ok p"
proof -
  obtain cs ns where t: "ctrl_tables = Some (cs, ns)"
    "collect A = Some \<lparr> pt_ioctls = collect_uvm A @ collect_frontend, pt_classes = collect_classes A, pt_ctrls = cs, pt_nested = ns \<rparr>"
    by (rule collect_Some)
  have c: "length cs \<le> 64" "length ns \<le> 64" using ctrl_tables_listed unfolding t(1) by simp_all
  note b = length_map_filter [of "uvm_row A TagUvm Uvm" "upto_word UVM_SCAN_MAX @ [UVM_INITIALIZE, UVM_DEINITIALIZE]"]
    length_map_filter [of "uvm_row A TagUvmTools UvmTools" "upto_word UVM_SCAN_MAX @ [UVM_INITIALIZE, UVM_DEINITIALIZE]"]
    length_map_filter [of "frontend_row TagCtl Ctl" "upto_word FRONTEND_SCAN_MAX"]
    length_map_filter [of "frontend_row TagGpu Gpu" "upto_word FRONTEND_SCAN_MAX"]
    length_map_filter [of "class_row A" "upto_word CLASS_SCAN_MAX"]
  have "length (collect_uvm A @ collect_frontend) \<le> 8192" "length (collect_classes A) \<le> 65536"
    using b by (simp_all add: collect_uvm_def collect_frontend_def collect_classes_def UVM_SCAN_MAX_def FRONTEND_SCAN_MAX_def
        CLASS_SCAN_MAX_def del: upt_Suc)
  then show ?thesis using assms t(2) c by (auto simp: sizes_ok_def body_length HDR_LEN_def)
qed

section \<open>What the rows say\<close>

text \<open>The second buffer of an escape as a guest gathers it from the row: where the pointer is, where its
  length comes from, and which pointer has to be null.\<close>

definition guest_emb :: "class_desc list \<Rightarrow> ioctl_desc \<Rightarrow> bytes \<Rightarrow> u32 \<Rightarrow> unit + embedded option" where
  "guest_emb classes d buf sz =
    (if io_emb_len_kind d = EMB_NONE \<or> rd64 buf (unat (io_emb_ptr_off d)) = 0 then Inr None
     else if io_emb_len_kind d = EMB_LEN_FIXED then
       Inr (Some \<lparr> emb_ptr_off = io_emb_ptr_off d, emb_len = io_emb_len_off d \<rparr>)
     else if io_emb_len_kind d = EMB_LEN_FIELD then
       (if rd32 buf (unat (io_emb_len_off d)) = 0 then Inr None
        else Inr (Some \<lparr> emb_ptr_off = io_emb_ptr_off d, emb_len = rd32 buf (unat (io_emb_len_off d)) \<rparr>))
     else if io_rights_off d \<noteq> NONE_U32 \<and> io_rights_if_size d = sz \<and> rd64 buf (unat (io_rights_off d)) \<noteq> 0 then Inl ()
     else case class_find classes (rd32 buf (unat (io_emb_len_off d))) of
            None \<Rightarrow> Inl ()
          | Some c \<Rightarrow> Inr (Some \<lparr> emb_ptr_off = io_emb_ptr_off d, emb_len = kl_param_size c \<rparr>))"

lemma special_row:
  "frontend_row tag d nr = Some row \<Longrightarrow>
    (case frontend_special nr of
       None \<Rightarrow> io_emb_len_kind row = EMB_NONE
     | Some s \<Rightarrow> io_emb_ptr_off row = sp_emb_ptr_off s \<and> io_emb_len_kind row = sp_emb_len_kind s \<and>
         io_emb_len_off row = sp_emb_len_off s \<and> io_rights_off row = sp_rights_off s \<and> io_rights_if_size row = sp_rights_if_size s)"
  by (auto simp: frontend_row_def desc_def Let_def split: if_splits option.splits)

lemma class_find_size:
  "(case class_find (collect_classes A) h of None \<Rightarrow> x | Some c \<Rightarrow> f (kl_param_size c)) = (case alloc_param_size A h of None \<Rightarrow> x | Some n \<Rightarrow> f n)"
  unfolding class_find_row class_row_def by (simp split: option.split)

lemma guest_emb_exact:
  assumes "frontend_row tag d nr = Some row" "\<not> is_uvm d" "frontend_size nr = Some rule" "accepts rule sz"
  shows "guest_emb (collect_classes A) row buf sz = embedded_ptr A d nr buf sz"
proof -
  note s = special_row [OF assms(1)]
  consider "nr = NV_ESC_RM_CONTROL" | "nr = NV_ESC_RM_ALLOC" | "nr = NV_ESC_RM_GET_EVENT_DATA"
    | "nr \<noteq> NV_ESC_RM_CONTROL" "nr \<noteq> NV_ESC_RM_ALLOC" "nr \<noteq> NV_ESC_RM_GET_EVENT_DATA" by blast
  then show ?thesis
  proof cases
    case 1
    then show ?thesis using s assms(2-4)
      by (auto simp: guest_emb_def embedded_ptr_def frontend_special_def frontend_size_def esc_defs Let_def)
  next
    case 2
    then have r: "io_emb_ptr_off row = 16" "io_emb_len_kind row = EMB_LEN_CLASS" "io_emb_len_off row = 12" "io_rights_off row = 24"
        "io_rights_if_size row = 48" using s by (simp_all add: frontend_special_def esc_defs Let_def)
    have z: "sz = 48 \<or> sz = 32" using assms(3,4) 2 by (auto simp: frontend_size_def)
    show ?thesis unfolding guest_emb_def embedded_ptr_def r using z assms(2) 2 class_find_size [where A = A and h = "rd32 buf 12" and x = "Inl ()"
        and f = "\<lambda>n. Inr (Some \<lparr> emb_ptr_off = 16, emb_len = n \<rparr>)"]
      by (auto simp: esc_defs NONE_U32_def)
  next
    case 3
    then show ?thesis using s assms(2-4)
      by (auto simp: guest_emb_def embedded_ptr_def frontend_special_def frontend_size_def esc_defs Let_def)
  next
    case 4
    have "io_emb_len_kind row = EMB_NONE" using s 4 by (auto simp: frontend_special_def Let_def split: if_splits)
    then show ?thesis using 4 assms(2) by (simp add: guest_emb_def embedded_ptr_def)
  qed
qed

text \<open>The tables state the host's own rules.  For every driver ABI the build succeeds, and for every
  number a guest may look up: a UVM command has a row exactly when the host knows its size, with that
  size and the host's descriptor field; an escape of the control or a GPU device whose size the host accepts
  leads a guest to the same second buffer, on every payload, as the host's own validation; an
  allocation class has the host's parameter size; and a control command is refused, carries a
  descriptor field and has second-level pointers exactly as the host checks them.\<close>

theorem tables_state_host_rules:
  "\<exists>p. collect A = Some p \<and>
    (\<forall>nr. map_option (\<lambda>d. (io_size d, io_fd_off d)) (ioctl_find (pt_ioctls p) (dev_tag_to_u32 TagUvm) nr) =
       map_option (\<lambda>sz. (sz, or_none (fd_field_offset Uvm nr sz))) (uvm_param_size_for A nr)) \<and>
    (\<forall>nr rule sz buf. frontend_size nr = Some rule \<and> accepts rule sz \<longrightarrow>
       (\<exists>d. ioctl_find (pt_ioctls p) (dev_tag_to_u32 TagCtl) nr = Some d \<and> io_fd_off d = or_none (fd_field_offset Ctl nr sz) \<and>
          guest_emb (pt_classes p) d buf sz = embedded_ptr A Ctl nr buf sz)) \<and>
    (\<forall>hclass. map_option kl_param_size (class_find (pt_classes p) hclass) = alloc_param_size A hclass) \<and>
    (\<forall>cmd. guest_ctrl (pt_ctrls p) (pt_nested p) cmd = (ctrl_blocked cmd, ctrl_fd_offset cmd, map nested_row (nested_ptrs cmd)))"
proof -
  obtain cs ns where t: "ctrl_tables = Some (cs, ns)"
    "collect A = Some \<lparr> pt_ioctls = collect_uvm A @ collect_frontend, pt_classes = collect_classes A, pt_ctrls = cs, pt_nested = ns \<rparr>"
    by (rule collect_Some)
  have uvm: "map_option (\<lambda>d. (io_size d, io_fd_off d)) (ioctl_find (collect_uvm A @ collect_frontend) (dev_tag_to_u32 TagUvm) nr) =
       map_option (\<lambda>sz. (sz, or_none (fd_field_offset Uvm nr sz))) (uvm_param_size_for A nr)" for nr
    unfolding ioctl_find_row by (simp add: ioctl_rule_def uvm_row_def split: option.split)
  have fe: "\<exists>d. ioctl_find (collect_uvm A @ collect_frontend) (dev_tag_to_u32 TagCtl) nr = Some d \<and>
      io_fd_off d = or_none (fd_field_offset Ctl nr sz) \<and>
      guest_emb (collect_classes A) d buf sz = embedded_ptr A Ctl nr buf sz"
    if "frontend_size nr = Some rule" "accepts rule sz" for nr rule sz buf
  proof -
    have "frontend_row TagCtl Ctl nr \<noteq> None" using that(1) by (simp add: frontend_row_def Let_def)
    then obtain d where d: "frontend_row TagCtl Ctl nr = Some d" by blast
    have "fd_field_offset Ctl nr 0 = fd_field_offset Ctl nr sz" by (simp add: fd_field_offset_def)
    then have "io_fd_off d = or_none (fd_field_offset Ctl nr sz)"
      using d by (auto simp: frontend_row_def Let_def split: if_splits option.splits)
    then show ?thesis unfolding ioctl_find_row using d guest_emb_exact [OF d _ that] by (simp add: ioctl_rule_def)
  qed
  have "map_option kl_param_size (class_find (collect_classes A) hclass) = alloc_param_size A hclass" for hclass
    unfolding class_find_row by (simp add: class_row_def split: option.split)
  then show ?thesis using t(2) uvm fe guest_ctrl_exact [OF t(1)] by (simp add: host_ctrl_def)
qed

theorem tables_state_host_rules_witness:
  "\<exists>p d. collect abi_v615 = Some p \<and> ioctl_find (pt_ioctls p) 0 NV_ESC_RM_CONTROL = Some d \<and>
    guest_emb (pt_classes p) d (replicate 32 1) 32 = Inr (Some \<lparr> emb_ptr_off = 16, emb_len = 0x01010101 \<rparr>) \<and>
    map_option kl_param_size (class_find (pt_classes p) 0x2080) = Some 4 \<and>
    guest_ctrl (pt_ctrls p) (pt_nested p) 0x3d05 = (False, Some 16, [])"
proof -
  have rule: "frontend_size NV_ESC_RM_CONTROL = Some (Fixed 32)" "accepts (Fixed 32) 32"
    by (simp_all add: frontend_size_def esc_defs)
  have host: "embedded_ptr abi_v615 Ctl NV_ESC_RM_CONTROL (replicate 32 1) 32 = Inr (Some \<lparr> emb_ptr_off = 16, emb_len = 0x01010101 \<rparr>)"
    "alloc_param_size abi_v615 0x2080 = Some 4" "\<not> ctrl_blocked 0x3d05" "ctrl_fd_offset 0x3d05 = Some 16" "nested_ptrs 0x3d05 = []"
    by code_simp+
  from tables_state_host_rules [of abi_v615] obtain p where p: "collect abi_v615 = Some p"
    "\<forall>nr rule sz buf. frontend_size nr = Some rule \<and> accepts rule sz \<longrightarrow>
       (\<exists>d. ioctl_find (pt_ioctls p) (dev_tag_to_u32 TagCtl) nr = Some d \<and> io_fd_off d = or_none (fd_field_offset Ctl nr sz) \<and>
          guest_emb (pt_classes p) d buf sz = embedded_ptr abi_v615 Ctl nr buf sz)"
    "\<forall>hclass. map_option kl_param_size (class_find (pt_classes p) hclass) = alloc_param_size abi_v615 hclass"
    "\<forall>cmd. guest_ctrl (pt_ctrls p) (pt_nested p) cmd = (ctrl_blocked cmd, ctrl_fd_offset cmd, map nested_row (nested_ptrs cmd))"
    by blast
  obtain d where "ioctl_find (pt_ioctls p) (dev_tag_to_u32 TagCtl) NV_ESC_RM_CONTROL = Some d"
    "guest_emb (pt_classes p) d (replicate 32 1) 32 = embedded_ptr abi_v615 Ctl NV_ESC_RM_CONTROL (replicate 32 1) 32"
    using p(2) rule by blast
  then show ?thesis using p(1,3,4) host by (intro exI [of _ p] exI [of _ d]) simp
qed

end
