(* ===== verification/GuestTables.thy ===== *)
theory GuestTables
  imports TableStream RequestShape
begin

text \<open>
  The guest's side of the command tables: \<^verbatim>\<open>guest-module/virtio_nvrm/nvrm_tables.c\<close> (the parser and the
  lookups) and \<^verbatim>\<open>nvrm_fetch_tables\<close> of \<^verbatim>\<open>virtio_nvrm.c\<close> with the request header it sends.  The views of
  the C parser point into the stream; here they are the lists of rows they point at.

  The virtqueue is a parameter: a function from a message, the room for the reply and its own state to
  an error or the bytes the device wrote.
\<close>

section \<open>The parser\<close>

record table_hdr =
  th_magic :: u32
  th_table_version :: u32
  th_total_len :: u32
  th_checksum :: u32
  th_n_ioctl :: u32
  th_n_class :: u32
  th_n_ctrl :: u32
  th_n_nested :: u32
  th_xfer_nr :: u32
  th_xfer_struct_len :: u32
  th_xfer_cmd_off :: u32
  th_xfer_size_off :: u32
  th_xfer_ptr_off :: u32
  th_max_ioctl_size :: u32
  th_osdesc_class :: u32
  th_osdesc_pmem_off :: u32
  th_osdesc_limit_off :: u32
  th_osdesc_status_off :: u32
  th_osdesc_handle_off :: u32
  th_max_inline :: u32
  th_max_aux :: u32
  th_max_nested :: u32

text \<open>\<^verbatim>\<open>memcpy\<close> of the header and the rows at their offsets.\<close>

definition hdr_at :: "bytes \<Rightarrow> table_hdr" where
  "hdr_at b = \<lparr> th_magic = rd32 b 0, th_table_version = rd32 b 4, th_total_len = rd32 b 8, th_checksum = rd32 b 12,
     th_n_ioctl = rd32 b 16, th_n_class = rd32 b 20, th_n_ctrl = rd32 b 24, th_n_nested = rd32 b 28,
     th_xfer_nr = rd32 b 32, th_xfer_struct_len = rd32 b 36, th_xfer_cmd_off = rd32 b 40, th_xfer_size_off = rd32 b 44,
     th_xfer_ptr_off = rd32 b 48, th_max_ioctl_size = rd32 b 52, th_osdesc_class = rd32 b 56, th_osdesc_pmem_off = rd32 b 60,
     th_osdesc_limit_off = rd32 b 64, th_osdesc_status_off = rd32 b 68, th_osdesc_handle_off = rd32 b 72,
     th_max_inline = rd32 b 76, th_max_aux = rd32 b 80, th_max_nested = rd32 b 84 \<rparr>"

definition ioctl_at :: "bytes \<Rightarrow> nat \<Rightarrow> ioctl_desc" where
  "ioctl_at b k = \<lparr> io_dev = rd32 b k, io_nr = rd32 b (k + 4), io_size = rd32 b (k + 8), io_fd_off = rd32 b (k + 12),
     io_emb_ptr_off = rd32 b (k + 16), io_emb_len_kind = rd32 b (k + 20), io_emb_len_off = rd32 b (k + 24),
     io_cmd_off = rd32 b (k + 28), io_rights_off = rd32 b (k + 32), io_rights_if_size = rd32 b (k + 36),
     io_handle_off = rd32 b (k + 40), io_flags = rd32 b (k + 44) \<rparr>"

definition class_at :: "bytes \<Rightarrow> nat \<Rightarrow> class_desc" where
  "class_at b k = \<lparr> kl_hclass = rd32 b k, kl_param_size = rd32 b (k + 4), kl_fd_off = rd32 b (k + 8), kl_flags = rd32 b (k + 12),
     kl_fd_if_off = rd32 b (k + 16), kl_fd_if_val = rd32 b (k + 20) \<rparr>"

definition ctrl_at :: "bytes \<Rightarrow> nat \<Rightarrow> ctrl_desc" where
  "ctrl_at b k = \<lparr> ct_cmd = rd32 b k, ct_first = rd32 b (k + 4), ct_count = rd32 b (k + 8), ct_flags = rd32 b (k + 12),
     ct_fd_off = rd32 b (k + 16) \<rparr>"

definition nested_row_at :: "bytes \<Rightarrow> nat \<Rightarrow> nested_desc_row" where
  "nested_row_at b k = \<lparr> nr_ptr_off = rd32 b k, nr_len_kind = rd32 b (k + 4), nr_len_off = rd32 b (k + 8), nr_elem = rd32 b (k + 12) \<rparr>"

record nvrm_tables =
  gt_len :: nat
  gt_hdr :: table_hdr
  gt_ioctls :: "ioctl_desc list"
  gt_classes :: "class_desc list"
  gt_ctrls :: "ctrl_desc list"
  gt_nested :: "nested_desc_row list"

definition nvrm_range_valid :: "u32 \<Rightarrow> u32 \<Rightarrow> u32 \<Rightarrow> bool" where
  "nvrm_range_valid offset sz tot \<longleftrightarrow> offset \<le> tot \<and> sz \<le> tot - offset"

datatype table_fault =
    ShortStream | WrongMagic | UnknownVersion | LengthDiffers | CountsDiffer | WrongChecksum | TooManyNested | LimitsExceed
  | XferOutside | InvalidNested

abbreviation (input) NVRM_XFER_HEADER_MAX :: u32 where "NVRM_XFER_HEADER_MAX \<equiv> 64"

definition nvrm_tables_parse :: "bytes \<Rightarrow> table_fault + nvrm_tables" where
  "nvrm_tables_parse b =
    rbind (guard (HDR_LEN \<le> length b) ShortStream) (\<lambda>_.
    let h = hdr_at b; ni = unat (th_n_ioctl h); nc = unat (th_n_class h); nt = unat (th_n_ctrl h); nn = unat (th_n_nested h);
        ioctls = HDR_LEN; classes = ioctls + 48 * ni; ctrls = classes + 24 * nc; nested = ctrls + 20 * nt in
    rbind (guard (th_magic h = 0x5452564e) WrongMagic) (\<lambda>_.
    rbind (guard (th_table_version h = 1) UnknownVersion) (\<lambda>_.
    rbind (guard (unat (th_total_len h) = length b) LengthDiffers) (\<lambda>_.
    rbind (guard (HDR_LEN + ni * 48 + nc * 24 + nt * 20 + nn * 16 = length b) CountsDiffer) (\<lambda>_.
    rbind (guard (fnv1a32 (drop HDR_LEN b) = th_checksum h) WrongChecksum) (\<lambda>_.
    rbind (guard (unat (th_max_nested h) \<le> MAX_NESTED) TooManyNested) (\<lambda>_.
    rbind (guard (unat (th_max_inline h) \<le> MAX_PAYLOAD \<and> unat (th_max_ioctl_size h) \<le> MAX_PAYLOAD \<and>
                  unat (th_max_aux h) \<le> MAX_AUX) LimitsExceed) (\<lambda>_.
    rbind (guard (th_xfer_struct_len h \<le> NVRM_XFER_HEADER_MAX \<and> nvrm_range_valid (th_xfer_cmd_off h) 4 (th_xfer_struct_len h) \<and>
                  nvrm_range_valid (th_xfer_size_off h) 4 (th_xfer_struct_len h) \<and>
                  nvrm_range_valid (th_xfer_ptr_off h) 8 (th_xfer_struct_len h)) XferOutside) (\<lambda>_.
    let t = \<lparr> gt_len = length b, gt_hdr = h,
              gt_ioctls = map (\<lambda>i. ioctl_at b (ioctls + 48 * i)) [0..<ni],
              gt_classes = map (\<lambda>i. class_at b (classes + 24 * i)) [0..<nc],
              gt_ctrls = map (\<lambda>i. ctrl_at b (ctrls + 20 * i)) [0..<nt],
              gt_nested = map (\<lambda>i. nested_row_at b (nested + 16 * i)) [0..<nn] \<rparr> in
    rbind (guard (list_all (\<lambda>c. ct_count c \<le> th_max_nested h \<and> nvrm_range_valid (ct_first c) (ct_count c) (th_n_nested h))
                    (gt_ctrls t)) InvalidNested) (\<lambda>_.
    Inr t))))))))))"

fun find_ioctl :: "nvrm_tables \<Rightarrow> u32 \<Rightarrow> u32 \<Rightarrow> ioctl_desc option" where
  "find_ioctl t dev_tag nr = find (\<lambda>d. io_dev d = dev_tag \<and> io_nr d = nr) (gt_ioctls t)"

fun find_class :: "nvrm_tables \<Rightarrow> u32 \<Rightarrow> class_desc option" where
  "find_class t hclass = find (\<lambda>c. kl_hclass c = hclass) (gt_classes t)"

fun find_ctrl :: "nvrm_tables \<Rightarrow> u32 \<Rightarrow> ctrl_desc option" where
  "find_ctrl t cmd = find (\<lambda>c. ct_cmd c = cmd) (gt_ctrls t)"

section \<open>The fetch\<close>

type_synonym 's virtqueue = "bytes \<Rightarrow> nat \<Rightarrow> 's \<Rightarrow> (int + bytes) \<times> 's"

record 's guest_dev =
  gd_seq :: u32
  gd_vq :: 's

definition nvrm_req_init :: "u32 \<Rightarrow> u32 \<Rightarrow> 's guest_dev \<Rightarrow> req \<times> 's guest_dev" where
  "nvrm_req_init kind guest_proc dev =
    (let seq = gd_seq dev + 1 in
     (req_default\<lparr> rq_seq := seq, rq_kind := kind, rq_guest_proc := guest_proc \<rparr>, dev\<lparr> gd_seq := seq \<rparr>))"

text \<open>The round trip and the check of the reply's length at its end.\<close>

definition nvrm_xfer_run :: "'s virtqueue \<Rightarrow> bytes \<Rightarrow> nat \<Rightarrow> 's guest_dev \<Rightarrow> (int + bytes) \<times> 's guest_dev" where
  "nvrm_xfer_run vq msg rsp_cap dev =
    (case vq msg rsp_cap (gd_vq dev) of (r, q) \<Rightarrow>
     (case r of
        Inl e \<Rightarrow> Inl e
      | Inr b \<Rightarrow> if length b < RSP_LEN \<or> rsp_cap < length b then Inl EIO else Inr b, dev\<lparr> gd_vq := q \<rparr>))"

text \<open>One round of the loop: the length of the stream (0 before the first reply) and the bytes received so
  far; the answer is the length of the stream and the received bytes with the new chunk.  \<^verbatim>\<open>room\<close> says whether
  the buffer for the stream can be allocated.\<close>

definition fetch_chunk ::
  "'s virtqueue \<Rightarrow> (nat \<Rightarrow> bool) \<Rightarrow> nat \<Rightarrow> bytes \<Rightarrow> 's guest_dev \<Rightarrow> (int + nat \<times> bytes) \<times> 's guest_dev"
where
  "fetch_chunk vq room tot got dev =
    (let (r, dev) = nvrm_req_init KIND_GET_TABLES 0 dev; chunk = 4096;
         (x, dev) = nvrm_xfer_run vq (req_as_bytes (r\<lparr> rq_addr := word_of_nat (length got), rq_map_len := word_of_nat chunk \<rparr>))
                      (RSP_LEN + chunk) dev in
     (rbind x (\<lambda>b.
      case rsp_from_bytes b of
        None \<Rightarrow> Inl EIO
      | Some rsp \<Rightarrow>
          rbind (guard (rs_ret rsp = 0) EIO) (\<lambda>_.
          let tot' = (if tot = 0 then unat (rs_token rsp) else tot); n = unat (rs_inline_len rsp) in
          rbind (guard (tot \<noteq> 0 \<or> (HDR_LEN \<le> tot' \<and> tot' \<le> 2 ^ 20)) EPROTO) (\<lambda>_.
          rbind (guard (tot \<noteq> 0 \<or> room tot') ENOMEM) (\<lambda>_.
          rbind (guard (\<not> (n = 0 \<or> tot' < length got + n \<or> length b < RSP_LEN + n)) EPROTO) (\<lambda>_.
          Inr (tot', got @ subslice RSP_LEN n b)))))), dev))"

text \<open>Every round but the last adds at least one byte below the length.\<close>

lemma fetch_chunk_grows:
  assumes "fetch_chunk vq room tot got dev = (Inr (tot', got'), dev')"
  shows "length got < length got'" "length got' \<le> tot'" "tot' = tot \<or> tot = 0" "HDR_LEN \<le> tot' \<or> tot' = tot"
    "tot' \<le> 2 ^ 20 \<or> tot' = tot"
  using assms
  by (auto simp: fetch_chunk_def rbind_def guard_def Let_def split: prod.splits sum.splits option.splits if_splits)

abbreviation fetch_left :: "nat \<Rightarrow> bytes \<Rightarrow> nat" where
  "fetch_left tot got \<equiv> if tot = 0 then 2 ^ 20 + 1 else tot - length got"

lemma fetch_chunk_left:
  assumes "fetch_chunk vq room tot got dev = (Inr (tot', got'), dev')" "length got' < tot'"
  shows "fetch_left tot' got' < fetch_left tot got"
  using fetch_chunk_grows [OF assms(1)] assms(2) by auto

function fetch_loop :: "'s virtqueue \<Rightarrow> (nat \<Rightarrow> bool) \<Rightarrow> nat \<Rightarrow> bytes \<Rightarrow> 's guest_dev \<Rightarrow> (int + bytes) \<times> 's guest_dev" where
  "fetch_loop vq room tot got dev =
    (case fetch_chunk vq room tot got dev of
       (Inl e, dev) \<Rightarrow> (Inl e, dev)
     | (Inr (tot, got), dev) \<Rightarrow> if length got < tot then fetch_loop vq room tot got dev else (Inr got, dev))"
  by pat_completeness auto

termination
proof (relation "measure (\<lambda>(vq, room, tot, got, dev). fetch_left tot got)")
  fix vq :: "'s virtqueue" and room tot got dev x y b and tot' :: nat and got' :: bytes
  assume "(x, y) = fetch_chunk vq room tot got dev" "x = Inr b" "(tot', got') = b" "length got' < tot'"
  then have "fetch_left tot' got' < fetch_left tot got" by (intro fetch_chunk_left [of vq room tot got dev tot' got' y]) simp_all
  then show "((vq, room, tot', got', y), vq, room, tot, got, dev) \<in> measure (\<lambda>(vq, room, tot, got, dev). fetch_left tot got)"
    by (simp only: in_measure prod.case)
qed simp

definition nvrm_fetch_tables :: "'s virtqueue \<Rightarrow> (nat \<Rightarrow> bool) \<Rightarrow> 's guest_dev \<Rightarrow> (int + nvrm_tables) \<times> 's guest_dev" where
  "nvrm_fetch_tables vq room dev =
    (case fetch_loop vq room 0 [] dev of
       (Inl e, dev) \<Rightarrow> (Inl e, dev)
     | (Inr blob, dev) \<Rightarrow> (case nvrm_tables_parse blob of Inl _ \<Rightarrow> Inl EPROTO | Inr t \<Rightarrow> Inr t, dev))"

section \<open>What the host builds is accepted\<close>

lemma rd32_words: "k < length ws \<Longrightarrow> rd32 (words_bytes ws @ r) (4 * k) = ws ! k"
proof (induction ws arbitrary: k)
  case (Cons w ws)
  show ?case
  proof (cases k)
    case 0
    then show ?thesis by (simp add: words_bytes_def rd32_def subslice_def)
  next
    case (Suc j)
    have "rd32 (words_bytes (w # ws) @ r) (4 * k) = rd32 (words_bytes ws @ r) (4 * j)"
      using Suc by (simp add: words_bytes_def rd32_def subslice_def)
    then show ?thesis using Cons Suc by simp
  qed
qed simp

lemma concat_nth:
  "list_all (\<lambda>r. length r = n) rs \<Longrightarrow> i < length rs \<Longrightarrow> j < n \<Longrightarrow> (concat rs @ ws) ! (n * i + j) = rs ! i ! j"
proof (induction rs arbitrary: i)
  case (Cons a rs)
  then show ?case by (cases i) (simp_all add: nth_append add.assoc)
qed simp

lemma row_word:
  assumes "list_all (\<lambda>r. length r = n) rs" "i < length rs" "j < n" "ws = pre @ concat rs @ post" "o1 = 4 * length pre + 4 * n * i + 4 * j"
  shows "rd32 (words_bytes ws @ r) o1 = rs ! i ! j"
proof -
  have "n * i + j < length rs * n"
  proof -
    have "n * i + j < n * i + n" using assms(3) by simp
    also have "\<dots> = n * Suc i" by simp
    also have "\<dots> \<le> n * length rs" using assms(2) by (intro mult_le_mono2) simp
    finally show ?thesis by (simp add: mult.commute)
  qed
  then have k: "length pre + (n * i + j) < length ws" using assms(4) length_concat_rows [OF assms(1)] by simp
  have "o1 = 4 * (length pre + (n * i + j))" using assms(5) by (simp add: algebra_simps)
  then have "rd32 (words_bytes ws @ r) o1 = ws ! (length pre + (n * i + j))" using rd32_words [OF k, of r] by simp
  then show ?thesis using concat_nth [OF assms(1-3), of post] assms(4) by (simp add: nth_append)
qed

lemma ioctl_at_row:
  assumes "ws = pre @ concat (map push_ioctl ds) @ post" "i < length ds" "k = 4 * length pre + 48 * i"
  shows "ioctl_at (words_bytes ws @ r) k = ds ! i"
proof -
  have w: "rd32 (words_bytes ws @ r) (k + 4 * j) = push_ioctl (ds ! i) ! j" if "j < 12" for j
    using row_word [OF row_lengths(1), of i ds j ws pre post "k + 4 * j" r] assms that by simp
  show ?thesis
    using w [of 0] w [of 1] w [of 2] w [of 3] w [of 4] w [of 5] w [of 6] w [of 7] w [of 8] w [of 9] w [of 10] w [of 11]
    by (simp add: ioctl_at_def push_ioctl_def)
qed

lemma class_at_row:
  assumes "ws = pre @ concat (map class_words ds) @ post" "i < length ds" "k = 4 * length pre + 24 * i"
  shows "class_at (words_bytes ws @ r) k = ds ! i"
proof -
  have w: "rd32 (words_bytes ws @ r) (k + 4 * j) = class_words (ds ! i) ! j" if "j < 6" for j
    using row_word [OF row_lengths(2), of i ds j ws pre post "k + 4 * j" r] assms that by simp
  show ?thesis using w [of 0] w [of 1] w [of 2] w [of 3] w [of 4] w [of 5] by (simp add: class_at_def)
qed

lemma ctrl_at_row:
  assumes "ws = pre @ concat (map ctrl_words ds) @ post" "i < length ds" "k = 4 * length pre + 20 * i"
  shows "ctrl_at (words_bytes ws @ r) k = ds ! i"
proof -
  have w: "rd32 (words_bytes ws @ r) (k + 4 * j) = ctrl_words (ds ! i) ! j" if "j < 5" for j
    using row_word [OF row_lengths(3), of i ds j ws pre post "k + 4 * j" r] assms that by simp
  show ?thesis using w [of 0] w [of 1] w [of 2] w [of 3] w [of 4] by (simp add: ctrl_at_def)
qed

lemma nested_row_at_row:
  assumes "ws = pre @ concat (map nested_words ds) @ post" "i < length ds" "k = 4 * length pre + 16 * i"
  shows "nested_row_at (words_bytes ws @ r) k = ds ! i"
proof -
  have w: "rd32 (words_bytes ws @ r) (k + 4 * j) = nested_words (ds ! i) ! j" if "j < 4" for j
    using row_word [OF row_lengths(4), of i ds j ws pre post "k + 4 * j" r] assms that by simp
  show ?thesis using w [of 0] w [of 1] w [of 2] w [of 3] by (simp add: nested_row_at_def)
qed

lemma map_rows: "(\<And>i. i < length xs \<Longrightarrow> f i = xs ! i) \<Longrightarrow> n = length xs \<Longrightarrow> map f [0..<n] = xs"
  by (rule nth_equalityI) simp_all

text \<open>The header as the host states it.\<close>

definition host_hdr :: "parts \<Rightarrow> u32 \<Rightarrow> u32 \<Rightarrow> table_hdr" where
  "host_hdr p tot checksum = \<lparr> th_magic = 0x5452564e, th_table_version = 1, th_total_len = tot, th_checksum = checksum,
     th_n_ioctl = word_of_nat (length (pt_ioctls p)), th_n_class = word_of_nat (length (pt_classes p)),
     th_n_ctrl = word_of_nat (length (pt_ctrls p)), th_n_nested = word_of_nat (length (pt_nested p)),
     th_xfer_nr = NV_ESC_IOCTL_XFER_CMD, th_xfer_struct_len = 16, th_xfer_cmd_off = 0, th_xfer_size_off = 4, th_xfer_ptr_off = 8,
     th_max_ioctl_size = 16384, th_osdesc_class = 0x71, th_osdesc_pmem_off = 24, th_osdesc_limit_off = 32,
     th_osdesc_status_off = 40, th_osdesc_handle_off = 8, th_max_inline = 16384, th_max_aux = 0x100000, th_max_nested = 4 \<rparr>"

lemma magic_word: "TABLE_MAGIC = 0x5452564e"
  by code_simp

lemma hdr_at_host: "hdr_at (words_bytes (header_words p tot c) @ r) = host_hdr p tot c"
proof -
  have w: "rd32 (words_bytes (header_words p tot c) @ r) (4 * k) = header_words p tot c ! k" if "k < 24" for k
    using rd32_words [of k "header_words p tot c" r] that by (simp add: header_fields)
  show ?thesis
    using w [of 0] w [of 1] w [of 2] w [of 3] w [of 4] w [of 5] w [of 6] w [of 7] w [of 8] w [of 9] w [of 10] w [of 11]
      w [of 12] w [of 13] w [of 14] w [of 15] w [of 16] w [of 17] w [of 18] w [of 19] w [of 20] w [of 21]
    by (simp add: hdr_at_def host_hdr_def header_words_def magic_word MAX_PAYLOAD_def MAX_AUX_def MAX_NESTED_def)
qed

text \<open>The rules know few classes, which bounds the length of the stream.\<close>

definition few :: "(u32 \<Rightarrow> u32 option) \<Rightarrow> nat \<Rightarrow> bool" where
  "few f n \<longleftrightarrow> (\<exists>ks. length ks \<le> n \<and> (\<forall>h y. f h = Some y \<longrightarrow> h \<in> set ks))"

lemma few_rules:
  "few (\<lambda>h. None) 0"
  "few g n \<Longrightarrow> few (\<lambda>h. if h = k then a else g h) (Suc n)"
  "few g n \<Longrightarrow> few (\<lambda>h. if h \<in> set ms then a else g h) (length ms + n)"
proof -
  show "few g n \<Longrightarrow> few (\<lambda>h. if h = k then a else g h) (Suc n)"
    unfolding few_def by (erule exE) (rule_tac x = "k # ks" in exI, auto)
  show "few g n \<Longrightarrow> few (\<lambda>h. if h \<in> set ms then a else g h) (length ms + n)"
    unfolding few_def by (erule exE) (rule_tac x = "ms @ ks" in exI, auto)
qed (simp add: few_def)

lemma few_le: "few f n \<Longrightarrow> n \<le> m \<Longrightarrow> few f m"
  unfolding few_def using order_trans by blast

lemma few_classes: "few (alloc_param_size A) 256"
  unfolding alloc_param_size_def [abs_def] alloc_param_size_rest_def
  by (rule few_le, (rule few_rules)+, simp)

lemma length_map_filter_card:
  assumes "distinct xs" "\<And>x y. f x = Some y \<Longrightarrow> x \<in> set ks"
  shows "length (List.map_filter f xs) \<le> length ks"
proof -
  have "length (List.map_filter f xs) = length (filter (\<lambda>x. f x \<noteq> None) xs)"
    by (induction xs) (simp_all add: List.map_filter_def split: option.split)
  also have "\<dots> = card (set (filter (\<lambda>x. f x \<noteq> None) xs))" 
    by (rule distinct_card [symmetric]) (use assms(1) in simp)
  also have "\<dots> \<le> card (set ks)" using assms(2) by (intro card_mono) auto
  also have "\<dots> \<le> length ks" by (rule card_length)
  finally show ?thesis .
qed

lemma distinct_upto_word: "n < 2 ^ 32 \<Longrightarrow> distinct (upto_word n)"
proof -
  assume n: "n < 2 ^ 32"
  have "inj_on (word_of_nat :: nat \<Rightarrow> u32) (set [0..<Suc n])"
  proof (rule inj_onI)
    fix i j :: nat
    assume b: "i \<in> set [0..<Suc n]" "j \<in> set [0..<Suc n]" and e: "(word_of_nat i :: u32) = word_of_nat j"
    have w: "unat (word_of_nat k :: u32) = k" if "k \<in> set [0..<Suc n]" for k
    proof -
      have "k < 2 ^ 32" using that n by (simp del: upt_Suc)
      then show ?thesis by (simp add: unsigned_of_nat take_bit_nat_eq_self)
    qed
    have "i = unat (word_of_nat i :: u32)" by (rule w [OF b(1), symmetric])
    also have "\<dots> = unat (word_of_nat j :: u32)" by (simp only: e)
    also have "\<dots> = j" by (rule w [OF b(2)])
    finally show "i = j" .
  qed
  then show ?thesis by (simp add: distinct_map del: upt_Suc)
qed

lemma classes_few: "length (collect_classes A) \<le> 256"
proof -
  obtain ks where ks: "length ks \<le> 256" "\<And>h y. alloc_param_size A h = Some y \<Longrightarrow> h \<in> set ks"
    using few_classes [of A] by (auto simp: few_def)
  have "length (collect_classes A) \<le> length ks"
    unfolding collect_classes_def
  proof (rule length_map_filter_card)
    show "distinct (upto_word CLASS_SCAN_MAX)" by (rule distinct_upto_word) (simp add: CLASS_SCAN_MAX_def)
    show "x \<in> set ks" if "class_row A x = Some y" for x y
      using that ks(2) [of x] by (auto simp: class_row_def split: option.splits)
  qed
  then show ?thesis using ks(1) by simp
qed

lemma range_valid_nat: "nvrm_range_valid a b c \<longleftrightarrow> unat a + unat b \<le> unat c"
  by (auto simp: nvrm_range_valid_def word_le_nat_alt unat_sub)

lemma parse_serialize:
  assumes "sizes_ok p" "serialize p = Some (bs, c)"
    "list_all (\<lambda>c. unat (ct_count c) \<le> 4 \<and> unat (ct_first c) + unat (ct_count c) \<le> length (pt_nested p)) (pt_ctrls p)"
  shows "nvrm_tables_parse bs = Inr \<lparr> gt_len = length bs, gt_hdr = host_hdr p (word_of_nat (length bs)) c,
    gt_ioctls = pt_ioctls p, gt_classes = pt_classes p, gt_ctrls = pt_ctrls p, gt_nested = pt_nested p \<rparr>"
proof -
  let ?body = "words_bytes (body_words p)"
  let ?ni = "length (pt_ioctls p)" and ?nc = "length (pt_classes p)" and ?nt = "length (pt_ctrls p)" and ?nn = "length (pt_nested p)"
  define t :: u32 where "t = word_of_nat (HDR_LEN + length ?body)"
  let ?H = "header_words p t c"
  have s: "bs = words_bytes ?H @ ?body" "c = fnv1a32 ?body"
    using assms(2) by (auto simp: serialize_def Let_def t_def split: if_splits)
  have hl: "length (words_bytes ?H) = HDR_LEN" by (simp add: length_words_bytes header_fields HDR_LEN_def)
  have len: "length bs = HDR_LEN + 4 * (12 * ?ni + 6 * ?nc + 5 * ?nt + 4 * ?nn)"
    using s hl by (simp add: length_words_bytes [of "body_words p"] body_length)
  have b: "length bs < 2 ^ 32" using assms(1) len by (simp add: sizes_ok_def body_length)
  have t: "t = word_of_nat (length bs)" using s(1) hl by (simp add: t_def)
  have n: "unat (word_of_nat k :: u32) = k" if "k < 2 ^ 32" for k using that by (simp add: unsigned_of_nat take_bit_nat_eq_self)
  have counts: "unat (word_of_nat ?ni :: u32) = ?ni" "unat (word_of_nat ?nc :: u32) = ?nc" "unat (word_of_nat ?nt :: u32) = ?nt"
    "unat (word_of_nat ?nn :: u32) = ?nn" "unat (word_of_nat (length bs) :: u32) = length bs"
    by ((rule n, insert len b, simp)+)
  have "hdr_at bs = host_hdr p t c" unfolding s(1) by (rule hdr_at_host)
  then have hdr: "hdr_at bs = host_hdr p (word_of_nat (length bs)) c" by (simp only: t)
  have ws: "bs = words_bytes (?H @ body_words p) @ []" using s(1) by (simp add: words_bytes_def)
  let ?A = "concat (map push_ioctl (pt_ioctls p))" and ?B = "concat (map class_words (pt_classes p))"
    and ?C = "concat (map ctrl_words (pt_ctrls p))" and ?D = "concat (map nested_words (pt_nested p))"
  have l: "length ?A = 12 * ?ni" "length ?B = 6 * ?nc" "length ?C = 5 * ?nt"
    using length_concat_rows [OF row_lengths(1)] length_concat_rows [OF row_lengths(2)] length_concat_rows [OF row_lengths(3)] by simp_all
  have H: "length ?H = 24" by (rule header_fields(1))
  have "map (\<lambda>i. ioctl_at bs (HDR_LEN + 48 * i)) [0..<?ni] = pt_ioctls p"
    unfolding ws by (rule map_rows [OF ioctl_at_row [where pre = ?H and post = "?B @ ?C @ ?D"]])
      (use H in \<open>simp_all add: body_words_def HDR_LEN_def\<close>)
  moreover have "map (\<lambda>i. class_at bs (HDR_LEN + 48 * ?ni + 24 * i)) [0..<?nc] = pt_classes p"
    unfolding ws by (rule map_rows [OF class_at_row [where pre = "?H @ ?A" and post = "?C @ ?D"]])
      (use H l in \<open>simp_all add: body_words_def HDR_LEN_def\<close>)
  moreover have "map (\<lambda>i. ctrl_at bs (HDR_LEN + 48 * ?ni + 24 * ?nc + 20 * i)) [0..<?nt] = pt_ctrls p"
    unfolding ws by (rule map_rows [OF ctrl_at_row [where pre = "?H @ ?A @ ?B" and post = "?D"]])
      (use H l in \<open>simp_all add: body_words_def HDR_LEN_def\<close>)
  moreover have "map (\<lambda>i. nested_row_at bs (HDR_LEN + 48 * ?ni + 24 * ?nc + 20 * ?nt + 16 * i)) [0..<?nn] = pt_nested p"
    unfolding ws by (rule map_rows [OF nested_row_at_row [where pre = "?H @ ?A @ ?B @ ?C" and post = "[]"]])
      (use H l in \<open>simp_all add: body_words_def HDR_LEN_def\<close>)
  moreover have "drop HDR_LEN bs = ?body" using s(1) hl by simp
  moreover have "list_all (\<lambda>c. ct_count c \<le> 4 \<and> nvrm_range_valid (ct_first c) (ct_count c) (word_of_nat ?nn)) (pt_ctrls p)"
    using assms(3) by (auto simp: list_all_iff range_valid_nat counts word_le_nat_alt)
  moreover have "HDR_LEN + ?ni * 48 + ?nc * 24 + ?nt * 20 + ?nn * 16 = length bs" using len by simp
  moreover have "HDR_LEN \<le> length bs" using len by simp
  ultimately show ?thesis
    using s(2) unfolding nvrm_tables_parse_def Let_def hdr
    by (simp add: host_hdr_def counts range_valid_nat MAX_NESTED_def MAX_PAYLOAD_def MAX_AUX_def guard_def)
qed

lemma build_parsed:
  obtains p tb t where "collect A = Some p" "build A = Some tb" "HDR_LEN \<le> length (tb_bytes tb)" "length (tb_bytes tb) \<le> 2 ^ 20"
    "nvrm_tables_parse (tb_bytes tb) = Inr t" "gt_ioctls t = pt_ioctls p" "gt_classes t = pt_classes p" "gt_ctrls t = pt_ctrls p"
    "gt_nested t = pt_nested p" "gt_hdr t = host_hdr p (word_of_nat (length (tb_bytes tb))) (tb_checksum tb)"
proof -
  obtain cs ns where t: "ctrl_tables = Some (cs, ns)"
    "collect A = Some \<lparr> pt_ioctls = collect_uvm A @ collect_frontend, pt_classes = collect_classes A, pt_ctrls = cs, pt_nested = ns \<rparr>"
    by (rule collect_Some)
  define p where "p = \<lparr> pt_ioctls = collect_uvm A @ collect_frontend, pt_classes = collect_classes A, pt_ctrls = cs, pt_nested = ns \<rparr>"
  have p: "collect A = Some p" using t(2) by (simp add: p_def)
  obtain bs c where s: "serialize p = Some (bs, c)" "length bs = HDR_LEN + 4 * length (body_words p)"
    using serialize_Some [of p] by blast
  have c: "length cs \<le> 64" "length ns \<le> 64" using ctrl_tables_listed unfolding t(1) by simp_all
  note b = length_map_filter [of "uvm_row A TagUvm Uvm" "upto_word UVM_SCAN_MAX @ [UVM_INITIALIZE, UVM_DEINITIALIZE]"]
    length_map_filter [of "uvm_row A TagUvmTools UvmTools" "upto_word UVM_SCAN_MAX @ [UVM_INITIALIZE, UVM_DEINITIALIZE]"]
    length_map_filter [of "frontend_row TagCtl Ctl" "upto_word FRONTEND_SCAN_MAX"]
    length_map_filter [of "frontend_row TagGpu Gpu" "upto_word FRONTEND_SCAN_MAX"]
  have "length (pt_ioctls p) \<le> 8192"
    using b by (simp add: p_def collect_uvm_def collect_frontend_def UVM_SCAN_MAX_def FRONTEND_SCAN_MAX_def del: upt_Suc)
  then have len: "length bs \<le> 2 ^ 20" "HDR_LEN \<le> length bs" using s(2) classes_few [of A] c by (simp_all add: body_length HDR_LEN_def p_def)
  have "list_all (\<lambda>c. unat (ct_count c) \<le> 4 \<and> unat (ct_first c) + unat (ct_count c) \<le> length (pt_nested p)) (pt_ctrls p)"
    using ctrl_tables_listed unfolding t(1) p_def by simp
  note parse = parse_serialize [OF collect_sizes [OF p] s(1) this]
  obtain tb where tb: "build A = Some tb" "tb_bytes tb = bs" "tb_checksum tb = c" using p s(1) by (simp add: build_def)
  show ?thesis using len by (intro that [OF p tb(1)], unfold tb(2,3)) (assumption, assumption, rule parse, simp_all)
qed

section \<open>The tables of a device\<close>

text \<open>The queue of a device: one chain with the message and room for the reply.\<close>

definition dev_vq :: "senv \<Rightarrow> denv \<Rightarrow> device virtqueue" where
  "dev_vq env dn msg room d =
    (case process_chains env dn [\<lparr> vc_usable = True, vc_msg = msg, vc_readable = True, vc_room = room, vc_used = True \<rparr>] d of
       Some (Inr [b], d') \<Rightarrow> (Inr b, d')
     | Some (_, d') \<Rightarrow> (Inl EIO, d')
     | None \<Rightarrow> (Inl EIO, d))"

abbreviation page_len :: "u64 \<Rightarrow> nat" where "page_len len \<equiv> max (min (unat len) MAX_PAYLOAD) 1"

lemma page_reply:
  assumes "length (dv_tables d) < 2 ^ 32" "\<not> dv_event_error d" "k \<le> length (dv_tables d)"
    "req_ok rq" "rq_kind rq = KIND_GET_TABLES" "rq_addr rq = word_of_nat k" "rq_map_len rq = len"
  shows "\<exists>r. handle env dn (req_as_bytes rq) d = Some (Inr (rsp_as_bytes r @ take (page_len len) (drop k (dv_tables d))), d) \<and>
    rs_ret r = 0 \<and> unat (rs_token r) = length (dv_tables d) \<and> rs_inline_len r = word_of_nat (length (take (page_len len) (drop k (dv_tables d))))"
proof -
  let ?T = "dv_tables d"
  have n: "unat (word_of_nat j :: u64) = j" if "j < 2 ^ 32" for j using that by (simp add: unsigned_of_nat take_bit_nat_eq_self)
  have k: "unat (rq_addr rq) = k" using assms n [of k] by simp
  have e: "unat (tables_end rq (length ?T)) = min (k + page_len len) (length ?T)"
    using tables_end_nat [of "length ?T" rq] assms k by simp
  define b where "b = take (page_len len) (drop k ?T)"
  have chunk: "subslice k (unat (tables_end rq (length ?T)) - k) ?T = b"
    unfolding b_def e subslice_def by (simp add: min_def)
  define r where "r = rsp_default\<lparr> rs_seq := rq_seq rq, rs_token := (word_of_nat (length ?T) :: u64), rs_inline_len := word_of_nat (length b) \<rparr>"
  have "wp (on_get_tables rq) (\<lambda>q d'. q = Inr (rsp_as_bytes r @ b) \<and> d' = d) d"
    using assms k chunk by (simp add: on_get_tables_wp Let_def r_def not_less)
  then have "on_get_tables rq d = Some (Inr (rsp_as_bytes r @ b), d)" by (auto simp: wp_Some)
  moreover have "req_from_bytes (req_as_bytes rq) = Some rq" using req_codec.dec_enc [OF assms(4), of "[]"] by simp
  ultimately have "handle env dn (req_as_bytes rq) d = Some (Inr (rsp_as_bytes r @ b), d)"
    using assms(2,5) by (simp add: handle_def err_answer_def bindm_def getm_def seqm_def refuse_def ret_def)
  then show ?thesis using n assms(1) by (auto simp: r_def b_def rsp_default_def)
qed

lemma dev_vq_page:
  assumes "length (dv_tables d) < 2 ^ 32" "\<not> dv_event_error d" "k \<le> length (dv_tables d)"
    "req_ok rq" "rq_kind rq = KIND_GET_TABLES" "rq_addr rq = word_of_nat k" "rq_map_len rq = 4096"
  shows "\<exists>r. dev_vq env dn (req_as_bytes rq) (RSP_LEN + 4096) d = (Inr (rsp_as_bytes r @ take 4096 (drop k (dv_tables d))), d) \<and>
    rs_ret r = 0 \<and> unat (rs_token r) = length (dv_tables d) \<and> unat (rs_inline_len r) = min 4096 (length (dv_tables d) - k)"
proof -
  obtain r where r: "handle env dn (req_as_bytes rq) d = Some (Inr (rsp_as_bytes r @ take 4096 (drop k (dv_tables d))), d)"
    "rs_ret r = 0" "unat (rs_token r) = length (dv_tables d)" "rs_inline_len r = word_of_nat (length (take 4096 (drop k (dv_tables d))))"
    using page_reply [OF assms, of env dn] by (auto simp: MAX_PAYLOAD_def)
  have "length (req_as_bytes rq) = REQ_LEN" by (rule req_codec.enc_length) (rule assms(4))
  moreover have "\<not> MAX_MSG < REQ_LEN" by (simp add: MAX_MSG_def REQ_LEN_def MAX_PAYLOAD_def MAX_AUX_def)
  moreover have "length (rsp_as_bytes r @ take 4096 (drop k (dv_tables d))) \<le> RSP_LEN + 4096" by (simp add: rsp_codec.enc_length)
  moreover have "take (min (length (dv_tables d) - k) 4096) (drop k (dv_tables d)) = take 4096 (drop k (dv_tables d))" by (simp add: min_def)
  ultimately have "dev_vq env dn (req_as_bytes rq) (RSP_LEN + 4096) d = (Inr (rsp_as_bytes r @ take 4096 (drop k (dv_tables d))), d)"
    using r(1) assms(2) by (simp add: dev_vq_def seqm_def bindm_def refuse_def ret_def getm_def fit_response_def not_less Let_def)
  moreover have "unat (rs_inline_len r) = min 4096 (length (dv_tables d) - k)"
    unfolding r(4) by (simp add: unsigned_of_nat take_bit_nat_eq_self)
  ultimately show ?thesis using r(2,3) by blast
qed

lemma fetch_chunk_device:
  assumes "length (dv_tables d) \<le> 2 ^ 20" "HDR_LEN \<le> length (dv_tables d)" "\<not> dv_event_error d" "k < length (dv_tables d)"
    "room (length (dv_tables d))" "tot = 0 \<or> tot = length (dv_tables d)"
  shows "fetch_chunk (dev_vq env dn) room tot (take k (dv_tables d)) \<lparr> gd_seq = s, gd_vq = d \<rparr> =
    (Inr (length (dv_tables d), take (k + 4096) (dv_tables d)), \<lparr> gd_seq = s + 1, gd_vq = d \<rparr>)"
proof -
  let ?T = "dv_tables d"
  define rq where "rq = req_default\<lparr> rq_seq := s + 1, rq_kind := KIND_GET_TABLES, rq_guest_proc := 0,
    rq_addr := word_of_nat k, rq_map_len := word_of_nat 4096 \<rparr>"
  have "req_ok rq" by (simp add: rq_def req_ok_def req_default_def KIND_GET_TABLES_def)
  then obtain r where r: "dev_vq env dn (req_as_bytes rq) (RSP_LEN + 4096) d = (Inr (rsp_as_bytes r @ take 4096 (drop k ?T)), d)"
    "rs_ret r = 0" "unat (rs_token r) = length ?T" "unat (rs_inline_len r) = min 4096 (length ?T - k)"
    using dev_vq_page [of d k rq env dn] assms(1,3,4) by (auto simp: rq_def)
  define n c where "n = min 4096 (length ?T - k)" and "c = take 4096 (drop k ?T)"
  have n: "0 < n" "k + n \<le> length ?T" "length c = n" "length (take k ?T) = k" using assms(4) by (auto simp: n_def c_def)
  have "subslice RSP_LEN n (rsp_as_bytes r @ c) = c" using n(3) by (simp add: subslice_def rsp_codec.enc_length)
  moreover have "take k ?T @ c = take (k + 4096) ?T" by (simp add: c_def take_add)
  moreover have "n \<le> 4096" by (simp add: n_def)
  ultimately show ?thesis
    using r [folded c_def n_def] n assms(1,2,5,6) rsp_codec.dec_enc [of r c]
    by (auto simp: fetch_chunk_def nvrm_req_init_def nvrm_xfer_run_def rq_def Let_def guard_def rsp_codec.enc_length)
qed

lemma fetch_device:
  assumes "length (dv_tables d) \<le> 2 ^ 20" "HDR_LEN \<le> length (dv_tables d)" "\<not> dv_event_error d" "room (length (dv_tables d))"
  shows "k < length (dv_tables d) \<Longrightarrow> tot = 0 \<or> tot = length (dv_tables d) \<Longrightarrow>
    fst (fetch_loop (dev_vq env dn) room tot (take k (dv_tables d)) \<lparr> gd_seq = s, gd_vq = d \<rparr>) = Inr (dv_tables d)"
proof (induction "length (dv_tables d) - k" arbitrary: k tot s rule: less_induct)
  case less
  note chunk = fetch_chunk_device [where d = d and room = room, OF assms(1-3) less.prems(1) assms(4) less.prems(2)]
  show ?case
  proof (cases "k + 4096 < length (dv_tables d)")
    case True
    then show ?thesis using less.hyps [of "k + 4096" "length (dv_tables d)" "s + 1"] less.prems(1)
      by (subst fetch_loop.simps) (simp add: chunk del: fetch_loop.simps)
  qed (subst fetch_loop.simps, simp add: chunk del: fetch_loop.simps)
qed

end
