(* ===== verification/Gather.thy ===== *)
theory Gather
  imports GuestTables Effects
begin

text \<open>
  The guest's ioctl interpreter, \<^verbatim>\<open>guest-module/virtio_nvrm/virtio_nvrm.c\<close>: decoding an ioctl by the
  command tables (\<^verbatim>\<open>nvrm_node_ioctl\<close>, \<^verbatim>\<open>resolve_xfer\<close>), gathering everything it points at
  (\<^verbatim>\<open>gather_embedded\<close>, \<^verbatim>\<open>gather_osdesc\<close>), the request, and the way back (\<^verbatim>\<open>write_back\<close>), composed by
  \<^verbatim>\<open>nvrm_call_run\<close> with the ownership of pinned pages of \<^verbatim>\<open>nvrm_identity.h\<close>.

  A computation takes the state of the context and ends in a result or an errno; \<^verbatim>\<open>None\<close> is an access
  outside a buffer.  The surroundings are the parameter \<^verbatim>\<open>genv\<close>: the memory of the caller, the allocator,
  the descriptor table, the pinning of pages and the transport, which may answer as they like from the
  history.  Locks and log lines are left out; the mediation of PCI addresses (\<^verbatim>\<open>bdf_mediation\<close>) and the
  debug scans are off, which is their default.
\<close>

unbundle bit_operations_syntax

section \<open>The surroundings\<close>

abbreviation (input) EINTR :: int where "EINTR \<equiv> 4"
abbreviation (input) EFAULT :: int where "EFAULT \<equiv> 14"
abbreviation (input) ENODEV :: int where "ENODEV \<equiv> 19"
abbreviation (input) EOPNOTSUPP :: int where "EOPNOTSUPP \<equiv> 95"

record nvrm_pin =
  pn_client :: u32
  pn_handle :: u32
  pn_pages :: "u64 list"

datatype ghist =
    GIn u64 nat | GOut u64 bytes | GAlloc nat | GToken int | GPin u64 u64 | GDmabuf u64 | GUnpin nvrm_pin | GGate | GSend bytes nat

record genv =
  ge_user :: "ghist list \<Rightarrow> u64 \<Rightarrow> nat \<Rightarrow> (nat \<Rightarrow> u8) option"
  ge_kernel :: "ghist list \<Rightarrow> u64 \<Rightarrow> nat \<Rightarrow> nat \<Rightarrow> u8"
  ge_user_out :: "ghist list \<Rightarrow> u64 \<Rightarrow> bytes \<Rightarrow> bool"
  ge_alloc :: "ghist list \<Rightarrow> nat \<Rightarrow> bool"
  ge_token :: "ghist list \<Rightarrow> int \<Rightarrow> (u64 \<times> u32) option"
  ge_kthread :: bool
  ge_pin :: "ghist list \<Rightarrow> u64 \<Rightarrow> u64 \<Rightarrow> int + u64 list"
  ge_dmabuf :: "ghist list \<Rightarrow> u64 \<Rightarrow> int + u64 list"
  ge_dma_device :: bool
  ge_stopping :: bool
  ge_killed :: "ghist list \<Rightarrow> bool"
  ge_run :: "ghist list \<Rightarrow> bytes \<Rightarrow> nat \<Rightarrow> bool \<times> (int + bytes)"

text \<open>The context's state across calls, with the pin of the running call and whether its request was submitted.\<close>

record gstate =
  gs_hist :: "ghist list"
  gs_seq :: u32
  gs_pin :: "nvrm_pin option"
  gs_submitted :: bool
  gs_pins :: "nvrm_pin list"
  gs_quarantined :: "nvrm_pin list"
  gs_uncertain :: bool
  gs_events_pending :: bool

type_synonym 'a gm = "(gstate, int, 'a) em"

definition ask :: "(ghist list \<Rightarrow> 'a) \<Rightarrow> ghist \<Rightarrow> 'a gm" where
  "ask f e = stepm (\<lambda>s. (f (gs_hist s), s\<lparr> gs_hist := e # gs_hist s \<rparr>))"

definition kvzalloc :: "genv \<Rightarrow> nat \<Rightarrow> unit gm" where
  "kvzalloc ge n = bindm (ask (\<lambda>h. ge_alloc ge h n) (GAlloc n)) (\<lambda>ok. refuse (\<not> ok) ENOMEM)"

section \<open>One call\<close>

record call =
  gc_tag :: u32
  gc_token :: u64
  gc_proc :: u32
  gc_desc :: "ioctl_desc option"
  gc_nr :: u32
  gc_size :: u32
  gc_addr :: u64
  gc_kern :: bool
  gc_inl :: bytes
  gc_aux :: bytes
  gc_params_len :: nat
  gc_emb_off :: u32
  gc_saved_ptr :: u64
  gc_fd_off :: u32
  gc_fd_token :: u64
  gc_fd_proc :: u32
  gc_fd_orig :: u32
  gc_aux_fd_off :: u32
  gc_aux_fd_token :: u64
  gc_aux_fd_proc :: u32
  gc_aux_fd_orig :: bytes
  gc_nested :: "nested_desc list"
  gc_nested_gva :: "u64 list"
  gc_pmem_orig :: u64
  gc_limit_orig :: u64
  gc_run_count :: u32

text \<open>Kernel callers copy with \<^verbatim>\<open>memcpy\<close>, processes through the checked accessors.\<close>

definition call_in :: "genv \<Rightarrow> call \<Rightarrow> u64 \<Rightarrow> nat \<Rightarrow> bytes gm" where
  "call_in ge c src n =
    (if n = 0 then ret []
     else if gc_kern c then bindm (ask (\<lambda>h. ge_kernel ge h src n) (GIn src n)) (\<lambda>f. ret (map f [0..<n]))
     else bindm (ask (\<lambda>h. ge_user ge h src n) (GIn src n)) (\<lambda>r.
       case r of None \<Rightarrow> fail EFAULT | Some f \<Rightarrow> ret (map f [0..<n])))"

definition call_out :: "genv \<Rightarrow> call \<Rightarrow> u64 \<Rightarrow> bytes \<Rightarrow> unit gm" where
  "call_out ge c dst b =
    (if b = [] then ret ()
     else if gc_kern c then ask (\<lambda>_. ()) (GOut dst b)
     else bindm (ask (\<lambda>h. ge_user_out ge h dst b) (GOut dst b)) (\<lambda>ok. refuse (\<not> ok) EFAULT))"

definition nvrm_token_of_fd :: "genv \<Rightarrow> int \<Rightarrow> (u64 \<times> u32) gm" where
  "nvrm_token_of_fd ge n =
    bindm (ask (\<lambda>h. ge_token ge h n) (GToken n)) (\<lambda>r. case r of None \<Rightarrow> fail EBADF | Some tp \<Rightarrow> ret tp)"

section \<open>The embedded parameters\<close>

text \<open>The row of the control command the inline block names, if its row of the ioctl table has a command field.\<close>

definition ctrl_row :: "nvrm_tables \<Rightarrow> call \<Rightarrow> ioctl_desc \<Rightarrow> ctrl_desc option gm" where
  "ctrl_row t c d =
    (if io_cmd_off d \<noteq> NONE_U32 \<and> nvrm_range_valid (io_cmd_off d) 4 (gc_size c)
     then bindm (rd32m (gc_inl c) (unat (io_cmd_off d))) (\<lambda>cmd. ret (find_ctrl t cmd))
     else ret None)"

definition embedded_len :: "nvrm_tables \<Rightarrow> call \<Rightarrow> ioctl_desc \<Rightarrow> (u32 \<times> class_desc option) gm" where
  "embedded_len t c d =
    (if io_emb_len_kind d = EMB_LEN_FIELD then
       seqm (refuse (\<not> nvrm_range_valid (io_emb_len_off d) 4 (gc_size c)) EINVAL)
       (bindm (rd32m (gc_inl c) (unat (io_emb_len_off d))) (\<lambda>plen. ret (plen, None)))
     else if io_emb_len_kind d = EMB_LEN_CLASS then
       seqm (refuse (\<not> nvrm_range_valid (io_emb_len_off d) 4 (gc_size c)) EINVAL)
       (bindm (rd32m (gc_inl c) (unat (io_emb_len_off d))) (\<lambda>hclass.
        case find_class t hclass of
          None \<Rightarrow> fail EOPNOTSUPP
        | Some cls \<Rightarrow>
            seqm (whenm (io_rights_off d \<noteq> NONE_U32 \<and> gc_size c = io_rights_if_size d)
                    (seqm (refuse (\<not> nvrm_range_valid (io_rights_off d) 8 (gc_size c)) EINVAL)
                     (bindm (rd64m (gc_inl c) (unat (io_rights_off d))) (\<lambda>r. refuse (r \<noteq> 0) EOPNOTSUPP))))
            (ret (kl_param_size cls, Some cls))))
     else if io_emb_len_kind d = EMB_LEN_FIXED then ret (io_emb_len_off d, None)
     else ret (0, None))"

definition row_len :: "bytes \<Rightarrow> nested_desc_row \<Rightarrow> u32 gm" where
  "row_len params row =
    (if nr_len_kind row = NLEN_FIXED then ret (nr_len_off row)
     else
       seqm (refuse (\<not> nvrm_range_valid (nr_len_off row) 4 (word_of_nat (length params))) EINVAL)
       (bindm (rd32m params (unat (nr_len_off row))) (\<lambda>n.
        case checked_mul n (nr_elem row) of None \<Rightarrow> fail EINVAL | Some len \<Rightarrow> ret len)))"

fun nested_plan :: "u32 \<Rightarrow> bytes \<Rightarrow> nested_desc_row list \<Rightarrow> nat \<Rightarrow> (u32 \<times> u64 \<times> u32) list gm" where
  "nested_plan max_aux params [] tot = ret []"
| "nested_plan max_aux params (row # rows) tot =
    (if \<not> nvrm_range_valid (nr_ptr_off row) 8 (word_of_nat (length params)) then nested_plan max_aux params rows tot
     else
       bindm (rd64m params (unat (nr_ptr_off row))) (\<lambda>gva.
       bindm (row_len params row) (\<lambda>nlen.
       if gva = 0 \<or> nlen = 0 then nested_plan max_aux params rows tot
       else
         seqm (refuse (max_aux < nlen \<or> unat max_aux < tot + unat nlen) EMSGSIZE)
         (bindm (nested_plan max_aux params rows (tot + unat nlen)) (\<lambda>plan. ret ((nr_ptr_off row, gva, nlen) # plan))))))"

fun nested_fetch :: "genv \<Rightarrow> call \<Rightarrow> (u32 \<times> u64 \<times> u32) list \<Rightarrow> nat \<Rightarrow> (bytes \<times> nested_desc list) gm" where
  "nested_fetch ge c [] aux_len = ret ([], [])"
| "nested_fetch ge c ((ptr_off, gva, len) # plan) aux_len =
    bindm (call_in ge c gva (unat len)) (\<lambda>b.
    bindm (nested_fetch ge c plan (aux_len + unat len)) (\<lambda>(bs, ds).
    ret (b @ bs, \<lparr> nd_ptr_off = ptr_off, nd_aux_off = word_of_nat aux_len, nd_len = len, nd_pad = 0 \<rparr> # ds)))"

definition gather_nested :: "genv \<Rightarrow> nvrm_tables \<Rightarrow> call \<Rightarrow> ctrl_desc \<Rightarrow> call gm" where
  "gather_nested ge t c ct =
    seqm (refuse (MAX_NESTED < unat (ct_count ct) \<or> \<not> nvrm_range_valid (ct_first ct) (ct_count ct) (th_n_nested (gt_hdr t))) EPROTO)
    (seqm (assertm (unat (ct_first ct) + unat (ct_count ct) \<le> length (gt_nested t)))
    (bindm (nested_plan (th_max_aux (gt_hdr t)) (gc_aux c)
              (take (unat (ct_count ct)) (drop (unat (ct_first ct)) (gt_nested t))) (gc_params_len c)) (\<lambda>plan.
     if plan = [] then ret c
     else
       seqm (kvzalloc ge (gc_params_len c + sum_list (map (\<lambda>(_, _, n). unat n) plan)))
       (bindm (nested_fetch ge c plan (gc_params_len c)) (\<lambda>(bs, ds).
        ret (c\<lparr> gc_aux := gc_aux c @ bs, gc_nested := ds, gc_nested_gva := map (\<lambda>(_, gva, _). gva) plan \<rparr>))))))"

text \<open>A descriptor inside the parameters: the number is kept for the way back, its token goes with the request.\<close>

definition resolve_aux_fd :: "genv \<Rightarrow> call \<Rightarrow> u32 \<Rightarrow> bytes \<Rightarrow> bool \<Rightarrow> int \<Rightarrow> call gm" where
  "resolve_aux_fd ge c off orig refused val =
    (let c = c\<lparr> gc_aux_fd_off := off, gc_aux_fd_orig := orig \<rparr> in
     if val < 0 then ret (c\<lparr> gc_aux_fd_token := NONE_U64 \<rparr>)
     else if refused then fail EBADF
     else bindm (nvrm_token_of_fd ge (sint (word_of_int val :: u32))) (\<lambda>(tok, proc).
       ret (c\<lparr> gc_aux_fd_token := tok, gc_aux_fd_proc := proc \<rparr>)))"

definition alloc_fd :: "genv \<Rightarrow> call \<Rightarrow> class_desc option \<Rightarrow> call gm" where
  "alloc_fd ge c cls =
    (case cls of
       None \<Rightarrow> ret c
     | Some k \<Rightarrow>
         if kl_fd_off k = NONE_U32 then ret c
         else
           seqm (refuse (gc_params_len c < 8 \<or> gc_params_len c - 8 < unat (kl_fd_off k)) EINVAL)
           (bindm (if kl_fd_if_off k = NONE_U32 then ret True
                   else seqm (refuse (gc_params_len c < 4 \<or> gc_params_len c - 4 < unat (kl_fd_if_off k)) EINVAL)
                     (bindm (rd32m (gc_aux c) (unat (kl_fd_if_off k))) (\<lambda>v. ret (v = kl_fd_if_val k)))) (\<lambda>is_fd.
            if \<not> is_fd then ret c
            else bindm (rd64m (gc_aux c) (unat (kl_fd_off k))) (\<lambda>v.
              resolve_aux_fd ge c (kl_fd_off k) (subslice (unat (kl_fd_off k)) 8 (gc_aux c)) (gc_kern c) (sint v)))))"

definition ctrl_fd :: "genv \<Rightarrow> call \<Rightarrow> ctrl_desc option \<Rightarrow> call gm" where
  "ctrl_fd ge c ct =
    (case ct of
       None \<Rightarrow> ret c
     | Some r \<Rightarrow>
         if ct_flags r AND CF_FD = 0 \<or> ct_fd_off r = NONE_U32 then ret c
         else
           seqm (refuse (gc_params_len c < 4 \<or> gc_params_len c - 4 < unat (ct_fd_off r)) EINVAL)
           (seqm (refuse (gc_aux_fd_off c \<noteq> NONE_U32) EOPNOTSUPP)
           (bindm (rd32m (gc_aux c) (unat (ct_fd_off r))) (\<lambda>v.
            resolve_aux_fd ge c (ct_fd_off r) (subslice (unat (ct_fd_off r)) 4 (gc_aux c)) (gc_kern c \<and> ge_kthread ge) (sint v)))))"

definition gather_embedded :: "genv \<Rightarrow> nvrm_tables \<Rightarrow> call \<Rightarrow> call gm" where
  "gather_embedded ge t c =
    (case gc_desc c of
       None \<Rightarrow> ret c
     | Some d \<Rightarrow>
         if io_emb_ptr_off d = NONE_U32 then ret c
         else
           seqm (refuse (\<not> nvrm_range_valid (io_emb_ptr_off d) 8 (gc_size c)) EINVAL)
           (bindm (ctrl_row t c d) (\<lambda>ct.
            seqm (refuse (case ct of None \<Rightarrow> False | Some r \<Rightarrow> ct_flags r AND CF_BLOCK \<noteq> 0) EPERM)
            (bindm (rd64m (gc_inl c) (unat (io_emb_ptr_off d))) (\<lambda>ptr.
             let c = c\<lparr> gc_saved_ptr := ptr \<rparr> in
             if ptr = 0 then ret c
             else bindm (embedded_len t c d) (\<lambda>(plen, cls).
               if plen = 0 then ret c
               else
                 seqm (refuse (th_max_aux (gt_hdr t) < plen) EMSGSIZE)
                 (seqm (kvzalloc ge (unat plen))
                 (bindm (call_in ge c ptr (unat plen)) (\<lambda>params.
                  let c = c\<lparr> gc_aux := params, gc_params_len := unat plen, gc_emb_off := io_emb_ptr_off d \<rparr> in
                  bindm (case ct of
                           Some r \<Rightarrow> if ct_count r \<noteq> 0 then gather_nested ge t c r else ret c
                         | None \<Rightarrow> ret c) (\<lambda>c.
                  bindm (alloc_fd ge c cls) (\<lambda>c.
                  ctrl_fd ge c ct)))))))))))"

section \<open>OS descriptors\<close>

text \<open>The page frames as runs of guest-physical memory; the empty list stands for the return value 0.\<close>

fun nvrm_runs_from_pages :: "nat \<Rightarrow> u64 list \<Rightarrow> (u64 \<times> u64) list \<Rightarrow> (u64 \<times> u64) list" where
  "nvrm_runs_from_pages max_runs [] rs = rs"
| "nvrm_runs_from_pages max_runs (pfn # pages) rs =
    (let gpa = push_bit 12 pfn in
     if rs \<noteq> [] \<and> fst (last rs) + snd (last rs) = gpa
     then nvrm_runs_from_pages max_runs pages (butlast rs @ [(fst (last rs), snd (last rs) + 4096)])
     else if max_runs \<le> length rs then []
     else nvrm_runs_from_pages max_runs pages (rs @ [(gpa, 4096)]))"

definition runs_bytes :: "(u64 \<times> u64) list \<Rightarrow> bytes" where
  "runs_bytes rs = concat (map (\<lambda>(gpa, len). u64_to_le gpa @ u64_to_le len) rs)"

definition gather_osdesc_kern :: "genv \<Rightarrow> nvrm_tables \<Rightarrow> call \<Rightarrow> call gm" where
  "gather_osdesc_kern ge t c =
    (let plen = 40; max_aux = unat (th_max_aux (gt_hdr t)) in
     seqm (refuse (gc_params_len c < plen) EINVAL)
     (bindm (rd32m (gc_aux c) 32) (\<lambda>dtype.
      bindm (rd64m (gc_aux c) 16) (\<lambda>desc.
      bindm (rd64m (gc_aux c) 24) (\<lambda>limit.
      seqm (refuse (dtype \<noteq> 5) EOPNOTSUPP)
      (seqm (refuse (desc = 0) EINVAL)
      (seqm (refuse (\<not> ge_dma_device ge) EOPNOTSUPP)
      (bindm (ask (\<lambda>h. ge_dmabuf ge h desc) (GDmabuf desc)) (\<lambda>pin.
       case pin of
         Inl e \<Rightarrow> fail e
       | Inr pages \<Rightarrow>
           bindm (rd32m (gc_inl c) 0) (\<lambda>client.
           let c = c\<lparr> gc_pmem_orig := desc, gc_limit_orig := limit \<rparr>;
               max_runs = (if max_aux < plen + length pages * 16 then (max_aux - plen) div 16 else length pages);
               rs = nvrm_runs_from_pages max_runs pages [] in
           seqm (modm (\<lambda>s. s\<lparr> gs_pin := Some \<lparr> pn_client = client, pn_handle = 0, pn_pages = pages \<rparr> \<rparr>))
           (seqm (kvzalloc ge (plen + max_runs * 16))
           (seqm (refuse (rs = []) EMSGSIZE)
           (ret (c\<lparr> gc_aux := take plen (gc_aux c) @ runs_bytes rs, gc_params_len := plen,
                    gc_run_count := word_of_nat (length rs) \<rparr>))))))))))))))"

definition gather_osdesc :: "genv \<Rightarrow> nvrm_tables \<Rightarrow> call \<Rightarrow> call gm" where
  "gather_osdesc ge t c =
    (let h = gt_hdr t; max_aux = unat (th_max_aux h) in
     bindm (if gc_kern c \<and> gc_desc c \<noteq> None \<and> gc_nr c = NV_ESC_RM_ALLOC \<and> 16 \<le> gc_size c
            then bindm (rd32m (gc_inl c) 12) (\<lambda>v. ret (v = th_osdesc_class h)) else ret False) (\<lambda>kern_form.
     if kern_form then gather_osdesc_kern ge t c
     else case gc_desc c of
       None \<Rightarrow> ret c
     | Some d \<Rightarrow>
         if io_flags d AND F_OSDESC = 0 then ret c
         else
           seqm (refuse (\<not> nvrm_range_valid (io_emb_len_off d) 4 (gc_size c)) EINVAL)
           (bindm (rd32m (gc_inl c) (unat (io_emb_len_off d))) (\<lambda>cls.
            if cls \<noteq> th_osdesc_class h then ret c
            else
              seqm (refuse (gc_kern c) EOPNOTSUPP)
              (seqm (refuse (\<not> (nvrm_range_valid 0 4 (gc_size c) \<and> nvrm_range_valid (th_osdesc_pmem_off h) 8 (gc_size c) \<and>
                        nvrm_range_valid (th_osdesc_limit_off h) 8 (gc_size c) \<and> nvrm_range_valid (th_osdesc_status_off h) 4 (gc_size c) \<and>
                        nvrm_range_valid (th_osdesc_handle_off h) 4 (gc_size c))) EINVAL)
              (bindm (rd64m (gc_inl c) (unat (th_osdesc_pmem_off h))) (\<lambda>pmem.
               bindm (rd64m (gc_inl c) (unat (th_osdesc_limit_off h))) (\<lambda>limit.
               let dlen = limit + 1 in
               seqm (refuse (pmem = 0 \<or> dlen = 0 \<or> dlen AND 0xfff \<noteq> 0 \<or> pmem AND 0xfff \<noteq> 0) EINVAL)
               (bindm (ask (\<lambda>h. ge_pin ge h pmem dlen) (GPin pmem dlen)) (\<lambda>pin.
                case pin of
                  Inl e \<Rightarrow> fail e
                | Inr pages \<Rightarrow>
                    bindm (rd32m (gc_inl c) 0) (\<lambda>client.
                    let c = c\<lparr> gc_pmem_orig := pmem, gc_limit_orig := limit \<rparr>;
                        max_runs = (if max_aux < length pages * 16 then max_aux div 16 else length pages);
                        rs = nvrm_runs_from_pages max_runs pages [] in
                    seqm (modm (\<lambda>s. s\<lparr> gs_pin := Some \<lparr> pn_client = client, pn_handle = 0, pn_pages = pages \<rparr> \<rparr>))
                    (seqm (kvzalloc ge (max_runs * 16))
                    (seqm (refuse (rs = []) EMSGSIZE)
                    (ret (c\<lparr> gc_aux := runs_bytes rs, gc_params_len := 0, gc_run_count := word_of_nat (length rs) \<rparr>)))))))))))))))"

section \<open>The request\<close>

definition gather_fd :: "genv \<Rightarrow> call \<Rightarrow> call gm" where
  "gather_fd ge c =
    (case gc_desc c of
       None \<Rightarrow> ret c
     | Some d \<Rightarrow>
         if gc_kern c \<or> io_fd_off d = NONE_U32 then ret c
         else
           seqm (refuse (\<not> nvrm_range_valid (io_fd_off d) 4 (gc_size c)) EINVAL)
           (bindm (rd32m (gc_inl c) (unat (io_fd_off d))) (\<lambda>n.
            let c = c\<lparr> gc_fd_off := io_fd_off d, gc_fd_orig := n \<rparr> in
            if sint n < 0 then ret (c\<lparr> gc_fd_token := NONE_U64 \<rparr>)
            else bindm (nvrm_token_of_fd ge (sint n)) (\<lambda>(tok, proc). ret (c\<lparr> gc_fd_token := tok, gc_fd_proc := proc \<rparr>)))))"

text \<open>A process's allocation of video memory waits for the balloon, unless a fatal signal ends the wait.\<close>

definition balloon_gated :: "call \<Rightarrow> bool gm" where
  "balloon_gated c =
    (if gc_kern c \<or> gc_tag c = dev_tag_to_u32 TagUvm \<or> gc_tag c = dev_tag_to_u32 TagUvmTools then ret False
     else if gc_nr c = NV_ESC_RM_ALLOC then
       (if 16 \<le> gc_size c then bindm (rd32m (gc_inl c) 12) (\<lambda>v. ret (v = 0x40)) else ret False)
     else if gc_nr c = NV_ESC_RM_VID_HEAP_CONTROL then
       (if 12 \<le> gc_size c then bindm (rd32m (gc_inl c) 8) (\<lambda>v. ret (v = 2)) else ret False)
     else ret False)"

text \<open>Steps (1) to (4): the inline block, the gate, the descriptor field, the parameters and the pages.\<close>

definition gather :: "genv \<Rightarrow> nvrm_tables \<Rightarrow> call \<Rightarrow> call gm" where
  "gather ge t c =
    bindm (if gc_size c = 0 then ret c
           else seqm (kvzalloc ge (unat (gc_size c)))
             (bindm (call_in ge c (gc_addr c) (unat (gc_size c))) (\<lambda>b. ret (c\<lparr> gc_inl := b \<rparr>)))) (\<lambda>c.
    bindm (balloon_gated c) (\<lambda>gated.
    bindm (if gated then ask (ge_killed ge) GGate else ret False) (\<lambda>killed.
    seqm (refuse killed EINTR) (
    bindm (gather_fd ge c) (\<lambda>c.
    bindm (gather_embedded ge t c) (\<lambda>c.
    gather_osdesc ge t c))))))"

definition call_req :: "u32 \<Rightarrow> call \<Rightarrow> req" where
  "call_req seq c = req_default\<lparr> rq_seq := seq, rq_kind := kind_to_u32 Ioctl, rq_guest_proc := gc_proc c,
     rq_dev_tag := gc_tag c, rq_ioctl_nr := gc_nr c, rq_target_token := gc_token c,
     rq_inline_len := gc_size c, rq_aux_len := word_of_nat (length (gc_aux c)),
     rq_fd_field_off := gc_fd_off c, rq_fd_field_token := gc_fd_token c, rq_fd_field_proc := gc_fd_proc c,
     rq_embedded_ptr_off := gc_emb_off c, rq_aux_fd_field_off := gc_aux_fd_off c,
     rq_aux_fd_field_token := gc_aux_fd_token c, rq_aux_fd_field_proc := gc_aux_fd_proc c,
     rq_gpa_run_count := gc_run_count c, rq_nested_count := word_of_nat (length (gc_nested c)),
     rq_nested := gc_nested c @ drop (length (gc_nested c)) (replicate MAX_NESTED nested_desc_default) \<rparr>"

section \<open>The way back\<close>

text \<open>A write into a buffer, \<^verbatim>\<open>None\<close> outside it.\<close>

definition putm :: "bytes \<Rightarrow> nat \<Rightarrow> bytes \<Rightarrow> bytes gm" where
  "putm b off v = (if off + length v \<le> length b then ret (write_at b off v) else panic)"

definition slicem :: "bytes \<Rightarrow> nat \<Rightarrow> nat \<Rightarrow> bytes gm" where
  "slicem b off n = (if off + n \<le> length b then ret (subslice off n b) else panic)"

fun nested_back :: "genv \<Rightarrow> call \<Rightarrow> (nested_desc \<times> u64) list \<Rightarrow> bytes \<Rightarrow> bytes gm" where
  "nested_back ge c [] aux = ret aux"
| "nested_back ge c ((d, gva) # ds) aux =
    bindm (slicem aux (unat (nd_aux_off d)) (unat (nd_len d))) (\<lambda>b.
    seqm (call_out ge c gva b)
    (bindm (putm aux (unat (nd_ptr_off d)) (u64_to_le gva)) (nested_back ge c ds)))"

definition embedded_back :: "genv \<Rightarrow> call \<Rightarrow> bytes \<Rightarrow> bytes \<Rightarrow> bytes gm" where
  "embedded_back ge c inl aux =
    (if gc_emb_off c = NONE_U32 \<or> gc_saved_ptr c = 0 then ret inl
     else
       bindm (nested_back ge c (zip (gc_nested c) (gc_nested_gva c)) aux) (\<lambda>aux.
       bindm (if gc_aux_fd_off c = NONE_U32 then ret aux else putm aux (unat (gc_aux_fd_off c)) (gc_aux_fd_orig c)) (\<lambda>aux.
       bindm (slicem aux 0 (gc_params_len c)) (\<lambda>params.
       seqm (call_out ge c (gc_saved_ptr c) params)
       (putm inl (unat (gc_emb_off c)) (u64_to_le (gc_saved_ptr c)))))))"

definition write_back :: "genv \<Rightarrow> nvrm_tables \<Rightarrow> call \<Rightarrow> rsp \<Rightarrow> bytes \<Rightarrow> bytes gm" where
  "write_back ge t c r body =
    (let il = min (unat (rs_inline_len r)) (unat (gc_size c)); al = min (unat (rs_aux_len r)) (length (gc_aux c)) in
     bindm (slicem body 0 il) (\<lambda>b.
     bindm (putm (gc_inl c) 0 b) (\<lambda>inl.
     bindm (if al = 0 then ret [] else slicem body (unat (rs_inline_len r)) al) (\<lambda>b.
     bindm (putm (gc_aux c) 0 b) (\<lambda>aux.
     bindm (embedded_back ge c inl aux) (\<lambda>inl.
     bindm (if gc_fd_off c \<noteq> NONE_U32 \<and> nvrm_range_valid (gc_fd_off c) 4 (gc_size c)
            then putm inl (unat (gc_fd_off c)) (u32_to_le (gc_fd_orig c)) else ret inl) (\<lambda>inl.
     bindm (if gc_run_count c \<noteq> 0 \<and> \<not> gc_kern c
            then bindm (putm inl (unat (th_osdesc_pmem_off (gt_hdr t))) (u64_to_le (gc_pmem_orig c))) (\<lambda>inl.
              putm inl (unat (th_osdesc_limit_off (gt_hdr t))) (u64_to_le (gc_limit_orig c)))
            else ret inl) (\<lambda>inl.
     seqm (call_out ge c (gc_addr c) inl) (ret inl)))))))))"

section \<open>The call\<close>

datatype osdesc_result = OsdescUnknown | OsdescRejected | OsdescCreated u32

definition nvrm_osdesc_reply :: "bytes \<Rightarrow> nat \<Rightarrow> i32 \<Rightarrow> u32 \<Rightarrow> u32 \<Rightarrow> osdesc_result gm" where
  "nvrm_osdesc_reply b len r status_off handle_off =
    (if r \<noteq> 0 \<or> len < 4 \<or> len - 4 < unat status_off \<or> len - 4 < unat handle_off then ret OsdescUnknown
     else bindm (rd32m b (unat status_off)) (\<lambda>status.
       if status \<noteq> 0 then ret OsdescRejected
       else bindm (rd32m b (unat handle_off)) (\<lambda>hobj. ret (OsdescCreated hobj))))"

definition nvrm_free_reply :: "bytes \<Rightarrow> nat \<Rightarrow> i32 \<Rightarrow> (u32 \<times> u32) option gm" where
  "nvrm_free_reply b len r =
    (if r \<noteq> 0 \<or> len < 16 then ret None
     else bindm (rd32m b 12) (\<lambda>status.
       if status \<noteq> 0 then ret None
       else bindm (rd32m b 0) (\<lambda>client. bindm (rd32m b 8) (\<lambda>hobj. ret (Some (client, hobj))))))"

definition nvrm_object_freed :: "nvrm_pin \<Rightarrow> u32 \<times> u32 \<Rightarrow> bool" where
  "nvrm_object_freed p freed \<longleftrightarrow>
    (case freed of (client, hobj) \<Rightarrow> pn_client p = client \<and> (pn_handle p = hobj \<or> hobj = client))"

text \<open>Ownership of the pages after the reply: only returned status bytes establish failure or success.\<close>

definition settle_pin :: "nvrm_tables \<Rightarrow> rsp \<Rightarrow> bytes \<Rightarrow> unit gm" where
  "settle_pin t r body =
    bindm (getm gs_pin) (\<lambda>pin.
    case pin of
      None \<Rightarrow> ret ()
    | Some p \<Rightarrow>
        bindm (nvrm_osdesc_reply body (unat (rs_inline_len r)) (rs_ret r) (th_osdesc_status_off (gt_hdr t))
                 (th_osdesc_handle_off (gt_hdr t))) (\<lambda>res.
        modm (\<lambda>s. case res of
            OsdescCreated hobj \<Rightarrow> s\<lparr> gs_pin := None, gs_pins := gs_pins s @ [p\<lparr> pn_handle := hobj \<rparr>] \<rparr>
          | OsdescRejected \<Rightarrow> s\<lparr> gs_pin := None, gs_hist := GUnpin p # gs_hist s \<rparr>
          | OsdescUnknown \<Rightarrow> s\<lparr> gs_uncertain := True \<rparr>)))"

definition release_freed :: "call \<Rightarrow> rsp \<Rightarrow> bytes \<Rightarrow> unit gm" where
  "release_freed c r inl =
    bindm (getm gs_uncertain) (\<lambda>uncertain.
    if uncertain \<or> (case gc_desc c of None \<Rightarrow> True | Some d \<Rightarrow> io_flags d AND F_FREE = 0) then ret ()
    else bindm (nvrm_free_reply inl (min (unat (gc_size c)) (unat (rs_inline_len r))) (rs_ret r)) (\<lambda>freed.
      case freed of
        None \<Rightarrow> ret ()
      | Some key \<Rightarrow> modm (\<lambda>s. s\<lparr> gs_pins := filter (\<lambda>p. \<not> nvrm_object_freed p key) (gs_pins s),
          gs_hist := rev (map GUnpin (filter (\<lambda>p. nvrm_object_freed p key) (gs_pins s))) @ gs_hist s \<rparr>)))"

text \<open>More events behind a successful \<^verbatim>\<open>GET_EVENT_DATA\<close> re-arm the poll.\<close>

definition rearm :: "call \<Rightarrow> rsp \<Rightarrow> bytes \<Rightarrow> unit gm" where
  "rearm c r inl =
    (if gc_kern c \<or> gc_nr c \<noteq> NV_ESC_RM_GET_EVENT_DATA \<or> rs_ret r \<noteq> 0 \<or> gc_size c < 16 then ret ()
     else bindm (rd32m inl 12) (\<lambda>status. bindm (rd32m inl 8) (\<lambda>more.
       whenm (status = 0 \<and> more \<noteq> 0) (modm (\<lambda>s. s\<lparr> gs_events_pending := True \<rparr>)))))"

definition after_reply :: "genv \<Rightarrow> nvrm_tables \<Rightarrow> call \<Rightarrow> bytes \<Rightarrow> i32 gm" where
  "after_reply ge t c b =
    (case rsp_from_bytes b of
       None \<Rightarrow> panic
     | Some r \<Rightarrow>
         if length b < RSP_LEN + unat (rs_inline_len r) + unat (rs_aux_len r)
         then seqm (modm (\<lambda>s. s\<lparr> gs_uncertain := True \<rparr>)) (fail EIO)
         else
           let body = drop RSP_LEN b in
           seqm (settle_pin t r body)
           (bindm (write_back ge t c r body) (\<lambda>inl.
            seqm (rearm c r inl)
            (seqm (release_freed c r inl)
            (ret (rs_ret r))))))"

text \<open>Steps (6) to (8).\<close>

definition transact :: "genv \<Rightarrow> nvrm_tables \<Rightarrow> call \<Rightarrow> i32 gm" where
  "transact ge t c =
    (let n = length (gc_inl c) + length (gc_aux c); cap = RSP_LEN + n in
    seqm (refuse (MAX_MSG < REQ_LEN + n \<or> MAX_MSG < cap) EMSGSIZE)
    (seqm (kvzalloc ge (REQ_LEN + n + cap))
    (bindm (stepm (\<lambda>s. (gs_seq s + 1, s\<lparr> gs_seq := gs_seq s + 1 \<rparr>))) (\<lambda>seq.
     let msg = req_as_bytes (call_req seq c) @ gc_inl c @ gc_aux c in
     bindm (ask (\<lambda>h. ge_run ge h msg cap) (GSend msg cap)) (\<lambda>(submitted, x).
     seqm (modm (\<lambda>s. s\<lparr> gs_submitted := submitted \<rparr>))
     (case (case x of Inl e \<Rightarrow> Inl e | Inr b \<Rightarrow> if length b < RSP_LEN \<or> cap < length b then Inl EIO else Inr b) of
        Inl e \<Rightarrow> seqm (modm (\<lambda>s. s\<lparr> gs_uncertain := gs_uncertain s \<or> submitted \<rparr>)) (fail e)
      | Inr b \<Rightarrow> after_reply ge t c b))))))"

definition call_body :: "genv \<Rightarrow> nvrm_tables \<Rightarrow> call \<Rightarrow> i32 gm" where
  "call_body ge t c = bindm (gather ge t c) (transact ge t)"

text \<open>The end of every call: a pin nobody took over is quarantined when the host may know it, else released.\<close>

definition out_pin :: "gstate \<Rightarrow> gstate" where
  "out_pin s =
    (case gs_pin s of
       None \<Rightarrow> s
     | Some p \<Rightarrow>
         if gs_submitted s then s\<lparr> gs_pin := None, gs_quarantined := p # gs_quarantined s \<rparr>
         else s\<lparr> gs_pin := None, gs_hist := GUnpin p # gs_hist s \<rparr>)"

definition nvrm_call_run :: "genv \<Rightarrow> nvrm_tables \<Rightarrow> call \<Rightarrow> i32 gm" where
  "nvrm_call_run ge t c s =
    (case call_body ge t c (s\<lparr> gs_pin := None, gs_submitted := False \<rparr>) of
       None \<Rightarrow> None
     | Some (r, s') \<Rightarrow> Some (r, out_pin s'))"

definition resolve_xfer :: "genv \<Rightarrow> nvrm_tables \<Rightarrow> call \<Rightarrow> call gm" where
  "resolve_xfer ge t c =
    (let h = gt_hdr t in
     seqm (refuse (NVRM_XFER_HEADER_MAX < th_xfer_struct_len h) EPROTO)
     (bindm (call_in ge c (gc_addr c) (unat (th_xfer_struct_len h))) (\<lambda>b.
      bindm (rd32m b (unat (th_xfer_cmd_off h))) (\<lambda>real_nr.
      bindm (rd32m b (unat (th_xfer_size_off h))) (\<lambda>real_size.
      bindm (rd64m b (unat (th_xfer_ptr_off h))) (\<lambda>real_ptr.
      seqm (refuse (real_size = 0 \<or> th_max_ioctl_size h < real_size \<or> real_ptr = 0) EINVAL)
      (ret (c\<lparr> gc_nr := real_nr, gc_size := real_size, gc_addr := real_ptr, gc_desc := find_ioctl t (gc_tag c) real_nr \<rparr>))))))))"

definition call_new :: "u32 \<Rightarrow> u64 \<Rightarrow> u32 \<Rightarrow> u64 \<Rightarrow> call" where
  "call_new tag token proc arg = \<lparr> gc_tag = tag, gc_token = token, gc_proc = proc, gc_desc = None, gc_nr = 0, gc_size = 0,
     gc_addr = arg, gc_kern = False, gc_inl = [], gc_aux = [], gc_params_len = 0, gc_emb_off = NONE_U32, gc_saved_ptr = 0,
     gc_fd_off = NONE_U32, gc_fd_token = NONE_U64, gc_fd_proc = NONE_U32, gc_fd_orig = 0,
     gc_aux_fd_off = NONE_U32, gc_aux_fd_token = NONE_U64, gc_aux_fd_proc = NONE_U32, gc_aux_fd_orig = replicate 8 0,
     gc_nested = [], gc_nested_gva = [], gc_pmem_orig = 0, gc_limit_orig = 0, gc_run_count = 0 \<rparr>"

text \<open>Step (0): the number and the size of the ioctl.\<close>

definition decode_ioctl :: "genv \<Rightarrow> nvrm_tables \<Rightarrow> call \<Rightarrow> u32 \<Rightarrow> call gm" where
  "decode_ioctl ge t c cmd =
    (if gc_tag c = dev_tag_to_u32 TagUvm \<or> gc_tag c = dev_tag_to_u32 TagUvmTools then
       (case find_ioctl t (gc_tag c) cmd of
          None \<Rightarrow> fail EOPNOTSUPP
        | Some d \<Rightarrow>
            if io_size d = SIZE_FROM_IOC then fail EOPNOTSUPP
            else ret (c\<lparr> gc_nr := cmd, gc_desc := Some d, gc_size := io_size d \<rparr>))
     else
       let row = find_ioctl t (gc_tag c) (ioc_nr cmd);
           c = c\<lparr> gc_nr := ioc_nr cmd, gc_size := ioc_size cmd, gc_desc := row \<rparr> in
       if (case row of None \<Rightarrow> False | Some d \<Rightarrow> io_flags d AND F_XFER \<noteq> 0) then resolve_xfer ge t c else ret c)"

definition nvrm_node_ioctl :: "genv \<Rightarrow> nvrm_tables \<Rightarrow> u32 \<Rightarrow> u64 \<Rightarrow> u32 \<Rightarrow> u32 \<Rightarrow> u64 \<Rightarrow> i32 gm" where
  "nvrm_node_ioctl ge t tag token proc cmd arg =
    seqm (refuse (ge_stopping ge) ENODEV)
    (bindm (decode_ioctl ge t (call_new tag token proc arg) cmd) (\<lambda>c.
     seqm (refuse (th_max_inline (gt_hdr t) < gc_size c) EMSGSIZE)
     (nvrm_call_run ge t c)))"

end
