(* ===== verification/GuestCalls.thy ===== *)
theory GuestCalls
  imports Gather Execute
begin

text \<open>
  What the guest's interpreter does with an ioctl.  The first part describes the gathered call by pure
  functions of the inline block, the parameters and the tables; the second shows that no access leaves a
  buffer; the third that the host's own validation finds every message packed the way it expects.
\<close>

section \<open>The environment\<close>

lemma wp_ask [wp_simps]: "wp (ask f e) Q s \<longleftrightarrow> Q (Inr (f (gs_hist s))) (s\<lparr> gs_hist := e # gs_hist s \<rparr>)"
  by (simp add: ask_def wp_simps)

text \<open>\<^verbatim>\<open>quietg m P\<close>: \<^verbatim>\<open>m\<close> does not leave a buffer, sends nothing, keeps everything but the history and the
  running pin, and what it returns satisfies \<^verbatim>\<open>P\<close>.\<close>

definition sends :: "gstate \<Rightarrow> ghist list" where
  "sends s = filter (\<lambda>e. case e of GSend _ _ \<Rightarrow> True | _ \<Rightarrow> False) (gs_hist s)"

definition same :: "gstate \<Rightarrow> gstate \<Rightarrow> bool" where
  "same s s' \<longleftrightarrow> sends s' = sends s \<and> gs_seq s' = gs_seq s \<and> gs_submitted s' = gs_submitted s"

lemma same_refl [simp]: "same s s"
  by (simp add: same_def)

lemma same_trans: "same s s' \<Longrightarrow> same s' s'' \<Longrightarrow> same s s''"
  by (simp add: same_def)

definition quietg :: "'a gm \<Rightarrow> ('a \<Rightarrow> bool) \<Rightarrow> bool" where
  "quietg m P \<longleftrightarrow> (\<forall>s. wp m (\<lambda>r s'. same s s' \<and> (case r of Inl _ \<Rightarrow> True | Inr a \<Rightarrow> P a)) s)"

named_theorems qg \<open>computations that stay inside their buffers, by the first step\<close>

lemma quietg_bindm: "quietg m R \<Longrightarrow> (\<And>a. R a \<Longrightarrow> quietg (f a) P) \<Longrightarrow> quietg (bindm m f) P"
proof -
  assume m: "quietg m R" and f: "\<And>a. R a \<Longrightarrow> quietg (f a) P"
  let ?Q = "\<lambda>s r s'. same s s' \<and> (case r of Inl _ \<Rightarrow> True | Inr a \<Rightarrow> P a)"
  have "wp m (andthen f (?Q s)) s" for s
  proof (rule wp_mono)
    show "wp m (\<lambda>r s'. same s s' \<and> (case r of Inl _ \<Rightarrow> True | Inr a \<Rightarrow> R a)) s" using m by (simp add: quietg_def)
    show "andthen f (?Q s) r s'" if "same s s' \<and> (case r of Inl _ \<Rightarrow> True | Inr a \<Rightarrow> R a)" for r s'
    proof (cases r)
      case (Inr a)
      then have "wp (f a) (?Q s') s'" using f that by (simp add: quietg_def)
      then have "wp (f a) (?Q s) s'" by (rule wp_mono) (use that in \<open>auto intro: same_trans\<close>)
      then show ?thesis using Inr by simp
    qed (use that in simp)
  qed
  then show ?thesis by (simp add: quietg_def wp_simps)
qed

lemma quietg_mono: "quietg m P \<Longrightarrow> (\<And>a. P a \<Longrightarrow> R a) \<Longrightarrow> quietg m R"
  unfolding quietg_def by (rule allI, rule wp_mono, blast) (auto split: sum.splits)

lemma bindm_assoc: "bindm (bindm m f) g = bindm m (\<lambda>a. bindm (f a) g)"
  by (rule ext) (simp add: bindm_def split: option.split sum.split prod.split)

lemma quietg_end [qg]:
  "P a \<Longrightarrow> quietg (ret a) P" "quietg (fail e) P" "(\<not> b \<Longrightarrow> P1 ()) \<Longrightarrow> quietg (refuse b e) P1"
  "off + 4 \<le> length bs \<Longrightarrow> P4 (rd32 bs off) \<Longrightarrow> quietg (rd32m bs off) P4"
  "off + 8 \<le> length bs \<Longrightarrow> P8 (rd64 bs off) \<Longrightarrow> quietg (rd64m bs off) P8"
  by (simp_all add: quietg_def wp_simps)

lemma quietg_first [qg]:
  "quietg (f a) P \<Longrightarrow> quietg (bindm (ret a) f) P"
  "quietg (bindm (fail e) g) P"
  "(\<not> b \<Longrightarrow> quietg (k ()) P) \<Longrightarrow> quietg (bindm (refuse b e) k) P"
  "b \<Longrightarrow> quietg (k ()) P \<Longrightarrow> quietg (bindm (assertm b) k) P"
  "off + 4 \<le> length bs \<Longrightarrow> quietg (f4 (rd32 bs off)) P \<Longrightarrow> quietg (bindm (rd32m bs off) f4) P"
  "off + 8 \<le> length bs \<Longrightarrow> quietg (f8 (rd64 bs off)) P \<Longrightarrow> quietg (bindm (rd64m bs off) f8) P"
  by (simp_all add: quietg_def wp_simps)

lemma quietg_branch [qg]:
  "(b \<Longrightarrow> quietg m P) \<Longrightarrow> (\<not> b \<Longrightarrow> quietg k P) \<Longrightarrow> quietg (if b then m else k) P"
  "(x = None \<Longrightarrow> quietg m P) \<Longrightarrow> (\<And>y. x = Some y \<Longrightarrow> quietg (h y) P) \<Longrightarrow> quietg (case x of None \<Rightarrow> m | Some y \<Rightarrow> h y) P"
  "(\<And>a b. p = (a, b) \<Longrightarrow> quietg (g a b) P) \<Longrightarrow> quietg (case p of (a, b) \<Rightarrow> g a b) P"
  "(\<And>y. z = Inl y \<Longrightarrow> quietg (u y) P) \<Longrightarrow> (\<And>y. z = Inr y \<Longrightarrow> quietg (w y) P) \<Longrightarrow> quietg (case z of Inl y \<Rightarrow> u y | Inr y \<Rightarrow> w y) P"
  by (auto split: option.split prod.split sum.split)

lemma quietg_branch_first [qg]:
  "(b \<Longrightarrow> quietg (bindm m f) P) \<Longrightarrow> (\<not> b \<Longrightarrow> quietg (bindm k f) P) \<Longrightarrow> quietg (bindm (if b then m else k) f) P"
  "(b \<Longrightarrow> quietg (bindm n i) P) \<Longrightarrow> (\<not> b \<Longrightarrow> quietg (i ()) P) \<Longrightarrow> quietg (bindm (whenm b n) i) P"
  "(x = None \<Longrightarrow> quietg (bindm m f) P) \<Longrightarrow> (\<And>y. x = Some y \<Longrightarrow> quietg (bindm (h y) f) P) \<Longrightarrow>
     quietg (bindm (case x of None \<Rightarrow> m | Some y \<Rightarrow> h y) f) P"
  "quietg (bindm l (\<lambda>a. bindm (q a) f)) P \<Longrightarrow> quietg (bindm (bindm l q) f) P"
  "quietg (bindm v (\<lambda>_. bindm m f)) P \<Longrightarrow> quietg (bindm (seqm v m) f) P"
  "quietg (bindm v (\<lambda>_. j)) P \<Longrightarrow> quietg (seqm v j) P"
  "(\<And>y. z = Inl y \<Longrightarrow> quietg (bindm (u y) f) P) \<Longrightarrow> (\<And>y. z = Inr y \<Longrightarrow> quietg (bindm (w y) f) P) \<Longrightarrow>
     quietg (bindm (case z of Inl y \<Rightarrow> u y | Inr y \<Rightarrow> w y) f) P"
  by (auto simp: whenm_def bindm_assoc seqm_def quietg_first split: option.split sum.split)

lemma quietg_ask: "(case e of GSend _ _ \<Rightarrow> False | _ \<Rightarrow> True) \<Longrightarrow> quietg (ask f e) (\<lambda>_. True)"
  by (cases e) (simp_all add: quietg_def wp_simps same_def sends_def)

lemma quietg_ask_first [qg]:
  "(case e of GSend _ _ \<Rightarrow> False | _ \<Rightarrow> True) \<Longrightarrow> (\<And>a. quietg (f a) P) \<Longrightarrow> quietg (bindm (ask q e) f) P"
  by (rule quietg_bindm [OF quietg_ask])

lemma quietg_modm_first [qg]: "(\<And>s. same s (g s)) \<Longrightarrow> quietg (f ()) P \<Longrightarrow> quietg (bindm (modm g) f) P"
  by (rule quietg_bindm [where R = "\<lambda>_. True"]) (simp_all add: quietg_def wp_simps)

lemma quietg_kvzalloc [qg]: "quietg (f ()) P \<Longrightarrow> quietg (bindm (kvzalloc ge n) f) P"
  unfolding kvzalloc_def by (intro qg) simp_all

lemma quietg_call_in [qg]: "(\<And>b. length b = n \<Longrightarrow> quietg (f b) P) \<Longrightarrow> quietg (bindm (call_in ge c src n) f) P"
  unfolding call_in_def by (intro qg) simp_all

lemma quietg_call_out [qg]: "quietg (f ()) P \<Longrightarrow> quietg (bindm (call_out ge c dst b) f) P"
  unfolding call_out_def by (intro qg) simp_all

lemma quietg_token [qg]: "(\<And>tp. quietg (f tp) P) \<Longrightarrow> quietg (bindm (nvrm_token_of_fd ge n) f) P"
  unfolding nvrm_token_of_fd_def by (intro qg) simp_all

section \<open>What is gathered\<close>

definition cmd_row :: "nvrm_tables \<Rightarrow> call \<Rightarrow> ioctl_desc \<Rightarrow> ctrl_desc option" where
  "cmd_row t c d =
    (if io_cmd_off d \<noteq> NONE_U32 \<and> nvrm_range_valid (io_cmd_off d) 4 (gc_size c)
     then find_ctrl t (rd32 (gc_inl c) (unat (io_cmd_off d))) else None)"

definition emb_length :: "nvrm_tables \<Rightarrow> call \<Rightarrow> ioctl_desc \<Rightarrow> (u32 \<times> class_desc option) option" where
  "emb_length t c d =
    (if io_emb_len_kind d = EMB_LEN_FIELD then Some (rd32 (gc_inl c) (unat (io_emb_len_off d)), None)
     else if io_emb_len_kind d = EMB_LEN_CLASS then
       (case find_class t (rd32 (gc_inl c) (unat (io_emb_len_off d))) of
          None \<Rightarrow> None
        | Some cls \<Rightarrow>
            if io_rights_off d \<noteq> NONE_U32 \<and> gc_size c = io_rights_if_size d \<and> rd64 (gc_inl c) (unat (io_rights_off d)) \<noteq> 0
            then None else Some (kl_param_size cls, Some cls))
     else if io_emb_len_kind d = EMB_LEN_FIXED then Some (io_emb_len_off d, None)
     else Some (0, None))"

definition row_length :: "bytes \<Rightarrow> nested_desc_row \<Rightarrow> u32 option" where
  "row_length params row =
    (if nr_len_kind row = NLEN_FIXED then Some (nr_len_off row)
     else if length params < unat (nr_len_off row) + 4 then None
     else checked_mul (rd32 params (unat (nr_len_off row))) (nr_elem row))"

fun plan_ok :: "bytes \<Rightarrow> nested_desc_row list \<Rightarrow> (u32 \<times> u64 \<times> u32) list \<Rightarrow> bool" where
  "plan_ok params [] plan \<longleftrightarrow> plan = []"
| "plan_ok params (row # rows) plan \<longleftrightarrow>
    (if length params < unat (nr_ptr_off row) + 8 then plan_ok params rows plan
     else case row_length params row of
       None \<Rightarrow> False
     | Some n \<Rightarrow>
         if rd64 params (unat (nr_ptr_off row)) = 0 \<or> n = 0 then plan_ok params rows plan
         else \<exists>rest. plan = (nr_ptr_off row, rd64 params (unat (nr_ptr_off row)), n) # rest \<and> plan_ok params rows rest)"

abbreviation plan_len :: "(u32 \<times> u64 \<times> u32) list \<Rightarrow> nat" where
  "plan_len plan \<equiv> sum_list (map (\<lambda>(_, _, n). unat n) plan)"

fun descs :: "(u32 \<times> u64 \<times> u32) list \<Rightarrow> nat \<Rightarrow> nested_desc list" where
  "descs [] off = []"
| "descs ((p, gva, n) # plan) off =
    \<lparr> nd_ptr_off = p, nd_aux_off = word_of_nat off, nd_len = n, nd_pad = 0 \<rparr> # descs plan (off + unat n)"

lemma unat_len: "n < 2 ^ 32 \<Longrightarrow> unat (word_of_nat n :: u32) = n"
  by (simp add: unsigned_of_nat take_bit_nat_eq_self)

lemma quietg_ctrl_row [qg]:
  assumes "length (gc_inl c) = unat (gc_size c)" "quietg (f (cmd_row t c d)) P"
  shows "quietg (bindm (ctrl_row t c d) f) P"
  unfolding ctrl_row_def by (intro qg) (use assms in \<open>auto simp: range_valid_nat cmd_row_def split: if_splits\<close>)

lemma quietg_embedded_len [qg]:
  assumes "length (gc_inl c) = unat (gc_size c)" "\<And>x. emb_length t c d = Some x \<Longrightarrow> quietg (f x) P"
  shows "quietg (bindm (embedded_len t c d) f) P"
  unfolding embedded_len_def
  by (intro qg) (use assms in \<open>auto simp: range_valid_nat emb_length_def\<close>)

lemma quietg_row_len [qg]:
  assumes "length params < 2 ^ 32" "\<And>n. row_length params row = Some n \<Longrightarrow> quietg (f n) P"
  shows "quietg (bindm (row_len params row) f) P"
  unfolding row_len_def
  by (intro qg) (use assms in \<open>simp_all add: range_valid_nat unat_len row_length_def\<close>)

lemma quietg_nested_plan:
  assumes "length params < 2 ^ 32"
  shows "tot \<le> unat max_aux \<Longrightarrow> (\<And>plan. plan_ok params rows plan \<Longrightarrow> tot + plan_len plan \<le> unat max_aux \<Longrightarrow> quietg (f plan) P) \<Longrightarrow>
    quietg (bindm (nested_plan max_aux params rows tot) f) P"
proof (induction rows arbitrary: tot f)
  case Nil
  then show ?case by (simp add: qg)
next
  case (Cons row rows)
  show ?case
    unfolding nested_plan.simps
  proof (intro qg)
    assume r: "\<not> nvrm_range_valid (nr_ptr_off row) 8 (word_of_nat (length params))"
    show "quietg (bindm (nested_plan max_aux params rows tot) f) P"
      by (rule Cons.IH) (use Cons.prems r assms in \<open>auto simp: range_valid_nat unat_len\<close>)
  next
    assume r: "\<not> \<not> nvrm_range_valid (nr_ptr_off row) 8 (word_of_nat (length params))"
    then show "unat (nr_ptr_off row) + 8 \<le> length params" using assms by (simp add: range_valid_nat unat_len)
    show "length params < 2 ^ 32" by (rule assms)
    fix n
    assume n: "row_length params row = Some n"
    {
      assume z: "rd64 params (unat (nr_ptr_off row)) = 0 \<or> n = 0"
      show "quietg (bindm (nested_plan max_aux params rows tot) f) P"
        by (rule Cons.IH) (use Cons.prems r n z assms in \<open>auto simp: range_valid_nat unat_len\<close>)
    next
      assume z: "\<not> (rd64 params (unat (nr_ptr_off row)) = 0 \<or> n = 0)" "\<not> (max_aux < n \<or> unat max_aux < tot + unat n)"
      show "quietg (bindm (nested_plan max_aux params rows (tot + unat n))
          (\<lambda>a. bindm (ret ((nr_ptr_off row, rd64 params (unat (nr_ptr_off row)), n) # a)) f)) P"
        by (rule Cons.IH) (use Cons.prems r n z assms in \<open>auto simp: range_valid_nat unat_len intro!: qg\<close>)
    }
  qed
qed

lemma quietg_nested_fetch:
  assumes "\<And>bs. length bs = plan_len plan \<Longrightarrow> quietg (f (bs, descs plan off)) P"
  shows "quietg (bindm (nested_fetch ge c plan off) f) P"
  using assms
proof (induction ge c plan off arbitrary: f rule: nested_fetch.induct)
  case (1 ge c off)
  then show ?case by (simp add: qg)
next
  case (2 ge c p gva n plan off)
  show ?case
    unfolding nested_fetch.simps
    by (intro qg "2.IH") (use "2.prems" in \<open>auto simp: case_prod_beta intro!: qg\<close>)
qed

text \<open>The nested buffers of a control row: the plan, the bytes that follow the parameters and their descriptors.\<close>

definition nested_spec :: "nvrm_tables \<Rightarrow> ctrl_desc option \<Rightarrow> bytes \<Rightarrow> bytes \<Rightarrow> nested_desc list \<Rightarrow> u64 list \<Rightarrow> bool" where
  "nested_spec t ct params bs ds gvas \<longleftrightarrow>
    (case ct of
       None \<Rightarrow> bs = [] \<and> ds = [] \<and> gvas = []
     | Some r \<Rightarrow> \<exists>plan. plan_ok params (take (unat (ct_count r)) (drop (unat (ct_first r)) (gt_nested t))) plan \<and>
         length plan \<le> unat (ct_count r) \<and> unat (ct_count r) \<le> MAX_NESTED \<and>
         length bs = plan_len plan \<and> length params + plan_len plan \<le> unat (th_max_aux (gt_hdr t)) \<and>
         ds = descs plan (length params) \<and> gvas = map (\<lambda>(_, gva, _). gva) plan)"

lemma plan_ok_length: "plan_ok params rows plan \<Longrightarrow> length plan \<le> length rows"
  by (induction rows arbitrary: plan) (fastforce split: if_splits option.splits)+

text \<open>What the parser establishes of a table.\<close>

definition parsed :: "nvrm_tables \<Rightarrow> bool" where
  "parsed t \<longleftrightarrow> unat (th_n_nested (gt_hdr t)) = length (gt_nested t) \<and> unat (th_max_inline (gt_hdr t)) \<le> MAX_PAYLOAD \<and>
    unat (th_max_ioctl_size (gt_hdr t)) \<le> MAX_PAYLOAD \<and> unat (th_max_aux (gt_hdr t)) \<le> MAX_AUX \<and>
    th_xfer_struct_len (gt_hdr t) \<le> 64 \<and> nvrm_range_valid (th_xfer_cmd_off (gt_hdr t)) 4 (th_xfer_struct_len (gt_hdr t)) \<and>
    nvrm_range_valid (th_xfer_size_off (gt_hdr t)) 4 (th_xfer_struct_len (gt_hdr t)) \<and>
    nvrm_range_valid (th_xfer_ptr_off (gt_hdr t)) 8 (th_xfer_struct_len (gt_hdr t)) \<and>
    list_all (\<lambda>c. unat (ct_count c) \<le> MAX_NESTED \<and> unat (ct_first c) + unat (ct_count c) \<le> length (gt_nested t)) (gt_ctrls t)"

lemma parse_parsed:
  assumes "nvrm_tables_parse b = Inr t"
  shows "parsed t"
proof -
  have "list_all (\<lambda>c. ct_count c \<le> th_max_nested (gt_hdr t) \<and> nvrm_range_valid (ct_first c) (ct_count c) (th_n_nested (gt_hdr t))) (gt_ctrls t)"
    "unat (th_max_nested (gt_hdr t)) \<le> MAX_NESTED" "unat (th_n_nested (gt_hdr t)) = length (gt_nested t)"
    using assms by (auto simp: nvrm_tables_parse_def Let_def rbind_Inr)
  then have "list_all (\<lambda>c. unat (ct_count c) \<le> MAX_NESTED \<and> unat (ct_first c) + unat (ct_count c) \<le> length (gt_nested t)) (gt_ctrls t)"
    by (auto simp: list_all_iff range_valid_nat word_le_nat_alt intro: order_trans)
  then show ?thesis using assms unfolding parsed_def by (auto simp: nvrm_tables_parse_def Let_def rbind_Inr)
qed

lemma quietg_gather_nested [qg]:
  assumes "parsed t" "gc_params_len c = length (gc_aux c)" "length (gc_aux c) \<le> unat (th_max_aux (gt_hdr t))"
    "gc_nested c = []" "gc_nested_gva c = []"
    "\<And>bs ds gvas. nested_spec t (Some ct) (gc_aux c) bs ds gvas \<Longrightarrow>
       quietg (f (c\<lparr> gc_aux := gc_aux c @ bs, gc_nested := ds, gc_nested_gva := gvas \<rparr>)) P"
  shows "quietg (bindm (gather_nested ge t c ct) f) P"
proof -
  have len: "length (gc_aux c) < 2 ^ 32" using assms(1,3) by (simp add: parsed_def MAX_AUX_def)
  have spec: "nested_spec t (Some ct) (gc_aux c) bs (descs plan (length (gc_aux c))) (map (\<lambda>(_, gva, _). gva) plan)"
    if "plan_ok (gc_aux c) (take (unat (ct_count ct)) (drop (unat (ct_first ct)) (gt_nested t))) plan"
      "length (gc_aux c) + plan_len plan \<le> unat (th_max_aux (gt_hdr t))" "unat (ct_count ct) \<le> MAX_NESTED" "length bs = plan_len plan" for plan bs
    using that plan_ok_length [OF that(1)] by (auto simp: nested_spec_def)
  have same: "c\<lparr> gc_nested := [], gc_nested_gva := [] \<rparr> = c" using assms(4,5) by (cases c) simp
  have empty: "quietg (f c) P"
    if "plan_ok (gc_aux c) (take (unat (ct_count ct)) (drop (unat (ct_first ct)) (gt_nested t))) []" "unat (ct_count ct) \<le> MAX_NESTED"
    using assms(6) [OF spec [of "[]" "[]"]] that assms(3) by (simp add: same)
  show ?thesis
    unfolding gather_nested_def
    apply (intro qg)
     apply (use assms(1) in \<open>simp add: range_valid_nat parsed_def\<close>)
    apply (rule quietg_nested_plan)
      apply (rule len)
     apply (use assms(2,3) in simp)
    apply (intro qg quietg_nested_fetch)
     apply (use empty in simp)
    apply (simp add: assms(2))
    apply (rule qg)
    apply (rule assms(6))
    apply (rule spec)
       apply (simp_all add: assms(2))
    done
qed

definition class_fd :: "class_desc option \<Rightarrow> bytes \<Rightarrow> (u32 \<times> nat) option" where
  "class_fd cls params =
    (case cls of
       None \<Rightarrow> None
     | Some k \<Rightarrow> if kl_fd_off k \<noteq> NONE_U32 \<and> (kl_fd_if_off k = NONE_U32 \<or> rd32 params (unat (kl_fd_if_off k)) = kl_fd_if_val k)
         then Some (kl_fd_off k, 8) else None)"

definition row_fd :: "ctrl_desc option \<Rightarrow> (u32 \<times> nat) option" where
  "row_fd ct =
    (case ct of
       None \<Rightarrow> None
     | Some r \<Rightarrow> if ct_flags r AND CF_FD \<noteq> 0 \<and> ct_fd_off r \<noteq> NONE_U32 then Some (ct_fd_off r, 4) else None)"

definition aux_fd_spec :: "(u32 \<times> nat) option \<Rightarrow> bytes \<Rightarrow> u32 \<Rightarrow> u64 \<Rightarrow> u32 \<Rightarrow> bytes \<Rightarrow> bool" where
  "aux_fd_spec e params off tok proc orig \<longleftrightarrow>
    (case e of
       None \<Rightarrow> off = NONE_U32 \<and> tok = NONE_U64 \<and> proc = NONE_U32
     | Some (o1, w) \<Rightarrow> off = o1 \<and> unat o1 + w \<le> length params \<and> length orig = w \<and>
         ((if w = 4 then sint (rd32 params (unat o1)) else sint (rd64 params (unat o1))) < 0 \<longrightarrow> tok = NONE_U64 \<and> proc = NONE_U32))"

lemma quietg_resolve_aux_fd:
  assumes "\<And>tok proc. (val < 0 \<longrightarrow> tok = NONE_U64 \<and> proc = gc_aux_fd_proc c) \<Longrightarrow>
    quietg (f (c\<lparr> gc_aux_fd_off := off, gc_aux_fd_orig := orig, gc_aux_fd_token := tok, gc_aux_fd_proc := proc \<rparr>)) P"
  shows "quietg (bindm (resolve_aux_fd ge c off orig refused val) f) P"
  unfolding resolve_aux_fd_def Let_def
  apply (intro qg)
   apply (use assms [of NONE_U64 "gc_aux_fd_proc c"] in simp)
  apply (auto intro!: qg assms)
  done

lemma rd_prefix: "off + 4 \<le> length a \<Longrightarrow> rd32 (a @ b) off = rd32 a off" "off + 8 \<le> length a \<Longrightarrow> rd64 (a @ b) off = rd64 a off"
  by (simp_all add: rd32_def rd64_def slice_append_left)

lemma quietg_fds:
  assumes "gc_aux c = params @ bs" "gc_params_len c = length params"
    "gc_aux_fd_off c = NONE_U32" "gc_aux_fd_token c = NONE_U64" "gc_aux_fd_proc c = NONE_U32"
    "\<And>off tok proc orig. aux_fd_spec (case class_fd cls params of None \<Rightarrow> row_fd ct | Some e \<Rightarrow> Some e) params off tok proc orig \<Longrightarrow>
       P (c\<lparr> gc_aux_fd_off := off, gc_aux_fd_orig := orig, gc_aux_fd_token := tok, gc_aux_fd_proc := proc \<rparr>)"
  shows "quietg (bindm (alloc_fd ge c cls) (\<lambda>c. ctrl_fd ge c ct)) P"
proof -
  have same: "c\<lparr> gc_aux_fd_off := NONE_U32, gc_aux_fd_token := NONE_U64, gc_aux_fd_proc := NONE_U32 \<rparr> = c"
    using assms(3-5) by (cases c) simp
  have none: "P c" if "class_fd cls params = None" "row_fd ct = None"
    using assms(6) [of NONE_U32 NONE_U64 NONE_U32 "gc_aux_fd_orig c"] that by (simp add: same aux_fd_spec_def)
  have ctrl: "quietg (ctrl_fd ge c ct) P" if "class_fd cls params = None"
  proof (cases ct)
    case None
    then show ?thesis using none that by (simp add: ctrl_fd_def row_fd_def qg)
  next
    case (Some r)
    show ?thesis
    proof (cases "ct_flags r AND CF_FD = 0 \<or> ct_fd_off r = NONE_U32")
      case True
      then show ?thesis using none that Some by (auto simp: ctrl_fd_def row_fd_def qg)
    next
      case False
      have *: "P x \<Longrightarrow> quietg (bindm (ret x) ret) P" for x by (simp add: qg)
      have ret: "bindm m ret = m" for m :: "call gm"
        by (rule ext) (simp add: bindm_def ret_def split: option.split sum.split prod.split)
      have e: "row_fd ct = Some (ct_fd_off r, 4)" using False Some by (simp add: row_fd_def)
      have "quietg (bindm (resolve_aux_fd ge c (ct_fd_off r) (subslice (unat (ct_fd_off r)) 4 (gc_aux c)) (gc_kern c \<and> ge_kthread ge)
          (sint (rd32 (gc_aux c) (unat (ct_fd_off r))))) ret) P" if "unat (ct_fd_off r) + 4 \<le> length params"
        by (rule quietg_resolve_aux_fd, rule qg, rule assms(6))
          (use \<open>class_fd cls params = None\<close> e that assms(1,5) in \<open>auto simp: aux_fd_spec_def rd_prefix\<close>)
      then show ?thesis unfolding ctrl_fd_def Some option.case ret
        using False assms(1,2) by (auto intro!: qg)
    qed
  qed
  show ?thesis
  proof (cases "class_fd cls params")
    case None
    show ?thesis
    proof (cases cls)
      case None
      then show ?thesis using ctrl by (simp add: alloc_fd_def class_fd_def qg)
    next
      case (Some k)
      then show ?thesis unfolding alloc_fd_def Some option.case
        apply (intro qg)
        using \<open>class_fd cls params = None\<close> Some assms(1,2) ctrl apply (auto simp: class_fd_def rd_prefix)
        done
    qed
  next
    case (Some e)
    then obtain k where k: "cls = Some k" "e = (kl_fd_off k, 8)" "kl_fd_off k \<noteq> NONE_U32"
      by (auto simp: class_fd_def split: option.splits if_splits)
    have second: "quietg (ctrl_fd ge (c\<lparr> gc_aux_fd_off := kl_fd_off k, gc_aux_fd_orig := orig, gc_aux_fd_token := tok, gc_aux_fd_proc := proc \<rparr>) ct) P"
      if "aux_fd_spec (Some e) params (kl_fd_off k) tok proc orig" for orig tok proc
      unfolding ctrl_fd_def by (intro qg) (use assms(6) Some that k in auto)
    show ?thesis unfolding alloc_fd_def k option.case
      apply (intro qg quietg_resolve_aux_fd)
      using k Some assms(1,2,5) apply (auto simp: class_fd_def aux_fd_spec_def rd_prefix intro!: second)
      done
  qed
qed

text \<open>The call after \<^verbatim>\<open>gather_embedded\<close>.\<close>

definition embedded_spec :: "nvrm_tables \<Rightarrow> call \<Rightarrow> call \<Rightarrow> bool" where
  "embedded_spec t c c' \<longleftrightarrow>
    (case gc_desc c of
       None \<Rightarrow> c' = c
     | Some d \<Rightarrow>
         if io_emb_ptr_off d = NONE_U32 then c' = c
         else
           unat (io_emb_ptr_off d) + 8 \<le> unat (gc_size c) \<and>
           (case cmd_row t c d of None \<Rightarrow> True | Some r \<Rightarrow> ct_flags r AND CF_BLOCK = 0) \<and>
           (let ptr = rd64 (gc_inl c) (unat (io_emb_ptr_off d)) in
            if ptr = 0 then c' = c\<lparr> gc_saved_ptr := ptr \<rparr>
            else case emb_length t c d of
              None \<Rightarrow> False
            | Some (plen, cls) \<Rightarrow>
                if plen = 0 then c' = c\<lparr> gc_saved_ptr := ptr \<rparr>
                else plen \<le> th_max_aux (gt_hdr t) \<and>
                  (\<exists>params bs ds gvas off tok proc orig. length params = unat plen \<and> nested_spec t (cmd_row t c d) params bs ds gvas \<and>
                     aux_fd_spec (case class_fd cls params of None \<Rightarrow> row_fd (cmd_row t c d) | Some e \<Rightarrow> Some e) params off tok proc orig \<and>
                     c' = c\<lparr> gc_saved_ptr := ptr, gc_aux := params @ bs, gc_params_len := unat plen, gc_emb_off := io_emb_ptr_off d,
                            gc_nested := ds, gc_nested_gva := gvas, gc_aux_fd_off := off, gc_aux_fd_orig := orig,
                            gc_aux_fd_token := tok, gc_aux_fd_proc := proc \<rparr>)))"

definition fresh_call :: "call \<Rightarrow> bool" where
  "fresh_call c \<longleftrightarrow> gc_aux c = [] \<and> gc_params_len c = 0 \<and> gc_emb_off c = NONE_U32 \<and> gc_nested c = [] \<and> gc_nested_gva c = [] \<and>
    gc_aux_fd_off c = NONE_U32 \<and> gc_aux_fd_token c = NONE_U64 \<and> gc_aux_fd_proc c = NONE_U32 \<and> gc_run_count c = 0 \<and> \<not> gc_kern c"

lemma nested_spec_none: "length params \<le> unat (th_max_aux (gt_hdr t)) \<Longrightarrow> nested_spec t (Some r) params [] [] [] \<longleftrightarrow>
    unat (ct_count r) \<le> MAX_NESTED \<and> plan_ok params (take (unat (ct_count r)) (drop (unat (ct_first r)) (gt_nested t))) []"
proof -
  assume l: "length params \<le> unat (th_max_aux (gt_hdr t))"
  have "descs plan n = [] \<longleftrightarrow> plan = []" for plan n by (cases "(plan, n)" rule: descs.cases) auto
  then show ?thesis using l by (auto simp: nested_spec_def)
qed

lemma quietg_gather_embedded:
  assumes "parsed t" "length (gc_inl c) = unat (gc_size c)" "fresh_call c" "\<And>c'. embedded_spec t c c' \<Longrightarrow> quietg (f c') P"
  shows "quietg (bindm (gather_embedded ge t c) f) P"
proof (cases "gc_desc c")
  case None
  then show ?thesis using assms(4) [of c] by (simp add: gather_embedded_def embedded_spec_def qg)
next
  case (Some d)
  show ?thesis
  proof (cases "io_emb_ptr_off d = NONE_U32")
    case True
    then show ?thesis using Some assms(4) [of c] by (simp add: gather_embedded_def embedded_spec_def qg)
  next
    case emb: False
    let ?r = "cmd_row t c d" and ?ptr = "rd64 (gc_inl c) (unat (io_emb_ptr_off d))"
    let ?ok = "unat (io_emb_ptr_off d) + 8 \<le> unat (gc_size c) \<and> (case ?r of None \<Rightarrow> True | Some r \<Rightarrow> ct_flags r AND CF_BLOCK = 0)"
    have plain: "quietg (f (c\<lparr> gc_saved_ptr := ?ptr \<rparr>)) P" if ?ok "?ptr = 0 \<or> (\<exists>cls. emb_length t c d = Some (0, cls))"
      by (rule assms(4)) (use that Some emb in \<open>auto simp: embedded_spec_def Let_def\<close>)
    have len: "emb_length t (c\<lparr> gc_saved_ptr := ?ptr \<rparr>) d = emb_length t c d" by (simp add: emb_length_def split: option.split)
    have full: "quietg (bindm (case ?r of Some r \<Rightarrow> if ct_count r \<noteq> 0 then gather_nested ge t c1 r else ret c1 | None \<Rightarrow> ret c1)
        (\<lambda>a. bindm (alloc_fd ge a cls) (\<lambda>a. bindm (ctrl_fd ge a ?r) f))) P"
      if ok: ?ok "?ptr \<noteq> 0" "emb_length t c d = Some (plen, cls)" "plen \<noteq> 0" "plen \<le> th_max_aux (gt_hdr t)" "length params = unat plen"
        and c1: "c1 = c\<lparr> gc_saved_ptr := ?ptr, gc_aux := params, gc_params_len := unat plen, gc_emb_off := io_emb_ptr_off d \<rparr>"
      for plen cls params c1
    proof -
      have pl: "length params \<le> unat (th_max_aux (gt_hdr t))" using ok(5,6) by (simp add: word_le_nat_alt)
      have fds: "quietg (bindm (alloc_fd ge a cls) (\<lambda>a. bindm (ctrl_fd ge a ?r) f)) P"
        if "nested_spec t ?r params bs ds gvas" "a = c1\<lparr> gc_aux := params @ bs, gc_nested := ds, gc_nested_gva := gvas \<rparr>" for a bs ds gvas
      proof (unfold bindm_assoc [symmetric], rule quietg_bindm [OF quietg_fds [where params = params and bs = bs
            and P = "\<lambda>c'. embedded_spec t c c'"] assms(4)])
        fix off tok proc orig
        assume "aux_fd_spec (case class_fd cls params of None \<Rightarrow> row_fd ?r | Some e \<Rightarrow> Some e) params off tok proc orig"
        then show "embedded_spec t c (a\<lparr> gc_aux_fd_off := off, gc_aux_fd_orig := orig, gc_aux_fd_token := tok, gc_aux_fd_proc := proc \<rparr>)"
          using that ok emb Some c1 unfolding embedded_spec_def Let_def
          apply simp
          apply (rule exI [of _ params], rule conjI, simp, rule exI [of _ bs], rule exI [of _ ds], rule exI [of _ gvas], rule conjI, assumption)
          apply (rule exI [of _ off], rule exI [of _ tok], rule exI [of _ proc], rule exI [of _ orig], simp)
          done
      qed (use that c1 assms(3) ok(6) in \<open>simp_all add: fresh_call_def\<close>)
      have same: "c1 = c1\<lparr> gc_aux := params @ [], gc_nested := [], gc_nested_gva := [] \<rparr>"
        using c1 assms(3) by (cases c) (simp add: fresh_call_def)
      show ?thesis
      proof (cases ?r)
        case None
        then show ?thesis using fds [OF _ same] by (simp add: nested_spec_def qg)
      next
        case (Some r)
        have "quietg (bindm (gather_nested ge t c1 r) (\<lambda>a. bindm (alloc_fd ge a cls) (\<lambda>a. bindm (ctrl_fd ge a ?r) f))) P"
        proof (rule quietg_gather_nested [OF assms(1)])
          show "quietg (bindm (alloc_fd ge (c1\<lparr> gc_aux := gc_aux c1 @ bs, gc_nested := ds, gc_nested_gva := gvas \<rparr>) cls)
              (\<lambda>a. bindm (ctrl_fd ge a ?r) f)) P" if "nested_spec t (Some r) (gc_aux c1) bs ds gvas" for bs ds gvas
            by (rule fds [of bs ds gvas]) (use that Some c1 in simp_all)
        qed (use c1 ok(6) assms(3) pl in \<open>simp_all add: fresh_call_def\<close>)
        moreover have "quietg (bindm (alloc_fd ge c1 cls) (\<lambda>a. bindm (ctrl_fd ge a ?r) f)) P" if "ct_count r = 0"
          by (rule fds [OF _ same]) (use that Some pl in \<open>simp add: nested_spec_none\<close>)
        ultimately have "quietg (bindm (if ct_count r \<noteq> 0 then gather_nested ge t c1 r else ret c1)
            (\<lambda>a. bindm (alloc_fd ge a cls) (\<lambda>a. bindm (ctrl_fd ge a ?r) f))) P" by (simp add: qg)
        then show ?thesis using Some by simp
      qed
    qed
    show ?thesis
      unfolding gather_embedded_def Some option.case Let_def
      apply (simp only: emb if_False)
      apply (intro qg)
      subgoal using assms(2) by simp
      subgoal using assms(2) by (simp add: range_valid_nat)
      subgoal by (rule plain) (auto simp: range_valid_nat split: option.splits)
      subgoal using assms(2) by simp
      subgoal for x
        unfolding len
        apply (cases x, simp only: prod.case)
        apply (rule quietg_branch_first(1))
        subgoal by (rule qg, rule plain) (auto simp: range_valid_nat split: option.splits)
        apply (simp only: seqm_def bindm_assoc)
        apply (intro quietg_first(3) quietg_kvzalloc quietg_call_in)
        apply (rule full [OF _ _ _ _ _ _ refl])
        by (auto simp: range_valid_nat not_less split: option.splits)
      done
  qed
qed

definition fd_spec :: "call \<Rightarrow> call \<Rightarrow> bool" where
  "fd_spec c c' \<longleftrightarrow>
    (case gc_desc c of
       None \<Rightarrow> c' = c
     | Some d \<Rightarrow>
         if io_fd_off d = NONE_U32 then c' = c
         else unat (io_fd_off d) + 4 \<le> unat (gc_size c) \<and>
           (\<exists>tok proc. (sint (rd32 (gc_inl c) (unat (io_fd_off d))) < 0 \<longrightarrow> tok = NONE_U64 \<and> proc = gc_fd_proc c) \<and>
              c' = c\<lparr> gc_fd_off := io_fd_off d, gc_fd_orig := rd32 (gc_inl c) (unat (io_fd_off d)), gc_fd_token := tok, gc_fd_proc := proc \<rparr>))"

lemma quietg_gather_fd:
  assumes "length (gc_inl c) = unat (gc_size c)" "\<not> gc_kern c" "\<And>c'. fd_spec c c' \<Longrightarrow> quietg (f c') P"
  shows "quietg (bindm (gather_fd ge c) f) P"
proof (cases "gc_desc c")
  case None
  then show ?thesis using assms(3) [of c] by (simp add: gather_fd_def fd_spec_def qg)
next
  case (Some d)
  show ?thesis
  proof (cases "io_fd_off d = NONE_U32")
    case True
    then show ?thesis using Some assms(3) [of c] by (simp add: gather_fd_def fd_spec_def qg)
  next
    case False
    let ?n = "rd32 (gc_inl c) (unat (io_fd_off d))"
    have "quietg (f (c\<lparr> gc_fd_off := io_fd_off d, gc_fd_orig := ?n, gc_fd_token := tok, gc_fd_proc := proc \<rparr>)) P"
      if "unat (io_fd_off d) + 4 \<le> unat (gc_size c)" "sint ?n < 0 \<longrightarrow> tok = NONE_U64 \<and> proc = gc_fd_proc c" for tok proc
      by (rule assms(3)) (use that Some False in \<open>auto simp: fd_spec_def\<close>)
    from this [of NONE_U64 "gc_fd_proc c"] this show ?thesis
      unfolding gather_fd_def Some option.case using False assms(1,2) by (auto simp: Let_def range_valid_nat case_prod_beta intro!: qg)
  qed
qed

lemma runs_length: "length rs \<le> n \<Longrightarrow> length (nvrm_runs_from_pages n ps rs) \<le> n"
  by (induction n ps rs rule: nvrm_runs_from_pages.induct) (auto simp: Let_def)

lemma length_runs_bytes: "length (runs_bytes rs) = 16 * length rs"
  by (induction rs) (auto simp: runs_bytes_def)

definition osdesc_spec :: "nvrm_tables \<Rightarrow> call \<Rightarrow> call \<Rightarrow> bool" where
  "osdesc_spec t c c' \<longleftrightarrow>
    (case gc_desc c of
       None \<Rightarrow> c' = c
     | Some d \<Rightarrow>
         if io_flags d AND F_OSDESC = 0 then c' = c
         else unat (io_emb_len_off d) + 4 \<le> unat (gc_size c) \<and>
           (if rd32 (gc_inl c) (unat (io_emb_len_off d)) \<noteq> th_osdesc_class (gt_hdr t) then c' = c
            else unat (th_osdesc_pmem_off (gt_hdr t)) + 8 \<le> unat (gc_size c) \<and> unat (th_osdesc_limit_off (gt_hdr t)) + 8 \<le> unat (gc_size c) \<and>
              (\<exists>rs pmem limit. rs \<noteq> [] \<and> 16 * length rs \<le> unat (th_max_aux (gt_hdr t)) \<and>
                 c' = c\<lparr> gc_pmem_orig := pmem, gc_limit_orig := limit, gc_aux := runs_bytes rs, gc_params_len := 0,
                        gc_run_count := word_of_nat (length rs) \<rparr>)))"

lemma quietg_gather_osdesc:
  assumes "length (gc_inl c) = unat (gc_size c)" "\<not> gc_kern c" "\<And>c'. osdesc_spec t c c' \<Longrightarrow> quietg (f c') P"
  shows "quietg (bindm (gather_osdesc ge t c) f) P"
proof (cases "gc_desc c")
  case None
  then show ?thesis using assms(2) assms(3) [of c] by (simp add: gather_osdesc_def osdesc_spec_def Let_def qg)
next
  case (Some d)
  let ?h = "gt_hdr t"
  have small: "16 * length (nvrm_runs_from_pages (unat (th_max_aux ?h) div 16) pages []) \<le> unat (th_max_aux ?h)"
    "\<not> unat (th_max_aux ?h) < length pages * 16 \<Longrightarrow>
       16 * length (nvrm_runs_from_pages (length pages) pages []) \<le> unat (th_max_aux ?h)" for pages
    using runs_length [of "[]" "unat (th_max_aux ?h) div 16" pages] runs_length [of "[]" "length pages" pages] by auto
  have taken: "quietg (f (c\<lparr> gc_pmem_orig := pmem, gc_limit_orig := limit, gc_aux := runs_bytes rs, gc_params_len := 0,
        gc_run_count := word_of_nat (length rs) \<rparr>)) P"
    if "io_flags d AND F_OSDESC \<noteq> 0" "unat (io_emb_len_off d) + 4 \<le> unat (gc_size c)"
      "rd32 (gc_inl c) (unat (io_emb_len_off d)) = th_osdesc_class ?h" "unat (th_osdesc_pmem_off ?h) + 8 \<le> unat (gc_size c)"
      "unat (th_osdesc_limit_off ?h) + 8 \<le> unat (gc_size c)" "rs \<noteq> []" "16 * length rs \<le> unat (th_max_aux ?h)" for pmem limit rs
    by (rule assms(3)) (use that Some in \<open>auto simp: osdesc_spec_def\<close>)
  have plain: "quietg (f c) P" if "io_flags d AND F_OSDESC = 0 \<or> unat (io_emb_len_off d) + 4 \<le> unat (gc_size c) \<and>
      rd32 (gc_inl c) (unat (io_emb_len_off d)) \<noteq> th_osdesc_class ?h"
    by (rule assms(3)) (use that Some in \<open>auto simp: osdesc_spec_def\<close>)
  show ?thesis
    unfolding gather_osdesc_def Let_def Some option.case
    by (intro qg) (use assms(1,2) small plain in \<open>auto simp: range_valid_nat same_def sends_def intro!: taken\<close>)
qed

text \<open>The call after all steps, from the decoded one.\<close>

definition gather_spec :: "nvrm_tables \<Rightarrow> call \<Rightarrow> call \<Rightarrow> bool" where
  "gather_spec t c c' \<longleftrightarrow>
    (\<exists>inl c1 c2. length inl = unat (gc_size c) \<and> fd_spec (c\<lparr> gc_inl := inl \<rparr>) c1 \<and> embedded_spec t c1 c2 \<and> osdesc_spec t c2 c')"

lemma fd_spec_keeps:
  "fd_spec c c' \<Longrightarrow> gc_inl c' = gc_inl c \<and> gc_size c' = gc_size c \<and> gc_desc c' = gc_desc c \<and> gc_nr c' = gc_nr c \<and> gc_tag c' = gc_tag c \<and>
     gc_kern c' = gc_kern c \<and> (fresh_call c \<longrightarrow> fresh_call c')"
  by (auto simp: fd_spec_def fresh_call_def split: option.splits if_splits)

lemma embedded_spec_keeps:
  assumes "embedded_spec t c c'"
  shows "gc_inl c' = gc_inl c \<and> gc_size c' = gc_size c \<and> gc_desc c' = gc_desc c \<and> gc_nr c' = gc_nr c \<and> gc_tag c' = gc_tag c \<and>
     gc_kern c' = gc_kern c \<and> gc_fd_off c' = gc_fd_off c \<and> gc_fd_token c' = gc_fd_token c \<and> gc_fd_proc c' = gc_fd_proc c \<and>
     gc_run_count c' = gc_run_count c"
proof (cases "gc_desc c")
  case (Some d)
  show ?thesis
  proof (cases "emb_length t c d")
    case None
    then show ?thesis using assms Some by (auto simp: embedded_spec_def Let_def split: if_splits)
  next
    case (Some e)
    then show ?thesis using assms \<open>gc_desc c = Some d\<close> by (cases e) (auto simp: embedded_spec_def Let_def split: if_splits)
  qed
qed (use assms in \<open>simp add: embedded_spec_def\<close>)

lemma quietg_gate [qg]:
  assumes "length (gc_inl c) = unat (gc_size c)" "\<And>b. quietg (f b) P"
  shows "quietg (bindm (balloon_gated c) f) P"
  unfolding balloon_gated_def by (intro qg) (use assms in \<open>simp_all add: word_le_nat_alt\<close>)

lemma quietg_gather:
  assumes "parsed t" "fresh_call c" "gc_inl c = []"
  shows "quietg (gather ge t c) (gather_spec t c)"
proof -
  let ?rest = "\<lambda>c0. bindm (gather_fd ge c0) (\<lambda>c. bindm (gather_embedded ge t c) (\<lambda>c. gather_osdesc ge t c))"
  have rest: "quietg (?rest c0) (gather_spec t c)"
    if c0: "c0 = c\<lparr> gc_inl := inl \<rparr>" "length inl = unat (gc_size c)" for c0 inl
  proof (rule quietg_gather_fd)
    show "length (gc_inl c0) = unat (gc_size c0)" "\<not> gc_kern c0" using c0 assms(2) by (simp_all add: fresh_call_def)
    fix c1
    assume c1: "fd_spec c0 c1"
    have k1: "gc_inl c1 = inl" "gc_size c1 = gc_size c" "\<not> gc_kern c1" "fresh_call c1"
      using fd_spec_keeps [OF c1] c0 assms(2) by (auto simp: fresh_call_def)
    show "quietg (bindm (gather_embedded ge t c1) (\<lambda>c. gather_osdesc ge t c)) (gather_spec t c)"
    proof (rule quietg_gather_embedded [OF assms(1) _ k1(4)])
      show "length (gc_inl c1) = unat (gc_size c1)" using k1 c0 by simp
      fix c2
      assume c2: "embedded_spec t c1 c2"
      have k2: "gc_inl c2 = inl" "gc_size c2 = gc_size c" "\<not> gc_kern c2" using embedded_spec_keeps [OF c2] k1 by auto
      have "quietg (bindm (gather_osdesc ge t c2) ret) (gather_spec t c)"
      proof (rule quietg_gather_osdesc)
        show "quietg (ret c') (gather_spec t c)" if "osdesc_spec t c2 c'" for c'
          unfolding gather_spec_def by (rule quietg_end(1), intro exI conjI) (use that c0 c1 c2 in auto)
      qed (use k2 c0 in auto)
      moreover have "bindm m ret = m" for m :: "call gm"
        by (rule ext) (simp add: bindm_def ret_def split: option.split sum.split prod.split)
      ultimately show "quietg (gather_osdesc ge t c2) (gather_spec t c)" by simp
    qed
  qed
  have gate: "quietg (bindm (balloon_gated c0) (\<lambda>gated. bindm (if gated then ask (ge_killed ge) GGate else ret False) (\<lambda>killed.
      seqm (refuse killed EINTR) (?rest c0)))) (gather_spec t c)"
    if c0: "c0 = c\<lparr> gc_inl := inl \<rparr>" "length inl = unat (gc_size c)" for c0 inl
    by (intro qg) (use rest [OF c0] c0 in auto)
  have "c = c\<lparr> gc_inl := [] \<rparr>" using assms(3) by (cases c) simp
  then show ?thesis
    unfolding gather_def
    by (intro quietg_branch_first quietg_first quietg_kvzalloc quietg_call_in) (use gate in auto)
qed

section \<open>No access outside a buffer\<close>

lemma quietg_buffers [qg]:
  "off + length v \<le> length b \<Longrightarrow> (\<And>b'. length b' = length b \<Longrightarrow> quietg (f b') P) \<Longrightarrow> quietg (bindm (putm b off v) f) P"
  "off + n \<le> length b \<Longrightarrow> (\<And>b'. length b' = n \<Longrightarrow> quietg (g b') P) \<Longrightarrow> quietg (bindm (slicem b off n) g) P"
  "(\<And>a. quietg (k a) P) \<Longrightarrow> quietg (bindm (getm h) k) P"
  by (simp_all add: quietg_def wp_simps putm_def slicem_def subslice_def)

definition call_ok :: "nvrm_tables \<Rightarrow> call \<Rightarrow> bool" where
  "call_ok t c \<longleftrightarrow> length (gc_inl c) = unat (gc_size c) \<and> length (gc_aux c) \<le> unat (th_max_aux (gt_hdr t)) \<and> \<not> gc_kern c \<and>
    (gc_emb_off c \<noteq> NONE_U32 \<longrightarrow> unat (gc_emb_off c) + 8 \<le> unat (gc_size c) \<and> gc_params_len c \<le> length (gc_aux c) \<and>
       (gc_aux_fd_off c \<noteq> NONE_U32 \<longrightarrow> unat (gc_aux_fd_off c) + length (gc_aux_fd_orig c) \<le> length (gc_aux c)) \<and>
       list_all (\<lambda>d. unat (nd_aux_off d) + unat (nd_len d) \<le> length (gc_aux c) \<and> unat (nd_ptr_off d) + 8 \<le> length (gc_aux c)) (gc_nested c)) \<and>
    (gc_run_count c \<noteq> 0 \<longrightarrow>
       unat (th_osdesc_pmem_off (gt_hdr t)) + 8 \<le> unat (gc_size c) \<and> unat (th_osdesc_limit_off (gt_hdr t)) + 8 \<le> unat (gc_size c))"

lemma quietg_nested_back:
  assumes "list_all (\<lambda>d. unat (nd_aux_off d) + unat (nd_len d) \<le> length aux \<and> unat (nd_ptr_off d) + 8 \<le> length aux) (map fst ds)"
    "\<And>b. length b = length aux \<Longrightarrow> quietg (f b) P"
  shows "quietg (bindm (nested_back ge c ds aux) f) P"
  using assms
proof (induction ge c ds aux rule: nested_back.induct)
  case (2 ge c d gva ds aux)
  show ?case
    unfolding nested_back.simps by (intro qg) (use 2 in auto)
qed (simp add: qg)

lemma quietg_write_back [qg]:
  assumes "call_ok t c" "unat (rs_inline_len r) + unat (rs_aux_len r) \<le> length body"
    "\<And>b. length b = unat (gc_size c) \<Longrightarrow> quietg (f b) P"
  shows "quietg (bindm (write_back ge t c r body) f) P"
proof -
  have emb: "quietg (bindm (embedded_back ge c inl aux) g) P"
    if "length inl = unat (gc_size c)" "length aux = length (gc_aux c)" "\<And>b. length b = unat (gc_size c) \<Longrightarrow> quietg (g b) P" for inl aux g
  proof (cases "gc_emb_off c = NONE_U32 \<or> gc_saved_ptr c = 0")
    case True
    then show ?thesis using that by (auto simp: embedded_back_def intro: qg)
  next
    case False
    have "list_all (\<lambda>d. unat (nd_aux_off d) + unat (nd_len d) \<le> length aux \<and> unat (nd_ptr_off d) + 8 \<le> length aux)
        (map fst (zip (gc_nested c) (gc_nested_gva c)))"
      using False assms(1) that(2) by (auto simp: call_ok_def list_all_iff dest: set_zip_leftD)
    then show ?thesis
      unfolding embedded_back_def
      by (intro quietg_branch_first quietg_nested_back qg) (use False assms(1) that in \<open>auto simp: call_ok_def\<close>)
  qed
  show ?thesis
    unfolding write_back_def Let_def
    by (intro quietg_branch_first quietg_buffers quietg_first quietg_call_out emb)
      (use assms in \<open>auto simp: call_ok_def range_valid_nat\<close>)
qed

lemma quietg_after_reply:
  assumes "call_ok t c" "RSP_LEN \<le> length b"
  shows "quietg (after_reply ge t c b) (\<lambda>_. True)"
proof -
  obtain r where r: "rsp_from_bytes b = Some r" using assms(2) by (auto simp: rsp_from_bytes_def)
  have settle: "quietg (bindm (settle_pin t r body) f) P" if "unat (rs_inline_len r) \<le> length body" "quietg (f ()) P" for body f P
    unfolding settle_pin_def nvrm_osdesc_reply_def
    by (intro qg) (use that in \<open>auto simp: same_def sends_def split: osdesc_result.splits\<close>)
  have rearm: "quietg (bindm (rearm c r inl) f) P" if "length inl = unat (gc_size c)" "quietg (f ()) P" for inl f P
    unfolding rearm_def by (intro qg) (use that in \<open>auto simp: same_def sends_def word_le_nat_alt word_less_nat_alt\<close>)
  have freed: "quietg (bindm (release_freed c r inl) f) P" if "length inl = unat (gc_size c)" "quietg (f ()) P" for inl f P
    unfolding release_freed_def nvrm_free_reply_def
    by (intro qg) (use that in \<open>auto simp: same_def sends_def filter_empty_conv\<close>)
  show ?thesis
    unfolding after_reply_def r option.case Let_def
    by (intro quietg_branch quietg_branch_first quietg_end quietg_first quietg_write_back quietg_modm_first settle rearm freed)
      (use assms in \<open>auto simp: same_def sends_def\<close>)
qed

lemma descs_inside:
  assumes "plan_ok params rows plan" "off + plan_len plan \<le> n" "n < 2 ^ 32" "length params \<le> n"
  shows "list_all (\<lambda>d. unat (nd_aux_off d) + unat (nd_len d) \<le> n \<and> unat (nd_ptr_off d) + 8 \<le> n) (descs plan off)"
  using assms
proof (induction params rows plan arbitrary: off rule: plan_ok.induct)
  case (2 params row rows plan)
  show ?case
  proof (cases "length params < unat (nr_ptr_off row) + 8 \<or> (\<exists>l. row_length params row = Some l \<and> (rd64 params (unat (nr_ptr_off row)) = 0 \<or> l = 0))")
    case True
    then have "plan_ok params rows plan" using 2(4) by (auto split: if_splits)
    moreover have "list_all (\<lambda>d. unat (nd_aux_off d) + unat (nd_len d) \<le> n \<and> unat (nd_ptr_off d) + 8 \<le> n) (descs plan off)"
      if "plan_ok params rows plan" using 2 that True by (auto split: if_splits)
    ultimately show ?thesis by simp
  next
    case False
    then obtain l rest where l: "row_length params row = Some l" "plan = (nr_ptr_off row, rd64 params (unat (nr_ptr_off row)), l) # rest"
        "plan_ok params rows rest" "unat (nr_ptr_off row) + 8 \<le> length params"
      using 2(4) by (auto split: if_splits option.splits)
    have "list_all (\<lambda>d. unat (nd_aux_off d) + unat (nd_len d) \<le> n \<and> unat (nd_ptr_off d) + 8 \<le> n) (descs rest (off + unat l))"
      using 2(3) [of l rest "off + unat l"] False l 2(5-7) by auto
    moreover have "unat (word_of_nat off :: u32) = off" by (rule unat_len) (use 2(5,6) l in simp)
    moreover have "unat (nr_ptr_off row) + 8 \<le> n" using l(4) 2(7) by linarith
    ultimately show ?thesis using l 2(5) by simp
  qed
qed simp

lemma call_ok_aux: "call_ok t c \<Longrightarrow> length (gc_aux c) < 2 ^ 32"
proof -
  assume "call_ok t c"
  moreover have "unat (th_max_aux (gt_hdr t)) < 2 ^ 32" using unsigned_less [of "th_max_aux (gt_hdr t)"] by simp
  ultimately show ?thesis unfolding call_ok_def by linarith
qed

definition osdesc_plain :: "nvrm_tables \<Rightarrow> bool" where
  "osdesc_plain t \<longleftrightarrow> list_all (\<lambda>d. io_flags d AND F_OSDESC \<noteq> 0 \<longrightarrow> io_emb_ptr_off d = NONE_U32) (gt_ioctls t)"

lemma find_ioctl_mem: "find_ioctl t tag nr = Some d \<Longrightarrow> d \<in> set (gt_ioctls t) \<and> io_dev d = tag \<and> io_nr d = nr"
  by (simp add: find_Some_iff) (metis nth_mem)

lemma aux_fd_inside: "aux_fd_spec e params off tok proc orig \<Longrightarrow> off \<noteq> NONE_U32 \<Longrightarrow> unat off + length orig \<le> length params"
  by (auto simp: aux_fd_spec_def split: option.splits prod.splits)

lemma nested_inside:
  assumes "nested_spec t ct params bs ds gvas" "length params \<le> unat (th_max_aux (gt_hdr t))" "parsed t"
  shows "length (params @ bs) < 2 ^ 32" "length (params @ bs) \<le> unat (th_max_aux (gt_hdr t))"
    "list_all (\<lambda>d. unat (nd_aux_off d) + unat (nd_len d) \<le> length (params @ bs) \<and> unat (nd_ptr_off d) + 8 \<le> length (params @ bs)) ds"
proof -
  have m: "unat (th_max_aux (gt_hdr t)) < 2 ^ 32" using unsigned_less [of "th_max_aux (gt_hdr t)"] by simp
  show "length (params @ bs) \<le> unat (th_max_aux (gt_hdr t))" using assms by (auto simp: nested_spec_def split: option.splits)
  then show "length (params @ bs) < 2 ^ 32" using m by linarith
  show "list_all (\<lambda>d. unat (nd_aux_off d) + unat (nd_len d) \<le> length (params @ bs) \<and> unat (nd_ptr_off d) + 8 \<le> length (params @ bs)) ds"
    using assms m by (auto simp: nested_spec_def intro!: descs_inside split: option.splits)
qed

lemma embedded_call_ok:
  assumes "embedded_spec t c c'" "parsed t" "fresh_call c" "length (gc_inl c) = unat (gc_size c)"
  shows "call_ok t c'"
proof -
  have c: "call_ok t c" "call_ok t (c\<lparr> gc_saved_ptr := p \<rparr>)" for p using assms(3,4) by (auto simp: call_ok_def fresh_call_def)
  show ?thesis
  proof (cases "gc_desc c")
    case (Some d)
    show ?thesis
    proof (cases "io_emb_ptr_off d = NONE_U32 \<or> rd64 (gc_inl c) (unat (io_emb_ptr_off d)) = 0")
      case True
      then show ?thesis using assms(1) Some c by (auto simp: embedded_spec_def Let_def split: if_splits)
    next
      case False
      then obtain plen cls where e: "emb_length t c d = Some (plen, cls)" using assms(1) Some by (auto simp: embedded_spec_def Let_def split: option.splits)
      show ?thesis
      proof (cases "plen = 0")
        case True
        then show ?thesis using assms(1) Some c e False by (auto simp: embedded_spec_def Let_def)
      next
        case nz: False
        obtain params bs ds gvas off tok proc orig where p: "length params = unat plen" "nested_spec t (cmd_row t c d) params bs ds gvas"
          "aux_fd_spec (case class_fd cls params of None \<Rightarrow> row_fd (cmd_row t c d) | Some e \<Rightarrow> Some e) params off tok proc orig"
          "plen \<le> th_max_aux (gt_hdr t)" "unat (io_emb_ptr_off d) + 8 \<le> unat (gc_size c)"
          "c' = c\<lparr> gc_saved_ptr := rd64 (gc_inl c) (unat (io_emb_ptr_off d)), gc_aux := params @ bs, gc_params_len := unat plen,
              gc_emb_off := io_emb_ptr_off d, gc_nested := ds, gc_nested_gva := gvas, gc_aux_fd_off := off, gc_aux_fd_orig := orig,
              gc_aux_fd_token := tok, gc_aux_fd_proc := proc \<rparr>"
          using assms(1) Some e False nz by (auto simp: embedded_spec_def Let_def)
        have "length params \<le> unat (th_max_aux (gt_hdr t))" using p by (simp add: word_le_nat_alt)
        note n = nested_inside [OF p(2) this assms(2)]
        show ?thesis unfolding call_ok_def p(6)
          using n p aux_fd_inside [OF p(3)] assms(3,4) by (auto simp: fresh_call_def)
      qed
    qed
  qed (use assms(1) c in \<open>simp add: embedded_spec_def\<close>)
qed

lemma gather_call_ok:
  assumes "gather_spec t c c'" "parsed t" "osdesc_plain t" "fresh_call c" "gc_desc c = find_ioctl t tag nr"
  shows "call_ok t c'"
proof -
  obtain inl c1 c2 where i: "length inl = unat (gc_size c)" and s1: "fd_spec (c\<lparr> gc_inl := inl \<rparr>) c1"
    and s2: "embedded_spec t c1 c2" and s3: "osdesc_spec t c2 c'" using assms(1) by (auto simp: gather_spec_def)
  have fresh: "fresh_call (c\<lparr> gc_inl := inl \<rparr>)" using assms(4) by (simp add: fresh_call_def)
  have k: "gc_inl c1 = inl" "gc_size c1 = gc_size c" "gc_desc c1 = gc_desc c" "fresh_call c1"
    using fd_spec_keeps [OF s1] fresh by auto
  have ok: "call_ok t c2" by (rule embedded_call_ok [OF s2 assms(2) k(4)]) (use k i in simp)
  show ?thesis
  proof (cases "c' = c2")
    case False
    then obtain d where d: "gc_desc c2 = Some d" "io_flags d AND F_OSDESC \<noteq> 0" using s3 by (auto simp: osdesc_spec_def split: option.splits if_splits)
    then have "d \<in> set (gt_ioctls t)" using embedded_spec_keeps [OF s2] k assms(5) find_ioctl_mem by metis
    then have "io_emb_ptr_off d = NONE_U32" using assms(3) d by (auto simp: osdesc_plain_def list_all_iff)
    then have "c2 = c1" using s2 d embedded_spec_keeps [OF s2] by (auto simp: embedded_spec_def)
    then show ?thesis using s3 d False k(4) ok by (auto simp: osdesc_spec_def call_ok_def fresh_call_def length_runs_bytes split: if_splits)
  qed (use ok in simp)
qed

section \<open>The whole ioctl\<close>

definition decode_spec :: "nvrm_tables \<Rightarrow> u32 \<Rightarrow> u64 \<Rightarrow> u32 \<Rightarrow> call \<Rightarrow> bool" where
  "decode_spec t tag token proc c \<longleftrightarrow>
    fresh_call c \<and> gc_inl c = [] \<and> gc_tag c = tag \<and> gc_token c = token \<and> gc_proc c = proc \<and> gc_fd_off c = NONE_U32 \<and>
    gc_fd_token c = NONE_U64 \<and> gc_fd_proc c = NONE_U32 \<and> gc_desc c = find_ioctl t tag (gc_nr c) \<and>
    (tag = dev_tag_to_u32 TagUvm \<or> tag = dev_tag_to_u32 TagUvmTools \<longrightarrow> (\<exists>d. gc_desc c = Some d \<and> gc_size c = io_size d \<and> io_size d \<noteq> SIZE_FROM_IOC))"

lemma quietg_decode_ioctl:
  assumes "parsed t" "\<And>c. decode_spec t tag token proc c \<Longrightarrow> quietg (f c) P"
  shows "quietg (bindm (decode_ioctl ge t (call_new tag token proc arg) cmd) f) P"
  unfolding decode_ioctl_def resolve_xfer_def Let_def
  by (intro qg) (use assms in \<open>auto simp: parsed_def range_valid_nat decode_spec_def call_new_def fresh_call_def\<close>)

text \<open>The message of a gathered call.\<close>

definition call_msg :: "u32 \<Rightarrow> call \<Rightarrow> bytes" where
  "call_msg seq c = req_as_bytes (call_req seq c) @ gc_inl c @ gc_aux c"

definition sends_one :: "nvrm_tables \<Rightarrow> u32 \<Rightarrow> u64 \<Rightarrow> u32 \<Rightarrow> gstate \<Rightarrow> gstate \<Rightarrow> bool" where
  "sends_one t tag token proc s s' \<longleftrightarrow> sends s' = sends s \<or>
    (\<exists>c c' cap. decode_spec t tag token proc c \<and> gather_spec t c c' \<and> gc_size c \<le> th_max_inline (gt_hdr t) \<and>
       sends s' = GSend (call_msg (gs_seq s + 1) c') cap # sends s)"

lemma call_run_wp:
  assumes "parsed t" "osdesc_plain t" "decode_spec t tag token proc c" "gc_size c \<le> th_max_inline (gt_hdr t)"
  shows "wp (nvrm_call_run ge t c) (\<lambda>r s'. sends_one t tag token proc s s') s"
proof -
  let ?s = "s\<lparr> gs_pin := None, gs_submitted := False \<rparr>"
  let ?Q = "\<lambda>r :: int + i32. sends_one t tag token proc s"
  have one: "sends_one t tag token proc s s'" if "same ?s s'" for s' using that by (simp add: sends_one_def same_def sends_def)
  have q: "quietg (gather ge t c) (gather_spec t c)"
    by (rule quietg_gather) (use assms in \<open>simp_all add: decode_spec_def\<close>)
  have body: "wp (call_body ge t c) ?Q ?s"
    unfolding call_body_def wp_bindm
  proof (rule wp_mono)
    show "wp (gather ge t c) (\<lambda>r s'. same ?s s' \<and> (case r of Inl _ \<Rightarrow> True | Inr a \<Rightarrow> gather_spec t c a)) ?s"
      using q by (simp add: quietg_def)
  next
    fix r :: "int + call" and s1
    assume r: "same ?s s1 \<and> (case r of Inl _ \<Rightarrow> True | Inr a \<Rightarrow> gather_spec t c a)"
    show "andthen (transact ge t) ?Q r s1"
    proof (cases r)
      case (Inr c')
      have g: "gather_spec t c c'" using r Inr by simp
      have ok: "call_ok t c'"
        by (rule gather_call_ok [OF g assms(1,2), where tag = tag and nr = "gc_nr c"]) (use assms(3) in \<open>simp_all add: decode_spec_def\<close>)
      have sent: "sends_one t tag token proc s s'" if "sends s' = GSend (call_msg (gs_seq s + 1) c') cap # sends s" for s' cap
        using that g assms(3,4) by (auto simp: sends_one_def)
      have after: "wp (after_reply ge t c' b) ?Q s'"
        if "sends s' = GSend (call_msg (gs_seq s + 1) c') cap # sends s" "RSP_LEN \<le> length b" for b s' cap
      proof (rule wp_mono)
        show "wp (after_reply ge t c' b) (\<lambda>r s2. same s' s2 \<and> (case r of Inl _ \<Rightarrow> True | Inr a \<Rightarrow> True)) s'"
          using quietg_after_reply [OF ok that(2)] by (simp add: quietg_def)
      qed (use that sent in \<open>auto simp: same_def\<close>)
      show ?thesis
        unfolding Inr andthen_simps transact_def Let_def using r sent after one
        by (auto simp: wp_simps kvzalloc_def same_def sends_def call_msg_def split: sum.split prod.split if_splits)
    qed (use r one in auto)
  qed
  have "sends (out_pin s') = sends s'" for s' by (simp add: out_pin_def sends_def split: option.splits)
  then have "sends_one t tag token proc s (out_pin s')" if "sends_one t tag token proc s s'" for s' using that by (simp add: sends_one_def)
  then show ?thesis using body by (auto simp: wp_def nvrm_call_run_def split: option.splits)
qed

lemma node_ioctl_wp:
  assumes "parsed t" "osdesc_plain t"
  shows "wp (nvrm_node_ioctl ge t tag token proc cmd arg) (\<lambda>r s'. sends_one t tag token proc s s') s"
proof -
  have "quietg (bindm (decode_ioctl ge t (call_new tag token proc arg) cmd) ret) (decode_spec t tag token proc)"
    by (rule quietg_decode_ioctl [OF assms(1)]) (simp add: qg)
  moreover have "bindm m ret = m" for m :: "call gm"
    by (rule ext) (simp add: bindm_def ret_def split: option.split sum.split prod.split)
  ultimately have q: "wp (decode_ioctl ge t (call_new tag token proc arg) cmd)
      (\<lambda>r s'. same s s' \<and> (case r of Inl _ \<Rightarrow> True | Inr c \<Rightarrow> decode_spec t tag token proc c)) s" by (simp add: quietg_def)
  have same: "sends_one t tag token proc s s'" if "same s s'" for s' using that by (simp add: sends_one_def same_def)
  have "wp (nvrm_call_run ge t c) (\<lambda>r s2. sends_one t tag token proc s s2) s'"
    if "same s s'" "decode_spec t tag token proc c" "gc_size c \<le> th_max_inline (gt_hdr t)" for c s'
    by (rule wp_mono [OF call_run_wp [OF assms that(2,3)]]) (use that(1) in \<open>auto simp: sends_one_def same_def\<close>)
  then show ?thesis
    unfolding nvrm_node_ioctl_def wp_seqm wp_refuse wp_bindm andthen_simps
    by (auto simp: wp_simps not_less same intro!: wp_mono [OF q] split: sum.splits)
qed

end
