(* ===== verification/GuestHost.thy ===== *)
theory GuestHost
  imports GuestCalls TableStream
begin

text \<open>
  The guest's interpreter against the host's validation: a message the guest gathers by the tables of a driver
  ABI has the lengths, offsets, descriptor fields, runs and nested buffers that the validation of
  \<^verbatim>\<open>RequestShape\<close> expects; what the host still refuses is policy.
\<close>

section \<open>Refusals\<close>

definition policy_refusals :: "shape_error list" where
  "policy_refusals = [ToolsForwarding, TooLarge, UnknownFrontend, FrontendSize, CapabilityFd, SerializedControl, SerializedAlloc,
     VidHeapCallback, RightsRequested, OsDescNeedsRuns, UnresolvedFd, FieldOutside]"

definition allowed :: "shape_error + 'a \<Rightarrow> bool" where
  "allowed r \<longleftrightarrow> (case r of Inl e \<Rightarrow> e \<in> set policy_refusals | Inr _ \<Rightarrow> True)"

named_theorems allow \<open>outcomes that are results or refusals by policy\<close>

lemma allowed_step [allow]:
  "allowed r \<Longrightarrow> (\<And>a. r = Inr a \<Longrightarrow> allowed (f a)) \<Longrightarrow> allowed (rbind r f)"
  by (cases r) (simp_all add: allowed_def)

lemma allowed_guard: "c \<or> e \<in> set policy_refusals \<Longrightarrow> allowed (guard c e)" "allowed (Inr a)"
  by (auto simp: allowed_def guard_def)

lemma allowed_at [allow]: "allowed (u32_at b off)" "allowed (u64_at b off)"
  by (simp_all add: u32_at_def u64_at_def allowed_def policy_refusals_def)

section \<open>Nested buffers\<close>

lemma row_length_host:
  assumes "length params < 2 ^ 32"
  shows "row_length params (nested_row sp) = len_resolve (np_len sp) params (word_of_nat (length params))"
proof (cases "np_len sp")
  case (LenField off elem)
  have "checked_add off 4 = None \<Longrightarrow> length params < unat off + 4"
    using assms by (simp add: checked_add_None)
  moreover have "(word_of_nat (length params) :: u32) < e \<longleftrightarrow> length params < unat off + 4" if "checked_add off 4 = Some e" for e
    using that assms by (simp add: checked_add_Some word_less_nat_alt unat_len)
  ultimately show ?thesis using LenField by (auto simp: row_length_def nested_row_def split: option.splits)
qed (simp add: row_length_def nested_row_def)

lemma nested_loop_plan:
  assumes "plan_ok params (map nested_row specs) plan" "rq_nested rq = pre @ descs plan off @ post" "used = length pre"
    "unat (rq_nested_count rq) = used + length plan" "\<forall>(a, b)\<in>set ranges. b \<le> off" "length params \<le> off"
    "off + plan_len plan \<le> aux_len" "aux_len < 2 ^ 32"
  shows "allowed (nested_loop rq params aux_len specs used ranges zero) \<and>
    (\<forall>u z. nested_loop rq params aux_len specs used ranges zero = Inr (u, z) \<longrightarrow> u = unat (rq_nested_count rq))"
  using assms
proof (induction specs arbitrary: plan pre off used ranges zero)
  case (Cons sp specs)
  let ?p = "rd64 params (unat (np_ptr_off sp))"
  have l: "length params < 2 ^ 32" using Cons.prems by linarith
  have ptr: "nr_ptr_off (nested_row sp) = np_ptr_off sp" by (simp add: nested_row_def split: len_source.split)
  show ?case
  proof (cases "length params < unat (np_ptr_off sp) + 8")
    case True
    then show ?thesis by (simp add: u64_at_def allowed_def policy_refusals_def)
  next
    case False
    then obtain n where n: "len_resolve (np_len sp) params (word_of_nat (length params)) = Some n"
      using Cons.prems(1) by (auto simp: ptr row_length_host [OF l] split: option.splits)
    show ?thesis
    proof (cases "?p = 0 \<or> n = 0")
      case True
      then have "plan_ok params (map nested_row specs) plan" using Cons.prems(1) False n by (auto simp: ptr row_length_host [OF l])
      from Cons.IH [OF this Cons.prems(2-)] show ?thesis using False n True by (simp add: u64_at_def)
    next
      case used: False
      obtain rest where rest: "plan = (np_ptr_off sp, ?p, n) # rest" "plan_ok params (map nested_row specs) rest"
        using Cons.prems(1) False n used by (auto simp: ptr row_length_host [OF l])
      let ?d = "\<lparr> nd_ptr_off = np_ptr_off sp, nd_aux_off = word_of_nat off, nd_len = n, nd_pad = 0 \<rparr>"
      have o: "unat (word_of_nat off :: u32) = off" by (rule unat_len) (use Cons.prems(7,8) in linarith)
      have nth: "rq_nested rq ! length pre = ?d" "length pre < length (rq_nested rq)" using Cons.prems(2) rest by (simp_all add: nth_append)
      have ih: "allowed (nested_loop rq params aux_len specs (Suc used) (ranges @ [(off, off + unat n)]) zero) \<and>
          (\<forall>u z. nested_loop rq params aux_len specs (Suc used) (ranges @ [(off, off + unat n)]) zero = Inr (u, z) \<longrightarrow> u = unat (rq_nested_count rq))"
        by (rule Cons.IH [OF rest(2), of "pre @ [?d]" "off + unat n"]) (use Cons.prems rest in auto)
      have r: "\<not> list_ex (\<lambda>(a, b). off < b \<and> a < off + unat n) ranges" using Cons.prems(5) by (fastforce simp: list_ex_iff)
      show ?thesis
        using ih False n used nth o r Cons.prems(3,4,6,7) rest by (simp add: u64_at_def Let_def)
    qed
  qed
qed (simp add: allowed_def)

section \<open>The tables\<close>

text \<open>Tables that state the rules of an ABI, as the host serves them.\<close>

definition host_tables :: "rm_abi \<Rightarrow> nvrm_tables \<Rightarrow> bool" where
  "host_tables A t \<longleftrightarrow>
    (\<forall>tag nr. find_ioctl t (dev_tag_to_u32 tag) nr = ioctl_rule A tag nr) \<and> (\<forall>k. find_class t k = class_row A k) \<and>
    (\<forall>cmd. guest_ctrl (gt_ctrls t) (gt_nested t) cmd = host_ctrl cmd) \<and>
    th_osdesc_class (gt_hdr t) = 0x71 \<and> unat (th_max_aux (gt_hdr t)) < 2 ^ 32 - 16"

lemma rows_plain:
  "uvm_row A tag d nr = Some r \<Longrightarrow> io_flags r = 0"
  "frontend_row tag d nr = Some r' \<Longrightarrow> io_flags r' AND F_OSDESC \<noteq> 0 \<Longrightarrow> io_emb_ptr_off r' = NONE_U32"
  by (auto simp: uvm_row_def frontend_row_def frontend_special_def desc_def Let_def split: option.splits if_splits)

lemma map_filter_mem: "r \<in> set (List.map_filter f xs) \<Longrightarrow> \<exists>x. f x = Some r"
  by (auto simp: List.map_filter_def)

lemma built_tables:
  assumes "build A = Some tb" "nvrm_tables_parse (tb_bytes tb) = Inr t"
  shows "host_tables A t" "osdesc_plain t" "parsed t"
proof -
  obtain p where p: "collect A = Some p" "gt_ioctls t = pt_ioctls p" "gt_classes t = pt_classes p" "gt_ctrls t = pt_ctrls p"
    "gt_nested t = pt_nested p" "gt_hdr t = host_hdr p (word_of_nat (length (tb_bytes tb))) (tb_checksum tb)"
    using build_parsed [of A] assms by (metis option.inject sum.inject(2))
  obtain cs ns where c: "ctrl_tables = Some (cs, ns)"
    "collect A = Some \<lparr> pt_ioctls = collect_uvm A @ collect_frontend, pt_classes = collect_classes A, pt_ctrls = cs, pt_nested = ns \<rparr>"
    by (rule collect_Some)
  have f: "gt_ioctls t = collect_uvm A @ collect_frontend" "gt_classes t = collect_classes A" "gt_ctrls t = cs" "gt_nested t = ns"
    unfolding p(2-5) using p(1) [unfolded c(2)] by auto
  show "host_tables A t"
    unfolding host_tables_def find_ioctl.simps find_class.simps f ioctl_find_row class_find_row p(6)
    using guest_ctrl_exact [OF c(1)] by (simp add: host_hdr_def)
  have "io_flags d AND F_OSDESC = 0 \<or> io_emb_ptr_off d = NONE_U32" if "d \<in> set (collect_uvm A @ collect_frontend)" for d
    using that rows_plain by (fastforce simp: collect_uvm_def collect_frontend_def dest!: map_filter_mem simp del: upt_Suc)
  then show "osdesc_plain t" by (auto simp: osdesc_plain_def list_all_iff f)
  show "parsed t" using assms(2) by (rule parse_parsed)
qed

section \<open>Validation of a gathered call\<close>

definition validate_back :: "rm_abi \<Rightarrow> dev \<Rightarrow> req \<Rightarrow> bytes \<Rightarrow> bytes \<Rightarrow> shape_error + shape" where
  "validate_back A d rq inl aux =
    rbind (zero_inline d (rq_ioctl_nr rq) inl) (\<lambda>zi.
    rbind (validate_params A d rq inl aux) (\<lambda>params_len.
    let params = take params_len aux in
    rbind (validate_runs d rq inl aux params_len) (\<lambda>_.
    rbind (aux_fd d (rq_ioctl_nr rq) inl params) (\<lambda>afd.
    rbind (fd_field params afd (rq_aux_fd_field_off rq) (rq_aux_fd_field_token rq) (rq_aux_fd_field_proc rq)) (\<lambda>_.
    rbind (guard (unat (rq_nested_count rq) \<le> length (rq_nested rq)) NestedCount) (\<lambda>_.
    rbind (nested_specs d (rq_ioctl_nr rq) inl params) (\<lambda>specs.
    rbind (nested_loop rq params (length aux) specs 0 [] []) (\<lambda>(used, zero).
    rbind (guard (used = unat (rq_nested_count rq)) NestedUnexpected) (\<lambda>_.
    Inr \<lparr> sh_zero_inline = zi, sh_zero_aux = zero \<rparr>)))))))))"

lemma validate_split:
  "validate A d rq inl aux =
    rbind (validate_envelope A d rq inl aux) (\<lambda>_.
    rbind (fd_field inl (map_option (\<lambda>off. (off, 4)) (fd_field_offset d (rq_ioctl_nr rq) (rq_inline_len rq)))
       (rq_fd_field_off rq) (rq_fd_field_token rq) (rq_fd_field_proc rq)) (\<lambda>_.
    rbind (validate_blocked d (rq_ioctl_nr rq) inl) (\<lambda>_. validate_back A d rq inl aux)))"
  by (simp only: validate_def validate_back_def)

lemma call_req_fields:
  "rq_ioctl_nr (call_req seq c) = gc_nr c" "rq_inline_len (call_req seq c) = gc_size c"
  "rq_aux_len (call_req seq c) = word_of_nat (length (gc_aux c))" "rq_fd_field_off (call_req seq c) = gc_fd_off c"
  "rq_fd_field_token (call_req seq c) = gc_fd_token c" "rq_fd_field_proc (call_req seq c) = gc_fd_proc c"
  "rq_embedded_ptr_off (call_req seq c) = gc_emb_off c" "rq_aux_fd_field_off (call_req seq c) = gc_aux_fd_off c"
  "rq_aux_fd_field_token (call_req seq c) = gc_aux_fd_token c" "rq_aux_fd_field_proc (call_req seq c) = gc_aux_fd_proc c"
  "rq_gpa_run_count (call_req seq c) = gc_run_count c" "rq_nested_count (call_req seq c) = word_of_nat (length (gc_nested c))"
  "rq_nested (call_req seq c) = gc_nested c @ drop (length (gc_nested c)) (replicate MAX_NESTED nested_desc_default)"
  by (simp_all add: call_req_def)

lemma zero_inline_allowed [allow]: "allowed (zero_inline d nr inl)"
  unfolding zero_inline_def by (auto simp: allowed_guard intro!: allow)

lemma is_osdesc_allowed [allow]: "allowed (is_osdesc d nr inl)"
  unfolding is_osdesc_def by (auto simp: allowed_guard intro!: allow)

lemma nested_specs_allowed [allow]: "allowed (nested_specs d nr inl params)"
  unfolding nested_specs_def by (auto simp: allowed_guard intro!: allow)

lemma refuse_if_allowed: "allowed rd \<Longrightarrow> e \<in> set policy_refusals \<or> (\<forall>v. c \<longrightarrow> rd = Inr v \<longrightarrow> \<not> p v) \<Longrightarrow> allowed (refuse_if c rd p e)"
  unfolding refuse_if_def by (auto simp: allowed_guard intro!: allowed_step)

lemma validate_blocked_allowed:
  assumes "is_control d nr \<Longrightarrow> 12 \<le> length inl \<Longrightarrow> \<not> ctrl_blocked (rd32 inl 8)"
  shows "allowed (validate_blocked d nr inl)"
  unfolding validate_blocked_def
  by (intro allowed_step refuse_if_allowed allowed_at) (use assms in \<open>auto simp: policy_refusals_def u32_at_def\<close>)

lemma fd_field_allowed:
  assumes "aux_fd_spec e params off tok proc orig" "\<And>o1 w. e = Some (o1, w) \<Longrightarrow> w = 4 \<or> w = 8"
  shows "allowed (fd_field params e off tok proc)"
proof (cases e)
  case (Some p)
  then obtain o1 w where p: "e = Some (o1, w)" "w = 4 \<or> w = 8" using assms(2) by (cases p) auto
  then have "off = o1" "unat o1 + w \<le> length params" using assms(1) by (auto simp: aux_fd_spec_def)
  then show ?thesis
    using p(2) by (auto simp: p(1) fd_field_def fd_negative_def u32_at_def u64_at_def guard_def allowed_def policy_refusals_def)
qed (use assms in \<open>simp add: fd_field_def aux_fd_spec_def allowed_guard\<close>)

text \<open>A call that carries nothing beside its inline block.\<close>

definition bare :: "call \<Rightarrow> bool" where
  "bare c \<longleftrightarrow> gc_emb_off c = NONE_U32 \<and> gc_aux c = [] \<and> gc_aux_fd_off c = NONE_U32 \<and> gc_aux_fd_token c = NONE_U64 \<and>
     gc_aux_fd_proc c = NONE_U32 \<and> gc_run_count c = 0 \<and> gc_nested c = []"

lemma bare_allowed:
  assumes "bare c" "embedded_ptr A d (gc_nr c) inl (gc_size c) = Inr None"
  shows "allowed (validate_back A d (call_req seq c) inl (gc_aux c))"
proof -
  have "validate_params A d (call_req seq c) inl [] = Inr 0" using assms by (simp add: validate_params_def call_req_fields bare_def)
  moreover have "allowed (validate_runs d (call_req seq c) inl [] 0)"
    unfolding validate_runs_def using assms(1)
    by (auto simp: call_req_fields bare_def allowed_guard intro!: allow) (simp add: allowed_def policy_refusals_def)
  ultimately show ?thesis
    using assms(1) unfolding validate_back_def bare_def
    by (auto simp: call_req_fields aux_fd_def nested_specs_def fd_field_def allowed_guard guard_def intro!: allow)
qed

lemma params_allowed:
  assumes "embedded_ptr A d (gc_nr c) inl (gc_size c) = Inr (Some e)" "gc_emb_off c = emb_ptr_off e" "gc_aux c = params @ bs"
    "length params = unat (emb_len e)" "params \<noteq> []" "gc_run_count c = 0" "length (gc_aux c) < 2 ^ 32"
    "\<And>afd. aux_fd d (gc_nr c) inl params = Inr afd \<Longrightarrow> aux_fd_spec afd params (gc_aux_fd_off c) (gc_aux_fd_token c) (gc_aux_fd_proc c) orig"
    "allowed (aux_fd d (gc_nr c) inl params)"
    "\<And>specs. nested_specs d (gc_nr c) inl params = Inr specs \<Longrightarrow>
       \<exists>plan. plan_ok params (map nested_row specs) plan \<and> gc_nested c = descs plan (length params) \<and> length bs = plan_len plan \<and> length plan \<le> MAX_NESTED"
  shows "allowed (validate_back A d (call_req seq c) inl (gc_aux c))"
proof -
  let ?rq = "call_req seq c"
  have p: "validate_params A d ?rq inl (gc_aux c) = Inr (length params)"
    using assms(1-4) by (simp add: validate_params_def call_req_fields)
  have runs: "allowed (validate_runs d ?rq inl (gc_aux c) (length params))"
    unfolding validate_runs_def using assms(5,6)
    by (auto simp: call_req_fields allowed_guard intro!: allow) (simp add: allowed_def policy_refusals_def)
  have fd: "allowed (fd_field params afd (gc_aux_fd_off c) (gc_aux_fd_token c) (gc_aux_fd_proc c))"
    if "aux_fd d (gc_nr c) inl params = Inr afd" for afd
    by (rule fd_field_allowed [OF assms(8) [OF that]]) (use that in \<open>auto simp: aux_fd_def rbind_Inr split: if_splits option.splits\<close>)
  have nested: "allowed (nested_loop ?rq params (length (gc_aux c)) specs 0 [] []) \<and>
      (\<forall>u z. nested_loop ?rq params (length (gc_aux c)) specs 0 [] [] = Inr (u, z) \<longrightarrow> u = unat (rq_nested_count ?rq))"
    if sp: "nested_specs d (gc_nr c) inl params = Inr specs" for specs
  proof -
    obtain plan where plan: "plan_ok params (map nested_row specs) plan" "gc_nested c = descs plan (length params)"
      "length bs = plan_len plan" "length plan \<le> MAX_NESTED" using assms(10) [OF sp] by blast
    have len: "length (descs plan n) = length plan" for n by (induction plan arbitrary: n) auto
    have count: "unat (rq_nested_count ?rq) = length plan"
      using plan(4) len by (simp add: call_req_fields plan(2) unat_len MAX_NESTED_def)
    show "allowed (nested_loop ?rq params (length (gc_aux c)) specs 0 [] []) \<and>
        (\<forall>u z. nested_loop ?rq params (length (gc_aux c)) specs 0 [] [] = Inr (u, z) \<longrightarrow> u = unat (rq_nested_count ?rq))"
      by (rule nested_loop_plan [OF plan(1), where pre = "[]" and off = "length params"
            and post = "drop (length (gc_nested c)) (replicate MAX_NESTED nested_desc_default)"])
        (use plan count assms(3,7) in \<open>simp_all add: call_req_fields\<close>)
  qed
  have count: "unat (rq_nested_count ?rq) \<le> length (rq_nested ?rq)"
    by (simp add: call_req_fields unsigned_of_nat trans_le_add1)
  have take: "take (length params) (gc_aux c) = params" using assms(3) by simp
  have bound: "rbind (Inr a :: shape_error + 'b) f = f a" for a and f :: "'b \<Rightarrow> shape_error + 'c" by simp
  show ?thesis
    unfolding validate_back_def p bound Let_def take call_req_fields(1,8-10)
    by (intro allowed_step zero_inline_allowed runs fd assms(9) nested_specs_allowed allowed_guard) (use nested count in \<open>auto simp: allowed_guard intro!: allowed_step split: prod.split\<close>)
qed

section \<open>The rows\<close>

lemma frontend_fd:
  assumes "frontend_row tag d nr = Some row" "\<not> is_uvm d"
  shows "io_fd_off row = or_none (fd_field_offset d nr sz)"
proof -
  have "fd_field_offset d nr 0 = fd_field_offset d nr sz" by (simp add: fd_field_offset_def)
  then show ?thesis using assms(1) by (auto simp: frontend_row_def Let_def split: if_splits option.splits)
qed

lemma frontend_cases:
  assumes "frontend_row tag d nr = Some row" "frontend_size nr = Some rule" "accepts rule sz"
  obtains (control) "nr = NV_ESC_RM_CONTROL" "sz = 32" "io_emb_ptr_off row = 16" "io_emb_len_kind row = EMB_LEN_FIELD"
      "io_emb_len_off row = 24" "io_cmd_off row = 8" "io_flags row = 0"
    | (alloc) "nr = NV_ESC_RM_ALLOC" "sz = 32 \<or> sz = 48" "io_emb_ptr_off row = 16" "io_emb_len_kind row = EMB_LEN_CLASS"
      "io_emb_len_off row = 12" "io_cmd_off row = NONE_U32" "io_rights_off row = 24" "io_rights_if_size row = 48" "io_flags row = 0"
    | (event) "nr = NV_ESC_RM_GET_EVENT_DATA" "sz = 16" "io_emb_ptr_off row = 0" "io_emb_len_kind row = EMB_LEN_FIXED"
      "io_emb_len_off row = 16" "io_cmd_off row = NONE_U32" "io_flags row = 0"
    | (memory) "nr = NV_ESC_RM_ALLOC_MEMORY" "sz = 56" "io_emb_ptr_off row = NONE_U32" "io_emb_len_off row = 12" "io_flags row = F_OSDESC"
    | (other) "nr \<notin> {NV_ESC_RM_CONTROL, NV_ESC_RM_ALLOC, NV_ESC_RM_GET_EVENT_DATA, NV_ESC_RM_ALLOC_MEMORY}" "io_emb_ptr_off row = NONE_U32"
      "io_flags row AND F_OSDESC = 0"
proof -
  consider "nr = NV_ESC_RM_CONTROL" | "nr = NV_ESC_RM_ALLOC" | "nr = NV_ESC_RM_GET_EVENT_DATA" | "nr = NV_ESC_RM_ALLOC_MEMORY"
    | "nr \<notin> {NV_ESC_RM_CONTROL, NV_ESC_RM_ALLOC, NV_ESC_RM_GET_EVENT_DATA, NV_ESC_RM_ALLOC_MEMORY}" by blast
  then show ?thesis
  proof cases
    case 1
    then show ?thesis using assms by (intro control) (auto simp: frontend_row_def frontend_special_def frontend_size_def desc_def esc_defs Let_def)
  next
    case 2
    then show ?thesis using assms by (intro alloc) (auto simp: frontend_row_def frontend_special_def frontend_size_def desc_def esc_defs Let_def)
  next
    case 3
    then show ?thesis using assms by (intro event) (auto simp: frontend_row_def frontend_special_def frontend_size_def desc_def esc_defs Let_def)
  next
    case 4
    then show ?thesis using assms by (intro memory) (auto simp: frontend_row_def frontend_special_def frontend_size_def desc_def esc_defs Let_def)
  next
    case 5
    then show ?thesis using assms(1) by (intro other) (auto simp: frontend_row_def frontend_special_def desc_def Let_def split: if_splits)
  qed
qed

lemma ctrl_rows:
  assumes "host_tables A t"
  shows "find_ctrl t cmd = None \<Longrightarrow> \<not> ctrl_blocked cmd \<and> ctrl_fd_offset cmd = None \<and> nested_ptrs cmd = []"
    "find_ctrl t cmd = Some r \<Longrightarrow> (ct_flags r AND CF_BLOCK \<noteq> 0) = ctrl_blocked cmd \<and>
       take (unat (ct_count r)) (drop (unat (ct_first r)) (gt_nested t)) = map nested_row (nested_ptrs cmd)"
    "row_fd (find_ctrl t cmd) = map_option (\<lambda>off. (off, 4)) (ctrl_fd_offset cmd)"
proof -
  have g: "guest_ctrl (gt_ctrls t) (gt_nested t) cmd = host_ctrl cmd" using assms by (simp add: host_tables_def)
  show "find_ctrl t cmd = None \<Longrightarrow> \<not> ctrl_blocked cmd \<and> ctrl_fd_offset cmd = None \<and> nested_ptrs cmd = []"
    "find_ctrl t cmd = Some r \<Longrightarrow> (ct_flags r AND CF_BLOCK \<noteq> 0) = ctrl_blocked cmd \<and>
       take (unat (ct_count r)) (drop (unat (ct_first r)) (gt_nested t)) = map nested_row (nested_ptrs cmd)"
    using g by (auto simp: guest_ctrl_def host_ctrl_def)
  have "ctrl_fd_offset cmd \<noteq> Some NONE_U32" by (simp add: ctrl_fd_offset_def NONE_U32_def)
  then show "row_fd (find_ctrl t cmd) = map_option (\<lambda>off. (off, 4)) (ctrl_fd_offset cmd)"
    using g by (cases "find_ctrl t cmd"; cases "ctrl_fd_offset cmd") (auto simp: guest_ctrl_def host_ctrl_def row_fd_def split: if_splits)
qed

lemma if_ne: "x \<noteq> z \<Longrightarrow> y \<noteq> z \<Longrightarrow> (if c then x else y) \<noteq> z"
  by simp

lemma alloc_size_nonzero:
  assumes "A \<in> set supported_abis"
  shows "alloc_param_size A k \<noteq> Some 0"
proof -
  have z: "word_of_nat (abi_tsg_size A) \<noteq> (0 :: u32)" "word_of_nat (abi_alloc_channel_size A) \<noteq> (0 :: u32)"
    using assms by (auto simp: abi_defs)
  have "alloc_param_size_rest A k \<noteq> Some 0"
    unfolding alloc_param_size_rest_def by (rule if_ne, (simp add: z; fail))+ simp
  then show ?thesis unfolding alloc_param_size_def by - (rule if_ne, (simp add: z; fail))+
qed

section \<open>Gathered calls\<close>

lemma fresh_bare: "fresh_call c \<Longrightarrow> bare c" "fresh_call c \<Longrightarrow> bare (c\<lparr> gc_saved_ptr := p \<rparr>)"
  by (simp_all add: fresh_call_def bare_def)

text \<open>What the second step leaves, by the row of the ioctl.\<close>

lemma embedded_cases:
  assumes "embedded_spec t c c'" "gc_desc c = Some row" "io_emb_ptr_off row \<noteq> NONE_U32"
  obtains (null) "rd64 (gc_inl c) (unat (io_emb_ptr_off row)) = 0" "c' = c\<lparr> gc_saved_ptr := 0 \<rparr>"
    | (empty) p cls where "emb_length t c row = Some (0, cls)" "c' = c\<lparr> gc_saved_ptr := p \<rparr>"
    | (params) plen cls params bs ds gvas off tok proc orig where "rd64 (gc_inl c) (unat (io_emb_ptr_off row)) \<noteq> 0"
      "emb_length t c row = Some (plen, cls)" "plen \<noteq> 0" "plen \<le> th_max_aux (gt_hdr t)" "length params = unat plen"
      "nested_spec t (cmd_row t c row) params bs ds gvas"
      "aux_fd_spec (case class_fd cls params of None \<Rightarrow> row_fd (cmd_row t c row) | Some e \<Rightarrow> Some e) params off tok proc orig"
      "c' = c\<lparr> gc_saved_ptr := rd64 (gc_inl c) (unat (io_emb_ptr_off row)), gc_aux := params @ bs, gc_params_len := unat plen,
         gc_emb_off := io_emb_ptr_off row, gc_nested := ds, gc_nested_gva := gvas, gc_aux_fd_off := off, gc_aux_fd_orig := orig,
         gc_aux_fd_token := tok, gc_aux_fd_proc := proc \<rparr>"
proof (cases "rd64 (gc_inl c) (unat (io_emb_ptr_off row)) = 0")
  case True
  then show ?thesis using assms by (intro null) (auto simp: embedded_spec_def Let_def)
next
  case False
  then obtain plen cls where e: "emb_length t c row = Some (plen, cls)"
    using assms by (auto simp: embedded_spec_def Let_def split: option.splits)
  show ?thesis
  proof (cases "plen = 0")
    case True
    then show ?thesis using assms e False by (intro empty) (auto simp: embedded_spec_def Let_def)
  next
    case nz: False
    obtain params bs ds gvas off tok proc orig where "length params = unat plen" "nested_spec t (cmd_row t c row) params bs ds gvas"
      "aux_fd_spec (case class_fd cls params of None \<Rightarrow> row_fd (cmd_row t c row) | Some e \<Rightarrow> Some e) params off tok proc orig"
      "plen \<le> th_max_aux (gt_hdr t)"
      "c' = c\<lparr> gc_saved_ptr := rd64 (gc_inl c) (unat (io_emb_ptr_off row)), gc_aux := params @ bs, gc_params_len := unat plen,
         gc_emb_off := io_emb_ptr_off row, gc_nested := ds, gc_nested_gva := gvas, gc_aux_fd_off := off, gc_aux_fd_orig := orig,
         gc_aux_fd_token := tok, gc_aux_fd_proc := proc \<rparr>"
      using assms e False nz by (auto simp: embedded_spec_def Let_def)
    then show ?thesis using False e nz by (intro params [of plen cls params bs ds gvas off tok proc orig])
  qed
qed

lemma nested_spec_plan:
  assumes "nested_spec t ct params bs ds gvas" "length params \<le> unat (th_max_aux (gt_hdr t))"
  shows "\<exists>plan. plan_ok params (case ct of None \<Rightarrow> [] | Some r \<Rightarrow> take (unat (ct_count r)) (drop (unat (ct_first r)) (gt_nested t))) plan \<and>
    ds = descs plan (length params) \<and> length bs = plan_len plan \<and> length plan \<le> MAX_NESTED"
  using assms by (cases ct) (auto simp: nested_spec_def)

lemma control_allowed:
  assumes "host_tables A t" "parsed t" "embedded_spec t c c'" "fresh_call c" "gc_desc c = Some row" "length (gc_inl c) = unat (gc_size c)"
    "gc_nr c = NV_ESC_RM_CONTROL" "\<not> is_uvm d" "gc_size c = 32" "io_emb_ptr_off row = 16" "io_emb_len_kind row = EMB_LEN_FIELD"
    "io_emb_len_off row = 24" "io_cmd_off row = 8"
  shows "\<not> ctrl_blocked (rd32 (gc_inl c) 8)" "allowed (validate_back A d (call_req seq c') (gc_inl c) (gc_aux c'))"
proof -
  let ?cmd = "rd32 (gc_inl c) 8"
  have row: "cmd_row t c row = find_ctrl t ?cmd" using assms(9,13) by (simp add: cmd_row_def range_valid_nat NONE_U32_def)
  have "case cmd_row t c row of None \<Rightarrow> True | Some r \<Rightarrow> ct_flags r AND CF_BLOCK = 0"
    using assms(3,5,10) by (simp add: embedded_spec_def NONE_U32_def)
  then show "\<not> ctrl_blocked ?cmd" using ctrl_rows(1,2) [OF assms(1), of ?cmd] unfolding row by (auto split: option.splits)
  have e: "emb_length t c row = Some (rd32 (gc_inl c) 24, None)" using assms(11,12) by (simp add: emb_length_def)
  have emb: "embedded_ptr A d NV_ESC_RM_CONTROL (gc_inl c) 32 = (if rd64 (gc_inl c) 16 = 0 \<or> rd32 (gc_inl c) 24 = 0 then Inr None
      else Inr (Some \<lparr> emb_ptr_off = 16, emb_len = rd32 (gc_inl c) 24 \<rparr>))" using assms(8) by (simp add: embedded_ptr_def Let_def)
  have k: "gc_nr c' = NV_ESC_RM_CONTROL" "gc_size c' = 32" using embedded_spec_keeps [OF assms(3)] assms(7,9) by simp_all
  have ne: "io_emb_ptr_off row \<noteq> NONE_U32" using assms(10) by (simp add: NONE_U32_def)
  from assms(3,5) ne show "allowed (validate_back A d (call_req seq c') (gc_inl c) (gc_aux c'))"
  proof (cases rule: embedded_cases)
    case null
    then show ?thesis by (intro bare_allowed) (use fresh_bare assms(4,10) emb k in simp_all)
  next
    case (empty p cls)
    then show ?thesis by (intro bare_allowed) (use fresh_bare assms(4,10) emb e k in simp_all)
  next
    case (params plen cls params bs ds gvas off tok proc orig)
    have p: "plen = rd32 (gc_inl c) 24" "cls = None" using params(2) e by simp_all
    have le: "length params \<le> unat (th_max_aux (gt_hdr t))" using params(4,5) by (simp add: word_le_nat_alt)
    have ne: "params \<noteq> []" using params(3,5) by (auto simp: unat_eq_0)
    have l: "length (gc_aux c') < 2 ^ 32" using nested_inside(1) [OF params(6) le assms(2)] params(8) by simp
    have fd: "aux_fd d NV_ESC_RM_CONTROL (gc_inl c) params = Inr (map_option (\<lambda>off. (off, 4)) (ctrl_fd_offset ?cmd))"
      using ne assms(6,8,9) by (simp add: aux_fd_def is_alloc_def is_control_def u32_at_def esc_defs)
    have specs: "nested_specs d NV_ESC_RM_CONTROL (gc_inl c) params = Inr (nested_ptrs ?cmd)"
      using ne assms(6,8,9) by (simp add: nested_specs_def is_control_def u32_at_def)
    have rows: "(case find_ctrl t ?cmd of None \<Rightarrow> [] | Some r \<Rightarrow> take (unat (ct_count r)) (drop (unat (ct_first r)) (gt_nested t))) =
        map nested_row (nested_ptrs ?cmd)"
      using ctrl_rows(1,2) [OF assms(1), of ?cmd] by (auto split: option.splits)
    show ?thesis
    proof (rule params_allowed [where e = "\<lparr> emb_ptr_off = 16, emb_len = rd32 (gc_inl c) 24 \<rparr>" and params = params and bs = bs and orig = orig])
      show "aux_fd_spec afd params (gc_aux_fd_off c') (gc_aux_fd_token c') (gc_aux_fd_proc c') orig"
        if "aux_fd d (gc_nr c') (gc_inl c) params = Inr afd" for afd
        using that [unfolded k fd] params(7) ctrl_rows(3) [OF assms(1), of ?cmd] unfolding p row params(8) by (simp add: class_fd_def)
      show "\<exists>plan. plan_ok params (map nested_row specs) plan \<and> gc_nested c' = descs plan (length params) \<and> length bs = plan_len plan \<and>
          length plan \<le> MAX_NESTED" if "nested_specs d (gc_nr c') (gc_inl c) params = Inr specs" for specs
        using nested_spec_plan [OF params(6) le] that [unfolded k specs] unfolding row rows params(8) by simp
    qed (use k emb params p ne l fd assms(4,10) in \<open>simp_all add: fresh_call_def allowed_guard\<close>)
  qed
qed

lemma alloc_allowed:
  assumes "host_tables A t" "parsed t" "A \<in> set supported_abis" "embedded_spec t c c'" "fresh_call c" "gc_desc c = Some row"
    "length (gc_inl c) = unat (gc_size c)" "gc_nr c = NV_ESC_RM_ALLOC" "\<not> is_uvm d" "gc_size c = 32 \<or> gc_size c = 48"
    "io_emb_ptr_off row = 16" "io_emb_len_kind row = EMB_LEN_CLASS" "io_emb_len_off row = 12" "io_cmd_off row = NONE_U32"
    "io_rights_off row = 24" "io_rights_if_size row = 48"
  shows "allowed (validate_back A d (call_req seq c') (gc_inl c) (gc_aux c'))"
proof -
  let ?cls = "rd32 (gc_inl c) 12"
  have row: "cmd_row t c row = None" using assms(14) by (simp add: cmd_row_def)
  have e: "emb_length t c row = (case class_row A ?cls of None \<Rightarrow> None
      | Some cls \<Rightarrow> if gc_size c = 48 \<and> rd64 (gc_inl c) 24 \<noteq> 0 then None else Some (kl_param_size cls, Some cls))"
    using assms(1,12,13,15,16) by (simp add: emb_length_def host_tables_def NONE_U32_def del: find_class.simps split: option.split)
  have emb: "embedded_ptr A d NV_ESC_RM_ALLOC (gc_inl c) (gc_size c) = (if rd64 (gc_inl c) 16 = 0 then Inr None
      else if gc_size c = 48 \<and> rd64 (gc_inl c) 24 \<noteq> 0 then Inl ()
      else case alloc_param_size A ?cls of None \<Rightarrow> Inl () | Some n \<Rightarrow> Inr (Some \<lparr> emb_ptr_off = 16, emb_len = n \<rparr>))"
    using assms(9,10) by (auto simp: embedded_ptr_def Let_def esc_defs split: option.split)
  have k: "gc_nr c' = NV_ESC_RM_ALLOC" "gc_size c' = gc_size c" using embedded_spec_keeps [OF assms(4)] assms(8) by simp_all
  have ne: "io_emb_ptr_off row \<noteq> NONE_U32" using assms(11) by (simp add: NONE_U32_def)
  from assms(4,6) ne show ?thesis
  proof (cases rule: embedded_cases)
    case null
    then show ?thesis by (intro bare_allowed) (use fresh_bare assms(5,11) emb k in simp_all)
  next
    case (empty p cls)
    then show ?thesis using e alloc_size_nonzero [OF assms(3), of ?cls] by (auto simp: class_row_def split: option.splits if_splits)
  next
    case (params plen cls params bs ds gvas off tok proc orig)
    obtain kl where kl: "class_row A ?cls = Some kl" "cls = Some kl" "plen = kl_param_size kl" "\<not> (gc_size c = 48 \<and> rd64 (gc_inl c) 24 \<noteq> 0)"
      using params(2) unfolding e by (auto split: option.splits if_splits)
    have sz: "alloc_param_size A ?cls = Some plen" using kl by (auto simp: class_row_def split: option.splits)
    have le: "length params \<le> unat (th_max_aux (gt_hdr t))" using params(4,5) by (simp add: word_le_nat_alt)
    have ne: "params \<noteq> []" using params(3,5) by (auto simp: unat_eq_0)
    have l: "length (gc_aux c') < 2 ^ 32" using nested_inside(1) [OF params(6) le assms(2)] params(8) by simp
    have "12 \<le> length params" if "alloc_fd_guard ?cls \<noteq> None"
    proof -
      have "plen = 24" using that sz by (auto simp: alloc_fd_guard_def alloc_param_size_def alloc_param_size_rest_def split: if_splits)
      then show ?thesis using params(5) by simp
    qed
    then have fd: "aux_fd d NV_ESC_RM_ALLOC (gc_inl c) params = Inr (class_fd (Some kl) params)"
      using ne assms(7,9,10) kl(1)
      by (auto simp: aux_fd_def is_alloc_def u32_at_def class_fd_def class_row_def alloc_fd_guard_def alloc_fd_field_def NONE_U32_def split: option.splits)
    have specs: "nested_specs d NV_ESC_RM_ALLOC (gc_inl c) params = Inr []" by (simp add: nested_specs_def is_control_def esc_defs)
    show ?thesis
    proof (rule params_allowed [where e = "\<lparr> emb_ptr_off = 16, emb_len = plen \<rparr>" and params = params and bs = bs and orig = orig])
      show "aux_fd_spec afd params (gc_aux_fd_off c') (gc_aux_fd_token c') (gc_aux_fd_proc c') orig"
        if "aux_fd d (gc_nr c') (gc_inl c) params = Inr afd" for afd
        using that [unfolded k fd] params(7) unfolding row kl(2) params(8) by (auto simp: row_fd_def split: option.splits)
      show "\<exists>plan. plan_ok params (map nested_row specs) plan \<and> gc_nested c' = descs plan (length params) \<and> length bs = plan_len plan \<and>
          length plan \<le> MAX_NESTED" if "nested_specs d (gc_nr c') (gc_inl c) params = Inr specs" for specs
        using nested_spec_plan [OF params(6) le] that [unfolded k specs] unfolding row params(8) by simp
    qed (use k emb params kl sz ne l fd assms(5,11) in \<open>simp_all add: fresh_call_def allowed_guard\<close>)
  qed
qed

lemma event_allowed:
  assumes "host_tables A t" "parsed t" "embedded_spec t c c'" "fresh_call c" "gc_desc c = Some row"
    "gc_nr c = NV_ESC_RM_GET_EVENT_DATA" "\<not> is_uvm d" "gc_size c = 16"
    "io_emb_ptr_off row = 0" "io_emb_len_kind row = EMB_LEN_FIXED" "io_emb_len_off row = 16" "io_cmd_off row = NONE_U32"
  shows "allowed (validate_back A d (call_req seq c') (gc_inl c) (gc_aux c'))"
proof -
  have row: "cmd_row t c row = None" using assms(12) by (simp add: cmd_row_def)
  have e: "emb_length t c row = Some (16, None)" using assms(10,11) by (simp add: emb_length_def)
  have emb: "embedded_ptr A d NV_ESC_RM_GET_EVENT_DATA (gc_inl c) 16 = (if rd64 (gc_inl c) 0 = 0 then Inr None
      else Inr (Some \<lparr> emb_ptr_off = 0, emb_len = 16 \<rparr>))" using assms(7) by (simp add: embedded_ptr_def Let_def esc_defs)
  have k: "gc_nr c' = NV_ESC_RM_GET_EVENT_DATA" "gc_size c' = 16" using embedded_spec_keeps [OF assms(3)] assms(6,8) by simp_all
  have ne: "io_emb_ptr_off row \<noteq> NONE_U32" using assms(9) by (simp add: NONE_U32_def)
  from assms(3,5) ne show ?thesis
  proof (cases rule: embedded_cases)
    case null
    then show ?thesis by (intro bare_allowed) (use fresh_bare assms(4,9) emb k in simp_all)
  next
    case (empty p cls)
    then show ?thesis using e by simp
  next
    case (params plen cls params bs ds gvas off tok proc orig)
    have p: "plen = 16" "cls = None" using params(2) e by simp_all
    have le: "length params \<le> unat (th_max_aux (gt_hdr t))" using params(4,5) by (simp add: word_le_nat_alt)
    have ne: "params \<noteq> []" using params(3,5) by (auto simp: unat_eq_0)
    have l: "length (gc_aux c') < 2 ^ 32" using nested_inside(1) [OF params(6) le assms(2)] params(8) by simp
    have fd: "aux_fd d NV_ESC_RM_GET_EVENT_DATA (gc_inl c) params = Inr None"
      "nested_specs d NV_ESC_RM_GET_EVENT_DATA (gc_inl c) params = Inr []"
      by (simp_all add: aux_fd_def nested_specs_def is_alloc_def is_control_def esc_defs)
    show ?thesis
    proof (rule params_allowed [where e = "\<lparr> emb_ptr_off = 0, emb_len = 16 \<rparr>" and params = params and bs = bs and orig = orig])
      show "aux_fd_spec afd params (gc_aux_fd_off c') (gc_aux_fd_token c') (gc_aux_fd_proc c') orig"
        if "aux_fd d (gc_nr c') (gc_inl c) params = Inr afd" for afd
        using that [unfolded k fd] params(7) unfolding row p params(8) by (simp add: row_fd_def class_fd_def)
      show "\<exists>plan. plan_ok params (map nested_row specs) plan \<and> gc_nested c' = descs plan (length params) \<and> length bs = plan_len plan \<and>
          length plan \<le> MAX_NESTED" if "nested_specs d (gc_nr c') (gc_inl c) params = Inr specs" for specs
        using nested_spec_plan [OF params(6) le] that [unfolded k fd] unfolding row params(8) by simp
    qed (use k emb params p ne l fd assms(4,9) in \<open>simp_all add: fresh_call_def allowed_guard\<close>)
  qed
qed

lemma memory_allowed:
  assumes "host_tables A t" "osdesc_spec t c c'" "fresh_call c" "gc_desc c = Some row" "length (gc_inl c) = unat (gc_size c)"
    "gc_nr c = NV_ESC_RM_ALLOC_MEMORY" "\<not> is_uvm d" "gc_size c = 56" "io_emb_len_off row = 12" "io_flags row = F_OSDESC"
  shows "allowed (validate_back A d (call_req seq c') (gc_inl c) (gc_aux c'))"
proof -
  have emb: "embedded_ptr A d NV_ESC_RM_ALLOC_MEMORY (gc_inl c) sz = Inr None" for sz by (simp add: embedded_ptr_def esc_defs)
  show ?thesis
  proof (cases "c' = c")
    case True
    then show ?thesis by (intro bare_allowed) (use fresh_bare assms(3,6) emb in simp_all)
  next
    case False
    then obtain rs pmem limit where rs: "rs \<noteq> []" "16 * length rs \<le> unat (th_max_aux (gt_hdr t))" "rd32 (gc_inl c) 12 = 0x71"
      "c' = c\<lparr> gc_pmem_orig := pmem, gc_limit_orig := limit, gc_aux := runs_bytes rs, gc_params_len := 0,
         gc_run_count := word_of_nat (length rs) \<rparr>"
      using assms(1,2,4,9,10) by (auto simp: osdesc_spec_def host_tables_def split: if_splits)
    have n: "unat (word_of_nat (length rs) :: u32) = length rs" by (rule unat_len) (use rs(2) assms(1) in \<open>simp add: host_tables_def\<close>)
    then have nz: "(word_of_nat (length rs) :: u32) \<noteq> 0" using rs(1) by (metis length_0_conv unat_eq_0)
    show ?thesis
      using n nz rs(1,3) emb assms(3,5-8)
      by (simp add: validate_back_def rs(4) call_req_fields zero_inline_def is_control_def is_alloc_def validate_params_def validate_runs_def is_osdesc_def
          u32_at_def length_runs_bytes aux_fd_def fd_field_def nested_specs_def fresh_call_def esc_defs guard_def allowed_def)
  qed
qed

lemma inline_fd_allowed:
  assumes "fd_spec c c'" "gc_desc c = Some row" "io_fd_off row = or_none (fd_field_offset d nr sz)" "length (gc_inl c) = unat (gc_size c)"
    "gc_fd_off c = NONE_U32" "gc_fd_token c = NONE_U64" "gc_fd_proc c = NONE_U32"
  shows "allowed (fd_field (gc_inl c) (map_option (\<lambda>off. (off, 4)) (fd_field_offset d nr sz)) (gc_fd_off c') (gc_fd_token c') (gc_fd_proc c'))"
proof (rule fd_field_allowed)
  have ne: "fd_field_offset d nr sz \<noteq> Some NONE_U32"
    unfolding fd_field_offset_def by (intro if_ne) (simp_all add: NONE_U32_def)
  show "aux_fd_spec (map_option (\<lambda>off. (off, 4)) (fd_field_offset d nr sz)) (gc_inl c) (gc_fd_off c') (gc_fd_token c') (gc_fd_proc c') (replicate 4 0)"
  proof (cases "fd_field_offset d nr sz")
    case None
    then have "io_fd_off row = NONE_U32" using assms(3) by simp
    then have "c' = c" using assms(1,2) by (simp add: fd_spec_def)
    then show ?thesis using assms(5-7) None by (simp add: aux_fd_spec_def)
  next
    case (Some off)
    then have off: "off \<noteq> NONE_U32" "io_fd_off row = off" using ne assms(3) by auto
    then obtain tok pr where "unat off + 4 \<le> unat (gc_size c)" "sint (rd32 (gc_inl c) (unat off)) < 0 \<longrightarrow> tok = NONE_U64 \<and> pr = gc_fd_proc c"
        "c' = c\<lparr> gc_fd_off := off, gc_fd_orig := rd32 (gc_inl c) (unat off), gc_fd_token := tok, gc_fd_proc := pr \<rparr>"
      using assms(1,2) by (simp add: fd_spec_def) blast
    then show ?thesis using assms(4,7) Some by (simp add: aux_fd_spec_def)
  qed
qed auto

lemma envelope_row:
  assumes "host_tables A t" "dev_of (dev_tag_to_u32 tag) = Some d" "validate_envelope A d rq inl aux = Inr u"
  obtains (uvm) sz where "d = Uvm" "find_ioctl t (dev_tag_to_u32 tag) (rq_ioctl_nr rq) = uvm_row A tag d (rq_ioctl_nr rq)"
      "uvm_param_size_for A (rq_ioctl_nr rq) = Some sz" "rq_inline_len rq = sz"
    | (frontend) row rule where "\<not> is_uvm d" "find_ioctl t (dev_tag_to_u32 tag) (rq_ioctl_nr rq) = Some row"
      "frontend_row tag d (rq_ioctl_nr rq) = Some row" "frontend_size (rq_ioctl_nr rq) = Some rule" "accepts rule (rq_inline_len rq)"
proof -
  have f: "find_ioctl t (dev_tag_to_u32 tag) nr = ioctl_rule A tag nr" for nr using assms(1) by (simp add: host_tables_def del: find_ioctl.simps)
  have d: "d \<noteq> UvmTools" using assms(3) by (auto simp: validate_envelope_def rbind_Inr)
  have tag: "(tag = TagCtl \<and> d = Ctl) \<or> (tag = TagGpu \<and> d = Gpu) \<or> (tag = TagUvm \<and> d = Uvm)"
    using assms(2) d by (cases tag) (auto simp: dev_of_def dev_tag_from_u32_def)
  show ?thesis
  proof (cases "d = Uvm")
    case True
    then show ?thesis using assms(3) tag f
      by (intro uvm [of "rq_inline_len rq"]) (auto simp: validate_envelope_def rbind_Inr ioctl_rule_def split: option.splits simp del: find_ioctl.simps)
  next
    case False
    then obtain rule where r: "frontend_size (rq_ioctl_nr rq) = Some rule" "accepts rule (rq_inline_len rq)"
      using assms(3) by (auto simp: validate_envelope_def rbind_Inr split: option.splits)
    then obtain row where "frontend_row tag d (rq_ioctl_nr rq) = Some row" by (auto simp: frontend_row_def Let_def)
    then show ?thesis using r False tag f by (intro frontend [of row rule]) (auto simp: ioctl_rule_def simp del: find_ioctl.simps)
  qed
qed

lemma envelope_allowed:
  assumes "host_tables A t" "dev_of (dev_tag_to_u32 tag) = Some d" "decode_spec t (dev_tag_to_u32 tag) token proc c"
    "length inl = unat (gc_size c)" "length aux < 2 ^ 32" "rq_inline_len rq = gc_size c" "rq_aux_len rq = word_of_nat (length aux)"
    "rq_ioctl_nr rq = gc_nr c"
  shows "allowed (validate_envelope A d rq inl aux)"
proof -
  have "uvm_param_size_for A (gc_nr c) = Some (gc_size c)" if "d = Uvm"
  proof -
    have tag: "tag = TagUvm" using assms(2) that by (cases tag) (auto simp: dev_of_def dev_tag_from_u32_def)
    have "\<forall>tag nr. find_ioctl t (dev_tag_to_u32 tag) nr = ioctl_rule A tag nr" using assms(1) unfolding host_tables_def by blast
    from this [rule_format, of TagUvm "gc_nr c"]
    have "find_ioctl t (dev_tag_to_u32 TagUvm) (gc_nr c) = uvm_row A TagUvm Uvm (gc_nr c)" by (simp only: ioctl_rule_def dev_tag.case)
    moreover obtain r where "gc_desc c = Some r" "gc_size c = io_size r" "gc_desc c = find_ioctl t (dev_tag_to_u32 TagUvm) (gc_nr c)"
      using assms(3) unfolding decode_spec_def tag by blast
    ultimately show ?thesis by (auto simp: uvm_row_def split: option.splits simp del: find_ioctl.simps)
  qed
  then show ?thesis using assms(4-8)
    by (auto simp: validate_envelope_def guard_def allowed_def policy_refusals_def unat_len split: option.split)
qed

lemma gathered_allowed:
  assumes "host_tables A t" "parsed t" "A \<in> set supported_abis" "dev_of (dev_tag_to_u32 tag) = Some d"
    "decode_spec t (dev_tag_to_u32 tag) token proc c" "gather_spec t c c'" "call_ok t c'"
  shows "allowed (validate A d (call_req seq c') (gc_inl c') (gc_aux c'))"
proof -
  let ?rq = "call_req seq c'"
  obtain inl c1 c2 where i: "length inl = unat (gc_size c)" and s1: "fd_spec (c\<lparr> gc_inl := inl \<rparr>) c1"
    and s2: "embedded_spec t c1 c2" and s3: "osdesc_spec t c2 c'" using assms(6) by (auto simp: gather_spec_def)
  have dec: "fresh_call (c\<lparr> gc_inl := inl \<rparr>)" "gc_desc c = find_ioctl t (dev_tag_to_u32 tag) (gc_nr c)"
    "gc_fd_off c = NONE_U32" "gc_fd_token c = NONE_U64" "gc_fd_proc c = NONE_U32"
    using assms(5) by (auto simp: decode_spec_def fresh_call_def)
  have k1: "gc_inl c1 = inl" "gc_size c1 = gc_size c" "gc_desc c1 = gc_desc c" "gc_nr c1 = gc_nr c" "fresh_call c1"
    using fd_spec_keeps [OF s1] dec(1) by auto
  note k2 = embedded_spec_keeps [OF s2]
  have k3: "gc_inl c' = gc_inl c2" "gc_size c' = gc_size c2" "gc_nr c' = gc_nr c2" "gc_fd_off c' = gc_fd_off c2"
    "gc_fd_token c' = gc_fd_token c2" "gc_fd_proc c' = gc_fd_proc c2"
    using s3 by (auto simp: osdesc_spec_def split: option.splits if_splits)
  have k: "gc_inl c' = inl" "gc_size c' = gc_size c" "gc_nr c' = gc_nr c" "gc_fd_off c' = gc_fd_off c1"
    "gc_fd_token c' = gc_fd_token c1" "gc_fd_proc c' = gc_fd_proc c1" using k1 k2 k3 by auto
  have env: "allowed (validate_envelope A d ?rq inl (gc_aux c'))"
    by (rule envelope_allowed [OF assms(1,4,5) i]) (use call_ok_aux [OF assms(7)] k in \<open>simp_all add: call_req_fields\<close>)
  show ?thesis
    unfolding validate_split k(1)
  proof (rule allowed_step [OF env])
    fix u
    assume "validate_envelope A d ?rq inl (gc_aux c') = Inr u"
    from assms(1,4) this
    show "allowed (rbind (fd_field inl (map_option (\<lambda>off. (off, 4)) (fd_field_offset d (rq_ioctl_nr ?rq) (rq_inline_len ?rq)))
       (rq_fd_field_off ?rq) (rq_fd_field_token ?rq) (rq_fd_field_proc ?rq)) (\<lambda>_.
       rbind (validate_blocked d (rq_ioctl_nr ?rq) inl) (\<lambda>_. validate_back A d ?rq inl (gc_aux c'))))"
    proof (cases rule: envelope_row)
      case (uvm sz)
      then obtain row where row: "gc_desc c = Some row" "io_emb_ptr_off row = NONE_U32" "io_flags row = 0"
          "io_fd_off row = or_none (fd_field_offset d (gc_nr c) (gc_size c))"
        using dec(2) k by (auto simp: uvm_row_def desc_def call_req_fields simp del: find_ioctl.simps)
      have "c2 = c1" using s2 row k1 by (simp add: embedded_spec_def)
      then have "c' = c1" using s3 row k1 by (simp add: osdesc_spec_def)
      have "allowed (fd_field inl (map_option (\<lambda>off. (off, 4)) (fd_field_offset d (gc_nr c) (gc_size c))) (gc_fd_off c1) (gc_fd_token c1) (gc_fd_proc c1))"
        using inline_fd_allowed [OF s1, of row d] row i dec by simp
      moreover have "allowed (validate_blocked d (gc_nr c) inl)"
        by (rule validate_blocked_allowed) (use uvm in \<open>simp add: is_control_def\<close>)
      moreover have "allowed (validate_back A d ?rq inl (gc_aux c'))"
        by (rule bare_allowed) (use uvm fresh_bare k1 \<open>c' = c1\<close> in \<open>simp_all add: embedded_ptr_def\<close>)
      ultimately show ?thesis unfolding call_req_fields k by (intro allowed_step)
    next
      case (frontend row rule)
      have row: "gc_desc c = Some row" "gc_desc c1 = Some row" using dec(2) frontend k k1 by (simp_all add: call_req_fields del: find_ioctl.simps)
      have fd: "allowed (fd_field inl (map_option (\<lambda>off. (off, 4)) (fd_field_offset d (gc_nr c) (gc_size c))) (gc_fd_off c1) (gc_fd_token c1) (gc_fd_proc c1))"
        using inline_fd_allowed [OF s1, of row d] row i dec frontend_fd [OF frontend(3,1)] by (simp add: call_req_fields k)
      have "(is_control d (gc_nr c) \<longrightarrow> \<not> ctrl_blocked (rd32 inl 8)) \<and> allowed (validate_back A d ?rq inl (gc_aux c'))"
        using frontend(3,4,5) unfolding call_req_fields k
      proof (cases rule: frontend_cases)
        case control
        then have "c' = c2" using s3 k2 row by (simp add: osdesc_spec_def)
        then show ?thesis using control_allowed [OF assms(1,2) s2 k1(5) row(2), of d] frontend(1) control i k1 by simp
      next
        case alloc
        then have "c' = c2" using s3 k2 row by (simp add: osdesc_spec_def)
        then show ?thesis using alloc_allowed [OF assms(1-3) s2 k1(5) row(2), of d] frontend(1) alloc i k1
          by (simp add: is_control_def esc_defs)
      next
        case event
        then have "c' = c2" using s3 k2 row by (simp add: osdesc_spec_def)
        then show ?thesis using event_allowed [OF assms(1,2) s2 k1(5) row(2), of d] frontend(1) event i k1
          by (simp add: is_control_def esc_defs)
      next
        case memory
        then have "c2 = c1" using s2 row by (simp add: embedded_spec_def)
        then show ?thesis using memory_allowed [OF assms(1) _ k1(5) row(2), of c' d] s3 frontend(1) memory i k1
          by (simp add: is_control_def esc_defs)
      next
        case other
        then have "c2 = c1" using s2 row by (simp add: embedded_spec_def)
        moreover have "c' = c2" using s3 k2 row other by (simp add: osdesc_spec_def)
        ultimately show ?thesis using other k k1
          by (auto simp: is_control_def embedded_ptr_def intro!: bare_allowed fresh_bare)
      qed
      then have "allowed (validate_blocked d (gc_nr c) inl)" "allowed (validate_back A d ?rq inl (gc_aux c'))"
        by (auto intro: validate_blocked_allowed)
      then show ?thesis using fd unfolding call_req_fields k by (intro allowed_step)
    qed
  qed
qed

lemma nested_few:
  assumes "gather_spec t c c'" "fresh_call c"
  shows "length (gc_nested c') \<le> MAX_NESTED"
proof -
  obtain inl c1 c2 where s1: "fd_spec (c\<lparr> gc_inl := inl \<rparr>) c1" and s2: "embedded_spec t c1 c2" and s3: "osdesc_spec t c2 c'"
    using assms(1) by (auto simp: gather_spec_def)
  have len: "length (descs plan n) = length plan" for plan n by (induction plan arbitrary: n) auto
  have f: "gc_nested c1 = []" using fd_spec_keeps [OF s1] assms(2) by (simp add: fresh_call_def)
  have "length (gc_nested c2) \<le> MAX_NESTED"
  proof (cases "\<exists>row. gc_desc c1 = Some row \<and> io_emb_ptr_off row \<noteq> NONE_U32")
    case True
    then obtain row where row: "gc_desc c1 = Some row" "io_emb_ptr_off row \<noteq> NONE_U32" by blast
    from s2 row show ?thesis
    proof (cases rule: embedded_cases)
      case (params plen cls params bs ds gvas off tok proc orig)
      have le: "length params \<le> unat (th_max_aux (gt_hdr t))" using params(4,5) by (simp add: word_le_nat_alt)
      show ?thesis using nested_spec_plan [OF params(6) le] params(8) len by auto
    qed (use f in simp_all)
  next
    case False
    then have "c2 = c1" using s2 by (auto simp: embedded_spec_def split: option.splits)
    then show ?thesis using f by simp
  qed
  moreover have "gc_nested c' = gc_nested c2" using s3 by (auto simp: osdesc_spec_def split: option.splits if_splits)
  ultimately show ?thesis by simp
qed

text \<open>The host's admission of a message, short of the check for private clients: \<^verbatim>\<open>None\<close> when the lengths it states are refused.\<close>

definition host_verdict :: "rm_abi \<Rightarrow> bytes \<Rightarrow> (shape_error + shape) option" where
  "host_verdict A msg =
    (case req_from_bytes msg of
       None \<Rightarrow> None
     | Some rq \<Rightarrow>
         let payload = drop REQ_LEN msg; il = unat (rq_inline_len rq); al = unat (rq_aux_len rq) in
         if length payload < il + al \<or> MAX_PAYLOAD < il \<or> MAX_AUX < al then None
         else map_option (\<lambda>d. validate A d rq (take il payload) (subslice il al payload)) (dev_of (rq_dev_tag rq)))"

lemma prepare_admit_verdict:
  assumes "req_from_bytes msg = Some rq" "host_verdict (sv_abi env) msg = Some v" "prepare_admit env rq (drop REQ_LEN msg) st = Some (x, st')"
  shows "st' = st \<and> (x = Inl EPERM \<or> (case v of Inl e \<Rightarrow> x = Inl (shape_errno e) | Inr sh \<Rightarrow> \<exists>d. x = Inr (d, sh)))"
  using assms
  by (auto simp: host_verdict_def prepare_admit_def Let_def bindm_def seqm_def refuse_def getm_def ret_def fail_def rd32m_def panic_def
      split: if_splits option.splits sum.splits)

lemma call_msg_verdict:
  assumes "call_ok t c" "length (gc_nested c) \<le> MAX_NESTED" "parsed t" "gc_size c \<le> th_max_inline (gt_hdr t)" "dev_of (gc_tag c) = Some d"
  shows "host_verdict A (call_msg seq c) = Some (validate A d (call_req seq c) (gc_inl c) (gc_aux c))"
proof -
  have ok: "req_ok (call_req seq c)" using assms(2) by (simp add: req_ok_def call_req_fields)
  have l: "unat (word_of_nat (length (gc_aux c)) :: u32) = length (gc_aux c)" using call_ok_aux [OF assms(1)] by (simp add: unat_len)
  have i: "length (gc_inl c) = unat (gc_size c)" "length (gc_aux c) \<le> MAX_AUX" "unat (gc_size c) \<le> MAX_PAYLOAD"
    using assms(1,3,4) by (auto simp: call_ok_def parsed_def word_le_nat_alt)
  have "rq_dev_tag (call_req seq c) = gc_tag c" by (simp add: call_req_def)
  then show ?thesis
    using req_codec.dec_enc [OF ok] req_codec.enc_length [OF ok] l i assms(5)
    by (simp add: host_verdict_def call_msg_def call_req_fields subslice_def i(1) [symmetric])
qed

lemma sent_message_allowed:
  assumes "A \<in> set supported_abis" "build A = Some tb" "nvrm_tables_parse (tb_bytes tb) = Inr t"
    "sends_one t (dev_tag_to_u32 tag) token proc s s'"
  shows "sends s' = sends s \<or> (\<exists>msg cap v. sends s' = GSend msg cap # sends s \<and> host_verdict A msg = Some v \<and> allowed v)"
proof (cases "sends s' = sends s")
  case False
  note t = built_tables [OF assms(2,3)]
  obtain c c' cap where c: "decode_spec t (dev_tag_to_u32 tag) token proc c" "gather_spec t c c'" "gc_size c \<le> th_max_inline (gt_hdr t)"
      "sends s' = GSend (call_msg (gs_seq s + 1) c') cap # sends s"
    using assms(4) False by (auto simp: sends_one_def)
  have f: "fresh_call c" "gc_desc c = find_ioctl t (dev_tag_to_u32 tag) (gc_nr c)" "gc_tag c = dev_tag_to_u32 tag"
    using c(1) by (simp_all add: decode_spec_def)
  obtain d where d: "dev_of (dev_tag_to_u32 tag) = Some d" by (cases tag) (auto simp: dev_of_def dev_tag_from_u32_def)
  have ok: "call_ok t c'" by (rule gather_call_ok [OF c(2) t(3,2) f(1,2)])
  obtain inl c1 c2 where g: "fd_spec (c\<lparr> gc_inl := inl \<rparr>) c1" "embedded_spec t c1 c2" "osdesc_spec t c2 c'"
    using c(2) by (auto simp: gather_spec_def)
  have "gc_size c' = gc_size c2" "gc_tag c' = gc_tag c2" using g(3) by (auto simp: osdesc_spec_def split: option.splits if_splits)
  then have k: "gc_size c' = gc_size c" "gc_tag c' = dev_tag_to_u32 tag"
    using fd_spec_keeps [OF g(1)] embedded_spec_keeps [OF g(2)] f(3) by simp_all
  have "host_verdict A (call_msg (gs_seq s + 1) c') = Some (validate A d (call_req (gs_seq s + 1) c') (gc_inl c') (gc_aux c'))"
    by (rule call_msg_verdict [OF ok nested_few [OF c(2) f(1)] t(3)]) (use k c(3) d in simp_all)
  moreover have "allowed (validate A d (call_req (gs_seq s + 1) c') (gc_inl c') (gc_aux c'))"
    by (rule gathered_allowed [OF t(1,3) assms(1) d c(1,2) ok])
  ultimately show ?thesis using c(4) by blast
qed simp

section \<open>Claims\<close>


definition still_env :: genv where
  "still_env = \<lparr> ge_user = \<lambda>_ _ _. Some (\<lambda>_. 0), ge_kernel = \<lambda>_ _ _ _. 0, ge_user_out = \<lambda>_ _ _. True, ge_alloc = \<lambda>_ _. True,
     ge_token = \<lambda>_ _. None, ge_kthread = False, ge_pin = \<lambda>_ _ _. Inl ENOMEM, ge_dmabuf = \<lambda>_ _. Inl ENOMEM, ge_dma_device = False,
     ge_stopping = False, ge_killed = \<lambda>_. False, ge_run = \<lambda>_ _ _. (True, Inl EIO) \<rparr>"

definition idle :: gstate where
  "idle = \<lparr> gs_hist = [], gs_seq = 0, gs_pin = None, gs_submitted = False, gs_pins = [], gs_quarantined = [], gs_uncertain = False,
     gs_events_pending = False \<rparr>"


text \<open>C5: The guest packs what the host checks.  With the tables the host builds for a supported driver ABI, an
  ioctl on any of the four kinds of device, whatever the process passes and however its surroundings answer, sends at
  most one message, and the host's validation of that message ends in a shape or in a refusal by policy
  (an unknown or oversized escape, a blocked class, serialized parameters, requested rights, a callback
  allocation, an OS descriptor without pages, an unresolved descriptor, parameters that end before a pointer).
  It never ends in one of the eighteen refusals of a message that is packed differently from the host's rules: lengths,
  descriptor fields and their owners, blocked controls, embedded pointers, runs and nested buffers.\<close>

theorem guest_requests_match_host:
  assumes "A \<in> set supported_abis" "build A = Some tb" "nvrm_tables_parse (tb_bytes tb) = Inr t"
  shows "\<exists>r s'. nvrm_node_ioctl ge t (dev_tag_to_u32 tag) token proc cmd arg s = Some (r, s') \<and>
    (sends s' = sends s \<or>
     (\<exists>msg cap v. sends s' = GSend msg cap # sends s \<and> host_verdict A msg = Some v \<and>
        (case v of Inl e \<Rightarrow> e \<in> set policy_refusals | Inr _ \<Rightarrow> True)))"
proof -
  note t = built_tables [OF assms(2,3)]
  have "wp (nvrm_node_ioctl ge t (dev_tag_to_u32 tag) token proc cmd arg) (\<lambda>r s'. sends_one t (dev_tag_to_u32 tag) token proc s s') s"
    by (rule node_ioctl_wp [OF t(3,2)])
  then obtain r s' where r: "nvrm_node_ioctl ge t (dev_tag_to_u32 tag) token proc cmd arg s = Some (r, s')"
      "sends_one t (dev_tag_to_u32 tag) token proc s s'"
    by (auto simp: wp_def split: option.splits)
  show ?thesis using r(1) sent_message_allowed [OF assms r(2)] unfolding allowed_def by blast
qed

text \<open>A query of the system parameters, eight bytes without pointers.\<close>

lemma sys_params_sent:
  assumes "host_tables A t" "th_max_inline (gt_hdr t) = 16384"
  shows "\<exists>r s'. nvrm_node_ioctl still_env t (dev_tag_to_u32 TagCtl) 7 5 0x800d6 4096 idle = Some (r, s') \<and> sends s' \<noteq> []"
proof -
  have "\<forall>tag nr. find_ioctl t (dev_tag_to_u32 tag) nr = ioctl_rule A tag nr" using assms(1) unfolding host_tables_def by blast
  from this [rule_format, of TagCtl 214] have "find_ioctl t 0 214 = frontend_row TagCtl Ctl 214" by (simp add: ioctl_rule_def del: find_ioctl.simps)
  also have "\<dots> = Some (desc TagCtl 214)"
    by (simp add: frontend_row_def frontend_special_def frontend_size_def fd_field_offset_def desc_def esc_defs Let_def)
  finally have row: "find_ioctl t 0 214 = Some (desc TagCtl 214)" .
  have cmd: "ioc_nr 0x800d6 = 214" "ioc_size 0x800d6 = 8" by code_simp+
  show ?thesis
    using assms(2)
    by (simp add: nvrm_node_ioctl_def decode_ioctl_def call_new_def cmd row desc_def nvrm_call_run_def call_body_def gather_def gather_fd_def
        gather_embedded_def gather_osdesc_def transact_def balloon_gated_def call_in_def kvzalloc_def ask_def still_env_def idle_def
        seqm_def bindm_def ret_def fail_def refuse_def stepm_def modm_def Let_def sends_def out_pin_def esc_defs
        MAX_MSG_def REQ_LEN_def RSP_LEN_def del: find_ioctl.simps)
qed

theorem guest_requests_match_host_witness:
  "\<exists>tb t r s' msg cap v. build abi_v615 = Some tb \<and> nvrm_tables_parse (tb_bytes tb) = Inr t \<and>
    nvrm_node_ioctl still_env t (dev_tag_to_u32 TagCtl) 7 5 0x800d6 4096 idle = Some (r, s') \<and>
    sends s' = [GSend msg cap] \<and> host_verdict abi_v615 msg = Some v \<and> (case v of Inl e \<Rightarrow> e \<in> set policy_refusals | Inr _ \<Rightarrow> True)"
proof -
  obtain p tb t where t: "build abi_v615 = Some tb" "nvrm_tables_parse (tb_bytes tb) = Inr t"
      "gt_hdr t = host_hdr p (word_of_nat (length (tb_bytes tb))) (tb_checksum tb)" by (rule build_parsed [of abi_v615])
  have "th_max_inline (gt_hdr t) = 16384" unfolding t(3) by (simp add: host_hdr_def)
  from sys_params_sent [OF built_tables(1) [OF t(1,2)] this]
  obtain r s' where r: "nvrm_node_ioctl still_env t (dev_tag_to_u32 TagCtl) 7 5 0x800d6 4096 idle = Some (r, s')" "sends s' \<noteq> []" by blast
  have "abi_v615 \<in> set supported_abis" by (simp add: supported_abis_def)
  from guest_requests_match_host [OF this t(1,2), where ge = still_env and tag = TagCtl and token = 7 and proc = 5 and cmd = "0x800d6"
      and arg = 4096 and s = idle] r
  obtain msg cap v where "sends s' = GSend msg cap # sends idle" "host_verdict abi_v615 msg = Some v" "case v of Inl e \<Rightarrow> e \<in> set policy_refusals | Inr _ \<Rightarrow> True"
    by (auto simp: sends_def idle_def)
  moreover have "sends idle = []" by (simp add: sends_def idle_def)
  ultimately show ?thesis using t(1,2) r(1) by (intro exI) auto
qed

end
