(* ===== verification/Spec2Isabelle.thy ===== *)
theory Spec2Isabelle
  imports Wire Xlate Mirror Vgpu Policy Quota Vram Answers HostArena HostPool RequestShape Waiters
    Naming Identity Session Prepare Execute Replies Refines Device Served Answered Sampled Accounted
    Window PollSet Gone Bounded Tables TableStream GuestTables Gather GuestCalls GuestHost
begin

text \<open>
  A verification library for Leandro.  A guest VM runs the NVIDIA user-space driver on a kernel
  module that owns no GPU; the module gathers each ioctl into a message and sends it over a
  virtqueue to one backend process per VM, \<^verbatim>\<open>vhost-user-nvrm\<close>, which validates the message,
  translates descriptors and pointers, calls the host driver and sends a reply.  The models follow
  the Rust sources under \<^verbatim>\<open>src/crates\<close> and, for the guest's side of a message, the C sources under
  \<^verbatim>\<open>src/guest-module/virtio_nvrm\<close>.

  \<^bold>\<open>Parts and theories.\<close>
  \<^item> Vocabulary: \<^verbatim>\<open>Nvrm_Prelude\<close> (integers at their width, slices with little-endian accessors,
    association lists for the standard maps) and \<^verbatim>\<open>Effects\<close> (computations that return, return early
    with an error, or panic, with the predicate \<^verbatim>\<open>wp\<close>).
  \<^item> Messages: \<^verbatim>\<open>Wire\<close> is \<^verbatim>\<open>nvrm-wire/src/lib.rs\<close>.  The locale \<^verbatim>\<open>wire_codec\<close> is the contract of a
    fixed-length record; requests, replies and process records interpret it.
  \<^item> Translation rules: \<^verbatim>\<open>Xlate\<close> is \<^verbatim>\<open>nvrm-abi/src/xlate.rs\<close>; the trait \<^verbatim>\<open>RmAbi\<close> is the record
    \<^verbatim>\<open>rm_abi\<close> with one constant per driver release.  \<^verbatim>\<open>RequestShape\<close> is \<^verbatim>\<open>request_shape.rs\<close> and
    \<^verbatim>\<open>client_policy.rs\<close>, the checks a request passes before anything is acquired.
  \<^item> Command tables: \<^verbatim>\<open>Tables\<close> is \<^verbatim>\<open>nvrm-wire/src/tables.rs\<close> and \<^verbatim>\<open>nvrm-abi/src/table.rs\<close>, the rows by
    which the guest gathers requests.  \<^verbatim>\<open>TableStream\<close> shows that they state the rules of \<^verbatim>\<open>Xlate\<close>.
  \<^item> Guest module: \<^verbatim>\<open>GuestTables\<close> is \<^verbatim>\<open>nvrm_tables.c\<close> with the fetch of \<^verbatim>\<open>virtio_nvrm.c\<close>: the tables
    come page by page and are checked before use (\<^verbatim>\<open>nvrm_fetch_tables\<close>, \<^verbatim>\<open>nvrm_tables_parse\<close>).
    \<^verbatim>\<open>Gather\<close> is the ioctl interpreter of \<^verbatim>\<open>virtio_nvrm.c\<close> with \<^verbatim>\<open>nvrm_identity.h\<close>, from
    \<^verbatim>\<open>nvrm_node_ioctl\<close> through \<^verbatim>\<open>gather_embedded\<close> and \<^verbatim>\<open>gather_osdesc\<close> to the request, and back through
    \<^verbatim>\<open>write_back\<close>.  \<^verbatim>\<open>GuestCalls\<close> describes what it gathers and shows that it stays inside its buffers;
    \<^verbatim>\<open>GuestHost\<close> puts it beside the host's validation.
  \<^item> Memory accounting: \<^verbatim>\<open>Policy\<close> and \<^verbatim>\<open>Vram\<close> are \<^verbatim>\<open>vram.rs\<close> (the profile decided at start-up; the
    ledger of one VM and the books of its sessions), \<^verbatim>\<open>Vgpu\<close> is \<^verbatim>\<open>nvrm-abi/src/vgpu.rs\<close> (the
    catalogue of profiles).  \<^verbatim>\<open>Quota\<close> is the contract of a bounded counter, interpreted by the ledger
    and by the pin budget.
  \<^item> Guest pages on the host: \<^verbatim>\<open>HostArena\<close> and \<^verbatim>\<open>HostPool\<close> are \<^verbatim>\<open>host_pool.rs\<close>.  Arenas alias guest
    pages; pools register arenas with the driver and are cleaned up, retried or quarantined.
  \<^item> Answers: \<^verbatim>\<open>Answers\<close> (\<^verbatim>\<open>vram.rs\<close>, \<^verbatim>\<open>grid.rs\<close>, offsets of \<^verbatim>\<open>nvrm-abi/src/mediate.rs\<close>), \<^verbatim>\<open>Identity\<close>
    (\<^verbatim>\<open>grid.rs\<close>, \<^verbatim>\<open>share.rs\<close>, \<^verbatim>\<open>xfer.rs\<close>) and \<^verbatim>\<open>Naming\<close> (\<^verbatim>\<open>nvrm-abi/src/naming.rs\<close>) are what the guest is
    told about the card and its own use of it.
  \<^item> Sessions: \<^verbatim>\<open>Mirror\<close> (\<^verbatim>\<open>mirror.rs\<close>, \<^verbatim>\<open>guest_words.rs\<close>) is the table of descriptors behind
    guest-visible tokens, with its contract \<^verbatim>\<open>token_store\<close>.  \<^verbatim>\<open>Session\<close>, \<^verbatim>\<open>Prepare\<close> and \<^verbatim>\<open>Execute\<close> are
    \<^verbatim>\<open>session.rs\<close>: the state of one guest process (record \<^verbatim>\<open>session\<close>), validation and translation of
    an ioctl (\<^verbatim>\<open>prepare\<close>), the call, its books and its reply (\<^verbatim>\<open>execute\<close>), and the dispatch of one
    message (\<^verbatim>\<open>handle_msg_with\<close>).  \<^verbatim>\<open>Waiters\<close> is \<^verbatim>\<open>waiters.rs\<close>, the thread that reports semaphore
    waiters.
  \<^item> Device: \<^verbatim>\<open>Device\<close> is \<^verbatim>\<open>nvrm.rs\<close> (record \<^verbatim>\<open>device\<close>): sessions by guest process, the window of VMM
    mappings, the poll set, the event queue, and the entry points of the vhost-user backend.
    \<^verbatim>\<open>dev_run\<close> is a whole run, a sequence of queue kicks, host events, backend channels and memory
    tables.

  \<^bold>\<open>State and surroundings.\<close>  A \<^verbatim>\<open>struct\<close> is a record with the fields of the source, an enum
  a datatype, a method a function that takes the state and returns it updated.  State behind an
  \<^verbatim>\<open>Arc\<close> or a lock is passed explicitly: the ledger and the pin budget are shared by all sessions.
  The driver, the kernel, the VMM, epoll, the virtqueues and the schedule of the waiter thread are
  parameters (\<^verbatim>\<open>henv\<close>, \<^verbatim>\<open>senv\<close>, \<^verbatim>\<open>denv\<close>; \<^verbatim>\<open>genv\<close> on the guest's side) that may answer anything from the whole history of calls.  The
  history is part of the state, so safety properties are statements about the calls made.  An
  index, slice or \<^verbatim>\<open>unwrap\<close> that would panic, and an access of the C code outside its buffer, is the
  value \<^verbatim>\<open>None\<close>.  Arithmetic wraps as in a release
  build; a \<^verbatim>\<open>usize\<close> is a natural number.

  \<^bold>\<open>What is shown.\<close>
  \<^item> Accounting (\<^verbatim>\<open>Vram\<close>, \<^verbatim>\<open>HostPool\<close>): the relations \<^verbatim>\<open>vram_step\<close> and \<^verbatim>\<open>pool_step\<close> describe every
    interleaving of the sessions of one VM.  Rule induction shows the counters exact, within their
    limits and returned at the end, that ranges are owned once, and that no page is unmapped while
    the driver may reach it.  The compare-exchange loops commit one atomic step.
  \<^item> Refinement (\<^verbatim>\<open>Refines\<close>, \<^verbatim>\<open>Accounted\<close>): one message is a sequence of those steps, and a run of the
    device is a run of the relations; what is shown of their reachable states holds of the device.
  \<^item> No panic (\<^verbatim>\<open>Replies\<close>, \<^verbatim>\<open>Answered\<close>): every message has a reply with its own sequence number.
    \<^verbatim>\<open>Replies\<close> shows it for a session, \<^verbatim>\<open>Answered\<close> for the device.
  \<^item> Validation (\<^verbatim>\<open>RequestShape\<close>): an accepted request carries no raw pointer the tables know of,
    no unresolved descriptor, no overlapping nested buffer and no handle of a backend client.
  \<^item> Invariants of the device: the locale \<^verbatim>\<open>dev_inv\<close> of \<^verbatim>\<open>Served\<close> lists what an invariant must
    survive and shows that every run keeps it.  \<^verbatim>\<open>Accounted\<close> and \<^verbatim>\<open>PollSet\<close> interpret it;
    \<^verbatim>\<open>Window\<close> (the requests to the VMM), \<^verbatim>\<open>Gone\<close> (the end of a guest process) and \<^verbatim>\<open>Bounded\<close> (the work
    of one host event) follow the device by similar rules.  \<^verbatim>\<open>Sampled\<close> is one evaluated run, at which
    the properties of runs are instantiated.
  \<^item> Guest and host (\<^verbatim>\<open>GuestCalls\<close>, \<^verbatim>\<open>GuestHost\<close>, this theory): the tables a device serves arrive whole and
    pass the guest's checks; with them, no ioctl makes the interpreter leave a buffer, and every message it
    sends is packed as the host's validation expects, so that only refusals by policy remain.
  \<^item> Answers, names, tables and messages: the exact content of rewritten answers, round trips of
    names, headers and the table stream, and one case in which reading a name panics.

  \<^bold>\<open>Bounds.\<close>  All functions are total; the loops of the source that could run on are bounded
  there, and the models use the same bounds.  One drain of a control descriptor reads at most 256
  records; one poll event makes at most 8 waits of at most 64 events; a device holds at most 1024
  sessions.  The compare-exchange loop recurses over the list of values that failed exchanges
  observe.  The guest's fetch of the tables ends because each page it accepts shortens what is left of the announced
  length.  Two statements
  bound a counter of the source that would otherwise wrap: fewer than 2^64 - 1 messages of a
  session (tokens), and a table stream shorter than 2^63 bytes.

  \<^bold>\<open>Not modelled.\<close>
  \<^item> Log lines, the counters only they read, \<^verbatim>\<open>LEA_CTRL_DUMP\<close>, message capture, the descriptor
    census and \<^verbatim>\<open>expect_dump\<close>: they print.
  \<^item> The content of a memory table that replaces an earlier one: the device records that a table
    has arrived, and the regions are those of the surroundings for a whole run.
  \<^item> \<^verbatim>\<open>syscalls.rs\<close>, \<^verbatim>\<open>main.rs\<close> and the start and join of the waiter thread: calls of the operating
    system.  The parse of the pacing rate is floating-point; the period is an argument.
  \<^item> The driver behind \<^verbatim>\<open>PoolDriver\<close> (the byte layouts of its ioctls in \<^verbatim>\<open>host_pool.rs\<close>): a parameter.
  \<^item> \<^verbatim>\<open>Profile::from_str\<close> and the \<^verbatim>\<open>Display\<close> implementations, which serve the command line and the log.
  \<^item> \<^verbatim>\<open>nvrm-sys\<close>: generated bindings.  The sizes and offsets that the rules use are in \<^verbatim>\<open>Xlate\<close>.
  \<^item> Of \<^verbatim>\<open>guest-module\<close>: the virtqueue transport, the \<^verbatim>\<open>mmap\<close> windows, the pinning of pages and the DRM,
    NVKMS and display parts are calls of kernel interfaces; in the interpreter, the mediation of PCI addresses
    (\<^verbatim>\<open>bdf_mediation\<close>) and the debug scans, which are off by default.  The balloon worker and the EDID of the
    virtual display are left out.
  \<^item> \<^verbatim>\<open>nvrm-trace\<close>, \<^verbatim>\<open>nvrm-client\<close>, \<^verbatim>\<open>xtask\<close> and \<^verbatim>\<open>nvrm-genhdr\<close>: a tracer, measurement tools and
    generators that are no part of the running backend.
\<close>

text \<open>C37: A byte string decodes to a request exactly when it has at least 160
  bytes, and then the request's own encoding is its first 160 bytes: decoding
  and encoding are inverse, for every payload that follows the header.\<close>

theorem req_decode_encode:
  "req_from_bytes b = Some r \<longleftrightarrow> REQ_LEN \<le> length b \<and> req_ok r \<and> req_as_bytes r = take REQ_LEN b"
  by (rule req_codec.dec_iff)


definition sample_tables :: tables where
  "sample_tables = the (build abi_v615)"


end
